(* ===== verification/Prelude.thy ===== *)
theory Prelude
  imports
    Main
    "HOL-Library.Word"
    "HOL-Library.Char_ord"
    "HOL-Library.List_Lexorder"
begin

text \<open>
  What every component of the development shares: the names of the machine types, the way
  the C++ validators report their first failing check, decimal printing of counters, and a few
  list facts that several components need. Nothing in this theory models a file of the
  repository by itself.
\<close>

unbundle bit_operations_syntax

subsection \<open>Machine types\<close>

type_synonym byte = "8 word"
type_synonym u32 = "32 word"
type_synonym u64 = "64 word"

lemma byte_unat_less [simp]: "unat (b :: byte) < 256"
proof -
  have "unat b < 2 ^ LENGTH(8)" by (rule unsigned_less)
  then show ?thesis by simp
qed

lemma u64_unat_less: "unat (w :: u64) < 2 ^ 64"
proof -
  have "unat w < 2 ^ LENGTH(64)" by (rule unsigned_less)
  then show ?thesis by simp
qed

lemma unat_of_nat_u64: "n < 2 ^ 64 \<Longrightarrow> unat (of_nat n :: u64) = n"
  by (simp add: unat_of_nat)

text \<open>The bytes a \<open>std::string\<close> or \<open>std::string_view\<close> holds.\<close>

definition string_bytes :: "string \<Rightarrow> byte list" where
  "string_bytes s = map of_char s"

definition bytes_string :: "byte list \<Rightarrow> string" where
  "bytes_string bs = map (\<lambda>b. char_of (unat b)) bs"

lemma length_string_bytes [simp]: "length (string_bytes s) = length s"
  by (simp add: string_bytes_def)

lemma length_bytes_string [simp]: "length (bytes_string bs) = length bs"
  by (simp add: bytes_string_def)

lemma string_bytes_append [simp]: "string_bytes (s @ t) = string_bytes s @ string_bytes t"
  by (simp add: string_bytes_def)

lemma unat_of_char [simp]: "unat (of_char c :: byte) = of_char c"
proof -
  have "(of_char c :: nat) < 256" by simp
  moreover have "(of_char c :: byte) = of_nat (of_char c)"
    by (simp add: of_nat_of_char)
  ultimately show ?thesis by (simp add: unat_of_nat)
qed

lemma bytes_string_string_bytes [simp]: "bytes_string (string_bytes s) = s"
  by (induction s) (simp_all add: string_bytes_def bytes_string_def)

lemma string_bytes_bytes_string [simp]: "string_bytes (bytes_string bs) = bs"
proof (induction bs)
  case Nil
  then show ?case by (simp add: string_bytes_def bytes_string_def)
next
  case (Cons b bs)
  have "(of_char (char_of (unat b) :: char) :: byte) = of_nat (unat b mod 256)"
    by (metis of_char_of of_nat_of_char)
  then have "(of_char (char_of (unat b) :: char) :: byte) = b" by simp
  with Cons show ?case by (simp add: string_bytes_def bytes_string_def)
qed

lemma string_bytes_inject [simp]: "string_bytes s = string_bytes t \<longleftrightarrow> s = t"
  by (metis bytes_string_string_bytes)

subsection \<open>Validators: the first failing check\<close>

text \<open>
  A C++ validator is a sequence of guards, each of which throws. It is modelled as the list of
  its guards in source order; the result is the error of the first guard that fires, or
  \<open>None\<close> when the validator returns.
\<close>

fun first_error :: "'e option list \<Rightarrow> 'e option" where
  "first_error [] = None"
| "first_error (Some e # _) = Some e"
| "first_error (None # checks) = first_error checks"

definition guard_error :: "bool \<Rightarrow> 'e \<Rightarrow> 'e option" where
  "guard_error bad e = (if bad then Some e else None)"

lemma first_error_None_iff [simp]: "first_error xs = None \<longleftrightarrow> (\<forall>x \<in> set xs. x = None)"
  by (induction xs rule: first_error.induct) auto

lemma first_error_append:
  "first_error (xs @ ys) = (case first_error xs of None \<Rightarrow> first_error ys | Some e \<Rightarrow> Some e)"
  by (induction xs rule: first_error.induct) auto

lemma first_error_Some_mem: "first_error xs = Some e \<Longrightarrow> Some e \<in> set xs"
  by (induction xs rule: first_error.induct) auto

lemma guard_error_None_iff [simp]: "guard_error bad e = None \<longleftrightarrow> \<not> bad"
  by (simp add: guard_error_def)

lemma guard_error_Some_iff [simp]: "guard_error bad e = Some e' \<longleftrightarrow> bad \<and> e' = e"
  by (auto simp: guard_error_def)

subsection \<open>Fallible computations\<close>

text \<open>
  A function that may throw returns its error on the left. \<open>and_then\<close> runs the next step only
  when the first returned, \<open>checked\<close> guards a value by a validator, and \<open>each_or_error\<close> is a
  loop that fills a vector and stops at the first throw.
\<close>

definition and_then :: "'e + 'a \<Rightarrow> ('a \<Rightarrow> 'e + 'b) \<Rightarrow> 'e + 'b" where
  "and_then r f = (case r of Inl e \<Rightarrow> Inl e | Inr x \<Rightarrow> f x)"

definition checked :: "'e option \<Rightarrow> 'a \<Rightarrow> 'e + 'a" where
  "checked check x = (case check of None \<Rightarrow> Inr x | Some e \<Rightarrow> Inl e)"

fun each_or_error :: "('a \<Rightarrow> 'e + 'b) \<Rightarrow> 'a list \<Rightarrow> 'e + 'b list" where
  "each_or_error f [] = Inr []"
| "each_or_error f (x # xs) = and_then (f x) (\<lambda>y. and_then (each_or_error f xs) (\<lambda>ys. Inr (y # ys)))"

lemma and_then_simps [simp]: "and_then (Inl e) f = Inl e" "and_then (Inr x) f = f x"
  by (simp_all add: and_then_def)

lemma and_then_Inr_iff: "and_then r f = Inr y \<longleftrightarrow> (\<exists>x. r = Inr x \<and> f x = Inr y)"
  by (cases r) simp_all

lemma and_then_Inl_iff: "and_then r f = Inl e \<longleftrightarrow> r = Inl e \<or> (\<exists>x. r = Inr x \<and> f x = Inl e)"
  by (cases r) auto

lemma and_then_cong [fundef_cong]:
  "r = r' \<Longrightarrow> (\<And>x. r' = Inr x \<Longrightarrow> f x = f' x) \<Longrightarrow> and_then r f = and_then r' f'"
  by (cases r') auto

lemma checked_simps [simp]: "checked None x = Inr x" "checked (Some e) x = Inl e"
  by (simp_all add: checked_def)

lemma checked_Inr_iff [simp]: "checked check x = Inr y \<longleftrightarrow> check = None \<and> y = x"
  by (cases check) auto

lemma checked_guard [simp]: "checked (guard_error bad e) x = (if bad then Inl e else Inr x)"
  by (simp add: guard_error_def)

lemma each_or_error_Inr_iff:
  "each_or_error f xs = Inr ys \<longleftrightarrow> list_all2 (\<lambda>x y. f x = Inr y) xs ys"
  by (induction xs arbitrary: ys) (auto simp: and_then_Inr_iff list_all2_Cons1)

lemma each_or_error_mem: "each_or_error f xs = Inr ys \<Longrightarrow> y \<in> set ys \<Longrightarrow> \<exists>x \<in> set xs. f x = Inr y"
  by (induction xs arbitrary: ys) (auto simp: and_then_Inr_iff)

lemma each_or_error_inverse:
  "(\<And>x. x \<in> set xs \<Longrightarrow> f (g x) = Inr x) \<Longrightarrow> each_or_error f (List.map g xs) = Inr xs"
  by (induction xs) simp_all

subsection \<open>Decimal printing (std::to_string of an unsigned value)\<close>

definition digit_char :: "nat \<Rightarrow> char" where
  "digit_char d = char_of (48 + d)"

fun to_string :: "nat \<Rightarrow> string" where
  "to_string n = (if n < 10 then [digit_char n] else to_string (n div 10) @ [digit_char (n mod 10)])"

declare to_string.simps [simp del]

fun decimal_value :: "string \<Rightarrow> nat" where
  "decimal_value s = foldl (\<lambda>v c. 10 * v + (of_char c - 48)) 0 s"

lemma of_char_digit_char: "d < 10 \<Longrightarrow> of_char (digit_char d) = 48 + d"
  by (simp add: digit_char_def)

lemma decimal_value_to_string [simp]: "decimal_value (to_string n) = n"
proof (induction n rule: to_string.induct)
  case (1 n)
  show ?case
  proof (cases "n < 10")
    case True
    then show ?thesis by (simp add: to_string.simps [of n] of_char_digit_char)
  next
    case False
    with 1 have "decimal_value (to_string (n div 10)) = n div 10" by simp
    with False show ?thesis
      by (simp add: to_string.simps [of n] of_char_digit_char del: of_char_of)
  qed
qed

lemma to_string_inject [simp]: "to_string m = to_string n \<longleftrightarrow> m = n"
  by (metis decimal_value_to_string)

subsection \<open>Searching strings (std::string_view find and rfind)\<close>

definition find_char :: "char \<Rightarrow> string \<Rightarrow> nat option" where
  "find_char c s = (if c \<in> set s then Some (length (takeWhile (\<lambda>x. x \<noteq> c) s)) else None)"

definition rfind_string :: "string \<Rightarrow> string \<Rightarrow> nat option" where
  "rfind_string m s =
     find (\<lambda>i. take (length m) (drop i s) = m) (rev [0..<Suc (length s - length m)])"

lemma find_char_Some_iff:
  "find_char c s = Some i \<longleftrightarrow> i < length s \<and> s ! i = c \<and> c \<notin> set (take i s)"
proof
  assume "find_char c s = Some i"
  then have c: "c \<in> set s" and i: "i = length (takeWhile (\<lambda>x. x \<noteq> c) s)"
    by (auto simp: find_char_def split: if_splits)
  have lt: "i < length s" using c unfolding i
    by (metis (mono_tags, lifting) le_neq_implies_less length_takeWhile_le set_takeWhileD
        takeWhile_eq_all_conv takeWhile_eq_take take_all_iff order_refl)
  moreover have "s ! i = c" using nth_length_takeWhile [of "\<lambda>x. x \<noteq> c" s] lt i by simp
  moreover have "c \<notin> set (take i s)"
    unfolding i by (metis (mono_tags) set_takeWhileD takeWhile_eq_take)
  ultimately show "i < length s \<and> s ! i = c \<and> c \<notin> set (take i s)" by blast
next
  assume a: "i < length s \<and> s ! i = c \<and> c \<notin> set (take i s)"
  then have s: "s = take i s @ c # drop (Suc i) s" using id_take_nth_drop by blast
  have "takeWhile (\<lambda>x. x \<noteq> c) s = take i s"
    using a by (subst s) (auto simp: takeWhile_append)
  moreover have "c \<in> set s" using a by auto
  ultimately show "find_char c s = Some i" using a by (simp add: find_char_def)
qed

subsection \<open>Lists\<close>

lemma nth_upd_same_length: "length (xs[i := v]) = length xs"
  by simp

lemma sorted_wrt_less_distinct: "sorted_wrt (<) (xs :: 'a::order list) \<Longrightarrow> distinct xs"
  by (induction xs) auto

lemma distinct_set_upt_length:
  assumes "distinct xs" and "set xs \<subseteq> {..<n}" and "length xs = n"
  shows "set xs = {..<n}"
  using assms by (metis card_lessThan card_subset_eq distinct_card finite_lessThan)

end
