(* ===== verification/Digests.thy ===== *)
theory Digests
  imports Prelude
begin

text \<open>
  BLAKE3 digests as svp-exec stores them (packages/svp-exec/src/blake3_digest.cpp) and the
  lowercase-hex test of svp-core (packages/svp-core/src/hash_string.cpp). The hash function
  itself is a linked library and a parameter of the definitions that call it; here are the
  textual forms: 64 lowercase hex characters, and the same with the prefix \<open>b3:\<close>.
\<close>

type_synonym digest = "byte list"

definition kBlake3DigestBytes :: nat where
  "kBlake3DigestBytes = 32"

definition kBlake3HexChars :: nat where
  "kBlake3HexChars = kBlake3DigestBytes * 2"

definition kB3DigestPrefix :: string where
  "kB3DigestPrefix = ''b3:''"

text \<open>\<open>std::array<std::uint8_t, 32>\<close>: a digest always has its 32 bytes.\<close>

definition is_digest :: "digest \<Rightarrow> bool" where
  "is_digest d \<longleftrightarrow> length d = kBlake3DigestBytes"

definition is_lower_hex :: "string \<Rightarrow> bool" where
  "is_lower_hex s \<longleftrightarrow>
     list_all (\<lambda>c. (CHR ''0'' \<le> c \<and> c \<le> CHR ''9'') \<or> (CHR ''a'' \<le> c \<and> c \<le> CHR ''f'')) s"

definition kHexDigits :: string where
  "kHexDigits = ''0123456789abcdef''"

definition hex_value :: "char \<Rightarrow> int" where
  "hex_value c =
     (if CHR ''0'' \<le> c \<and> c \<le> CHR ''9'' then of_char c - of_char CHR ''0''
      else of_char c - of_char CHR ''a'' + 10)"

fun blake3_hex :: "digest \<Rightarrow> string" where
  "blake3_hex [] = []"
| "blake3_hex (b # d) =
     kHexDigits ! unat (drop_bit 4 b) # kHexDigits ! unat (b AND 0x0F) # blake3_hex d"

fun hex_pairs :: "string \<Rightarrow> digest" where
  "hex_pairs (h # l # rest) =
     (word_of_int (push_bit 4 (hex_value h) OR hex_value l) :: byte) # hex_pairs rest"
| "hex_pairs _ = []"

definition parse_blake3_hex :: "string \<Rightarrow> digest option" where
  "parse_blake3_hex hex =
     (if length hex \<noteq> kBlake3HexChars \<or> \<not> is_lower_hex hex then None else Some (hex_pairs hex))"

definition blake3_prefixed :: "digest \<Rightarrow> string" where
  "blake3_prefixed d = kB3DigestPrefix @ blake3_hex d"

definition parse_blake3_prefixed :: "string \<Rightarrow> digest option" where
  "parse_blake3_prefixed v =
     (if take (length kB3DigestPrefix) v \<noteq> kB3DigestPrefix then None
      else parse_blake3_hex (drop (length kB3DigestPrefix) v))"

subsection \<open>Nibbles\<close>

lemma kHexDigits_cases:
  assumes "n < 16"
  shows "hex_value (kHexDigits ! n) = int n" and "is_lower_hex [kHexDigits ! n]"
proof -
  have "n \<in> set [0..<16]" using assms by simp
  then have "hex_value (kHexDigits ! n) = int n \<and> is_lower_hex [kHexDigits ! n]"
    by (simp add: upt_rec kHexDigits_def hex_value_def is_lower_hex_def less_eq_char_def)
      (elim disjE; simp)
  then show "hex_value (kHexDigits ! n) = int n" and "is_lower_hex [kHexDigits ! n]" by auto
qed

lemma hex_char_cases:
  assumes "is_lower_hex [c]"
  shows "\<exists>n < 16. c = kHexDigits ! n"
proof -
  define k where "k = (of_char c :: nat)"
  have c: "c = char_of k" by (simp add: k_def)
  from assms have "(48 \<le> k \<and> k \<le> 57) \<or> (97 \<le> k \<and> k \<le> 102)"
    by (simp add: is_lower_hex_def less_eq_char_def k_def)
  then show ?thesis
  proof
    assume k: "48 \<le> k \<and> k \<le> 57"
    then have "k = 48 \<or> k = 49 \<or> k = 50 \<or> k = 51 \<or> k = 52 \<or> k = 53 \<or> k = 54 \<or> k = 55 \<or>
      k = 56 \<or> k = 57" by arith
    then have "c = kHexDigits ! (k - 48)"
      by (elim disjE) (simp_all add: c kHexDigits_def char_of_def bit_Suc_0_iff)
    moreover have "k - 48 < 16" using k by arith
    ultimately show ?thesis by blast
  next
    assume k: "97 \<le> k \<and> k \<le> 102"
    then have "k = 97 \<or> k = 98 \<or> k = 99 \<or> k = 100 \<or> k = 101 \<or> k = 102" by arith
    then have "c = kHexDigits ! (k - 87)"
      by (elim disjE) (simp_all add: c kHexDigits_def char_of_def bit_Suc_0_iff)
    moreover have "k - 87 < 16" using k by arith
    ultimately show ?thesis by blast
  qed
qed

lemma nibbles_byte:
  "(word_of_int (push_bit 4 (uint (drop_bit 4 b)) OR uint (b AND 15)) :: byte) = b"
proof -
  have 15: "(15 :: byte) = mask 4" by (simp add: mask_eq_exp_minus_1)
  show ?thesis
    by (rule bit_word_eqI) (auto simp: 15 bit_word_of_int_iff bit_simps)
qed

lemma unat_high_nibble: "unat (drop_bit 4 (b :: byte)) = unat b div 16"
  by (simp add: drop_bit_eq_div unat_div_distrib)

lemma unat_low_nibble: "unat ((b :: byte) AND 15) = unat b mod 16"
proof -
  have "b AND 15 = take_bit 4 b" by (simp add: take_bit_eq_mask mask_eq_exp_minus_1)
  then show ?thesis by (simp add: take_bit_eq_mod unat_mod_distrib)
qed

lemma byte_nibble_bounds: "unat (drop_bit 4 (b :: byte)) < 16" "unat (b AND 15) < 16"
  using byte_unat_less [of b] by (simp_all add: unat_high_nibble unat_low_nibble del: byte_unat_less)

lemma nibble_or: "n < 16 \<Longrightarrow> push_bit 4 (int m) OR int n = int (16 * m + n)"
proof -
  assume n: "n < 16"
  have "push_bit 4 (int m) AND int n = 0"
  proof (rule bit_eqI)
    fix k
    have "take_bit 4 (int n) = int n" using n by (simp add: take_bit_int_eq_self)
    then have "bit (int n) k \<Longrightarrow> k < 4" by (metis bit_take_bit_iff)
    then show "bit (push_bit 4 (int m) AND int n) k = bit 0 k"
      by (auto simp: bit_and_iff bit_push_bit_iff)
  qed
  then have "push_bit 4 (int m) OR int n = push_bit 4 (int m) + int n"
    by (simp add: disjunctive_add_eq_or)
  then show ?thesis by (simp add: push_bit_eq_mult)
qed

subsection \<open>Printing and parsing digests\<close>

lemma length_blake3_hex [simp]: "length (blake3_hex d) = 2 * length d"
  by (induction d) auto

lemma is_lower_hex_Cons: "is_lower_hex (c # s) \<longleftrightarrow> is_lower_hex [c] \<and> is_lower_hex s"
  by (simp add: is_lower_hex_def)

lemma is_lower_hex_blake3_hex [simp]: "is_lower_hex (blake3_hex d)"
proof (induction d)
  case Nil
  then show ?case by (simp add: is_lower_hex_def)
next
  case (Cons b d)
  then show ?case
    by (simp add: is_lower_hex_Cons [of _ "_ # _"] is_lower_hex_Cons [of _ "blake3_hex d"]
        kHexDigits_cases byte_nibble_bounds)
qed

lemma hex_pairs_blake3_hex [simp]: "hex_pairs (blake3_hex d) = d"
  by (induction d) (simp_all add: kHexDigits_cases byte_nibble_bounds nibbles_byte)

lemma blake3_hex_hex_pairs:
  "is_lower_hex s \<Longrightarrow> even (length s) \<Longrightarrow> blake3_hex (hex_pairs s) = s"
proof (induction s rule: hex_pairs.induct)
  case (1 h l rest)
  from "1.prems" have hl: "is_lower_hex [h]" "is_lower_hex [l]" and rest: "is_lower_hex rest"
    by (simp_all add: is_lower_hex_def)
  obtain m n where m: "m < 16" "h = kHexDigits ! m" and n: "n < 16" "l = kHexDigits ! n"
    using hl by (auto dest!: hex_char_cases)
  let ?b = "word_of_int (push_bit 4 (int m) OR int n) :: byte"
  have "unat ?b = 16 * m + n"
    using m(1) n(1) by (simp add: nibble_or unat_of_nat flip: of_nat_Suc of_nat_mult of_nat_add)
  then have "unat (drop_bit 4 ?b) = m" "unat (?b AND 15) = n"
    using m(1) n(1) unfolding unat_high_nibble unat_low_nibble by simp_all
  moreover have "blake3_hex (hex_pairs rest) = rest"
    using "1.IH" rest "1.prems"(2) by simp
  ultimately show ?case
    using m n by (simp add: kHexDigits_cases)
qed simp_all

lemma length_hex_pairs: "length (hex_pairs s) = length s div 2"
  by (induction s rule: hex_pairs.induct) auto

lemma parse_blake3_hex_hex [simp]:
  "is_digest d \<Longrightarrow> parse_blake3_hex (blake3_hex d) = Some d"
  by (simp add: parse_blake3_hex_def is_digest_def kBlake3HexChars_def)

lemma parse_blake3_hex_Some:
  assumes "parse_blake3_hex s = Some d"
  shows "is_digest d" and "blake3_hex d = s"
  using assms by (auto simp: parse_blake3_hex_def is_digest_def kBlake3HexChars_def length_hex_pairs
      kBlake3DigestBytes_def blake3_hex_hex_pairs split: if_splits)

lemma parse_blake3_prefixed_prefixed [simp]:
  "is_digest d \<Longrightarrow> parse_blake3_prefixed (blake3_prefixed d) = Some d"
  by (simp add: parse_blake3_prefixed_def blake3_prefixed_def)

lemma parse_blake3_prefixed_Some:
  assumes "parse_blake3_prefixed s = Some d"
  shows "is_digest d" and "blake3_prefixed d = s"
  using assms parse_blake3_hex_Some [of "drop (length kB3DigestPrefix) s" d]
  by (auto simp: parse_blake3_prefixed_def blake3_prefixed_def split: if_splits)
    (metis append_take_drop_id)

lemma blake3_hex_eq_iff: "blake3_hex a = blake3_hex b \<longleftrightarrow> a = b"
  by (metis hex_pairs_blake3_hex)

lemma blake3_hex_inject:
  "is_digest d \<Longrightarrow> is_digest e \<Longrightarrow> blake3_hex d = blake3_hex e \<longleftrightarrow> d = e"
  by (metis hex_pairs_blake3_hex)

end
