(* ===== verification/Records.thy ===== *)
theory Records
  imports Digests
begin

text \<open>
  The records svp-exec exchanges and their validators: error codes (exec_error.hpp),
  identifier rules (record_identifiers.cpp), canonical model identities (svp-models
  model_id.cpp), artifact references (artifact_ref.cpp), task specifications (task_spec.cpp),
  task results (task_result.cpp, task_execution.cpp) and the digests that bind them
  (parameters_digest.cpp, output_digest.cpp).

  A thrown \<open>ExecError\<close> is its \<open>code()\<close>; message texts are not modelled. JSON values
  (nlohmann::json) and the BLAKE3 function come from linked libraries: the record
  \<open>exec_lib\<close> holds what the code uses of them and is an argument of every definition that
  needs one of them.
\<close>

subsection \<open>Errors\<close>

datatype exec_error_code =
    invalid_json | non_canonical_json | non_finite_number | missing_field | unknown_field
  | wrong_type | invalid_value | invalid_digest | digest_mismatch | unknown_message_type
  | frame_header_too_large | frame_payload_too_large | frame_truncated | frame_malformed
  | payload_hash_mismatch | unknown_task_type | duplicate_task_type | invalid_task_parameters
  | unresolved_input | exec_cancelled

record 'j exec_lib =
  js_object :: "(string \<times> 'j) list \<Rightarrow> 'j"
  js_array :: "'j list \<Rightarrow> 'j"
  js_string :: "string \<Rightarrow> 'j"
  js_unsigned :: "u64 \<Rightarrow> 'j"
  js_is_object :: "'j \<Rightarrow> bool"
  js_encode_canonical :: "'j \<Rightarrow> exec_error_code + string"
  blake3_digest :: "byte list \<Rightarrow> digest"

subsection \<open>Identifier rules (record_identifiers.cpp)\<close>

definition is_lower_alnum :: "char \<Rightarrow> bool" where
  "is_lower_alnum c \<longleftrightarrow> (CHR ''a'' \<le> c \<and> c \<le> CHR ''z'') \<or> (CHR ''0'' \<le> c \<and> c \<le> CHR ''9'')"

definition is_alnum :: "char \<Rightarrow> bool" where
  "is_alnum c \<longleftrightarrow> is_lower_alnum c \<or> (CHR ''A'' \<le> c \<and> c \<le> CHR ''Z'')"

definition kMaxMediaTypeNameChars :: nat where
  "kMaxMediaTypeNameChars = 127"

definition is_restricted_name :: "string \<Rightarrow> bool" where
  "is_restricted_name n \<longleftrightarrow>
     (case n of [] \<Rightarrow> False
      | c # _ \<Rightarrow> \<not> length n > kMaxMediaTypeNameChars \<and> is_lower_alnum c
          \<and> list_all (\<lambda>x. is_lower_alnum x \<or> x \<in> set ''!#$&-^_.+'') n)"

definition is_record_identifier :: "string \<Rightarrow> bool" where
  "is_record_identifier v \<longleftrightarrow>
     v \<noteq> [] \<and> list_all (\<lambda>c. is_alnum c \<or> c = CHR ''.'' \<or> c = CHR ''_'' \<or> c = CHR ''-'') v"

definition is_lower_identifier :: "string \<Rightarrow> bool" where
  "is_lower_identifier v \<longleftrightarrow>
     v \<noteq> [] \<and> list_all (\<lambda>c. is_lower_alnum c \<or> c = CHR ''.'' \<or> c = CHR ''_'') v"

definition is_media_type :: "string \<Rightarrow> bool" where
  "is_media_type v \<longleftrightarrow>
     (case find_char CHR ''/'' v of None \<Rightarrow> False
      | Some slash \<Rightarrow> is_restricted_name (take slash v) \<and> is_restricted_name (drop (slash + 1) v))"

subsection \<open>Model identities (svp-models model_id.cpp)\<close>

definition is_canonical_model_id :: "string \<Rightarrow> bool" where
  "is_canonical_model_id v \<longleftrightarrow>
     take 6 v = ''model_'' \<and> length v \<noteq> 6 \<and>
     list_all (\<lambda>c. (CHR ''0'' \<le> c \<and> c \<le> CHR ''9'') \<or> (CHR ''a'' \<le> c \<and> c \<le> CHR ''z'')
                   \<or> c = CHR ''_'') (drop 6 v)"

record model_bundle_id_parts =
  mb_model_id :: string
  mb_model_version :: string
  mb_hash_prefix :: string

definition is_lower_hex_12 :: "string \<Rightarrow> bool" where
  "is_lower_hex_12 v \<longleftrightarrow> length v = 12 \<and> is_lower_hex v"

definition parse_model_bundle_id :: "string \<Rightarrow> model_bundle_id_parts option" where
  "parse_model_bundle_id v =
     (case (find_char CHR ''@'' v, rfind_string ''+blake3_'' v) of
        (Some at, Some marker) \<Rightarrow>
          if marker \<le> at + 1 then None
          else let mid = take at v;
                   ver = take (marker - at - 1) (drop (at + 1) v);
                   hp = drop (marker + length ''+blake3_'') v
               in if \<not> is_canonical_model_id mid \<or> ver = [] \<or> CHR ''+'' \<in> set ver \<or> \<not> is_lower_hex_12 hp
                  then None
                  else Some \<lparr>mb_model_id = mid, mb_model_version = ver, mb_hash_prefix = hp\<rparr>
      | _ \<Rightarrow> None)"

text \<open>\<open>expected_model_bundle_id\<close>, with the digest already in hex form.\<close>

definition expected_model_bundle_id :: "string \<Rightarrow> string \<Rightarrow> string \<Rightarrow> string" where
  "expected_model_bundle_id mid ver hex = mid @ ''@'' @ ver @ ''+blake3_'' @ take 12 hex"

subsection \<open>Artifact references (artifact_ref.cpp)\<close>

record artifact_ref =
  ar_blake3 :: digest
  ar_bytes :: u64
  ar_media_type :: string
  ar_role :: string

definition validate_artifact_ref :: "artifact_ref \<Rightarrow> exec_error_code option" where
  "validate_artifact_ref r = first_error
     [guard_error (\<not> is_media_type (ar_media_type r)) invalid_value,
      guard_error (\<not> is_lower_identifier (ar_role r)) invalid_value]"

definition artifact_ref_to_json :: "'j exec_lib \<Rightarrow> artifact_ref \<Rightarrow> exec_error_code + 'j" where
  "artifact_ref_to_json lib r =
     (case validate_artifact_ref r of
        Some e \<Rightarrow> Inl e
      | None \<Rightarrow> Inr (js_object lib
          [(''blake3'', js_string lib (blake3_hex (ar_blake3 r))),
           (''bytes'', js_unsigned lib (ar_bytes r)),
           (''media_type'', js_string lib (ar_media_type r)),
           (''role'', js_string lib (ar_role r))]))"

definition make_artifact_ref ::
  "'j exec_lib \<Rightarrow> byte list \<Rightarrow> string \<Rightarrow> string \<Rightarrow> exec_error_code + artifact_ref" where
  "make_artifact_ref lib content media_type role =
     (let r = \<lparr>ar_blake3 = blake3_digest lib content, ar_bytes = of_nat (length content),
               ar_media_type = media_type, ar_role = role\<rparr>
      in case validate_artifact_ref r of Some e \<Rightarrow> Inl e | None \<Rightarrow> Inr r)"

subsection \<open>Task specifications (task_spec.hpp, task_spec.cpp)\<close>

record task_model_ref =
  mr_model_id :: string
  mr_model_bundle_id :: string
  mr_bundle_blake3 :: digest

record task_resources =
  est_peak_rss_mb :: u64
  est_cpu_threads :: u64
  est_seconds :: u64

text \<open>The inputs map is a \<open>std::map\<close>: its entries in ascending key order.\<close>

record 'j task_spec =
  ts_build_session_id :: string
  ts_task_id :: string
  ts_task_type :: string
  ts_task_type_version :: u64
  ts_depends_on :: "string list"
  ts_model_refs :: "task_model_ref list"
  ts_inputs :: "(string \<times> artifact_ref) list"
  ts_parameters :: 'j
  ts_parameters_blake3 :: digest
  ts_cache_key :: digest
  ts_resources :: task_resources

definition compute_parameters_blake3 :: "'j exec_lib \<Rightarrow> 'j \<Rightarrow> exec_error_code + digest" where
  "compute_parameters_blake3 lib parameters =
     (if \<not> js_is_object lib parameters then Inl wrong_type
      else case js_encode_canonical lib parameters of
             Inl e \<Rightarrow> Inl e
           | Inr text \<Rightarrow> Inr (blake3_digest lib (string_bytes text)))"

definition require_identifier :: "string \<Rightarrow> exec_error_code option" where
  "require_identifier v = guard_error (\<not> is_record_identifier v) invalid_value"

definition validate_model_ref :: "task_model_ref \<Rightarrow> exec_error_code option" where
  "validate_model_ref r = first_error
     [guard_error (\<not> is_canonical_model_id (mr_model_id r)) invalid_value,
      (case parse_model_bundle_id (mr_model_bundle_id r) of
         None \<Rightarrow> Some invalid_value
       | Some parts \<Rightarrow> guard_error
           (mb_model_id parts \<noteq> mr_model_id r \<or>
            take (length (mb_hash_prefix parts)) (blake3_hex (mr_bundle_blake3 r)) \<noteq> mb_hash_prefix parts)
           invalid_value)]"

definition validate_ordering :: "'j task_spec \<Rightarrow> exec_error_code option" where
  "validate_ordering spec = first_error
     [guard_error (\<not> successively (<) (ts_depends_on spec)) invalid_value,
      guard_error (\<not> successively (\<lambda>a b. mr_model_id a < mr_model_id b) (ts_model_refs spec))
        invalid_value]"

definition validate_input :: "string \<times> artifact_ref \<Rightarrow> exec_error_code option" where
  "validate_input entry = first_error
     [guard_error (\<not> is_lower_identifier (fst entry)) invalid_value,
      validate_artifact_ref (snd entry)]"

definition validate_task_spec :: "'j exec_lib \<Rightarrow> 'j task_spec \<Rightarrow> exec_error_code option" where
  "validate_task_spec lib spec = first_error
     ([require_identifier (ts_build_session_id spec),
       require_identifier (ts_task_id spec)]
      @ map require_identifier (ts_depends_on spec)
      @ [guard_error (\<not> is_lower_identifier (ts_task_type spec)) invalid_value,
         guard_error (ts_task_type_version spec = 0) invalid_value,
         guard_error (est_cpu_threads (ts_resources spec) = 0) invalid_value,
         validate_ordering spec]
      @ map validate_model_ref (ts_model_refs spec)
      @ map validate_input (ts_inputs spec)
      @ [case compute_parameters_blake3 lib (ts_parameters spec) of
           Inl e \<Rightarrow> Some e
         | Inr d \<Rightarrow> guard_error (d \<noteq> ts_parameters_blake3 spec) digest_mismatch])"

text \<open>What the task graph relies on: dependencies are listed without repetition.\<close>

lemma validate_task_spec_depends_on:
  assumes "validate_task_spec lib spec = None"
  shows "sorted_wrt (<) (ts_depends_on spec)" and "distinct (ts_depends_on spec)"
proof -
  have "validate_ordering spec = None"
    using assms by (simp add: validate_task_spec_def)
  then have "successively (<) (ts_depends_on spec)"
    by (simp add: validate_ordering_def)
  then show s: "sorted_wrt (<) (ts_depends_on spec)"
    by (simp add: successively_iff_sorted_wrt_strong transp_def)
  then show "distinct (ts_depends_on spec)" by (rule sorted_wrt_less_distinct)
qed

subsection \<open>Task results (task_result.hpp, task_execution.hpp, task_result.cpp)\<close>

datatype task_status = task_succeeded | task_failed

record task_error =
  te_code :: string
  te_message :: string
  te_retryable :: bool

record task_timing_ms =
  tm_queue :: u64
  tm_input_fetch :: u64
  tm_decode :: u64
  tm_compute :: u64
  tm_encode :: u64

record task_cpu_ms =
  tc_user :: u64
  tc_system :: u64

record task_execution =
  tx_worker_session_id :: string
  tx_runtime_id :: digest
  tx_timing_ms :: task_timing_ms
  tx_cpu_ms :: task_cpu_ms
  tx_peak_rss_bytes :: u64

record 'j task_result =
  tr_task_id :: string
  tr_attempt :: nat
  tr_status :: task_status
  tr_outputs :: "artifact_ref list"
  tr_output_digest :: digest
  tr_execution :: task_execution
  tr_diagnostics :: 'j
  tr_error :: "task_error option"

definition kOutputDigestDomain :: string where
  "kOutputDigestDomain = ''svp-task-output-digest-v1''"

fun artifact_refs_to_json :: "'j exec_lib \<Rightarrow> artifact_ref list \<Rightarrow> exec_error_code + 'j list" where
  "artifact_refs_to_json lib [] = Inr []"
| "artifact_refs_to_json lib (r # rs) =
     (case artifact_ref_to_json lib r of
        Inl e \<Rightarrow> Inl e
      | Inr j \<Rightarrow> (case artifact_refs_to_json lib rs of Inl e \<Rightarrow> Inl e | Inr js \<Rightarrow> Inr (j # js)))"

definition output_digest_material :: "'j exec_lib \<Rightarrow> artifact_ref list \<Rightarrow> exec_error_code + string" where
  "output_digest_material lib outputs =
     (case artifact_refs_to_json lib outputs of
        Inl e \<Rightarrow> Inl e
      | Inr refs \<Rightarrow> js_encode_canonical lib
          (js_array lib [js_string lib kOutputDigestDomain, js_array lib refs]))"

definition compute_output_digest :: "'j exec_lib \<Rightarrow> artifact_ref list \<Rightarrow> exec_error_code + digest" where
  "compute_output_digest lib outputs =
     (case output_digest_material lib outputs of
        Inl e \<Rightarrow> Inl e
      | Inr text \<Rightarrow> Inr (blake3_digest lib (string_bytes text)))"

definition validate_status_consistency :: "'j task_result \<Rightarrow> exec_error_code option" where
  "validate_status_consistency result =
     (if tr_status result = task_succeeded
      then (if tr_error result \<noteq> None then Some invalid_value else None)
      else case tr_error result of
             None \<Rightarrow> Some missing_field
           | Some error \<Rightarrow> first_error
               [guard_error (\<not> is_lower_identifier (te_code error)) invalid_value,
                guard_error (tr_outputs result \<noteq> []) invalid_value])"

definition validate_task_execution :: "task_execution \<Rightarrow> exec_error_code option" where
  "validate_task_execution execution =
     guard_error (\<not> is_record_identifier (tx_worker_session_id execution)) invalid_value"

definition validate_task_result :: "'j exec_lib \<Rightarrow> 'j task_result \<Rightarrow> exec_error_code option" where
  "validate_task_result lib result = first_error
     ([guard_error (\<not> is_record_identifier (tr_task_id result)) invalid_value,
       guard_error (tr_attempt result = 0) invalid_value,
       guard_error (\<not> js_is_object lib (tr_diagnostics result)) wrong_type,
       (case js_encode_canonical lib (tr_diagnostics result) of Inl e \<Rightarrow> Some e | Inr _ \<Rightarrow> None),
       validate_status_consistency result,
       validate_task_execution (tr_execution result)]
      @ map validate_artifact_ref (tr_outputs result)
      @ [case compute_output_digest lib (tr_outputs result) of
           Inl e \<Rightarrow> Some e
         | Inr d \<Rightarrow> guard_error (d \<noteq> tr_output_digest result) digest_mismatch])"

lemma validate_task_result_status:
  assumes "validate_task_result lib result = None"
  shows "tr_error result = None \<longleftrightarrow> tr_status result = task_succeeded"
proof -
  have "validate_status_consistency result = None"
    using assms by (simp add: validate_task_result_def)
  then show ?thesis
    by (cases "tr_status result")
      (auto simp: validate_status_consistency_def split: if_splits option.splits)
qed

lemma validate_task_result_digest:
  "validate_task_result lib result = None \<Longrightarrow>
     compute_output_digest lib (tr_outputs result) = Inr (tr_output_digest result)"
  by (auto simp: validate_task_result_def split: sum.splits)

end
