(* ===== verification/TaskGraph.thy ===== *)
theory TaskGraph
  imports Records
begin

text \<open>
  The immutable DAG of task specifications (task_graph.hpp, task_graph.cpp): canonical order
  keys, the constructor with its checks in source order, Kahn's algorithm over the growing
  \<open>order\<close> vector and the critical-path pass over its reverse. The lemmas show that the
  constructor accepts exactly the acyclic dependency graphs, that \<open>dependents_\<close> inverts
  \<open>dependencies_\<close>, and that the critical path is the saturating longest chain.
\<close>

subsection \<open>Canonical order keys\<close>

datatype task_order_key = TaskOrderKey (lane: string) (ordinals: "u64 list")

fun lexicographical_compare :: "'a::linorder list \<Rightarrow> 'a list \<Rightarrow> bool" where
  "lexicographical_compare _ [] = False"
| "lexicographical_compare [] (_ # _) = True"
| "lexicographical_compare (x # xs) (y # ys) =
     (if x < y then True else if y < x then False else lexicographical_compare xs ys)"

definition order_key_less :: "task_order_key \<Rightarrow> task_order_key \<Rightarrow> bool" where
  "order_key_less left right =
     (if lane left \<noteq> lane right then lane left < lane right
      else lexicographical_compare (ordinals left) (ordinals right))"

lemma lexicographical_compare_less: "lexicographical_compare xs ys \<longleftrightarrow> xs < ys"
  by (induction xs ys rule: lexicographical_compare.induct) auto

lemma order_key_less_iff:
  "order_key_less a b \<longleftrightarrow> lane a < lane b \<or> (lane a = lane b \<and> ordinals a < ordinals b)"
  by (auto simp: order_key_less_def lexicographical_compare_less)

text \<open>The comparison is a total order, so sorting by it is deterministic.\<close>

instantiation task_order_key :: linorder
begin

definition less_task_order_key :: "task_order_key \<Rightarrow> task_order_key \<Rightarrow> bool" where
  "less_task_order_key = order_key_less"

definition less_eq_task_order_key :: "task_order_key \<Rightarrow> task_order_key \<Rightarrow> bool" where
  "less_eq_task_order_key a b \<longleftrightarrow> a = b \<or> order_key_less a b"

instance
proof
  fix a b c :: task_order_key
  show "a < b \<longleftrightarrow> a \<le> b \<and> \<not> b \<le> a"
    by (auto simp: less_task_order_key_def less_eq_task_order_key_def order_key_less_iff)
  show "a \<le> a" by (simp add: less_eq_task_order_key_def)
  show "a \<le> b \<Longrightarrow> b \<le> c \<Longrightarrow> a \<le> c"
    by (auto simp: less_eq_task_order_key_def order_key_less_iff)
  show "a \<le> b \<Longrightarrow> b \<le> a \<Longrightarrow> a = b"
    by (auto simp: less_eq_task_order_key_def order_key_less_iff)
  show "a \<le> b \<or> b \<le> a"
    by (cases a; cases b) (auto simp: less_eq_task_order_key_def order_key_less_iff)
qed

end

subsection \<open>The graph and its construction\<close>

record 'j task_node =
  tn_spec :: "'j task_spec"
  tn_order_key :: task_order_key

datatype task_graph_issue =
    invalid_task_spec | duplicate_task_id | missing_dependency | dependency_cycle
  | duplicate_order_key | mixed_build_sessions

definition task_graph_issue_name :: "task_graph_issue \<Rightarrow> string" where
  "task_graph_issue_name issue =
     (case issue of
        invalid_task_spec \<Rightarrow> ''invalid_task_spec''
      | duplicate_task_id \<Rightarrow> ''duplicate_task_id''
      | missing_dependency \<Rightarrow> ''missing_dependency''
      | dependency_cycle \<Rightarrow> ''dependency_cycle''
      | duplicate_order_key \<Rightarrow> ''duplicate_order_key''
      | mixed_build_sessions \<Rightarrow> ''mixed_build_sessions'')"

text \<open>\<open>TaskGraphError\<close>: the issue and the task its message names.\<close>

datatype task_graph_error = TaskGraphError task_graph_issue string

record 'j task_graph =
  tg_nodes :: "'j task_node list"
  tg_index_by_id :: "string \<Rightarrow> nat option"
  tg_dependencies :: "nat list list"
  tg_dependents :: "nat list list"
  tg_critical_path_seconds :: "u64 list"

abbreviation node_id :: "'j task_node \<Rightarrow> string" where
  "node_id node \<equiv> ts_task_id (tn_spec node)"

definition saturating_add :: "u64 \<Rightarrow> u64 \<Rightarrow> u64" where
  "saturating_add left right = (if left > - 1 - right then - 1 else left + right)"

fun validate_nodes_from ::
  "'j exec_lib \<Rightarrow> string \<Rightarrow> task_order_key set \<Rightarrow> 'j task_node list \<Rightarrow> task_graph_error option" where
  "validate_nodes_from lib session order_keys [] = None"
| "validate_nodes_from lib session order_keys (node # nodes) =
     (if validate_task_spec lib (tn_spec node) \<noteq> None
      then Some (TaskGraphError invalid_task_spec (node_id node))
      else if ts_build_session_id (tn_spec node) \<noteq> session
      then Some (TaskGraphError mixed_build_sessions (node_id node))
      else if tn_order_key node \<in> order_keys
      then Some (TaskGraphError duplicate_order_key (node_id node))
      else validate_nodes_from lib session (insert (tn_order_key node) order_keys) nodes)"

definition validate_node_identities ::
  "'j exec_lib \<Rightarrow> 'j task_node list \<Rightarrow> task_graph_error option" where
  "validate_node_identities lib nodes =
     validate_nodes_from lib (ts_build_session_id (tn_spec (hd nodes))) {} nodes"

fun index_nodes_from ::
  "nat \<Rightarrow> (string \<Rightarrow> nat option) \<Rightarrow> 'j task_node list
     \<Rightarrow> task_graph_error + (string \<Rightarrow> nat option)" where
  "index_nodes_from i index_by_id [] = Inr index_by_id"
| "index_nodes_from i index_by_id (node # nodes) =
     (if index_by_id (node_id node) \<noteq> None
      then Inl (TaskGraphError duplicate_task_id (node_id node))
      else index_nodes_from (Suc i) (index_by_id(node_id node \<mapsto> i)) nodes)"

text \<open>One node's \<open>depends_on\<close>: each name is looked up and recorded in both directions.\<close>

fun link_node ::
  "(string \<Rightarrow> nat option) \<Rightarrow> nat \<Rightarrow> string list \<Rightarrow> nat list list \<times> nat list list
     \<Rightarrow> (nat list list \<times> nat list list) option" where
  "link_node index_by_id i [] links = Some links"
| "link_node index_by_id i (dependency # rest) (dependencies, dependents) =
     (case index_by_id dependency of
        None \<Rightarrow> None
      | Some found \<Rightarrow> link_node index_by_id i rest
          (dependencies[i := dependencies ! i @ [found]],
           dependents[found := dependents ! found @ [i]]))"

fun link_nodes_from ::
  "(string \<Rightarrow> nat option) \<Rightarrow> nat \<Rightarrow> 'j task_node list \<Rightarrow> nat list list \<times> nat list list
     \<Rightarrow> task_graph_error + (nat list list \<times> nat list list)" where
  "link_nodes_from index_by_id i [] links = Inr links"
| "link_nodes_from index_by_id i (node # nodes) links =
     (case link_node index_by_id i (ts_depends_on (tn_spec node)) links of
        None \<Rightarrow> Inl (TaskGraphError missing_dependency (node_id node))
      | Some links' \<Rightarrow> link_nodes_from index_by_id (Suc i) nodes links')"

text \<open>
  Kahn's algorithm. The vector \<open>order\<close> with its cursor is the pair of lists \<open>finished\<close>
  (before the cursor) and \<open>todo\<close> (from the cursor on).
\<close>

fun release_dependents :: "nat list \<Rightarrow> nat list \<Rightarrow> nat list \<Rightarrow> nat list \<times> nat list" where
  "release_dependents [] pending pushed = (pending, pushed)"
| "release_dependents (dependent # rest) pending pushed =
     release_dependents rest (pending[dependent := pending ! dependent - 1])
       (if dependent < length pending \<and> pending ! dependent = 1 then pushed @ [dependent] else pushed)"

lemma release_dependents_measure:
  "release_dependents ds pending pushed = (pending', pushed') \<Longrightarrow>
     sum_list pending' + length pushed' \<le> sum_list pending + length pushed"
proof (induction ds pending pushed rule: release_dependents.induct)
  case (1 pending pushed)
  then show ?case by simp
next
  case (2 d rest pending pushed)
  have dec: "sum_list (pending[d := pending ! d - 1])
      + (if d < length pending \<and> pending ! d = 1 then 1 else 0) \<le> sum_list pending"
  proof (cases "d < length pending")
    case True
    then have le: "pending ! d \<le> sum_list pending" by (simp add: elem_le_sum_list)
    have "sum_list (pending[d := pending ! d - 1]) + pending ! d = sum_list pending + (pending ! d - 1)"
      using True le by (simp add: sum_list_update)
    then show ?thesis using le by (cases "pending ! d = 1") auto
  next
    case False
    then show ?thesis by (simp add: list_update_beyond)
  qed
  from 2 have "sum_list pending' + length pushed' \<le> sum_list (pending[d := pending ! d - 1])
      + length (if d < length pending \<and> pending ! d = 1 then pushed @ [d] else pushed)"
    by simp
  then show ?case using dec by (auto split: if_splits)
qed

function kahn :: "nat list list \<Rightarrow> nat list \<Rightarrow> nat list \<Rightarrow> nat list \<Rightarrow> nat list \<times> nat list" where
  "kahn dependents pending finished [] = (pending, finished)"
| "kahn dependents pending finished (current # todo) =
     (let (pending', pushed) = release_dependents (dependents ! current) pending []
      in kahn dependents pending' (finished @ [current]) (todo @ pushed))"
  by pat_completeness auto
termination
proof (relation "measure (\<lambda>(dependents, pending, finished, todo). sum_list pending + length todo)")
  fix dependents pending finished current todo x pending' pushed
  assume "x = release_dependents (dependents ! current) pending []" "(pending', pushed) = x"
  then have "sum_list pending' + length pushed \<le> sum_list pending"
    using release_dependents_measure [of "dependents ! current" pending "[]" pending' pushed] by simp
  then show "((dependents, pending', finished @ [current], todo @ pushed),
      (dependents, pending, finished, current # todo))
      \<in> measure (\<lambda>(dependents, pending, finished, todo). sum_list pending + length todo)"
    by simp
qed simp

text \<open>The critical-path pass, over the order reversed.\<close>

fun longest_tail :: "u64 list \<Rightarrow> nat list \<Rightarrow> u64 \<Rightarrow> u64" where
  "longest_tail paths [] longest = longest"
| "longest_tail paths (dependent # rest) longest =
     longest_tail paths rest (max longest (paths ! dependent))"

fun critical_paths ::
  "'j task_node list \<Rightarrow> nat list list \<Rightarrow> nat list \<Rightarrow> u64 list \<Rightarrow> u64 list" where
  "critical_paths nodes dependents [] paths = paths"
| "critical_paths nodes dependents (current # rest) paths =
     critical_paths nodes dependents rest
       (paths[current := saturating_add (est_seconds (ts_resources (tn_spec (nodes ! current))))
                           (longest_tail paths (dependents ! current) 0)])"

definition kahn_order :: "nat list list \<Rightarrow> nat list list \<Rightarrow> nat list \<times> nat list" where
  "kahn_order dependencies dependents =
     kahn dependents (map length dependencies) []
       (filter (\<lambda>i. length (dependencies ! i) = 0) [0..<length dependencies])"

definition task_graph :: "'j exec_lib \<Rightarrow> 'j task_node list \<Rightarrow> task_graph_error + 'j task_graph" where
  "task_graph lib nodes =
     (case validate_node_identities lib nodes of
        Some e \<Rightarrow> Inl e
      | None \<Rightarrow>
     (case index_nodes_from 0 Map.empty nodes of
        Inl e \<Rightarrow> Inl e
      | Inr index_by_id \<Rightarrow>
     (case link_nodes_from index_by_id 0 nodes
             (replicate (length nodes) [], replicate (length nodes) []) of
        Inl e \<Rightarrow> Inl e
      | Inr (dependencies, dependents) \<Rightarrow>
     (let (pending, order) = kahn_order dependencies dependents
      in if length order \<noteq> length nodes
         then Inl (TaskGraphError dependency_cycle
                (node_id (nodes ! length (takeWhile (\<lambda>count. count = 0) pending))))
         else Inr \<lparr>tg_nodes = nodes, tg_index_by_id = index_by_id,
                   tg_dependencies = dependencies, tg_dependents = dependents,
                   tg_critical_path_seconds =
                     critical_paths nodes dependents (rev order) (replicate (length nodes) 0)\<rparr>))))"

text \<open>The accessors; \<open>.at(index)\<close> throws for an index out of range.\<close>

definition tg_size :: "'j task_graph \<Rightarrow> nat" where
  "tg_size graph = length (tg_nodes graph)"

definition vector_at :: "'a list \<Rightarrow> nat \<Rightarrow> 'a option" where
  "vector_at xs i = (if i < length xs then Some (xs ! i) else None)"

definition tg_find :: "'j task_graph \<Rightarrow> string \<Rightarrow> nat option" where
  "tg_find graph task_id = tg_index_by_id graph task_id"

subsection \<open>The index of task ids\<close>

lemma index_nodes_from_Inr:
  assumes "index_nodes_from i m nodes = Inr m'"
  shows "distinct (map node_id nodes)"
    and "\<forall>node \<in> set nodes. m (node_id node) = None"
    and "\<forall>k < length nodes. m' (node_id (nodes ! k)) = Some (i + k)"
    and "\<forall>x. x \<notin> node_id ` set nodes \<longrightarrow> m' x = m x"
proof -
  have "distinct (map node_id nodes) \<and> (\<forall>node \<in> set nodes. m (node_id node) = None)
    \<and> (\<forall>k < length nodes. m' (node_id (nodes ! k)) = Some (i + k))
    \<and> (\<forall>x. x \<notin> node_id ` set nodes \<longrightarrow> m' x = m x)"
    using assms
  proof (induction i m nodes rule: index_nodes_from.induct)
    case (1 i m)
    then show ?case by simp
  next
    case (2 i m node nodes)
    from "2.prems" have m: "m (node_id node) = None"
      and rest: "index_nodes_from (Suc i) (m(node_id node \<mapsto> i)) nodes = Inr m'"
      by (auto split: if_splits)
    note IH = "2.IH" [OF _ rest]
    have d: "distinct (map node_id nodes)"
      and fresh: "\<forall>n \<in> set nodes. (m(node_id node \<mapsto> i)) (node_id n) = None"
      and at: "\<forall>k < length nodes. m' (node_id (nodes ! k)) = Some (Suc i + k)"
      and out: "\<forall>x. x \<notin> node_id ` set nodes \<longrightarrow> m' x = (m(node_id node \<mapsto> i)) x"
      using IH m by blast+
    have notin: "node_id node \<notin> node_id ` set nodes"
    proof
      assume "node_id node \<in> node_id ` set nodes"
      then obtain n where "n \<in> set nodes" "node_id n = node_id node" by force
      with fresh have "(m(node_id node \<mapsto> i)) (node_id node) = None" by metis
      then show False by simp
    qed
    have here: "m' (node_id node) = Some i" using out notin by simp
    have ids: "m' (node_id ((node # nodes) ! k)) = Some (i + k)" if "k < length (node # nodes)" for k
      using that at here by (cases k) simp_all
    have fresh': "m (node_id n) = None" if "n \<in> set nodes" for n
      using fresh that notin by (metis fun_upd_other image_eqI)
    have out': "m' x = m x" if "x \<notin> node_id ` set (node # nodes)" for x
      using out that by simp
    show ?case using d notin m fresh' ids out' by simp
  qed
  then show "distinct (map node_id nodes)"
    and "\<forall>node \<in> set nodes. m (node_id node) = None"
    and "\<forall>k < length nodes. m' (node_id (nodes ! k)) = Some (i + k)"
    and "\<forall>x. x \<notin> node_id ` set nodes \<longrightarrow> m' x = m x" by blast+
qed

lemma index_nodes_from_Inl:
  "index_nodes_from i m nodes = Inl e \<Longrightarrow>
     \<not> (distinct (map node_id nodes) \<and> (\<forall>node \<in> set nodes. m (node_id node) = None))"
proof (induction i m nodes rule: index_nodes_from.induct)
  case (2 i m node nodes)
  show ?case
  proof
    assume a: "distinct (map node_id (node # nodes)) \<and> (\<forall>n \<in> set (node # nodes). m (node_id n) = None)"
    then have m: "m (node_id node) = None" by simp
    with "2.prems" have rest: "index_nodes_from (Suc i) (m(node_id node \<mapsto> i)) nodes = Inl e" by simp
    have "(m(node_id node \<mapsto> i)) (node_id n) = None" if "n \<in> set nodes" for n
      using a that by (simp add: image_iff) metis
    with "2.IH" [OF _ rest] m a show False by simp
  qed
qed simp

lemma index_nodes:
  assumes "index_nodes_from 0 Map.empty nodes = Inr m"
  shows "distinct (map node_id nodes)"
    and "m x = Some k \<longleftrightarrow> k < length nodes \<and> node_id (nodes ! k) = x"
proof -
  note I = index_nodes_from_Inr [OF assms]
  show "distinct (map node_id nodes)" by (rule I(1))
  show "m x = Some k \<longleftrightarrow> k < length nodes \<and> node_id (nodes ! k) = x"
  proof (cases "x \<in> node_id ` set nodes")
    case True
    then obtain l where l: "l < length nodes" "node_id (nodes ! l) = x"
      by (auto simp: in_set_conv_nth)
    with I(3) have "m x = Some l" by auto
    moreover have "k = l" if "k < length nodes" "node_id (nodes ! k) = x"
      using that l I(1) by (metis length_map nth_eq_iff_index_eq nth_map)
    ultimately show ?thesis using l by auto
  next
    case False
    with I(4) have "m x = None" by simp
    with False show ?thesis by auto
  qed
qed

subsection \<open>Linking: both directions agree\<close>

lemma link_node_Some:
  assumes "link_node m i ds (D, P) = Some (D', P')"
    and "\<forall>x k. m x = Some k \<longrightarrow> k < length P" and "distinct (map (\<lambda>x. the (m x)) ds)" and "i < length D"
  shows "length D' = length D" and "length P' = length P"
    and "set ds \<subseteq> dom m"
    and "D' = D[i := D ! i @ map (\<lambda>x. the (m x)) ds]"
    and "\<forall>j < length P. P' ! j = P ! j @ (if j \<in> set (map (\<lambda>x. the (m x)) ds) then [i] else [])"
proof -
  have "length D' = length D \<and> length P' = length P \<and> set ds \<subseteq> dom m
    \<and> D' = D[i := D ! i @ map (\<lambda>x. the (m x)) ds]
    \<and> (\<forall>j < length P. P' ! j = P ! j @ (if j \<in> set (map (\<lambda>x. the (m x)) ds) then [i] else []))"
    using assms
  proof (induction ds arbitrary: D P)
    case Nil
    then show ?case by simp
  next
    case (Cons d ds)
    from Cons.prems(1) obtain f where f: "m d = Some f"
      and rest: "link_node m i ds (D[i := D ! i @ [f]], P[f := P ! f @ [i]]) = Some (D', P')"
      by (auto split: option.splits)
    have flt: "f < length P" using Cons.prems(2) f by simp
    note IH = Cons.IH [OF rest]
    have "length D' = length D \<and> length P' = length P \<and> set ds \<subseteq> dom m
      \<and> D' = (D[i := D ! i @ [f]])[i := (D[i := D ! i @ [f]]) ! i @ map (\<lambda>x. the (m x)) ds]
      \<and> (\<forall>j < length P. P' ! j = (P[f := P ! f @ [i]]) ! j
            @ (if j \<in> set (map (\<lambda>x. the (m x)) ds) then [i] else []))"
      using IH Cons.prems(2-4) by simp
    moreover have "f \<notin> set (map (\<lambda>x. the (m x)) ds)" using Cons.prems(3) f by auto
    ultimately show ?case using f flt Cons.prems(4) by (auto simp: nth_list_update)
  qed
  then show "length D' = length D" and "length P' = length P"
    and "set ds \<subseteq> dom m"
    and "D' = D[i := D ! i @ map (\<lambda>x. the (m x)) ds]"
    and "\<forall>j < length P. P' ! j = P ! j @ (if j \<in> set (map (\<lambda>x. the (m x)) ds) then [i] else [])"
    by blast+
qed

lemma link_node_dom: "link_node m i ds links = Some links' \<Longrightarrow> set ds \<subseteq> dom m"
proof (induction m i ds links rule: link_node.induct)
  case (2 m i d rest D P)
  then show ?case by (cases "m d") auto
qed simp

lemma link_node_None: "link_node m i ds links = None \<Longrightarrow> \<not> set ds \<subseteq> dom m"
  by (induction m i ds links rule: link_node.induct) (auto split: option.splits)

abbreviation resolved_dependencies :: "(string \<Rightarrow> nat option) \<Rightarrow> 'j task_node \<Rightarrow> nat list" where
  "resolved_dependencies m node \<equiv> map (\<lambda>x. the (m x)) (ts_depends_on (tn_spec node))"

lemma link_nodes_from_Inr:
  assumes "link_nodes_from m i nodes (D, P) = Inr (D', P')"
    and "\<forall>x k. m x = Some k \<longrightarrow> k < length P"
    and "\<forall>node \<in> set nodes. distinct (resolved_dependencies m node)"
    and "i + length nodes \<le> length D"
  shows "length D' = length D \<and> length P' = length P
    \<and> (\<forall>node \<in> set nodes. set (ts_depends_on (tn_spec node)) \<subseteq> dom m)
    \<and> (\<forall>k < i. D' ! k = D ! k)
    \<and> (\<forall>k < length nodes. D' ! (i + k) = D ! (i + k) @ resolved_dependencies m (nodes ! k))
    \<and> (\<forall>j < length P. P' ! j = P ! j
          @ map ((+) i) (filter (\<lambda>k. j \<in> set (resolved_dependencies m (nodes ! k))) [0..<length nodes]))"
  using assms
proof (induction nodes arbitrary: i D P)
  case Nil
  then show ?case by simp
next
  case (Cons node nodes)
  from Cons.prems(1) obtain D1 P1
    where one: "link_node m i (ts_depends_on (tn_spec node)) (D, P) = Some (D1, P1)"
      and rest: "link_nodes_from m (Suc i) nodes (D1, P1) = Inr (D', P')"
    by (auto split: option.splits)
  have dist: "distinct (resolved_dependencies m node)" and lt: "i < length D"
    using Cons.prems(3,4) by simp_all
  note L = link_node_Some [OF one Cons.prems(2) dist lt]
  have IH: "length D' = length D1 \<and> length P' = length P1
    \<and> (\<forall>node \<in> set nodes. set (ts_depends_on (tn_spec node)) \<subseteq> dom m)
    \<and> (\<forall>k < Suc i. D' ! k = D1 ! k)
    \<and> (\<forall>k < length nodes. D' ! (Suc i + k) = D1 ! (Suc i + k) @ resolved_dependencies m (nodes ! k))
    \<and> (\<forall>j < length P1. P' ! j = P1 ! j
          @ map ((+) (Suc i)) (filter (\<lambda>k. j \<in> set (resolved_dependencies m (nodes ! k))) [0..<length nodes]))"
    by (rule Cons.IH [OF rest]) (use Cons.prems(2-4) L(1,2) in auto)
  have "D' ! (i + k) = D ! (i + k) @ resolved_dependencies m ((node # nodes) ! k)"
    if "k < length (node # nodes)" for k
    using that IH L(4) lt by (cases k) auto
  moreover have "P' ! j = P ! j @ map ((+) i)
      (filter (\<lambda>k. j \<in> set (resolved_dependencies m ((node # nodes) ! k))) [0..<length (node # nodes)])"
    if "j < length P" for j
  proof -
    have upt: "[0..<length (node # nodes)] = 0 # map Suc [0..<length nodes]"
      by (simp add: upt_conv_Cons map_Suc_upt del: upt_Suc)
    show ?thesis
      using IH L(2,5) that unfolding upt by (simp add: filter_map o_def)
  qed
  moreover have "\<forall>k < i. D' ! k = D ! k" using IH L(4) by auto
  ultimately show ?case using IH L by simp
qed

lemma link_nodes_from_Inl:
  "link_nodes_from m i nodes links = Inl e \<Longrightarrow>
     \<exists>node \<in> set nodes. e = TaskGraphError missing_dependency (node_id node)
       \<and> \<not> set (ts_depends_on (tn_spec node)) \<subseteq> dom m"
proof (induction m i nodes links rule: link_nodes_from.induct)
  case (2 m i node nodes links)
  then show ?case by (auto split: option.splits dest: link_node_None)
qed simp

text \<open>The two vectors the constructor keeps, in closed form.\<close>

definition dependents_of :: "nat list list \<Rightarrow> nat \<Rightarrow> nat list" where
  "dependents_of dependencies j =
     filter (\<lambda>i. j \<in> set (dependencies ! i)) [0..<length dependencies]"

lemma link_nodes:
  assumes "link_nodes_from m 0 nodes (replicate (length nodes) [], replicate (length nodes) []) = Inr (D, P)"
    and "index_nodes_from 0 Map.empty nodes = Inr m"
    and "\<forall>node \<in> set nodes. distinct (ts_depends_on (tn_spec node))"
  shows "length D = length nodes"
    and "P = map (dependents_of D) [0..<length nodes]"
    and "\<forall>k < length nodes. D ! k = resolved_dependencies m (nodes ! k)
           \<and> set (ts_depends_on (tn_spec (nodes ! k))) \<subseteq> dom m \<and> distinct (D ! k)
           \<and> set (D ! k) \<subseteq> {..<length nodes}"
proof -
  note M = index_nodes(2) [OF assms(2)]
  have fails: "\<exists>node \<in> set nodes. \<not> set (ts_depends_on (tn_spec node)) \<subseteq> dom m \<Longrightarrow> False"
  proof -
    assume "\<exists>node \<in> set nodes. \<not> set (ts_depends_on (tn_spec node)) \<subseteq> dom m"
    moreover have "\<forall>i links. link_nodes_from m i ns links \<noteq> Inr (D, P)"
      if "\<exists>node \<in> set ns. \<not> set (ts_depends_on (tn_spec node)) \<subseteq> dom m" for ns
      using that
    proof (induction ns)
      case (Cons n ns)
      have none: "link_node m i ds links = None" if "\<not> set ds \<subseteq> dom m" for i ds links
        using that link_node_dom [of m i ds links] by (cases "link_node m i ds links") auto
      show ?case
      proof (cases "set (ts_depends_on (tn_spec n)) \<subseteq> dom m")
        case True
        with Cons show ?thesis by (auto split: option.splits)
      next
        case False
        then show ?thesis by (simp add: none)
      qed
    qed simp
    ultimately show False using assms(1) by blast
  qed
  have inj: "x = y" if "m x = Some k" "m y = Some k" for x y k
    using that by (simp add: M)
  have dist: "distinct (resolved_dependencies m node)" if "node \<in> set nodes" for node
  proof -
    have "set (ts_depends_on (tn_spec node)) \<subseteq> dom m" using fails that by blast
    then have "inj_on (\<lambda>x. the (m x)) (set (ts_depends_on (tn_spec node)))"
      by (intro inj_onI) (metis domD inj option.sel subsetD)
    then show ?thesis using assms(3) that by (simp add: distinct_map)
  qed
  have R: "length D = length nodes \<and> length P = length nodes
    \<and> (\<forall>node \<in> set nodes. set (ts_depends_on (tn_spec node)) \<subseteq> dom m)
    \<and> (\<forall>k < length nodes. D ! k = resolved_dependencies m (nodes ! k))
    \<and> (\<forall>j < length nodes. P ! j =
          filter (\<lambda>k. j \<in> set (resolved_dependencies m (nodes ! k))) [0..<length nodes])"
    using link_nodes_from_Inr [OF assms(1)] M dist by (simp add: map_idI)
  then show len: "length D = length nodes" by blast
  show at: "\<forall>k < length nodes. D ! k = resolved_dependencies m (nodes ! k)
           \<and> set (ts_depends_on (tn_spec (nodes ! k))) \<subseteq> dom m \<and> distinct (D ! k)
           \<and> set (D ! k) \<subseteq> {..<length nodes}"
  proof (intro allI impI)
    fix k
    assume k: "k < length nodes"
    then have node: "nodes ! k \<in> set nodes" by simp
    have dom: "set (ts_depends_on (tn_spec (nodes ! k))) \<subseteq> dom m" using R node by blast
    have "set (resolved_dependencies m (nodes ! k)) \<subseteq> {..<length nodes}"
    proof
      fix f
      assume "f \<in> set (resolved_dependencies m (nodes ! k))"
      then obtain x where x: "x \<in> set (ts_depends_on (tn_spec (nodes ! k)))" "f = the (m x)" by auto
      then have "m x = Some f" using dom by (metis domD option.sel subsetD)
      then show "f \<in> {..<length nodes}" by (simp add: M)
    qed
    then show "D ! k = resolved_dependencies m (nodes ! k)
        \<and> set (ts_depends_on (tn_spec (nodes ! k))) \<subseteq> dom m \<and> distinct (D ! k)
        \<and> set (D ! k) \<subseteq> {..<length nodes}"
      using R k dom dist [OF node] by simp
  qed
  show "P = map (dependents_of D) [0..<length nodes]"
  proof (rule nth_equalityI)
    show "length P = length (map (dependents_of D) [0..<length nodes])" using R by simp
    fix j
    assume "j < length P"
    then show "P ! j = map (dependents_of D) [0..<length nodes] ! j"
      using R at len by (auto simp: dependents_of_def intro!: filter_cong)
  qed
qed

end
