(* ===== verification/TaskGraphFacts.thy ===== *)
theory TaskGraphFacts
  imports TaskGraph
begin

text \<open>
  What the task graph promises: the invariant of Kahn's loop, the well-formedness every graph
  the constructor returns has, acceptance of exactly the acyclic inputs, the critical path as a
  longest chain, and the interface \<open>task_dag\<close> through which the ready set and the scheduler use
  a graph.
\<close>

subsection \<open>Dependency edges and topological lists\<close>

definition dependency_edges :: "nat list list \<Rightarrow> (nat \<times> nat) set" where
  "dependency_edges D = {(d, i). i < length D \<and> d \<in> set (D ! i)}"

definition topological :: "nat list list \<Rightarrow> nat list \<Rightarrow> bool" where
  "topological D xs \<longleftrightarrow> distinct xs \<and> (\<forall>k < length xs. set (D ! (xs ! k)) \<subseteq> set (take k xs))"

lemma topological_append:
  assumes "topological D xs" and "distinct (xs @ ys)" and "\<forall>i \<in> set ys. set (D ! i) \<subseteq> set xs"
  shows "topological D (xs @ ys)"
  unfolding topological_def
proof (intro conjI allI impI)
  fix k
  assume k: "k < length (xs @ ys)"
  show "set (D ! ((xs @ ys) ! k)) \<subseteq> set (take k (xs @ ys))"
  proof (cases "k < length xs")
    case True
    then show ?thesis using assms(1) by (simp add: topological_def nth_append)
  next
    case False
    then have "(xs @ ys) ! k \<in> set ys" using k by (simp add: nth_append)
    with assms(3) False show ?thesis by auto
  qed
qed (rule assms(2))

lemma topological_acyclic:
  assumes "topological D xs" and "set xs = {..<length D}"
  shows "acyclic (dependency_edges D)"
proof -
  define pos where "pos i = (THE k. k < length xs \<and> xs ! k = i)" for i
  have pos: "pos (xs ! k) = k" if "k < length xs" for k
    unfolding pos_def using assms(1) that by (auto simp: topological_def nth_eq_iff_index_eq)
  have "dependency_edges D \<subseteq> measure pos"
  proof (clarsimp simp: dependency_edges_def)
    fix d i
    assume i: "i < length D" and d: "d \<in> set (D ! i)"
    from i assms(2) obtain k where k: "k < length xs" "xs ! k = i" by (metis in_set_conv_nth lessThan_iff)
    with assms(1) d obtain l where "l < k" "xs ! l = d"
      by (fastforce simp: topological_def in_set_conv_nth)
    with k pos show "pos d < pos i" by (metis order.strict_trans)
  qed
  then show ?thesis by (meson wf_acyclic wf_measure wf_subset)
qed

lemma finite_dependency_edges: "finite (dependency_edges D)"
proof -
  have "dependency_edges D \<subseteq> (\<Union>i < length D. set (D ! i) \<times> {i})"
    by (auto simp: dependency_edges_def)
  then show ?thesis by (rule finite_subset) auto
qed

lemma acyclic_all_reached:
  assumes "acyclic (dependency_edges D)" and "i < length D"
    and "\<And>j. j < length D \<Longrightarrow> set (D ! j) \<subseteq> S \<Longrightarrow> j \<in> S"
    and "\<And>j. j < length D \<Longrightarrow> set (D ! j) \<subseteq> {..<length D}"
  shows "i \<in> S"
proof -
  have "wf (dependency_edges D)"
    using assms(1) finite_dependency_edges by (rule finite_acyclic_wf [rotated])
  then have "i < length D \<longrightarrow> i \<in> S"
  proof (induction i rule: wf_induct_rule)
    case (less i)
    show ?case
    proof
      assume i: "i < length D"
      have "set (D ! i) \<subseteq> S"
      proof
        fix d
        assume d: "d \<in> set (D ! i)"
        then have "d < length D" using assms(4) i by blast
        with less d i show "d \<in> S" by (simp add: dependency_edges_def)
      qed
      with i show "i \<in> S" by (rule assms(3))
    qed
  qed
  with assms(2) show ?thesis by blast
qed

subsection \<open>The loop of Kahn's algorithm\<close>

lemma release_dependents_distinct:
  assumes "distinct ds" and "set ds \<subseteq> {..<length pending}"
  shows "release_dependents ds pending pushed =
    (map (\<lambda>i. if i \<in> set ds then pending ! i - 1 else pending ! i) [0..<length pending],
     pushed @ filter (\<lambda>d. pending ! d = 1) ds)"
  using assms
proof (induction ds arbitrary: pending pushed)
  case Nil
  then show ?case by (simp add: map_nth)
next
  case (Cons d ds)
  have "filter (\<lambda>e. pending[d := pending ! d - 1] ! e = 1) ds = filter (\<lambda>e. pending ! e = 1) ds"
    using Cons.prems by (intro filter_cong) (auto simp: nth_list_update)
  moreover have "map (\<lambda>i. if i \<in> set ds then pending[d := pending ! d - 1] ! i - 1
        else pending[d := pending ! d - 1] ! i) [0..<length pending]
      = map (\<lambda>i. if i \<in> set (d # ds) then pending ! i - 1 else pending ! i) [0..<length pending]"
    using Cons.prems by (intro map_cong) (auto simp: nth_list_update)
  moreover have "release_dependents ds (pending[d := pending ! d - 1]) pushed' =
      (map (\<lambda>i. if i \<in> set ds then pending[d := pending ! d - 1] ! i - 1
        else pending[d := pending ! d - 1] ! i) [0..<length pending],
       pushed' @ filter (\<lambda>e. pending[d := pending ! d - 1] ! e = 1) ds)" for pushed'
    using Cons.IH [of "pending[d := pending ! d - 1]" pushed'] Cons.prems by simp
  ultimately show ?case
    using Cons.prems unfolding release_dependents.simps prod.inject by simp
qed

text \<open>
  The loop invariant: a pending count is the number of dependencies not finished yet, a task is
  queued exactly when its count is zero, and the vector built so far is topological.
\<close>

definition kahn_inv :: "nat list list \<Rightarrow> nat list \<Rightarrow> nat list \<Rightarrow> nat list \<Rightarrow> bool" where
  "kahn_inv D pending finished todo \<longleftrightarrow>
     length pending = length D \<and> set (finished @ todo) \<subseteq> {..<length D}
     \<and> topological D (finished @ todo)
     \<and> (\<forall>i < length D. pending ! i = card (set (D ! i) - set finished))
     \<and> (\<forall>i < length D. i \<in> set (finished @ todo) \<longleftrightarrow> pending ! i = 0)"

lemma kahn_inv_step:
  assumes inv: "kahn_inv D pending finished (c # todo)"
    and rel: "release_dependents (dependents_of D c) pending [] = (pending', pushed)"
  shows "kahn_inv D pending' (finished @ [c]) (todo @ pushed)"
proof -
  let ?n = "length D"
  have len: "length pending = ?n" and rng: "set (finished @ c # todo) \<subseteq> {..<?n}"
    and topo: "topological D (finished @ c # todo)"
    and cnt: "\<And>i. i < ?n \<Longrightarrow> pending ! i = card (set (D ! i) - set finished)"
    and queued: "\<And>i. i < ?n \<Longrightarrow> i \<in> set (finished @ c # todo) \<longleftrightarrow> pending ! i = 0"
    using inv by (auto simp: kahn_inv_def)
  have mem: "i \<in> set (dependents_of D c) \<longleftrightarrow> i < ?n \<and> c \<in> set (D ! i)" for i
    by (auto simp: dependents_of_def)
  have dd: "distinct (dependents_of D c)" by (simp add: dependents_of_def)
  have p': "pending' = map (\<lambda>i. if i \<in> set (dependents_of D c) then pending ! i - 1 else pending ! i) [0..<?n]"
    and pu: "pushed = filter (\<lambda>d. pending ! d = 1) (dependents_of D c)"
    using rel release_dependents_distinct [OF dd, of pending "[]"] mem len by auto
  have cfin: "c \<notin> set finished" using topo by (auto simp: topological_def)
  have p'_at: "pending' ! i = (if c \<in> set (D ! i) then pending ! i - 1 else pending ! i)" if "i < ?n" for i
    using that by (simp add: p' mem)
  have cnt': "pending' ! i = card (set (D ! i) - set (finished @ [c]))" if "i < ?n" for i
  proof (cases "c \<in> set (D ! i)")
    case True
    then have "c \<in> set (D ! i) - set finished" using cfin by simp
    then have "card (set (D ! i) - set finished - {c}) = card (set (D ! i) - set finished) - 1"
      by (simp add: card_Diff_singleton)
    moreover have "set (D ! i) - set (finished @ [c]) = set (D ! i) - set finished - {c}" by auto
    ultimately show ?thesis using True that by (simp add: p'_at cnt)
  next
    case False
    then have "set (D ! i) - set (finished @ [c]) = set (D ! i) - set finished" by auto
    then show ?thesis using False that by (simp add: p'_at cnt)
  qed
  have pushed_mem: "i \<in> set pushed \<longleftrightarrow> i < ?n \<and> c \<in> set (D ! i) \<and> pending ! i = 1" for i
    by (auto simp: pu mem)
  have queued': "i \<in> set ((finished @ [c]) @ todo @ pushed) \<longleftrightarrow> pending' ! i = 0" if i: "i < ?n" for i
    using queued [OF i] p'_at [OF i] pushed_mem [of i] i by (auto split: if_splits)
  have fresh: "set pushed \<inter> set (finished @ c # todo) = {}"
    using queued pushed_mem by fastforce
  have ready: "set (D ! i) \<subseteq> set (finished @ [c])" if "i \<in> set pushed" for i
  proof -
    have i: "i < ?n" and "pending' ! i = 0" using that pushed_mem p'_at by auto
    then have "card (set (D ! i) - set (finished @ [c])) = 0" using cnt' by simp
    then show ?thesis by simp
  qed
  have "distinct ((finished @ c # todo) @ pushed)"
    using topo fresh dd by (auto simp: topological_def pu)
  then have "topological D ((finished @ c # todo) @ pushed)"
    by (rule topological_append [OF topo]) (use ready in auto)
  then have "topological D ((finished @ [c]) @ todo @ pushed)" by simp
  moreover have "set ((finished @ [c]) @ todo @ pushed) \<subseteq> {..<?n}"
    using rng pushed_mem by auto
  ultimately show ?thesis
    unfolding kahn_inv_def using cnt' queued' by (simp add: p')
qed

lemma kahn_inv_result:
  assumes "kahn_inv D pending finished todo"
    and "kahn (map (dependents_of D) [0..<length D]) pending finished todo = (pending', order)"
  shows "kahn_inv D pending' order []"
  using assms
proof (induction "map (dependents_of D) [0..<length D]" pending finished todo rule: kahn.induct)
  case (1 pending finished)
  then show ?case by simp
next
  case (2 pending finished c todo)
  obtain p1 pushed where rel: "release_dependents (dependents_of D c) pending [] = (p1, pushed)"
    by fastforce
  have "c < length D" using "2.prems"(1) by (simp add: kahn_inv_def)
  then have at: "map (dependents_of D) [0..<length D] ! c = dependents_of D c" by simp
  have "kahn (map (dependents_of D) [0..<length D]) p1 (finished @ [c]) (todo @ pushed) = (pending', order)"
    using "2.prems"(2) by (simp add: at rel)
  then show ?case
    using "2.hyps" [of "(p1, pushed)" p1 pushed] kahn_inv_step [OF "2.prems"(1) rel] by (simp add: at rel)
qed

lemma kahn_inv_start:
  assumes "\<forall>i < length D. distinct (D ! i) \<and> set (D ! i) \<subseteq> {..<length D}"
  shows "kahn_inv D (map length D) [] (filter (\<lambda>i. length (D ! i) = 0) [0..<length D])"
  using assms by (auto simp: kahn_inv_def topological_def distinct_card nth_append dest: nth_mem)

lemma kahn_order_spec:
  assumes "kahn_order D (map (dependents_of D) [0..<length D]) = (pending, order)"
    and "\<forall>i < length D. distinct (D ! i) \<and> set (D ! i) \<subseteq> {..<length D}"
  shows "topological D order" and "set order \<subseteq> {..<length D}"
    and "length order = length D \<longleftrightarrow> acyclic (dependency_edges D)"
proof -
  have inv: "kahn_inv D pending order []"
    using kahn_inv_result [OF kahn_inv_start [OF assms(2)]] assms(1) by (simp add: kahn_order_def)
  then show topo: "topological D order" and rng: "set order \<subseteq> {..<length D}"
    by (auto simp: kahn_inv_def)
  show "length order = length D \<longleftrightarrow> acyclic (dependency_edges D)"
  proof
    assume "length order = length D"
    then have "set order = {..<length D}"
      using topo rng by (intro distinct_set_upt_length) (auto simp: topological_def)
    with topo show "acyclic (dependency_edges D)" by (rule topological_acyclic)
  next
    assume acyc: "acyclic (dependency_edges D)"
    have "i \<in> set order" if "i < length D" for i
      using acyc that
    proof (rule acyclic_all_reached)
      fix j
      assume "j < length D" "set (D ! j) \<subseteq> set order"
      with inv show "j \<in> set order" by (auto simp: kahn_inv_def)
    qed (use assms(2) in blast)
    with rng have "set order = {..<length D}" by auto
    then show "length order = length D"
      using topo by (metis card_lessThan distinct_card topological_def)
  qed
qed

subsection \<open>The critical path\<close>

lemma unat_saturating_add:
  "unat (saturating_add a b) = min (2 ^ 64 - 1) (unat a + unat b)"
proof -
  have m: "unat (- 1 :: u64) = 2 ^ 64 - 1" by (simp add: unsigned_minus_1_eq_mask mask_eq_exp_minus_1)
  have "unat (- 1 - b) = unat (- 1 :: u64) - unat b"
    by (rule unat_sub) (rule word_order.extremum)
  moreover have "unat b \<le> 2 ^ 64 - 1" using u64_unat_less [of b] by simp
  ultimately have gt: "a > - 1 - b \<longleftrightarrow> unat a + unat b > 2 ^ 64 - 1"
    unfolding word_less_nat_alt m by linarith
  show ?thesis
  proof (cases "a > - 1 - b")
    case True
    then show ?thesis using gt m by (simp add: saturating_add_def)
  next
    case False
    then have "unat a + unat b < 2 ^ 64" using gt by simp
    then have "unat (a + b) = unat a + unat b" by (simp add: unat_word_ariths)
    then show ?thesis using False gt by (simp add: saturating_add_def)
  qed
qed

lemma longest_tail_eq: "longest_tail paths ds l = fold (\<lambda>d m. max m (paths ! d)) ds l"
  by (induction paths ds l rule: longest_tail.induct) auto

lemma longest_tail_cong:
  "(\<And>d. d \<in> set ds \<Longrightarrow> paths ! d = paths' ! d) \<Longrightarrow> longest_tail paths ds l = longest_tail paths' ds l"
  by (induction paths ds l rule: longest_tail.induct) auto

lemma longest_tail_ge: "l \<le> longest_tail paths ds l" "d \<in> set ds \<Longrightarrow> paths ! d \<le> longest_tail paths ds l"
proof -
  have ge: "l \<le> longest_tail paths ds l" for paths ds l
    by (induction paths ds l rule: longest_tail.induct) auto
  then show "l \<le> longest_tail paths ds l" .
  show "d \<in> set ds \<Longrightarrow> paths ! d \<le> longest_tail paths ds l"
  proof (induction paths ds l rule: longest_tail.induct)
    case (2 paths e rest longest)
    then show ?case using ge [of "max longest (paths ! e)" paths rest] by auto
  qed simp
qed

lemma longest_tail_attained: "longest_tail paths ds l = l \<or> (\<exists>d \<in> set ds. longest_tail paths ds l = paths ! d)"
  by (induction paths ds l rule: longest_tail.induct) (auto simp: max_def split: if_splits)

abbreviation node_seconds :: "'j task_node list \<Rightarrow> nat \<Rightarrow> u64" where
  "node_seconds nodes i \<equiv> est_seconds (ts_resources (tn_spec (nodes ! i)))"

lemma length_critical_paths [simp]: "length (critical_paths nodes P xs paths) = length paths"
  by (induction nodes P xs paths rule: critical_paths.induct) auto

lemma critical_paths_equation:
  assumes "distinct xs" and "set xs \<subseteq> {..<length paths}" and "S \<inter> set xs = {}"
    and "\<And>A c B. xs = A @ c # B \<Longrightarrow> set (P ! c) \<subseteq> S \<union> set A"
    and "\<And>c. c \<in> S \<Longrightarrow> set (P ! c) \<subseteq> S"
    and "\<And>c. c \<in> S \<Longrightarrow> paths ! c = saturating_add (node_seconds nodes c) (longest_tail paths (P ! c) 0)"
    and "i \<in> S \<union> set xs"
  shows "critical_paths nodes P xs paths ! i
    = saturating_add (node_seconds nodes i) (longest_tail (critical_paths nodes P xs paths) (P ! i) 0)"
  using assms
proof (induction xs arbitrary: paths S)
  case Nil
  then show ?case by simp
next
  case (Cons c xs)
  let ?new = "saturating_add (node_seconds nodes c) (longest_tail paths (P ! c) 0)"
  let ?paths = "paths[c := ?new]"
  have c: "c < length paths" "c \<notin> S" "c \<notin> set xs" using Cons.prems by auto
  have Pc: "set (P ! c) \<subseteq> S" using Cons.prems(4) [of "[]" c xs] by simp
  have same: "longest_tail ?paths (P ! e) 0 = longest_tail paths (P ! e) 0" if "set (P ! e) \<subseteq> S" for e
    using that c(2) by (intro longest_tail_cong) (metis nth_list_update_neq subsetD)
  have "critical_paths nodes P xs ?paths ! i
    = saturating_add (node_seconds nodes i) (longest_tail (critical_paths nodes P xs ?paths) (P ! i) 0)"
  proof (rule Cons.IH [where S = "insert c S"])
    show "distinct xs" "set xs \<subseteq> {..<length ?paths}" "insert c S \<inter> set xs = {}"
      using Cons.prems c by auto
    show "set (P ! e) \<subseteq> insert c S \<union> set A" if "xs = A @ e # B" for A e B
      using Cons.prems(4) [of "c # A" e B] that by auto
    show "set (P ! e) \<subseteq> insert c S" if "e \<in> insert c S" for e
      using that Pc Cons.prems(5) by auto
    show "?paths ! e = saturating_add (node_seconds nodes e) (longest_tail ?paths (P ! e) 0)"
      if "e \<in> insert c S" for e
      using that Pc Cons.prems(5,6) c same [of e] by (auto simp: nth_list_update)
    show "i \<in> insert c S \<union> set xs" using Cons.prems(7) by auto
  qed
  then show ?case by simp
qed

lemma topological_rev_dependents:
  assumes "topological D xs" and "set xs = {..<length D}" and "rev xs = A @ c # B"
  shows "set (dependents_of D c) \<subseteq> set A"
proof
  fix i
  assume "i \<in> set (dependents_of D c)"
  then have i: "i < length D" and ci: "c \<in> set (D ! i)" by (auto simp: dependents_of_def)
  have xs: "xs = rev B @ c # rev A" using assms(3) by (metis rev_append rev_rev_ident rev.simps(2) append.assoc append_Cons append_Nil)
  from i assms(2) obtain k where k: "k < length xs" "xs ! k = i" by (metis in_set_conv_nth lessThan_iff)
  with assms(1) ci have "c \<in> set (take k xs)" by (auto simp: topological_def)
  moreover have "c \<notin> set (take (length B) xs)" using assms(1) by (simp add: xs topological_def)
  ultimately have "length B < k"
    by (metis linorder_not_less set_take_subset_set_take subsetD)
  then have "xs ! k = rev A ! (k - Suc (length B))" and "k - Suc (length B) < length (rev A)"
    using k(1) by (auto simp: xs nth_append nth_Cons')
  then have "xs ! k \<in> set (rev A)" by (metis nth_mem)
  with k show "i \<in> set A" by simp
qed

subsection \<open>Well-formed graphs\<close>

definition wf_graph :: "'j task_graph \<Rightarrow> bool" where
  "wf_graph g \<longleftrightarrow>
     length (tg_dependencies g) = tg_size g
     \<and> length (tg_critical_path_seconds g) = tg_size g
     \<and> tg_dependents g = map (dependents_of (tg_dependencies g)) [0..<tg_size g]
     \<and> (\<forall>i < tg_size g. distinct (tg_dependencies g ! i) \<and> set (tg_dependencies g ! i) \<subseteq> {..<tg_size g})
     \<and> acyclic (dependency_edges (tg_dependencies g))
     \<and> distinct (map node_id (tg_nodes g)) \<and> distinct (map tn_order_key (tg_nodes g))
     \<and> (\<forall>x k. tg_index_by_id g x = Some k \<longleftrightarrow> k < tg_size g \<and> node_id (tg_nodes g ! k) = x)
     \<and> (\<forall>k < tg_size g. tg_dependencies g ! k
          = map (\<lambda>x. the (tg_index_by_id g x)) (ts_depends_on (tn_spec (tg_nodes g ! k)))
          \<and> set (ts_depends_on (tn_spec (tg_nodes g ! k))) \<subseteq> node_id ` set (tg_nodes g))
     \<and> (\<forall>i < tg_size g. tg_critical_path_seconds g ! i
          = saturating_add (node_seconds (tg_nodes g) i)
              (longest_tail (tg_critical_path_seconds g) (tg_dependents g ! i) 0))"

lemma validate_nodes_from_None:
  "validate_nodes_from lib session keys nodes = None \<longleftrightarrow>
     (\<forall>node \<in> set nodes. validate_task_spec lib (tn_spec node) = None
        \<and> ts_build_session_id (tn_spec node) = session \<and> tn_order_key node \<notin> keys)
     \<and> distinct (map tn_order_key nodes)"
proof (induction lib session keys nodes rule: validate_nodes_from.induct)
  case (2 lib session keys node nodes)
  show ?case
  proof (cases "validate_task_spec lib (tn_spec node) = None
      \<and> ts_build_session_id (tn_spec node) = session \<and> tn_order_key node \<notin> keys")
    case True
    have "(\<forall>n \<in> set nodes. tn_order_key n \<notin> insert (tn_order_key node) keys)
      \<longleftrightarrow> (\<forall>n \<in> set nodes. tn_order_key n \<notin> keys) \<and> tn_order_key node \<notin> tn_order_key ` set nodes"
      unfolding image_iff by (metis insert_iff)
    with 2 True show ?thesis by (simp add: ball_conj_distrib) blast
  next
    case False
    then show ?thesis by auto
  qed
qed simp

lemma task_graph_Inr_parts:
  assumes "task_graph lib nodes = Inr g"
  obtains m D pending order where "validate_node_identities lib nodes = None"
    and "index_nodes_from 0 Map.empty nodes = Inr m"
    and "link_nodes_from m 0 nodes (replicate (length nodes) [], replicate (length nodes) [])
           = Inr (D, map (dependents_of D) [0..<length nodes])"
    and "length D = length nodes"
    and "\<forall>k < length nodes. D ! k = resolved_dependencies m (nodes ! k)
           \<and> set (ts_depends_on (tn_spec (nodes ! k))) \<subseteq> dom m \<and> distinct (D ! k)
           \<and> set (D ! k) \<subseteq> {..<length nodes}"
    and "kahn_order D (map (dependents_of D) [0..<length nodes]) = (pending, order)"
    and "length order = length nodes"
    and "g = \<lparr>tg_nodes = nodes, tg_index_by_id = m, tg_dependencies = D,
          tg_dependents = map (dependents_of D) [0..<length nodes],
          tg_critical_path_seconds = critical_paths nodes (map (dependents_of D) [0..<length nodes])
             (rev order) (replicate (length nodes) 0)\<rparr>"
proof -
  from assms have v: "validate_node_identities lib nodes = None"
    by (auto simp: task_graph_def split: option.splits)
  from assms v obtain m where m: "index_nodes_from 0 Map.empty nodes = Inr m"
    by (auto simp: task_graph_def split: sum.splits)
  from assms v m obtain D P
    where l: "link_nodes_from m 0 nodes (replicate (length nodes) [], replicate (length nodes) []) = Inr (D, P)"
    by (auto simp: task_graph_def split: sum.splits)
  obtain pending order where k: "kahn_order D P = (pending, order)" by fastforce
  from assms v m l k have ord: "length order = length nodes"
    and g: "g = \<lparr>tg_nodes = nodes, tg_index_by_id = m, tg_dependencies = D, tg_dependents = P,
      tg_critical_path_seconds = critical_paths nodes P (rev order) (replicate (length nodes) 0)\<rparr>"
    by (auto simp: task_graph_def split: if_splits)
  have "\<forall>node \<in> set nodes. distinct (ts_depends_on (tn_spec node))"
    using v by (auto simp: validate_node_identities_def validate_nodes_from_None
        intro: validate_task_spec_depends_on(2))
  note L = link_nodes [OF l m this]
  show ?thesis
    by (rule that [OF v m _ L(1) L(3) _ ord]) (use l k g L(2) in auto)
qed

lemma task_graph_wf:
  assumes "task_graph lib nodes = Inr g"
  shows "wf_graph g" and "tg_nodes g = nodes"
proof -
  obtain m D pending order where v: "validate_node_identities lib nodes = None"
    and m: "index_nodes_from 0 Map.empty nodes = Inr m"
    and len: "length D = length nodes"
    and D: "\<forall>k < length nodes. D ! k = resolved_dependencies m (nodes ! k)
           \<and> set (ts_depends_on (tn_spec (nodes ! k))) \<subseteq> dom m \<and> distinct (D ! k)
           \<and> set (D ! k) \<subseteq> {..<length nodes}"
    and k: "kahn_order D (map (dependents_of D) [0..<length nodes]) = (pending, order)"
    and ord: "length order = length nodes"
    and g: "g = \<lparr>tg_nodes = nodes, tg_index_by_id = m, tg_dependencies = D,
          tg_dependents = map (dependents_of D) [0..<length nodes],
          tg_critical_path_seconds = critical_paths nodes (map (dependents_of D) [0..<length nodes])
             (rev order) (replicate (length nodes) 0)\<rparr>"
    using assms by (rule task_graph_Inr_parts)
  show "tg_nodes g = nodes" by (simp add: g)
  note M = index_nodes(2) [OF m]
  have rng: "\<forall>i < length D. distinct (D ! i) \<and> set (D ! i) \<subseteq> {..<length D}" using D len by metis
  note K = kahn_order_spec [OF k [folded len] rng]
  have "set order = {..<length D}"
    using K(1,2) ord len by (intro distinct_set_upt_length) (auto simp: topological_def)
  note later = topological_rev_dependents [OF K(1) this]
  let ?P = "map (dependents_of D) [0..<length nodes]"
  have cp: "critical_paths nodes ?P (rev order) (replicate (length nodes) 0) ! i
      = saturating_add (node_seconds nodes i)
          (longest_tail (critical_paths nodes ?P (rev order) (replicate (length nodes) 0)) (?P ! i) 0)"
    if "i < length nodes" for i
  proof (rule critical_paths_equation [where S = "{}"])
    show "distinct (rev order)" using K(1) by (simp add: topological_def)
    show "set (rev order) \<subseteq> {..<length (replicate (length nodes) 0 :: u64 list)}" using K(2) len by simp
    show "i \<in> {} \<union> set (rev order)" using \<open>set order = {..<length D}\<close> that len by simp
    fix A c B
    assume split: "rev order = A @ c # B"
    then have "c \<in> set (rev order)" by simp
    then have "c < length nodes" using K(2) len by auto
    then show "set (?P ! c) \<subseteq> {} \<union> set A" using later [OF split] by simp
  qed simp_all
  have dom: "dom m = node_id ` set nodes"
    using M by (auto simp: dom_def in_set_conv_nth image_iff) (metis M nth_mem)+
  have D_eq: "\<forall>k < length nodes. D ! k = resolved_dependencies m (nodes ! k)"
    and D_dom: "\<forall>k < length nodes. set (ts_depends_on (tn_spec (nodes ! k))) \<subseteq> dom m"
    and D_rng: "\<forall>k < length nodes. distinct (D ! k) \<and> set (D ! k) \<subseteq> {..<length nodes}"
    using D by blast+
  have keys: "distinct (map tn_order_key nodes)"
    using v by (simp add: validate_node_identities_def validate_nodes_from_None)
  show "wf_graph g"
    unfolding wf_graph_def tg_size_def g task_graph.simps
    using len K(3) ord cp M D_eq D_dom D_rng dom index_nodes(1) [OF m] keys
    by (intro conjI) simp_all
qed

lemma wf_graph_deps:
  "wf_graph g \<Longrightarrow> i < tg_size g \<Longrightarrow>
     distinct (tg_dependencies g ! i) \<and> set (tg_dependencies g ! i) \<subseteq> {..<tg_size g}"
  unfolding wf_graph_def by blast

lemma wf_graph_length: "wf_graph g \<Longrightarrow> length (tg_dependencies g) = tg_size g"
  unfolding wf_graph_def by blast

lemma wf_graph_acyclic: "wf_graph g \<Longrightarrow> acyclic (dependency_edges (tg_dependencies g))"
  unfolding wf_graph_def by blast

lemma wf_graph_find:
  "wf_graph g \<Longrightarrow> tg_find g x = Some k \<longleftrightarrow> k < tg_size g \<and> node_id (tg_nodes g ! k) = x"
  unfolding wf_graph_def tg_find_def by blast

lemma wf_graph_ids: "wf_graph g \<Longrightarrow> distinct (map node_id (tg_nodes g))"
  unfolding wf_graph_def by blast

lemma wf_graph_keys: "wf_graph g \<Longrightarrow> distinct (map tn_order_key (tg_nodes g))"
  unfolding wf_graph_def by blast

lemma wf_graph_dependents:
  assumes "wf_graph g" and "j < tg_size g"
  shows "tg_dependents g ! j = dependents_of (tg_dependencies g) j"
    and "i \<in> set (tg_dependents g ! j) \<longleftrightarrow> i < tg_size g \<and> j \<in> set (tg_dependencies g ! i)"
  using assms by (auto simp: wf_graph_def dependents_of_def)

subsection \<open>The longest chain\<close>

fun is_chain :: "nat list list \<Rightarrow> nat list \<Rightarrow> bool" where
  "is_chain dependents [] = False"
| "is_chain dependents [i] = True"
| "is_chain dependents (i # j # rest) = (j \<in> set (dependents ! i) \<and> is_chain dependents (j # rest))"

definition chain_seconds :: "'j task_node list \<Rightarrow> nat list \<Rightarrow> nat" where
  "chain_seconds nodes chain = sum_list (map (\<lambda>i. unat (node_seconds nodes i)) chain)"

lemma chain_seconds_Cons [simp]:
  "chain_seconds nodes (i # chain) = unat (node_seconds nodes i) + chain_seconds nodes chain"
  by (simp add: chain_seconds_def)

lemma chain_seconds_Nil [simp]: "chain_seconds nodes [] = 0"
  by (simp add: chain_seconds_def)

lemma wf_graph_wf_dependents:
  assumes "wf_graph g"
  shows "wf {(i, j). j < tg_size g \<and> i \<in> set (tg_dependents g ! j)}"
proof -
  have "wf ((dependency_edges (tg_dependencies g))\<inverse>)"
    using assms finite_dependency_edges by (intro finite_acyclic_wf_converse) (auto simp: wf_graph_def)
  moreover have "{(i, j). j < tg_size g \<and> i \<in> set (tg_dependents g ! j)}
      \<subseteq> (dependency_edges (tg_dependencies g))\<inverse>"
    using assms by (auto simp: wf_graph_dependents(2) dependency_edges_def)
      (simp add: wf_graph_def)
  ultimately show ?thesis by (rule wf_subset)
qed

lemma critical_path_longest_chain:
  assumes "wf_graph g" and "i < tg_size g"
  shows "(\<forall>rest. is_chain (tg_dependents g) (i # rest) \<longrightarrow>
        min (2 ^ 64 - 1) (chain_seconds (tg_nodes g) (i # rest)) \<le> unat (tg_critical_path_seconds g ! i))
    \<and> (\<exists>rest. is_chain (tg_dependents g) (i # rest) \<and>
        unat (tg_critical_path_seconds g ! i) = min (2 ^ 64 - 1) (chain_seconds (tg_nodes g) (i # rest)))"
  using wf_graph_wf_dependents [OF assms(1)] assms(2)
proof (induction i rule: wf_induct_rule)
  case (less i)
  let ?cp = "tg_critical_path_seconds g" and ?P = "tg_dependents g" and ?sec = "chain_seconds (tg_nodes g)"
  let ?tail = "longest_tail ?cp (?P ! i) 0" and ?M = "2 ^ 64 - 1 :: nat"
  have cp: "unat (?cp ! i) = min ?M (unat (node_seconds (tg_nodes g) i) + unat ?tail)"
    using assms(1) less.prems by (simp add: wf_graph_def unat_saturating_add)
  have IH: "(\<forall>rest. is_chain ?P (d # rest) \<longrightarrow> min ?M (?sec (d # rest)) \<le> unat (?cp ! d))
      \<and> (\<exists>rest. is_chain ?P (d # rest) \<and> unat (?cp ! d) = min ?M (?sec (d # rest)))"
    if "d \<in> set (?P ! i)" for d
    using less.IH that less.prems wf_graph_dependents(2) [OF assms(1) less.prems] by blast
  show ?case
  proof (intro conjI allI impI)
    fix rest
    assume chain: "is_chain ?P (i # rest)"
    show "min ?M (?sec (i # rest)) \<le> unat (?cp ! i)"
    proof (cases rest)
      case Nil
      then show ?thesis using cp by simp
    next
      case (Cons d rest')
      then have d: "d \<in> set (?P ! i)" "is_chain ?P (d # rest')" using chain by auto
      then have "min ?M (?sec (d # rest')) \<le> unat (?cp ! d)" using IH by blast
      also have "\<dots> \<le> unat ?tail" using longest_tail_ge(2) [OF d(1)] by (simp add: word_le_nat_alt)
      finally show ?thesis using cp Cons by simp
    qed
  next
    show "\<exists>rest. is_chain ?P (i # rest) \<and> unat (?cp ! i) = min ?M (?sec (i # rest))"
    proof (cases "?tail = 0")
      case True
      then have "unat (?cp ! i) = min ?M (?sec [i])" using cp by simp
      then show ?thesis by (intro exI [of _ "[]"]) simp
    next
      case False
      then obtain d where d: "d \<in> set (?P ! i)" "?tail = ?cp ! d"
        using longest_tail_attained [of ?cp "?P ! i" 0] by auto
      then obtain rest where "is_chain ?P (d # rest)" "unat (?cp ! d) = min ?M (?sec (d # rest))"
        using IH by blast
      then show ?thesis using cp d by (intro exI [of _ "d # rest"]) auto
    qed
  qed
qed

subsection \<open>The interface its clients use\<close>

text \<open>
  The ready set and the scheduler use a graph through these operations and laws only: ranges,
  the two directions agreeing, acyclicity and distinct order keys.
\<close>

locale task_dag =
  fixes valid :: "'g \<Rightarrow> bool"
    and size_of :: "'g \<Rightarrow> nat"
    and deps :: "'g \<Rightarrow> nat \<Rightarrow> nat list"
    and dependents :: "'g \<Rightarrow> nat \<Rightarrow> nat list"
    and key :: "'g \<Rightarrow> nat \<Rightarrow> task_order_key"
  assumes deps_ok: "valid g \<Longrightarrow> i < size_of g \<Longrightarrow> distinct (deps g i) \<and> set (deps g i) \<subseteq> {..<size_of g}"
    and dependents_ok: "valid g \<Longrightarrow> j < size_of g \<Longrightarrow>
      distinct (dependents g j) \<and> set (dependents g j) = {i. i < size_of g \<and> j \<in> set (deps g i)}"
    and acyclic_deps: "valid g \<Longrightarrow> acyclic {(d, i). i < size_of g \<and> d \<in> set (deps g i)}"
    and key_inj: "valid g \<Longrightarrow> inj_on (key g) {..<size_of g}"
begin

lemma finite_edges: "valid g \<Longrightarrow> finite {(d, i). i < size_of g \<and> d \<in> set (deps g i)}"
proof -
  have "{(d, i). i < size_of g \<and> d \<in> set (deps g i)} \<subseteq> (\<Union>i < size_of g. set (deps g i) \<times> {i})"
    by auto
  then show ?thesis by (rule finite_subset) auto
qed

text \<open>While tasks remain, some remaining task has all its dependencies done: no deadlock.\<close>

lemma unfinished_has_ready:
  assumes "valid g" and "j < size_of g" and "j \<notin> S"
  shows "\<exists>i < size_of g. i \<notin> S \<and> set (deps g i) \<subseteq> S" (is ?ready)
proof -
  have "wf {(d, i). i < size_of g \<and> d \<in> set (deps g i)}"
    using acyclic_deps finite_edges assms(1) by (intro finite_acyclic_wf)
  then have "j < size_of g \<longrightarrow> j \<notin> S \<longrightarrow> ?ready"
  proof (induction j rule: wf_induct_rule)
    case (less j)
    show ?case
    proof (intro impI)
      assume j: "j < size_of g" "j \<notin> S"
      show ?ready
      proof (cases "set (deps g j) \<subseteq> S")
        case True
        with j show ?thesis by blast
      next
        case False
        then obtain d where "d \<in> set (deps g j)" "d \<notin> S" by blast
        with less j deps_ok [OF assms(1) j(1)] show ?thesis by blast
      qed
    qed
  qed
  with assms show ?thesis by blast
qed

lemma dependents_irrefl: "valid g \<Longrightarrow> j < size_of g \<Longrightarrow> j \<notin> set (dependents g j)"
  using dependents_ok [of g j] acyclic_deps [of g] by (auto simp: acyclic_def)

end

definition deps_at :: "'j task_graph \<Rightarrow> nat \<Rightarrow> nat list" where
  "deps_at g i = tg_dependencies g ! i"

definition dependents_at :: "'j task_graph \<Rightarrow> nat \<Rightarrow> nat list" where
  "dependents_at g i = tg_dependents g ! i"

definition order_key_at :: "'j task_graph \<Rightarrow> nat \<Rightarrow> task_order_key" where
  "order_key_at g i = tn_order_key (tg_nodes g ! i)"

interpretation dag: task_dag wf_graph tg_size deps_at dependents_at order_key_at
proof (unfold_locales, goal_cases)
  case (1 g i)
  then show ?case using wf_graph_deps by (simp add: deps_at_def)
next
  case (2 g j)
  then show ?case using wf_graph_dependents [of g j]
    by (auto simp: dependents_at_def deps_at_def dependents_of_def)
next
  case (3 g)
  then show ?case
    using wf_graph_acyclic [of g] wf_graph_length [of g] by (simp add: deps_at_def dependency_edges_def)
next
  case (4 g)
  then show ?case using wf_graph_keys [of g]
    by (auto simp: inj_on_def order_key_at_def tg_size_def distinct_conv_nth)
qed

subsection \<open>Which inputs are accepted\<close>

text \<open>The dependency relation on task ids, before any index is assigned.\<close>

definition id_edges :: "'j task_node list \<Rightarrow> (string \<times> string) set" where
  "id_edges nodes = {(d, node_id node) | d node. node \<in> set nodes \<and> d \<in> set (ts_depends_on (tn_spec node))}"

lemma trancl_carrier: "(a, b) \<in> r\<^sup>+ \<Longrightarrow> r \<subseteq> A \<times> A \<Longrightarrow> a \<in> A \<and> b \<in> A"
  by (induction rule: trancl_induct) auto

lemma trancl_map_inj:
  assumes "inj_on f A" and "r \<subseteq> A \<times> A"
  shows "(x, y) \<in> (map_prod f f ` r)\<^sup>+ \<longleftrightarrow> (\<exists>a b. x = f a \<and> y = f b \<and> (a, b) \<in> r\<^sup>+)" (is "?l \<longleftrightarrow> ?r")
proof
  assume ?l
  then show ?r
  proof (induction rule: trancl_induct)
    case (base y)
    then show ?case by auto
  next
    case (step y z)
    then obtain a b b' c where ab: "x = f a" "y = f b" "(a, b) \<in> r\<^sup>+"
      and bc: "y = f b'" "z = f c" "(b', c) \<in> r" by auto
    have "b \<in> A" using trancl_carrier [OF ab(3) assms(2)] by blast
    moreover have "b' \<in> A" using bc(3) assms(2) by blast
    ultimately have "b = b'" using assms(1) ab(2) bc(1) by (simp add: inj_on_def)
    then have "(a, c) \<in> r\<^sup>+" using ab(3) bc(3) by (simp add: trancl.trancl_into_trancl)
    with ab bc show ?case by blast
  qed
next
  assume ?r
  then obtain a b where "x = f a" "y = f b" "(a, b) \<in> r\<^sup>+" by blast
  moreover have "(f a, f b) \<in> (map_prod f f ` r)\<^sup>+" if "(a, b) \<in> r\<^sup>+" for a b
    using that
  proof (induction rule: trancl_induct)
    case (base b)
    then show ?case by (intro r_into_trancl) force
  next
    case (step b c)
    moreover have "(f b, f c) \<in> map_prod f f ` r" using step.hyps(2) by force
    ultimately show ?case by (meson trancl.trancl_into_trancl)
  qed
  ultimately show ?l by blast
qed

lemma acyclic_map_inj:
  assumes "inj_on f A" and "r \<subseteq> A \<times> A"
  shows "acyclic (map_prod f f ` r) \<longleftrightarrow> acyclic r"
proof -
  have "\<exists>b. (b, b) \<in> r\<^sup>+" if "f a = f b" "(a, b) \<in> r\<^sup>+" for a b
  proof -
    have "a \<in> A \<and> b \<in> A" using trancl_carrier [OF that(2) assms(2)] .
    with that assms(1) show ?thesis by (metis inj_on_def)
  qed
  then show ?thesis unfolding acyclic_def trancl_map_inj [OF assms] by blast
qed

lemma id_edges_index:
  assumes "index_nodes_from 0 Map.empty nodes = Inr m" and "length D = length nodes"
    and "\<forall>k < length nodes. D ! k = resolved_dependencies m (nodes ! k)
           \<and> set (ts_depends_on (tn_spec (nodes ! k))) \<subseteq> dom m"
  shows "id_edges nodes = map_prod (\<lambda>i. node_id (nodes ! i)) (\<lambda>i. node_id (nodes ! i)) ` dependency_edges D"
proof -
  note M = index_nodes(2) [OF assms(1)]
  have at: "(d, node_id (nodes ! k)) \<in> map_prod (\<lambda>i. node_id (nodes ! i)) (\<lambda>i. node_id (nodes ! i)) ` dependency_edges D"
    if "k < length nodes" "d \<in> set (ts_depends_on (tn_spec (nodes ! k)))" for d k
  proof -
    have "d \<in> dom m" using that assms(3) by blast
    then obtain j where j: "m d = Some j" by blast
    then have "node_id (nodes ! j) = d" using M by simp
    moreover have "(j, k) \<in> dependency_edges D"
      using that j assms(2,3) by (force simp: dependency_edges_def)
    ultimately show ?thesis by force
  qed
  have named: "node_id (nodes ! j) \<in> set (ts_depends_on (tn_spec (nodes ! k)))"
    if "k < length nodes" "j \<in> set (D ! k)" for j k
  proof -
    have "j \<in> set (resolved_dependencies m (nodes ! k))"
      and "set (ts_depends_on (tn_spec (nodes ! k))) \<subseteq> dom m" using that assms(3) by auto
    then obtain d where d: "d \<in> set (ts_depends_on (tn_spec (nodes ! k)))" "j = the (m d)" "d \<in> dom m"
      by (simp only: set_map image_iff) blast
    have "m d = Some j" using d(2,3) by auto
    then show ?thesis using M d(1) by simp
  qed
  show ?thesis
  proof (intro set_eqI iffI)
    fix e
    assume "e \<in> id_edges nodes"
    then show "e \<in> map_prod (\<lambda>i. node_id (nodes ! i)) (\<lambda>i. node_id (nodes ! i)) ` dependency_edges D"
      using at by (auto simp: id_edges_def in_set_conv_nth [of _ nodes])
  next
    fix e
    assume "e \<in> map_prod (\<lambda>i. node_id (nodes ! i)) (\<lambda>i. node_id (nodes ! i)) ` dependency_edges D"
    then show "e \<in> id_edges nodes"
      using named assms(2) by (auto simp: id_edges_def dependency_edges_def) (metis nth_mem)
  qed
qed

text \<open>The checks before Kahn's loop, and what the loop then decides.\<close>

definition valid_nodes :: "'j exec_lib \<Rightarrow> 'j task_node list \<Rightarrow> bool" where
  "valid_nodes lib nodes \<longleftrightarrow>
     (\<forall>node \<in> set nodes. validate_task_spec lib (tn_spec node) = None
        \<and> ts_build_session_id (tn_spec node) = ts_build_session_id (tn_spec (hd nodes))
        \<and> set (ts_depends_on (tn_spec node)) \<subseteq> node_id ` set nodes)
     \<and> distinct (map tn_order_key nodes) \<and> distinct (map node_id nodes)"

lemma link_nodes_from_total:
  "(\<forall>node \<in> set nodes. set (ts_depends_on (tn_spec node)) \<subseteq> dom m) \<Longrightarrow>
     \<exists>D P. link_nodes_from m i nodes links = Inr (D, P)"
proof -
  assume dom: "\<forall>node \<in> set nodes. set (ts_depends_on (tn_spec node)) \<subseteq> dom m"
  then have "link_nodes_from m i nodes links \<noteq> Inl e" for e
    using link_nodes_from_Inl by blast
  then show ?thesis by (cases "link_nodes_from m i nodes links") auto
qed

text \<open>A task Kahn's loop never reaches is on a cycle or behind one.\<close>

lemma stuck_behind_cycle:
  assumes "finite E" and "i \<in> U" and "\<And>j. j \<in> U \<Longrightarrow> \<exists>d \<in> U. (d, j) \<in> E"
  shows "\<exists>c. (c, c) \<in> E\<^sup>+ \<and> (c, i) \<in> E\<^sup>*"
proof (rule ccontr)
  assume none: "\<nexists>c. (c, c) \<in> E\<^sup>+ \<and> (c, i) \<in> E\<^sup>*"
  let ?R = "E \<inter> {(d, j). (j, i) \<in> E\<^sup>*}"
  have anc: "(y, i) \<in> E\<^sup>*" if "(x, y) \<in> ?R\<^sup>+" for x y
    using that by (induction rule: trancl_induct) auto
  have "acyclic ?R"
    using none anc trancl_mono [of _ ?R E] unfolding acyclic_def by blast
  then have "wf ?R" using assms(1) by (intro finite_acyclic_wf) auto
  then obtain j where j: "j \<in> U \<and> (j, i) \<in> E\<^sup>*"
    and least: "\<And>d. (d, j) \<in> ?R \<Longrightarrow> \<not> (d \<in> U \<and> (d, i) \<in> E\<^sup>*)"
    using assms(2) by (rule_tac wfE_min [of ?R i "{j. j \<in> U \<and> (j, i) \<in> E\<^sup>*}"]) auto
  obtain d where d: "d \<in> U" "(d, j) \<in> E" using assms(3) j by blast
  with j least show False by (meson IntI case_prodI converse_rtrancl_into_rtrancl mem_Collect_eq)
qed

lemma map_prod_trancl:
  "(a, b) \<in> r\<^sup>+ \<Longrightarrow> (f a, f b) \<in> (map_prod f f ` r)\<^sup>+"
proof (induction rule: trancl_induct)
  case (base b)
  then show ?case by (intro r_into_trancl) force
next
  case (step b c)
  moreover have "(f b, f c) \<in> map_prod f f ` r" using step.hyps(2) by force
  ultimately show ?case by (meson trancl.trancl_into_trancl)
qed

lemma kahn_stuck:
  assumes inv: "kahn_inv D pending order []" and "length order \<noteq> length D"
    and rng: "\<forall>i < length D. distinct (D ! i) \<and> set (D ! i) \<subseteq> {..<length D}"
  defines "stuck \<equiv> length (takeWhile (\<lambda>count. count = 0) pending)"
  shows "stuck < length D"
    and "\<exists>c. (c, c) \<in> (dependency_edges D)\<^sup>+ \<and> (c, stuck) \<in> (dependency_edges D)\<^sup>*"
proof -
  have len: "length pending = length D" and sub: "set order \<subseteq> {..<length D}" and dist: "distinct order"
    and reached: "\<And>i. i < length D \<Longrightarrow> i \<in> set order \<longleftrightarrow> pending ! i = 0"
    and cnt: "\<And>i. i < length D \<Longrightarrow> pending ! i = card (set (D ! i) - set order)"
    using inv by (auto simp: kahn_inv_def topological_def)
  show lt: "stuck < length D"
  proof (rule ccontr)
    assume "\<not> stuck < length D"
    then have "takeWhile (\<lambda>count. count = 0) pending = pending"
      unfolding stuck_def by (metis len length_takeWhile_le nat_less_le takeWhile_eq_take take_all_iff)
    then have "\<forall>x \<in> set pending. x = 0" by (simp only: takeWhile_eq_all_conv)
    then have "set order = {..<length D}" using reached len sub by auto
    then show False using assms(2) dist by (metis card_lessThan distinct_card)
  qed
  have "pending ! stuck \<noteq> 0"
    using nth_length_takeWhile [of "\<lambda>count. count = 0" pending] lt len unfolding stuck_def by simp
  then have "stuck \<in> {..<length D} - set order" using lt reached by simp
  then show "\<exists>c. (c, c) \<in> (dependency_edges D)\<^sup>+ \<and> (c, stuck) \<in> (dependency_edges D)\<^sup>*"
  proof (rule stuck_behind_cycle [OF finite_dependency_edges])
    fix j
    assume j: "j \<in> {..<length D} - set order"
    then have "card (set (D ! j) - set order) \<noteq> 0" using reached cnt by fastforce
    then obtain d where "d \<in> set (D ! j)" "d \<notin> set order" by (auto simp: card_eq_0_iff)
    then show "\<exists>d \<in> {..<length D} - set order. (d, j) \<in> dependency_edges D"
      using j rng by (auto simp: dependency_edges_def)
  qed
qed

lemma task_graph_decides:
  assumes "valid_nodes lib nodes"
  shows "if acyclic (id_edges nodes) then \<exists>g. task_graph lib nodes = Inr g
         else \<exists>stuck cyclic. task_graph lib nodes = Inl (TaskGraphError dependency_cycle stuck)
           \<and> (cyclic, cyclic) \<in> (id_edges nodes)\<^sup>+ \<and> (cyclic, stuck) \<in> (id_edges nodes)\<^sup>*"
proof -
  have v: "validate_node_identities lib nodes = None"
    using assms by (simp add: valid_nodes_def validate_node_identities_def validate_nodes_from_None)
  have ids: "distinct (map node_id nodes)" using assms by (simp add: valid_nodes_def)
  obtain m where m: "index_nodes_from 0 Map.empty nodes = Inr m"
    using index_nodes_from_Inl [of 0 Map.empty nodes] ids
    by (cases "index_nodes_from 0 Map.empty nodes") auto
  note M = index_nodes(2) [OF m]
  have "node_id ` set nodes \<subseteq> dom m"
    by (auto simp: in_set_conv_nth M dom_def)
  then have "\<forall>node \<in> set nodes. set (ts_depends_on (tn_spec node)) \<subseteq> dom m"
    using assms unfolding valid_nodes_def by blast
  then obtain D P where l: "link_nodes_from m 0 nodes (replicate (length nodes) [], replicate (length nodes) []) = Inr (D, P)"
    using link_nodes_from_total by blast
  have dist: "\<forall>node \<in> set nodes. distinct (ts_depends_on (tn_spec node))"
    using assms validate_task_spec_depends_on(2) unfolding valid_nodes_def by blast
  note L = link_nodes [OF l m dist]
  obtain pending order where k: "kahn_order D P = (pending, order)" by fastforce
  have rng: "\<forall>i < length D. distinct (D ! i) \<and> set (D ! i) \<subseteq> {..<length D}" using L by metis
  have k': "kahn_order D (map (dependents_of D) [0..<length D]) = (pending, order)"
    using k L(1,2) by simp
  note K = kahn_order_spec [OF k' rng]
  have "inj_on (\<lambda>i. node_id (nodes ! i)) {..<length nodes}"
    using ids by (auto simp: inj_on_def distinct_conv_nth)
  moreover have "dependency_edges D \<subseteq> {..<length nodes} \<times> {..<length nodes}"
    using rng L(1) by (auto simp: dependency_edges_def)
  moreover have edges: "id_edges nodes
      = map_prod (\<lambda>i. node_id (nodes ! i)) (\<lambda>i. node_id (nodes ! i)) ` dependency_edges D"
    by (rule id_edges_index [OF m L(1)]) (use L(3) in blast)
  ultimately have acyc: "acyclic (id_edges nodes) \<longleftrightarrow> acyclic (dependency_edges D)"
    by (simp add: acyclic_map_inj)
  show ?thesis
  proof (cases "length order = length nodes")
    case True
    then show ?thesis using K(3) acyc v m l k L(1) by (simp add: task_graph_def)
  next
    case False
    have inv: "kahn_inv D pending order []"
      using kahn_inv_result [OF kahn_inv_start [OF rng]] k' by (simp add: kahn_order_def)
    let ?stuck = "length (takeWhile (\<lambda>count. count = 0) pending)"
    have len: "length order \<noteq> length D" using False L(1) by simp
    obtain c where c: "(c, c) \<in> (dependency_edges D)\<^sup>+" "(c, ?stuck) \<in> (dependency_edges D)\<^sup>*"
      using kahn_stuck(2) [OF inv len rng] by blast
    let ?f = "\<lambda>i. node_id (nodes ! i)"
    have "(?f c, ?f c) \<in> (id_edges nodes)\<^sup>+" using map_prod_trancl [OF c(1), of ?f] edges by simp
    moreover have "(?f c, ?f ?stuck) \<in> (id_edges nodes)\<^sup>*"
      using map_prod_trancl [of c ?stuck "dependency_edges D" ?f] c(2) edges
      by (auto simp: rtrancl_eq_or_trancl)
    moreover have "task_graph lib nodes = Inl (TaskGraphError dependency_cycle (?f ?stuck))"
      using False v m l k by (simp add: task_graph_def)
    ultimately show ?thesis using False K(3) L(1) acyc by auto
  qed
qed

end
