(* ===== verification/ReadySet.thy ===== *)
theory ReadySet
  imports TaskGraphFacts
begin

text \<open>
  Which tasks may run and in which order they are offered: \<open>ReadySet\<close> (task_graph.hpp,
  ready_set.cpp) and \<open>ReadyQueue\<close> (ready_queue.hpp). The queue is a \<open>std::set\<close> under a
  comparison; \<open>ordered_insert\<close> and \<open>ordered_erase\<close> are its two updates on the ascending list of
  its elements, and the locale \<open>ordered_set\<close> shows what they do under any strict total order.
\<close>

subsection \<open>Ordered sets under a comparison\<close>

fun ordered_insert :: "('a \<Rightarrow> 'a \<Rightarrow> bool) \<Rightarrow> 'a \<Rightarrow> 'a list \<Rightarrow> 'a list" where
  "ordered_insert lt x [] = [x]"
| "ordered_insert lt x (y # ys) =
     (if lt x y then x # y # ys
      else if lt y x then y # ordered_insert lt x ys else y # ys)"

fun ordered_erase :: "('a \<Rightarrow> 'a \<Rightarrow> bool) \<Rightarrow> 'a \<Rightarrow> 'a list \<Rightarrow> 'a list" where
  "ordered_erase lt x [] = []"
| "ordered_erase lt x (y # ys) =
     (if lt x y then y # ys else if lt y x then y # ordered_erase lt x ys else ys)"

locale ordered_set =
  fixes valid :: "'c \<Rightarrow> bool"
    and carrier :: "'c \<Rightarrow> 'a set"
    and before :: "'c \<Rightarrow> 'a \<Rightarrow> 'a \<Rightarrow> bool"
  assumes before_irrefl: "valid c \<Longrightarrow> \<not> before c x x"
    and before_trans: "valid c \<Longrightarrow> before c x y \<Longrightarrow> before c y z \<Longrightarrow> before c x z"
    and before_total: "valid c \<Longrightarrow> x \<in> carrier c \<Longrightarrow> y \<in> carrier c \<Longrightarrow>
      x = y \<or> before c x y \<or> before c y x"
begin

lemma ordered_distinct: "valid c \<Longrightarrow> sorted_wrt (before c) xs \<Longrightarrow> distinct xs"
  by (induction xs) (auto simp: before_irrefl)

lemma set_ordered_insert:
  assumes "valid c" and "set xs \<subseteq> carrier c" and "x \<in> carrier c"
  shows "set (ordered_insert (before c) x xs) = insert x (set xs)"
  using assms(2)
proof (induction xs)
  case (Cons y ys)
  then show ?case using before_total [OF assms(1) assms(3), of y] by auto
qed simp

lemma sorted_ordered_insert:
  assumes "valid c" and "set xs \<subseteq> carrier c" and "x \<in> carrier c" and "sorted_wrt (before c) xs"
  shows "sorted_wrt (before c) (ordered_insert (before c) x xs)"
  using assms(2,4)
proof (induction xs)
  case (Cons y ys)
  then show ?case
    using set_ordered_insert [OF assms(1) _ assms(3), of ys] before_trans [OF assms(1)] by auto
qed simp

lemma set_ordered_erase:
  assumes "valid c" and "set xs \<subseteq> carrier c" and "x \<in> carrier c" and "sorted_wrt (before c) xs"
  shows "set (ordered_erase (before c) x xs) = set xs - {x}"
  using assms(2,4)
proof (induction xs)
  case (Cons y ys)
  have sorted: "sorted_wrt (before c) ys" and above: "\<forall>z \<in> set ys. before c y z"
    and y: "y \<in> carrier c" and ys: "set ys \<subseteq> carrier c"
    using Cons.prems by auto
  consider (less) "before c x y" | (greater) "before c y x" "\<not> before c x y" | (eq) "x = y" "\<not> before c x y"
    using before_total [OF assms(1) assms(3) y] before_irrefl [OF assms(1)] by blast
  then show ?case
  proof cases
    case less
    have "x \<notin> set (y # ys)"
      using above before_irrefl [OF assms(1)] before_trans [OF assms(1) less] less by (metis set_ConsD)
    then show ?thesis using less by simp
  next
    case greater
    then have "x \<noteq> y" using before_irrefl [OF assms(1)] by blast
    then show ?thesis using greater Cons.IH [OF ys sorted] by auto
  next
    case eq
    then have "x \<notin> set ys" using above before_irrefl [OF assms(1)] by blast
    then show ?thesis using eq by simp
  qed
qed simp

lemma sorted_ordered_erase:
  assumes "valid c" and "set xs \<subseteq> carrier c" and "x \<in> carrier c" and "sorted_wrt (before c) xs"
  shows "sorted_wrt (before c) (ordered_erase (before c) x xs)"
  using assms(2,4)
proof (induction xs)
  case (Cons y ys)
  then show ?case using set_ordered_erase [OF assms(1) _ assms(3), of ys] by auto
qed simp

text \<open>The list is determined by its elements: insertion order leaves no trace.\<close>

lemma ordered_unique:
  assumes "valid c" and "sorted_wrt (before c) xs" and "sorted_wrt (before c) ys" and "set xs = set ys"
  shows "xs = ys"
  using assms(2-4)
proof (induction xs arbitrary: ys)
  case (Cons x xs)
  then obtain y ys' where ys: "ys = y # ys'" by (cases ys) auto
  have "x = y"
    using Cons.prems ys before_irrefl [OF assms(1)] before_trans [OF assms(1)]
    by (metis insert_iff list.set(2) sorted_wrt.simps(2))
  moreover have "x \<notin> set xs" "y \<notin> set ys'"
    using Cons.prems ys before_irrefl [OF assms(1)] by auto
  ultimately have "set xs = set ys'" using Cons.prems(3) ys by (metis insert_ident list.set(2))
  moreover have "sorted_wrt (before c) xs" "sorted_wrt (before c) ys'"
    using Cons.prems(1,2) ys by simp_all
  ultimately have "xs = ys'" using Cons.IH by blast
  with \<open>x = y\<close> show ?case using ys by simp
qed simp

end

subsection \<open>The ready queue\<close>

definition rq_before :: "'j task_graph \<Rightarrow> nat \<Rightarrow> nat \<Rightarrow> bool" where
  "rq_before g left right =
     (let left_path = tg_critical_path_seconds g ! left;
          right_path = tg_critical_path_seconds g ! right
      in if left_path \<noteq> right_path then left_path > right_path
         else order_key_at g left < order_key_at g right)"

definition rq_insert :: "'j task_graph \<Rightarrow> nat \<Rightarrow> nat list \<Rightarrow> nat list" where
  "rq_insert g task queue = ordered_insert (rq_before g) task queue"

definition rq_erase :: "'j task_graph \<Rightarrow> nat \<Rightarrow> nat list \<Rightarrow> nat list" where
  "rq_erase g task queue = ordered_erase (rq_before g) task queue"

interpretation rq: ordered_set wf_graph "\<lambda>g. {..<tg_size g}" rq_before
proof (unfold_locales, goal_cases)
  case (1 g x)
  then show ?case by (simp add: rq_before_def)
next
  case (2 g x y z)
  then show ?case by (auto simp: rq_before_def Let_def split: if_splits)
next
  case (3 g x y)
  then have "order_key_at g x = order_key_at g y \<longleftrightarrow> x = y"
    using dag.key_inj [of g] by (auto simp: inj_on_def)
  then show ?case by (auto simp: rq_before_def Let_def not_less_iff_gr_or_eq)
qed

definition rq_wf :: "'j task_graph \<Rightarrow> nat list \<Rightarrow> bool" where
  "rq_wf g queue \<longleftrightarrow> set queue \<subseteq> {..<tg_size g} \<and> sorted_wrt (rq_before g) queue"

lemma rq_insert [simp]:
  assumes "wf_graph g" and "rq_wf g queue" and "task < tg_size g"
  shows "set (rq_insert g task queue) = insert task (set queue)" and "rq_wf g (rq_insert g task queue)"
  using assms rq.set_ordered_insert [of g queue task] rq.sorted_ordered_insert [of g queue task]
  by (auto simp: rq_wf_def rq_insert_def)

lemma rq_erase [simp]:
  assumes "wf_graph g" and "rq_wf g queue" and "task < tg_size g"
  shows "set (rq_erase g task queue) = set queue - {task}" and "rq_wf g (rq_erase g task queue)"
  using assms rq.set_ordered_erase [of g queue task] rq.sorted_ordered_erase [of g queue task]
  by (auto simp: rq_wf_def rq_erase_def)

lemma rq_wf_Nil [simp]: "rq_wf g []"
  by (simp add: rq_wf_def)

subsection \<open>The ready set\<close>

record ready_set =
  rs_pending_dependencies :: "nat list"
  rs_complete :: "bool list"
  rs_completed_count :: nat

text \<open>What the scheduler's calls can raise: \<open>std::out_of_range\<close> from \<open>.at\<close>, or an \<open>ExecError\<close>.\<close>

datatype exec_fault = StdOutOfRange | ExecFault exec_error_code

definition ready_set_of :: "'j task_graph \<Rightarrow> ready_set" where
  "ready_set_of g =
     \<lparr>rs_pending_dependencies = map (\<lambda>i. length (deps_at g i)) [0..<tg_size g],
      rs_complete = replicate (tg_size g) False, rs_completed_count = 0\<rparr>"

definition rs_initially_ready :: "'j task_graph \<Rightarrow> nat list" where
  "rs_initially_ready g = filter (\<lambda>i. deps_at g i = []) [0..<tg_size g]"

definition rs_complete_task ::
  "'j task_graph \<Rightarrow> ready_set \<Rightarrow> nat \<Rightarrow> exec_fault + (ready_set \<times> nat list)" where
  "rs_complete_task g rs index =
     (if \<not> index < length (rs_complete rs) then Inl StdOutOfRange
      else if rs_complete rs ! index then Inl (ExecFault invalid_value)
      else let (pending, ready) =
             release_dependents (dependents_at g index) (rs_pending_dependencies rs) []
           in Inr (rs\<lparr>rs_complete := (rs_complete rs)[index := True],
                      rs_completed_count := rs_completed_count rs + 1,
                      rs_pending_dependencies := pending\<rparr>, sort ready))"

definition rs_is_complete :: "ready_set \<Rightarrow> nat \<Rightarrow> exec_fault + bool" where
  "rs_is_complete rs index =
     (if index < length (rs_complete rs) then Inr (rs_complete rs ! index) else Inl StdOutOfRange)"

definition rs_all_complete :: "'j task_graph \<Rightarrow> ready_set \<Rightarrow> bool" where
  "rs_all_complete g rs \<longleftrightarrow> rs_completed_count rs = tg_size g"

definition rs_completed :: "ready_set \<Rightarrow> nat set" where
  "rs_completed rs = {i. i < length (rs_complete rs) \<and> rs_complete rs ! i}"

definition rs_inv :: "'j task_graph \<Rightarrow> ready_set \<Rightarrow> bool" where
  "rs_inv g rs \<longleftrightarrow>
     length (rs_pending_dependencies rs) = tg_size g \<and> length (rs_complete rs) = tg_size g
     \<and> rs_completed_count rs = card (rs_completed rs)
     \<and> (\<forall>i < tg_size g. rs_pending_dependencies rs ! i = card (set (deps_at g i) - rs_completed rs))"

lemma rs_completed_update:
  "i < length (rs_complete rs) \<Longrightarrow>
     rs_completed (rs\<lparr>rs_complete := (rs_complete rs)[i := True]\<rparr>) = insert i (rs_completed rs)"
  by (auto simp: rs_completed_def nth_list_update)

lemma rs_completed_simps [simp]:
  "rs_completed (rs\<lparr>rs_completed_count := n\<rparr>) = rs_completed rs"
  "rs_completed (rs\<lparr>rs_pending_dependencies := p\<rparr>) = rs_completed rs"
  by (simp_all add: rs_completed_def)

lemma rs_inv_start: "wf_graph g \<Longrightarrow> rs_inv g (ready_set_of g)"
proof -
  assume g: "wf_graph g"
  have "rs_completed (ready_set_of g) = {}" by (auto simp: rs_completed_def ready_set_of_def)
  then show ?thesis
    using dag.deps_ok [OF g] by (simp add: rs_inv_def ready_set_of_def distinct_card)
qed

lemma rs_completed_start [simp]: "rs_completed (ready_set_of g) = {}"
  by (auto simp: rs_completed_def ready_set_of_def)

lemma rs_completed_subset: "rs_inv g rs \<Longrightarrow> rs_completed rs \<subseteq> {..<tg_size g}"
  by (auto simp: rs_inv_def rs_completed_def)

lemma rs_completed_finite [simp]: "finite (rs_completed rs)"
  by (simp add: rs_completed_def)

lemma rs_all_complete_iff: "rs_inv g rs \<Longrightarrow> rs_all_complete g rs \<longleftrightarrow> rs_completed rs = {..<tg_size g}"
proof -
  assume inv: "rs_inv g rs"
  have "card (rs_completed rs) = tg_size g \<longleftrightarrow> rs_completed rs = {..<tg_size g}"
    by (metis card_lessThan card_subset_eq finite_lessThan inv rs_completed_subset)
  with inv show ?thesis by (simp add: rs_inv_def rs_all_complete_def)
qed

text \<open>Completing a task: the invariant is kept and exactly the released dependents are returned.\<close>

lemma rs_complete_task_ok:
  assumes g: "wf_graph g" and inv: "rs_inv g rs" and i: "i < tg_size g" and new: "i \<notin> rs_completed rs"
  obtains rs' ready where "rs_complete_task g rs i = Inr (rs', ready)"
    and "rs_inv g rs'" and "rs_completed rs' = insert i (rs_completed rs)"
    and "sorted ready" and "distinct ready"
    and "set ready = {d. d < tg_size g \<and> i \<in> set (deps_at g d) \<and> set (deps_at g d) \<subseteq> insert i (rs_completed rs)}"
proof -
  let ?ds = "dependents_at g i" and ?p = "rs_pending_dependencies rs"
  have ds: "distinct ?ds" "set ?ds = {d. d < tg_size g \<and> i \<in> set (deps_at g d)}"
    using dag.dependents_ok [OF g i] by auto
  have len: "length ?p = tg_size g" "length (rs_complete rs) = tg_size g"
    and cnt: "\<And>d. d < tg_size g \<Longrightarrow> ?p ! d = card (set (deps_at g d) - rs_completed rs)"
    using inv by (auto simp: rs_inv_def)
  let ?p' = "map (\<lambda>d. if d \<in> set ?ds then ?p ! d - 1 else ?p ! d) [0..<length ?p]"
  let ?ready = "filter (\<lambda>d. ?p ! d = 1) ?ds"
  let ?rs' = "rs\<lparr>rs_complete := (rs_complete rs)[i := True],
      rs_completed_count := rs_completed_count rs + 1, rs_pending_dependencies := ?p'\<rparr>"
  have rel: "release_dependents ?ds ?p [] = (?p', ?ready)"
    using release_dependents_distinct [OF ds(1), of ?p "[]"] ds(2) len by auto
  have eq: "rs_complete_task g rs i = Inr (?rs', sort ?ready)"
    using i len new rel by (simp add: rs_complete_task_def rs_completed_def)
  have comp: "rs_completed ?rs' = insert i (rs_completed rs)"
    using rs_completed_update [of i rs] i len by (simp add: rs_completed_def)
  have minus: "set (deps_at g d) - insert i (rs_completed rs) = set (deps_at g d) - rs_completed rs - {i}" for d
    by auto
  have cnt': "?p' ! d = card (set (deps_at g d) - insert i (rs_completed rs))" if "d < tg_size g" for d
    using that len ds(2) new cnt [OF that] unfolding minus
    by (auto simp: card_Diff_singleton_if)
  have inv': "rs_inv g ?rs'"
    using inv cnt' new len comp unfolding rs_inv_def comp by (simp add: card_insert_if)
  have one: "?p ! d = 1 \<longleftrightarrow> set (deps_at g d) \<subseteq> insert i (rs_completed rs)"
    if "d < tg_size g" "i \<in> set (deps_at g d)" for d
  proof -
    have "i \<in> set (deps_at g d) - rs_completed rs" using that new by simp
    then have "card (set (deps_at g d) - rs_completed rs) = Suc (card (set (deps_at g d) - rs_completed rs - {i}))"
      by (metis List.finite_set card.remove finite_Diff)
    then have "?p ! d = 1 \<longleftrightarrow> set (deps_at g d) - rs_completed rs - {i} = {}"
      using cnt [OF that(1)] by simp
    then show ?thesis by blast
  qed
  have "set (sort ?ready) = {d. d < tg_size g \<and> i \<in> set (deps_at g d)
      \<and> set (deps_at g d) \<subseteq> insert i (rs_completed rs)}"
    using ds(2) one by auto
  then show ?thesis
    using that [OF eq inv' comp] ds(1) by simp
qed

lemma rs_complete_task_twice:
  "rs_inv g rs \<Longrightarrow> i \<in> rs_completed rs \<Longrightarrow> rs_complete_task g rs i = Inl (ExecFault invalid_value)"
  by (auto simp: rs_complete_task_def rs_completed_def)

end
