(* ===== verification/OrderedMaps.thy ===== *)
theory OrderedMaps
  imports Prelude "HOL-Library.Multiset"
begin

text \<open>
  \<open>std::map\<close> as the scheduler, the sinks and the policies use it: the list of its entries in
  ascending key order, which is also the order in which the code iterates it. The locale
  \<open>std_map\<close> states what the clients rely on; it is interpreted on the list operations.
\<close>

type_synonym ('k, 'v) std_map = "('k \<times> 'v) list"

definition map_wf :: "('k::linorder, 'v) std_map \<Rightarrow> bool" where
  "map_wf m \<longleftrightarrow> sorted_wrt (<) (List.map fst m)"

fun map_emplace :: "'k::linorder \<Rightarrow> 'v \<Rightarrow> ('k, 'v) std_map \<Rightarrow> ('k, 'v) std_map" where
  "map_emplace k v [] = [(k, v)]"
| "map_emplace k v ((k', v') # m) =
     (if k < k' then (k, v) # (k', v') # m
      else if k' < k then (k', v') # map_emplace k v m else (k', v') # m)"

definition map_erase :: "'k::linorder \<Rightarrow> ('k, 'v) std_map \<Rightarrow> ('k, 'v) std_map" where
  "map_erase k m = filter (\<lambda>entry. fst entry \<noteq> k) m"

definition map_modify :: "'k::linorder \<Rightarrow> ('v \<Rightarrow> 'v) \<Rightarrow> ('k, 'v) std_map \<Rightarrow> ('k, 'v) std_map" where
  "map_modify k f m = List.map (\<lambda>(k', v). (k', if k' = k then f v else v)) m"

lemma map_wf_distinct: "map_wf m \<Longrightarrow> distinct (List.map fst m)"
  by (simp add: map_wf_def sorted_wrt_less_distinct)

lemma map_wf_Nil [simp]: "map_wf []"
  by (simp add: map_wf_def)

lemma map_wf_Cons: "map_wf ((k, v) # m) \<longleftrightarrow> map_wf m \<and> (\<forall>k' \<in> fst ` set m. k < k')"
  by (auto simp: map_wf_def)

lemma map_of_outside: "\<forall>k' \<in> fst ` set m. k < k' \<Longrightarrow> map_of m (k :: 'k::linorder) = None"
  by (metis less_irrefl map_of_eq_None_iff)

lemma keys_map_emplace: "fst ` set (map_emplace k v m) = insert k (fst ` set m)"
  by (induction k v m rule: map_emplace.induct) (auto simp: not_less_iff_gr_or_eq)

lemma map_wf_emplace [simp]: "map_wf m \<Longrightarrow> map_wf (map_emplace k v m)"
  by (induction k v m rule: map_emplace.induct) (auto simp: map_wf_Cons keys_map_emplace)

lemma map_of_emplace [simp]:
  "map_wf m \<Longrightarrow> map_of (map_emplace k v m) x = (if x = k \<and> map_of m k = None then Some v else map_of m x)"
proof (induction k v m rule: map_emplace.induct)
  case (2 k v k' v' m)
  then have wf: "map_wf m" and above: "\<forall>x \<in> fst ` set m. k' < x" by (simp_all add: map_wf_Cons)
  consider "k < k'" | "k' < k" | "k = k'" by fastforce
  then show ?case
  proof cases
    case 1
    then have "map_of m k = None" using above by (intro map_of_outside) force
    then show ?thesis using 1 by auto
  next
    case 2
    then show ?thesis using "2.IH" wf by auto
  next
    case 3
    then show ?thesis by auto
  qed
qed simp

lemma map_wf_erase [simp]: "map_wf m \<Longrightarrow> map_wf (map_erase k m)"
  by (induction m) (auto simp: map_wf_def map_erase_def)

lemma map_of_erase [simp]: "map_of (map_erase k m) = (map_of m)(k := None)"
  by (induction m) (auto simp: map_erase_def)

lemma map_wf_modify [simp]: "map_wf (map_modify k f m) \<longleftrightarrow> map_wf m"
  by (simp add: map_wf_def map_modify_def case_prod_beta' comp_def)

lemma map_of_modify [simp]:
  "map_of (map_modify k f m) k' = (if k' = k then map_option f (map_of m k') else map_of m k')"
  by (induction m) (auto simp: map_modify_def)

lemma map_of_mem_iff: "map_wf m \<Longrightarrow> map_of m k = Some v \<longleftrightarrow> (k, v) \<in> set m"
  by (simp add: map_wf_distinct map_of_eq_Some_iff)

lemma set_map_emplace: "map_wf m \<Longrightarrow> map_of m k = None \<Longrightarrow> set (map_emplace k v m) = insert (k, v) (set m)"
proof (induction k v m rule: map_emplace.induct)
  case (2 k v k' v' m)
  then show ?case by (auto simp: map_wf_Cons split: if_splits)
qed simp

lemma length_map_emplace:
  "map_wf m \<Longrightarrow> map_of m k = None \<Longrightarrow> length (map_emplace k v m) = Suc (length m)"
  by (induction k v m rule: map_emplace.induct) (auto simp: map_wf_Cons split: if_splits)

lemma set_map_erase: "set (map_erase k m) = {p \<in> set m. fst p \<noteq> k}"
  by (auto simp: map_erase_def)

text \<open>Assignment through \<open>operator[]\<close>.\<close>

definition map_assign :: "'k::linorder \<Rightarrow> 'v \<Rightarrow> ('k, 'v) std_map \<Rightarrow> ('k, 'v) std_map" where
  "map_assign k v m = map_modify k (\<lambda>_. v) (map_emplace k v m)"

lemma map_wf_assign [simp]: "map_wf m \<Longrightarrow> map_wf (map_assign k v m)"
  by (simp add: map_assign_def)

lemma set_map_assign: "map_wf m \<Longrightarrow> set (map_assign k v m) \<subseteq> insert (k, v) (set m)"
proof
  fix e assume wf: "map_wf m" and "e \<in> set (map_assign k v m)"
  then show "e \<in> insert (k, v) (set m)"
    by (cases e) (auto simp: map_assign_def map_modify_def map_of_mem_iff [symmetric]
        map_of_mem_iff [OF map_wf_emplace [OF wf], symmetric] split: if_splits)
qed

lemma map_of_assign [simp]: "map_wf m \<Longrightarrow> map_of (map_assign k v m) = (map_of m)(k \<mapsto> v)"
  by (rule ext) (auto simp: map_assign_def split: option.splits)

text \<open>The values of a map.\<close>

definition vals :: "('k \<times> 'v) list \<Rightarrow> 'v set" where
  "vals m = snd ` set m"

lemma vals_emplace [simp]: "map_wf m \<Longrightarrow> map_of m k = None \<Longrightarrow> vals (map_emplace k v m) = insert v (vals m)"
  by (simp add: vals_def set_map_emplace)

lemma vals_modify: "v \<in> vals (map_modify k f m) \<Longrightarrow> v \<in> vals m \<or> (\<exists>u \<in> vals m. v = f u)"
  by (force simp: map_modify_def vals_def split: if_splits)

lemma vals_filter: "vals (filter P m) \<subseteq> vals m"
  by (auto simp: vals_def)

lemma vals_Nil [simp]: "vals [] = {}"
  by (simp add: vals_def)

lemma map_of_vals: "map_of m k = Some v \<Longrightarrow> v \<in> vals m"
  by (force simp: vals_def dest: map_of_SomeD)

lemma vals_map_of: "map_wf m \<Longrightarrow> v \<in> vals m \<longleftrightarrow> (\<exists>k. map_of m k = Some v)"
  by (force simp: vals_def map_of_mem_iff)

lemma map_wf_filter: "map_wf m \<Longrightarrow> map_wf (filter P m)"
  by (induction m) (auto simp: map_wf_def)

lemma map_of_filter_snd:
  "distinct (List.map fst m) \<Longrightarrow> map_of (filter (\<lambda>e. P (snd e)) m) k =
     (case map_of m k of None \<Rightarrow> None | Some v \<Rightarrow> if P v then Some v else None)"
  by (induction m) (auto simp: image_iff split: option.splits dest: map_of_SomeD)

definition keys :: "('k \<times> 'v) list \<Rightarrow> 'k set" where
  "keys m = fst ` set m"

lemma keys_emplace [simp]: "keys (map_emplace k v m) = insert k (keys m)"
  by (simp add: keys_def keys_map_emplace)

lemma keys_assign [simp]: "map_wf m \<Longrightarrow> keys (map_assign k v m) = insert k (keys m)"
  by (auto simp: keys_def map_assign_def map_modify_def image_image case_prod_unfold keys_map_emplace)

lemma keys_erase [simp]: "keys (map_erase k m) = keys m - {k}"
  by (auto simp: keys_def map_erase_def)

lemma keys_filter_fst: "keys (filter (\<lambda>e. P (fst e)) m) = {k \<in> keys m. P k}"
  by (auto simp: keys_def)

lemma map_modify_same: "map_wf m \<Longrightarrow> map_of m k = Some v \<Longrightarrow> map_modify k (\<lambda>_. v) m = m"
  unfolding map_modify_def by (rule map_idI) (auto simp: map_of_mem_iff, metis map_of_mem_iff option.inject)

lemma map_assign_fresh: "map_wf m \<Longrightarrow> map_of m k = None \<Longrightarrow> map_assign k v m = map_emplace k v m"
  by (simp add: map_assign_def map_modify_same)

lemma mset_map_emplace: "map_wf m \<Longrightarrow> map_of m k = None \<Longrightarrow> mset (map_emplace k v m) = add_mset (k, v) (mset m)"
  by (induction k v m rule: map_emplace.induct) (auto simp: map_wf_Cons split: if_splits)

lemma length_filter_emplace:
  "map_wf m \<Longrightarrow> map_of m k = None \<Longrightarrow>
   length (filter P (map_emplace k v m)) = length (filter P m) + (if P (k, v) then 1 else 0)"
  using arg_cong [OF mset_map_emplace, of m k "\<lambda>M. size (filter_mset P M)" v]
  by (simp flip: mset_filter)

subsection \<open>The interface\<close>

locale std_map =
  fixes invar :: "'m \<Rightarrow> bool"
    and start :: "'m"
    and lookup :: "'m \<Rightarrow> 'k \<Rightarrow> 'v option"
    and emplace :: "'k \<Rightarrow> 'v \<Rightarrow> 'm \<Rightarrow> 'm"
    and erase :: "'k \<Rightarrow> 'm \<Rightarrow> 'm"
  assumes invar_start: "invar start"
    and lookup_start: "lookup start k = None"
    and invar_emplace: "invar m \<Longrightarrow> invar (emplace k v m)"
    and invar_erase: "invar m \<Longrightarrow> invar (erase k m)"
    and lookup_emplace: "invar m \<Longrightarrow>
      lookup (emplace k v m) k' = (if k' = k \<and> lookup m k = None then Some v else lookup m k')"
    and lookup_erase: "invar m \<Longrightarrow> lookup (erase k m) k' = (if k' = k then None else lookup m k')"
begin

text \<open>Emplacing keeps every entry already there.\<close>

lemma emplace_keeps: "invar m \<Longrightarrow> lookup m k' = Some w \<Longrightarrow> lookup (emplace k v m) k' = Some w"
  by (auto simp: lookup_emplace)

lemma erase_emplace:
  "invar m \<Longrightarrow> lookup m k = None \<Longrightarrow> lookup (erase k (emplace k v m)) = lookup m"
  by (rule ext) (simp add: lookup_erase lookup_emplace invar_emplace)

text \<open>The keys present after emplacing a list of entries, whatever their order.\<close>

lemma dom_emplace_all:
  "invar m \<Longrightarrow> invar (fold (\<lambda>(k, v). emplace k v) entries m)
     \<and> dom (lookup (fold (\<lambda>(k, v). emplace k v) entries m)) = dom (lookup m) \<union> fst ` set entries"
proof (induction entries arbitrary: m)
  case (Cons e entries)
  obtain k v where e: "e = (k, v)" by fastforce
  have "dom (lookup (emplace k v m)) = insert k (dom (lookup m))"
    using Cons.prems by (auto simp: lookup_emplace dom_def)
  then show ?case using Cons.IH [OF invar_emplace [OF Cons.prems]] e by auto
qed simp

end

interpretation sm: std_map map_wf "[]" map_of map_emplace map_erase
  by unfold_locales (auto simp: domIff split: if_splits)

end
