(* ===== verification/Policies.thy ===== *)
theory Policies
  imports Records OrderedMaps
begin

text \<open>
  The scheduler's rules (lease_policy.hpp/.cpp, retry_policy.hpp/.cpp,
  scheduler_policy.hpp/.cpp). A \<open>std::chrono::milliseconds\<close> is an \<open>int\<close>; the saturating
  computation of a lease's length is over 64-bit words as in the source. The lemmas give the
  length in closed form and show that a validated policy never ends an attempt at its hard
  deadline before its lease could run out.
\<close>

subsection \<open>Lease policy\<close>

definition kMinHeartbeatsPerLeaseFloor :: int where
  "kMinHeartbeatsPerLeaseFloor = 3"

record lease_policy =
  lease_floor :: int
  lease_factor :: u64
  heartbeat_interval :: int
  attempt_deadline_floor :: int
  attempt_deadline_factor :: u64

definition default_lease_policy :: lease_policy where
  "default_lease_policy =
     \<lparr>lease_floor = 30000, lease_factor = 2, heartbeat_interval = 5000,
      attempt_deadline_floor = 600000, attempt_deadline_factor = 8\<rparr>"

definition validate_lease_policy :: "lease_policy \<Rightarrow> exec_error_code option" where
  "validate_lease_policy policy = first_error
     [guard_error (lease_floor policy \<le> 0 \<or> heartbeat_interval policy \<le> 0 \<or> lease_factor policy = 0)
        invalid_value,
      guard_error (heartbeat_interval policy * kMinHeartbeatsPerLeaseFloor \<ge> lease_floor policy)
        invalid_value,
      guard_error (attempt_deadline_floor policy < lease_floor policy
          \<or> attempt_deadline_factor policy < lease_factor policy) invalid_value]"

definition kMaxMs :: u64 where
  "kMaxMs = 0x7FFFFFFFFFFFFFFF"

definition scaled_with_floor :: "int \<Rightarrow> u64 \<Rightarrow> u64 \<Rightarrow> int" where
  "scaled_with_floor floor factor estimated_seconds =
     (let scaled_ms = (if estimated_seconds \<le> kMaxMs div 1000 div factor
                       then estimated_seconds * 1000 * factor else kMaxMs);
          floor_ms = (word_of_int floor :: u64)
      in sint (if scaled_ms > floor_ms then scaled_ms else floor_ms))"

definition lease_duration :: "lease_policy \<Rightarrow> u64 \<Rightarrow> int" where
  "lease_duration policy estimated_seconds =
     scaled_with_floor (lease_floor policy) (lease_factor policy) estimated_seconds"

definition attempt_deadline :: "lease_policy \<Rightarrow> u64 \<Rightarrow> int" where
  "attempt_deadline policy estimated_seconds =
     scaled_with_floor (attempt_deadline_floor policy) (attempt_deadline_factor policy) estimated_seconds"

subsection \<open>Retry and scheduler policies\<close>

record retry_policy =
  max_attempts :: u64
  prefer_different_executor :: bool
  quarantine_after_loss_events :: u64

definition default_retry_policy :: retry_policy where
  "default_retry_policy =
     \<lparr>max_attempts = 3, prefer_different_executor = True, quarantine_after_loss_events = 3\<rparr>"

definition validate_retry_policy :: "retry_policy \<Rightarrow> exec_error_code option" where
  "validate_retry_policy policy =
     guard_error (max_attempts policy = 0 \<or> quarantine_after_loss_events policy = 0) invalid_value"

record task_type_policy =
  tp_lease :: lease_policy
  tp_max_attempts :: u64

record scheduler_policy =
  sp_lease :: lease_policy
  sp_retry :: retry_policy
  sp_task_types :: "(string, task_type_policy) std_map"
  sp_speculative_duplicates :: bool
  sp_max_idle_wait :: int
  sp_rejection_backoff :: int

definition default_scheduler_policy :: scheduler_policy where
  "default_scheduler_policy =
     \<lparr>sp_lease = default_lease_policy, sp_retry = default_retry_policy, sp_task_types = [],
      sp_speculative_duplicates = False, sp_max_idle_wait = 50, sp_rejection_backoff = 2000\<rparr>"

definition validate_override ::
  "scheduler_policy \<Rightarrow> string \<times> task_type_policy \<Rightarrow> exec_error_code option" where
  "validate_override policy entry = first_error
     [validate_lease_policy (tp_lease (snd entry)),
      validate_retry_policy ((sp_retry policy)\<lparr>max_attempts := tp_max_attempts (snd entry)\<rparr>),
      guard_error (fst entry = []) invalid_value]"

definition validate_scheduler_policy :: "scheduler_policy \<Rightarrow> exec_error_code option" where
  "validate_scheduler_policy policy = first_error
     ([validate_lease_policy (sp_lease policy), validate_retry_policy (sp_retry policy)]
      @ List.map (validate_override policy) (sp_task_types policy)
      @ [guard_error (sp_max_idle_wait policy \<le> 0) invalid_value,
         guard_error (sp_rejection_backoff policy \<le> 0) invalid_value])"

definition lease_policy_for :: "scheduler_policy \<Rightarrow> string \<Rightarrow> lease_policy" where
  "lease_policy_for policy task_type =
     (case map_of (sp_task_types policy) task_type of
        None \<Rightarrow> sp_lease policy | Some found \<Rightarrow> tp_lease found)"

definition max_attempts_for :: "scheduler_policy \<Rightarrow> string \<Rightarrow> u64" where
  "max_attempts_for policy task_type =
     (case map_of (sp_task_types policy) task_type of
        None \<Rightarrow> max_attempts (sp_retry policy) | Some found \<Rightarrow> tp_max_attempts found)"

subsection \<open>Lengths of leases\<close>

lemma unat_kMaxMs: "unat kMaxMs = 2 ^ 63 - 1"
  by (simp add: kMaxMs_def)

lemma int64_word:
  assumes "0 \<le> k" and "k < 2 ^ 63"
  shows "uint (word_of_int k :: u64) = k" and "sint (word_of_int k :: u64) = k"
proof -
  show "uint (word_of_int k :: u64) = k"
    using assms by (simp add: uint_word_of_int)
  show "sint (word_of_int k :: u64) = k"
    using assms by (simp add: sint_sbintrunc' signed_take_bit_int_eq_self)
qed

lemma scaled_with_floor_eq:
  assumes "0 < floor" and "floor < 2 ^ 63" and "factor \<noteq> 0"
  shows "scaled_with_floor floor factor seconds
    = max floor (min (2 ^ 63 - 1) (1000 * uint factor * uint seconds))"
proof -
  define f where "f = unat factor"
  define n where "n = unat seconds"
  have f: "f > 0" using assms(3) by (simp add: f_def unat_gt_0)
  have "unat (kMaxMs div 1000 div factor) = (2 ^ 63 - 1) div (1000 * f)"
    by (simp add: unat_div_distrib unat_kMaxMs f_def div_mult2_eq)
  then have le: "seconds \<le> kMaxMs div 1000 div factor \<longleftrightarrow> n * (1000 * f) \<le> 2 ^ 63 - 1"
    using f by (simp add: word_le_nat_alt n_def less_eq_div_iff_mult_less_eq)
  let ?scaled = "if seconds \<le> kMaxMs div 1000 div factor then seconds * 1000 * factor else kMaxMs"
  have scaled: "unat ?scaled = min (2 ^ 63 - 1) (1000 * f * n)"
  proof (cases "n * (1000 * f) \<le> 2 ^ 63 - 1")
    case True
    have "n * 1000 \<le> n * (1000 * f)" using f by simp
    also have "\<dots> \<le> 2 ^ 63 - 1" by (rule True)
    also have "\<dots> < 2 ^ 64" by simp
    finally have "n * 1000 < 2 ^ 64" .
    then have "unat (seconds * 1000) = n * 1000"
      by (simp add: unat_word_ariths n_def)
    moreover have "n * 1000 * f < 2 ^ 64"
    proof -
      have "n * (1000 * f) < 2 ^ 64" using True by (rule le_less_trans) simp
      then show ?thesis by (simp only: mult.assoc)
    qed
    ultimately have "unat (seconds * 1000 * factor) = n * 1000 * f"
      by (simp add: unat_word_ariths(2) [of "seconds * 1000"] f_def)
    then show ?thesis using True le by (simp add: ac_simps)
  next
    case False
    then show ?thesis using le unat_kMaxMs by (simp add: ac_simps)
  qed
  have floor: "uint (word_of_int floor :: u64) = floor" "sint (word_of_int floor :: u64) = floor"
    using int64_word [of floor] assms by auto
  define w where "w = ?scaled"
  have "uint w = int (min (2 ^ 63 - 1) (1000 * f * n))"
    using scaled unfolding w_def [symmetric] by (metis uint_nat)
  then have scaled_int: "uint w = min (2 ^ 63 - 1) (1000 * int f * int n)"
    by (simp add: of_nat_min)
  have "w = word_of_int (min (2 ^ 63 - 1) (1000 * int f * int n))"
    by (metis scaled_int word_of_int_uint)
  then have sint: "sint w = min (2 ^ 63 - 1) (1000 * int f * int n)"
    using int64_word(2) [of "min (2 ^ 63 - 1) (1000 * int f * int n)"] by simp
  have gt: "w > word_of_int floor \<longleftrightarrow> min (2 ^ 63 - 1) (1000 * int f * int n) > floor"
    unfolding word_less_def floor scaled_int ..
  show ?thesis
  proof (cases "w > word_of_int floor")
    case True
    then have "scaled_with_floor floor factor seconds = sint w"
      unfolding scaled_with_floor_def Let_def w_def [symmetric] by simp
    then show ?thesis using True gt sint by (simp add: f_def n_def max_def)
  next
    case False
    then have "scaled_with_floor floor factor seconds = floor"
      unfolding scaled_with_floor_def Let_def w_def [symmetric] using floor by simp
    moreover have "max floor (min (2 ^ 63 - 1) (1000 * int f * int n)) = floor"
      using False gt by (intro max_absorb1) (simp only: not_less)
    ultimately show ?thesis by (simp add: f_def n_def)
  qed
qed

lemma validate_lease_policy_facts:
  assumes "validate_lease_policy policy = None"
  shows "0 < heartbeat_interval policy" and "3 * heartbeat_interval policy < lease_floor policy"
    and "lease_floor policy \<le> attempt_deadline_floor policy"
    and "lease_factor policy \<noteq> 0" and "lease_factor policy \<le> attempt_deadline_factor policy"
  using assms by (auto simp: validate_lease_policy_def kMinHeartbeatsPerLeaseFloor_def not_le not_less)

definition in_int64 :: "int \<Rightarrow> bool" where
  "in_int64 k \<longleftrightarrow> - (2 ^ 63) \<le> k \<and> k < 2 ^ 63"

lemma validate_scheduler_policy_lease:
  "validate_scheduler_policy policy = None \<Longrightarrow> validate_lease_policy (lease_policy_for policy task_type) = None"
  by (auto simp: validate_scheduler_policy_def lease_policy_for_def validate_override_def
      split: option.splits dest!: map_of_SomeD)

lemma validate_scheduler_policy_attempts:
  "validate_scheduler_policy policy = None \<Longrightarrow> max_attempts_for policy task_type \<noteq> 0"
  by (auto simp: validate_scheduler_policy_def max_attempts_for_def validate_override_def
      validate_retry_policy_def split: option.splits dest!: map_of_SomeD)

end
