(* ===== verification/Results.thy ===== *)
theory Results
  imports TaskGraphFacts OrderedMaps "HOL-Library.Multiset"
begin

text \<open>
  From an attempt's output to the committed results of a build: the checks before a commit
  (result_verification.cpp), the sink interface and the in-memory sink
  (result_commit_sink.hpp, in_memory_result_commit_sink.cpp), and the reduction that lists a
  lane's results in canonical order (ordered_reduction.cpp).
\<close>

type_synonym frame_payload = "byte list"

record 'j attempt_output =
  ao_result :: "'j task_result"
  ao_payloads :: "frame_payload list"

record 'j committed_result =
  cr_result :: "'j task_result"
  cr_payloads :: "frame_payload list"
  cr_executor_id :: string

subsection \<open>Result verification (result_verification.cpp)\<close>

text \<open>The defect \<open>find_result_defect\<close> describes, without its message text.\<close>

datatype result_defect =
    ResultRejected exec_error_code | WrongTask | WrongAttempt | WrongPayloadCount
  | PayloadMismatch nat

fun find_payload_defect ::
  "'j exec_lib \<Rightarrow> nat \<Rightarrow> artifact_ref list \<Rightarrow> frame_payload list \<Rightarrow> result_defect option" where
  "find_payload_defect lib index (ref # refs) (payload # payloads) =
     (if length payload \<noteq> unat (ar_bytes ref) \<or> blake3_digest lib payload \<noteq> ar_blake3 ref
      then Some (PayloadMismatch index)
      else find_payload_defect lib (Suc index) refs payloads)"
| "find_payload_defect lib index _ _ = None"

definition find_result_defect ::
  "'j exec_lib \<Rightarrow> 'j task_spec \<Rightarrow> nat \<Rightarrow> 'j task_result \<Rightarrow> frame_payload list \<Rightarrow> result_defect option" where
  "find_result_defect lib spec attempt result payloads =
     (case validate_task_result lib result of
        Some code \<Rightarrow> Some (ResultRejected code)
      | None \<Rightarrow>
          if tr_task_id result \<noteq> ts_task_id spec then Some WrongTask
          else if tr_attempt result \<noteq> attempt then Some WrongAttempt
          else if length payloads \<noteq> length (tr_outputs result) then Some WrongPayloadCount
          else find_payload_defect lib 0 (tr_outputs result) payloads)"

lemma find_payload_defect_None:
  "length refs = length payloads \<Longrightarrow>
     find_payload_defect lib index refs payloads = None \<longleftrightarrow>
       list_all2 (\<lambda>ref payload. length payload = unat (ar_bytes ref)
         \<and> blake3_digest lib payload = ar_blake3 ref) refs payloads"
  by (induction lib index refs payloads rule: find_payload_defect.induct) auto

lemma find_result_defect_None:
  "find_result_defect lib spec attempt result payloads = None \<longleftrightarrow>
     validate_task_result lib result = None \<and> tr_task_id result = ts_task_id spec
     \<and> tr_attempt result = attempt
     \<and> list_all2 (\<lambda>ref payload. length payload = unat (ar_bytes ref)
         \<and> blake3_digest lib payload = ar_blake3 ref) (tr_outputs result) payloads"
  by (auto simp: find_result_defect_def find_payload_defect_None split: option.splits
      dest: list_all2_lengthD)

text \<open>A result that passed the checks: what the sink and a resumed run may rely on.\<close>

definition verified_success :: "'j exec_lib \<Rightarrow> 'j task_spec \<Rightarrow> 'j committed_result \<Rightarrow> bool" where
  "verified_success lib spec committed \<longleftrightarrow>
     find_result_defect lib spec (tr_attempt (cr_result committed)) (cr_result committed)
       (cr_payloads committed) = None
     \<and> tr_status (cr_result committed) = task_succeeded"

lemma verified_success_task: "verified_success lib spec c \<Longrightarrow> tr_task_id (cr_result c) = ts_task_id spec"
  by (simp add: verified_success_def find_result_defect_None)

subsection \<open>Where results are committed (result_commit_sink.hpp)\<close>

text \<open>A sequence of commits, up to the first the sink refuses.\<close>

fun commit_each ::
  "('j task_spec \<Rightarrow> 'j committed_result \<Rightarrow> 's \<Rightarrow> 'e + 's)
     \<Rightarrow> ('j task_spec \<times> 'j committed_result) list \<Rightarrow> 's \<Rightarrow> 'e + 's" where
  "commit_each commit [] s = Inr s"
| "commit_each commit ((spec, c) # rest) s =
     (case commit spec c s of Inl e \<Rightarrow> Inl e | Inr s' \<Rightarrow> commit_each commit rest s')"

lemma commit_each_append:
  "commit_each commit (xs @ ys) s
     = (case commit_each commit xs s of Inl e \<Rightarrow> Inl e | Inr s' \<Rightarrow> commit_each commit ys s')"
  by (induction commit xs s rule: commit_each.induct) (auto split: sum.splits)

text \<open>
  A sink may refuse a commit (it throws). Whatever it does, a commit it accepts is of a task it
  did not hold, and afterwards it holds exactly that result more.
\<close>

locale commit_sink =
  fixes invar :: "'s \<Rightarrow> bool"
    and commit :: "'j task_spec \<Rightarrow> 'j committed_result \<Rightarrow> 's \<Rightarrow> 'e + 's"
    and stored :: "'s \<Rightarrow> string \<Rightarrow> 'j committed_result option"
  assumes commit_stores: "invar s \<Longrightarrow> commit spec c s = Inr s' \<Longrightarrow>
      invar s' \<and> stored s (ts_task_id spec) = None \<and> stored s' = (stored s)(ts_task_id spec \<mapsto> c)"
begin

text \<open>Exactly once: a sequence of accepted commits names each task at most once.\<close>

lemma commit_each_stored:
  assumes "invar s" and "commit_each commit log s = Inr s'"
  shows "invar s'" and "distinct (List.map (\<lambda>(spec, c). ts_task_id spec) log)"
    and "stored s' = (\<lambda>t. case map_of (List.map (\<lambda>(spec, c). (ts_task_id spec, c)) log) t of
           Some c \<Rightarrow> Some c | None \<Rightarrow> stored s t)"
    and "\<forall>(spec, c) \<in> set log. stored s (ts_task_id spec) = None"
proof -
  have "invar s' \<and> distinct (List.map (\<lambda>(spec, c). ts_task_id spec) log)
    \<and> stored s' = (\<lambda>t. case map_of (List.map (\<lambda>(spec, c). (ts_task_id spec, c)) log) t of
           Some c \<Rightarrow> Some c | None \<Rightarrow> stored s t)
    \<and> (\<forall>(spec, c) \<in> set log. stored s (ts_task_id spec) = None)"
    using assms
  proof (induction log arbitrary: s)
    case (Cons entry rest)
    obtain spec c where entry: "entry = (spec, c)" by fastforce
    from Cons.prems entry obtain s1 where one: "commit spec c s = Inr s1" and rest: "commit_each commit rest s1 = Inr s'"
      by (auto split: sum.splits)
    note S = commit_stores [OF Cons.prems(1) one]
    have IH: "invar s' \<and> distinct (List.map (\<lambda>(spec, c). ts_task_id spec) rest)
      \<and> stored s' = (\<lambda>t. case map_of (List.map (\<lambda>(spec, c). (ts_task_id spec, c)) rest) t of
             Some c \<Rightarrow> Some c | None \<Rightarrow> stored s1 t)
      \<and> (\<forall>(spec, c) \<in> set rest. stored s1 (ts_task_id spec) = None)"
      using Cons.IH [of s1] S rest by blast
    have fresh: "ts_task_id spec' \<noteq> ts_task_id spec \<and> stored s (ts_task_id spec') = None"
      if "(spec', c') \<in> set rest" for spec' c'
    proof -
      have "stored s1 (ts_task_id spec') = None" using IH that by auto
      then show ?thesis using S by (auto split: if_splits)
    qed
    then have none: "map_of (List.map (\<lambda>(spec, c). (ts_task_id spec, c)) rest) (ts_task_id spec) = None"
      by (fastforce simp: map_of_eq_None_iff)
    show ?case using IH S fresh none entry by (auto simp: fun_eq_iff split: option.splits)
  qed simp
  then show "invar s'" and "distinct (List.map (\<lambda>(spec, c). ts_task_id spec) log)"
    and "stored s' = (\<lambda>t. case map_of (List.map (\<lambda>(spec, c). (ts_task_id spec, c)) log) t of
           Some c \<Rightarrow> Some c | None \<Rightarrow> stored s t)"
    and "\<forall>(spec, c) \<in> set log. stored s (ts_task_id spec) = None"
    by blast+
qed

end

type_synonym 'j memory_sink = "(string, 'j committed_result) std_map"

definition memory_sink_commit ::
  "'j task_spec \<Rightarrow> 'j committed_result \<Rightarrow> 'j memory_sink \<Rightarrow> exec_error_code + 'j memory_sink" where
  "memory_sink_commit spec committed results =
     (if map_of results (ts_task_id spec) \<noteq> None then Inl invalid_value
      else Inr (map_emplace (ts_task_id spec) committed results))"

definition memory_sink_find :: "'j memory_sink \<Rightarrow> string \<Rightarrow> 'j committed_result option" where
  "memory_sink_find results task_id = map_of results task_id"

definition memory_sink_results :: "'j memory_sink \<Rightarrow> 'j committed_result list" where
  "memory_sink_results results = List.map snd results"

definition memory_sink_size :: "'j memory_sink \<Rightarrow> nat" where
  "memory_sink_size results = length results"

interpretation memory_sink: commit_sink map_wf memory_sink_commit memory_sink_find
  by unfold_locales
    (auto simp: memory_sink_commit_def memory_sink_find_def fun_eq_iff split: if_splits)

subsection \<open>Reduction in canonical order (ordered_reduction.cpp)\<close>

fun place_results ::
  "'j task_graph \<Rightarrow> 'j committed_result option list \<Rightarrow> 'j committed_result list
     \<Rightarrow> exec_error_code + 'j committed_result option list" where
  "place_results graph by_task [] = Inr by_task"
| "place_results graph by_task (committed # results) =
     (case tg_find graph (tr_task_id (cr_result committed)) of
        None \<Rightarrow> Inl invalid_value
      | Some index \<Rightarrow>
          if by_task ! index \<noteq> None then Inl invalid_value
          else place_results graph (by_task[index := Some committed]) results)"

fun collect_lane ::
  "'j task_graph \<Rightarrow> string \<Rightarrow> 'j committed_result option list \<Rightarrow> nat list
     \<Rightarrow> exec_error_code + (task_order_key \<times> 'j committed_result) list" where
  "collect_lane graph ln by_task [] = Inr []"
| "collect_lane graph ln by_task (index # rest) =
     (if lane (order_key_at graph index) \<noteq> ln then collect_lane graph ln by_task rest
      else case by_task ! index of
             None \<Rightarrow> Inl invalid_value
           | Some committed \<Rightarrow>
               (case collect_lane graph ln by_task rest of
                  Inl e \<Rightarrow> Inl e
                | Inr lane_results \<Rightarrow> Inr ((order_key_at graph index, committed) # lane_results)))"

definition results_in_canonical_order ::
  "'j task_graph \<Rightarrow> string \<Rightarrow> 'j committed_result list \<Rightarrow> exec_error_code + 'j committed_result list" where
  "results_in_canonical_order graph ln results =
     (case place_results graph (replicate (tg_size graph) None) results of
        Inl e \<Rightarrow> Inl e
      | Inr by_task \<Rightarrow>
          (case collect_lane graph ln by_task [0..<tg_size graph] of
             Inl e \<Rightarrow> Inl e
           | Inr lane_results \<Rightarrow> Inr (List.map snd (sort_key fst lane_results))))"

abbreviation result_index :: "'j task_graph \<Rightarrow> 'j committed_result \<Rightarrow> nat option" where
  "result_index g c \<equiv> tg_find g (tr_task_id (cr_result c))"

text \<open>Placing succeeds for distinct known tasks, and says which result each slot holds.\<close>

lemma place_results_Inr:
  assumes "wf_graph g" and "length by_task = tg_size g"
  shows "place_results g by_task results =
     (if (\<forall>c \<in> set results. result_index g c \<noteq> None) \<and> distinct (List.map (result_index g) results)
         \<and> (\<forall>c \<in> set results. by_task ! the (result_index g c) = None)
      then Inr (fold (\<lambda>c v. v[the (result_index g c) := Some c]) results by_task)
      else Inl invalid_value)"
  using assms(2)
proof (induction results arbitrary: by_task)
  case (Cons c results)
  show ?case
  proof (cases "result_index g c")
    case None
    then show ?thesis by simp
  next
    case (Some i)
    then have i: "i < length by_task" using wf_graph_find [OF assms(1)] Cons.prems by simp
    show ?thesis
    proof (cases "by_task ! i = None")
      case True
      have upd: "(\<forall>d \<in> set results. (by_task[i := Some c]) ! the (result_index g d) = None)
        \<longleftrightarrow> (\<forall>d \<in> set results. by_task ! the (result_index g d) = None) \<and> Some i \<notin> result_index g ` set results"
        if "\<forall>d \<in> set results. result_index g d \<noteq> None"
        using that i by (auto simp: nth_list_update image_iff) (metis option.sel)+
      have "place_results g by_task (c # results) = place_results g (by_task[i := Some c]) results"
        using Some True by simp
      also have "\<dots> = (if (\<forall>d \<in> set results. result_index g d \<noteq> None) \<and> distinct (List.map (result_index g) results)
         \<and> (\<forall>d \<in> set results. (by_task[i := Some c]) ! the (result_index g d) = None)
        then Inr (fold (\<lambda>d v. v[the (result_index g d) := Some d]) results (by_task[i := Some c]))
        else Inl invalid_value)"
        using Cons.IH [of "by_task[i := Some c]"] Cons.prems by simp
      finally show ?thesis using upd Some True by auto
    next
      case False
      then show ?thesis using Some by simp
    qed
  qed
qed simp


abbreviation place_result :: "'j task_graph \<Rightarrow> 'j committed_result \<Rightarrow> 'j committed_result option list
     \<Rightarrow> 'j committed_result option list" where
  "place_result g c v \<equiv> v[the (result_index g c) := Some c]"

lemma place_results_perm:
  assumes "wf_graph g" and "length by_task = tg_size g" and "mset results = mset results'"
  shows "place_results g by_task results = place_results g by_task results'"
proof -
  have sets: "set results = set results'" using assms(3) by (rule mset_eq_setD)
  have dist: "distinct (List.map (result_index g) results) \<longleftrightarrow> distinct (List.map (result_index g) results')"
    using assms(3) by (intro mset_eq_imp_distinct_iff) simp
  have "fold (place_result g) results = fold (place_result g) results'"
    if known: "\<forall>c \<in> set results. result_index g c \<noteq> None" and d: "distinct (List.map (result_index g) results)"
  proof (rule fold_multiset_equiv [OF _ assms(3)])
    fix x y
    assume xy: "x \<in> set results" "y \<in> set results"
    show "place_result g x \<circ> place_result g y = place_result g y \<circ> place_result g x"
    proof (cases "x = y")
      case False
      then have "result_index g x \<noteq> result_index g y"
        using d xy by (auto simp: distinct_map inj_on_def)
      then have "the (result_index g x) \<noteq> the (result_index g y)"
        using known xy by (metis option.expand)
      then show ?thesis by (simp add: comp_def list_update_swap)
    qed simp
  qed
  then show ?thesis
    unfolding place_results_Inr [OF assms(1,2)] using sets dist by auto
qed

lemma fold_place_nth:
  assumes "distinct (List.map (result_index g) results)" and "\<forall>c \<in> set results. result_index g c \<noteq> None"
    and "\<forall>c \<in> set results. the (result_index g c) < length v" and "i < length v"
  shows "fold (place_result g) results v ! i
    = (case find (\<lambda>c. result_index g c = Some i) results of None \<Rightarrow> v ! i | Some c \<Rightarrow> Some c)"
  using assms
proof (induction results arbitrary: v)
  case (Cons c results)
  have "find (\<lambda>d. result_index g d = Some i) results = None" if "result_index g c = Some i"
    using that Cons.prems(1) by (auto simp: find_None_iff image_iff)
  then show ?case using Cons by (auto simp: nth_list_update split: option.splits)
qed simp

lemma insort_key_map: "insort_key f (h x) (List.map h xs) = List.map h (insort_key (f \<circ> h) x xs)"
  by (induction xs) auto

lemma sort_key_map: "sort_key f (List.map h xs) = List.map h (sort_key (f \<circ> h) xs)"
  by (induction xs) (auto simp: insort_key_map comp_def)

lemma sort_key_map_pairs:
  "sort_key fst (List.map (\<lambda>i. (k i, v i)) xs) = List.map (\<lambda>i. (k i, v i)) (sort_key k xs)"
  by (simp add: sort_key_map comp_def)

lemma collect_lane_eq:
  "collect_lane g ln by_task idx =
     (if \<forall>i \<in> set idx. lane (order_key_at g i) = ln \<longrightarrow> by_task ! i \<noteq> None
      then Inr (List.map (\<lambda>i. (order_key_at g i, the (by_task ! i)))
                  (filter (\<lambda>i. lane (order_key_at g i) = ln) idx))
      else Inl invalid_value)"
  by (induction idx) (auto split: option.splits)

text \<open>The index a result of the reduction belongs to.\<close>

lemma results_in_canonical_order_Inr:
  assumes g: "wf_graph g" and out: "results_in_canonical_order g ln results = Inr out"
  shows "List.map (result_index g) out
      = List.map Some (sort_key (order_key_at g) (filter (\<lambda>i. lane (order_key_at g i) = ln) [0..<tg_size g]))"
    and "set out \<subseteq> set results"
proof -
  let ?idx = "filter (\<lambda>i. lane (order_key_at g i) = ln) [0..<tg_size g]"
  let ?empty = "replicate (tg_size g) None :: 'a committed_result option list"
  obtain by_task where place: "place_results g ?empty results = Inr by_task"
    and lane_ok: "\<forall>i \<in> set [0..<tg_size g]. lane (order_key_at g i) = ln \<longrightarrow> by_task ! i \<noteq> None"
    and out_eq: "out = List.map snd (sort_key fst (List.map (\<lambda>i. (order_key_at g i, the (by_task ! i))) ?idx))"
    using out unfolding results_in_canonical_order_def collect_lane_eq by (auto split: sum.splits if_splits)
  have ok: "\<forall>c \<in> set results. result_index g c \<noteq> None" "distinct (List.map (result_index g) results)"
    and by_task: "by_task = fold (place_result g) results ?empty"
    using place unfolding place_results_Inr [OF g, of ?empty results, simplified] by (auto split: if_splits)
  have lt: "the (result_index g c) < tg_size g" if c: "c \<in> set results" for c
  proof -
    obtain k where "result_index g c = Some k" using ok(1) c by blast
    then show ?thesis using wf_graph_find [OF g, of "tr_task_id (cr_result c)" k] by simp
  qed
  have at: "by_task ! i \<noteq> None \<Longrightarrow> the (by_task ! i) \<in> set results \<and> result_index g (the (by_task ! i)) = Some i"
    if i: "i < tg_size g" for i
  proof -
    have "by_task ! i = (case find (\<lambda>c. result_index g c = Some i) results of None \<Rightarrow> ?empty ! i | Some c \<Rightarrow> Some c)"
      unfolding by_task by (rule fold_place_nth [OF ok(2) ok(1)]) (use lt i in auto)
    then have eq: "by_task ! i = find (\<lambda>c. result_index g c = Some i) results"
      using i by (simp split: option.splits)
    assume "by_task ! i \<noteq> None"
    then obtain c where "find (\<lambda>c. result_index g c = Some i) results = Some c" using eq by auto
    moreover from this have "c \<in> set results" "result_index g c = Some i"
      by (auto simp: find_Some_iff)
    ultimately show ?thesis using eq by simp
  qed
  have sorted: "sort_key fst (List.map (\<lambda>i. (order_key_at g i, the (by_task ! i))) ?idx)
      = List.map (\<lambda>i. (order_key_at g i, the (by_task ! i))) (sort_key (order_key_at g) ?idx)"
    by (rule sort_key_map_pairs)
  show "List.map (result_index g) out = List.map Some (sort_key (order_key_at g) ?idx)"
    using at lane_ok by (simp add: out_eq sorted)
  show "set out \<subseteq> set results"
    using at lane_ok by (auto simp: out_eq sorted)
qed

end
