(* ===== verification/SchedulerState.thy ===== *)
theory SchedulerState
  imports ReadySet Policies Results
begin

text \<open>
  The data of one \<open>Scheduler::run()\<close>: executors and leases (executor.hpp,
  task_type_restricted_executor.cpp), inbox events (scheduler_inbox.hpp), outcomes and events
  (build_outcome.hpp, attempt_event.hpp), and the records of \<open>SchedulerRun\<close>
  (scheduler_run.hpp). Calls the scheduler makes on executors, on the sink and on the observer
  are appended to a trace; the executors' answers arrive as inbox events, which are inputs.
  Message and detail texts are not modelled.
\<close>

subsection \<open>Executors (executor.hpp)\<close>

record lease =
  le_lease_id :: string
  le_attempt :: nat
  le_duration :: int
  le_heartbeat_interval :: int

datatype attempt_failure_kind = invalid_result | executor_lost

datatype loss_quarantine = after_repeated_losses | never_quarantine

record 'j executor =
  ex_id :: string
  ex_slots :: nat
  ex_loss_quarantine :: loss_quarantine
  ex_accepts :: "'j task_spec \<Rightarrow> bool"

definition task_type_restricted :: "'j executor \<Rightarrow> string list \<Rightarrow> exec_error_code + 'j executor" where
  "task_type_restricted inner task_types =
     (if task_types = [] then Inl invalid_value
      else Inr (inner\<lparr>ex_accepts := \<lambda>spec. ts_task_type spec \<in> set task_types \<and> ex_accepts inner spec\<rparr>))"

definition task_type_excluding :: "'j executor \<Rightarrow> string list \<Rightarrow> 'j executor" where
  "task_type_excluding inner excluded =
     inner\<lparr>ex_accepts := \<lambda>spec. ts_task_type spec \<notin> set excluded \<and> ex_accepts inner spec\<rparr>"

subsection \<open>Inbox events (scheduler_inbox.hpp)\<close>

datatype 'j inbox_event =
    HeartbeatEvent string
  | FinishedEvent string "'j attempt_output"
  | FailedEvent string attempt_failure_kind
  | RejectedEvent string

text \<open>The queue: callbacks push, \<open>wait\<close> drains in arrival order.\<close>

definition inbox_push :: "'j inbox_event \<Rightarrow> 'j inbox_event list \<Rightarrow> 'j inbox_event list" where
  "inbox_push event events = events @ [event]"

definition inbox_drain :: "'j inbox_event list \<Rightarrow> 'j inbox_event list \<times> 'j inbox_event list" where
  "inbox_drain events = (events, [])"

subsection \<open>Outcomes and observed events (build_outcome.hpp, attempt_event.hpp)\<close>

datatype build_status = build_succeeded | build_failed | build_cancelled

datatype build_failure_kind =
    retries_exhausted | permanent_task_failure | determinism_incident | no_usable_executor
  | commit_failed

record build_failure =
  bf_kind :: build_failure_kind
  bf_task_id :: string

record 'j determinism_incident_record =
  di_task_id :: string
  di_committed_attempt :: nat
  di_committed_executor_id :: string
  di_committed_output_digest :: digest
  di_conflicting :: "'j committed_result"

record scheduler_stats =
  st_committed :: nat
  st_resumed :: nat
  st_attempts_started :: nat
  st_speculative_attempts :: nat
  st_retries :: nat
  st_leases_expired :: nat
  st_deadlines_exceeded :: nat
  st_invalid_results :: nat
  st_leases_rejected :: nat
  st_duplicates_discarded :: nat
  st_quarantined_executors :: "string list"

record 'j build_outcome =
  bo_status :: build_status
  bo_failure :: "build_failure option"
  bo_incidents :: "'j determinism_incident_record list"
  bo_stats :: scheduler_stats

definition empty_stats :: scheduler_stats where
  "empty_stats =
     \<lparr>st_committed = 0, st_resumed = 0, st_attempts_started = 0, st_speculative_attempts = 0,
      st_retries = 0, st_leases_expired = 0, st_deadlines_exceeded = 0, st_invalid_results = 0,
      st_leases_rejected = 0, st_duplicates_discarded = 0, st_quarantined_executors = []\<rparr>"

definition empty_outcome :: "'j build_outcome" where
  "empty_outcome =
     \<lparr>bo_status = build_failed, bo_failure = None, bo_incidents = [], bo_stats = empty_stats\<rparr>"

datatype attempt_event_kind =
    ev_leased | ev_committed | ev_duplicate_discarded | ev_determinism_incident | ev_failed
  | ev_rejected | ev_expired | ev_deadline_exceeded | ev_executor_quarantined

record attempt_event =
  ae_kind :: attempt_event_kind
  ae_task_id :: string
  ae_attempt :: nat
  ae_executor_id :: string
  ae_lease_id :: string
  ae_speculative :: bool

text \<open>What the run does to the world, in order.\<close>

datatype 'j effect =
    Assign nat "'j task_spec" lease
  | Cancel nat string
  | LeaseExpired nat string
  | SinkCommit "'j task_spec" "'j committed_result"
  | Observe attempt_event
  | Wait int

subsection \<open>The run's records (scheduler_run.hpp)\<close>

datatype task_phase = ph_waiting | ph_ready | ph_leased | ph_committed

record task_record =
  tk_phase :: task_phase
  tk_attempts_started :: nat
  tk_failed_attempts :: nat
  tk_avoid :: "nat set"
  tk_active_leases :: "string set"
  tk_committed_attempt :: nat
  tk_committed_executor_id :: string
  tk_committed_output_digest :: digest

record lease_record =
  lr_task :: nat
  lr_executor :: nat
  lr_lease :: lease
  lr_grant_sequence :: nat
  lr_granted_at :: int
  lr_expires_at :: int
  lr_deadline_at :: int
  lr_speculative :: bool

record executor_record =
  er_active :: nat
  er_consecutive_loss_events :: nat
  er_loss_horizon :: nat
  er_quarantined :: bool
  er_declined_until :: int

definition new_task_record :: task_record where
  "new_task_record =
     \<lparr>tk_phase = ph_waiting, tk_attempts_started = 0, tk_failed_attempts = 0, tk_avoid = {},
      tk_active_leases = {}, tk_committed_attempt = 0, tk_committed_executor_id = [],
      tk_committed_output_digest = replicate 32 0\<rparr>"

definition new_executor_record :: executor_record where
  "new_executor_record =
     \<lparr>er_active = 0, er_consecutive_loss_events = 0, er_loss_horizon = 0, er_quarantined = False,
      er_declined_until = 0\<rparr>"

text \<open>
  What a run is given: the policy, the clock (its successive readings), the graph, the
  executors, the sink and whether an observer is set.
\<close>

record ('j, 's) sched_env =
  se_lib :: "'j exec_lib"
  se_policy :: scheduler_policy
  se_clock :: "nat \<Rightarrow> int"
  se_graph :: "'j task_graph"
  se_executors :: "'j executor list"
  se_sink_commit :: "'j task_spec \<Rightarrow> 'j committed_result \<Rightarrow> 's \<Rightarrow> exec_error_code + 's"
  se_observer :: bool

record ('j, 's) sched =
  sr_ready_set :: ready_set
  sr_ready_queue :: "nat list"
  sr_tasks :: "task_record list"
  sr_executors :: "executor_record list"
  sr_leases :: "(string, lease_record) std_map"
  sr_next_lease_number :: nat
  sr_outcome :: "'j build_outcome"
  sr_clock_reads :: nat
  sr_sink :: 's
  sr_trace :: "'j effect list"

definition scheduler_run :: "('j, 's) sched_env \<Rightarrow> 's \<Rightarrow> ('j, 's) sched" where
  "scheduler_run env sink =
     \<lparr>sr_ready_set = ready_set_of (se_graph env), sr_ready_queue = [],
      sr_tasks = replicate (tg_size (se_graph env)) new_task_record,
      sr_executors = List.map (\<lambda>_. new_executor_record) (se_executors env),
      sr_leases = [], sr_next_lease_number = 1, sr_outcome = empty_outcome, sr_clock_reads = 0,
      sr_sink = sink, sr_trace = []\<rparr>"

subsection \<open>Access\<close>

abbreviation spec_of :: "('j, 's) sched_env \<Rightarrow> nat \<Rightarrow> 'j task_spec" where
  "spec_of env task \<equiv> tn_spec (tg_nodes (se_graph env) ! task)"

abbreviation task_of :: "('j, 's) sched \<Rightarrow> nat \<Rightarrow> task_record" where
  "task_of s task \<equiv> sr_tasks s ! task"

abbreviation executor_of :: "('j, 's) sched \<Rightarrow> nat \<Rightarrow> executor_record" where
  "executor_of s executor \<equiv> sr_executors s ! executor"

definition clock_now :: "('j, 's) sched_env \<Rightarrow> ('j, 's) sched \<Rightarrow> int \<times> ('j, 's) sched" where
  "clock_now env s = (se_clock env (sr_clock_reads s), s\<lparr>sr_clock_reads := sr_clock_reads s + 1\<rparr>)"

definition upd_task :: "nat \<Rightarrow> (task_record \<Rightarrow> task_record) \<Rightarrow> ('j, 's) sched \<Rightarrow> ('j, 's) sched" where
  "upd_task task f s = s\<lparr>sr_tasks := (sr_tasks s)[task := f (sr_tasks s ! task)]\<rparr>"

definition upd_executor ::
  "nat \<Rightarrow> (executor_record \<Rightarrow> executor_record) \<Rightarrow> ('j, 's) sched \<Rightarrow> ('j, 's) sched" where
  "upd_executor executor f s =
     s\<lparr>sr_executors := (sr_executors s)[executor := f (sr_executors s ! executor)]\<rparr>"

definition upd_stats :: "(scheduler_stats \<Rightarrow> scheduler_stats) \<Rightarrow> ('j, 's) sched \<Rightarrow> ('j, 's) sched" where
  "upd_stats f s = s\<lparr>sr_outcome := (sr_outcome s)\<lparr>bo_stats := f (bo_stats (sr_outcome s))\<rparr>\<rparr>"

definition record_effect :: "'j effect \<Rightarrow> ('j, 's) sched \<Rightarrow> ('j, 's) sched" where
  "record_effect effect s = s\<lparr>sr_trace := sr_trace s @ [effect]\<rparr>"

definition failed_run :: "('j, 's) sched \<Rightarrow> bool" where
  "failed_run s \<longleftrightarrow> bo_failure (sr_outcome s) \<noteq> None"

definition executor_id :: "('j, 's) sched_env \<Rightarrow> nat \<Rightarrow> string" where
  "executor_id env executor = ex_id (se_executors env ! executor)"

end
