(* ===== verification/Scheduler.thy ===== *)
theory Scheduler
  imports SchedulerState
begin

text \<open>
  The decisions of \<open>SchedulerRun\<close>, one definition per member function of scheduler_run.cpp and
  scheduler_dispatch.cpp, and \<open>Scheduler::run\<close> of scheduler.cpp. Every \<open>clock_.now()\<close> is a
  separate reading of the clock. A call of \<open>dispatch\<close>'s inner loops is bounded by the executor's
  slot count, which each grant uses up by one. The loop of \<open>execute\<close> takes what the environment
  provides per iteration: the state of the cancellation token and the events \<open>wait\<close> returns.
\<close>

subsection \<open>Events and failures\<close>

definition emit ::
  "('j, 's) sched_env \<Rightarrow> attempt_event_kind \<Rightarrow> lease_record \<Rightarrow> ('j, 's) sched \<Rightarrow> ('j, 's) sched" where
  "emit env kind l s =
     (if se_observer env
      then record_effect (Observe
             \<lparr>ae_kind = kind, ae_task_id = ts_task_id (spec_of env (lr_task l)),
              ae_attempt = le_attempt (lr_lease l), ae_executor_id = executor_id env (lr_executor l),
              ae_lease_id = le_lease_id (lr_lease l), ae_speculative = lr_speculative l\<rparr>) s
      else s)"

definition fail_build ::
  "build_failure_kind \<Rightarrow> string \<Rightarrow> ('j, 's) sched \<Rightarrow> ('j, 's) sched" where
  "fail_build kind task_id s =
     (if failed_run s then s
      else s\<lparr>sr_outcome := (sr_outcome s)
        \<lparr>bo_status := build_failed, bo_failure := Some \<lparr>bf_kind = kind, bf_task_id = task_id\<rparr>\<rparr>\<rparr>)"

definition release ::
  "string \<Rightarrow> lease_record \<Rightarrow> ('j, 's) sched \<Rightarrow> ('j, 's) sched" where
  "release lease_id l s =
     upd_task (lr_task l) (\<lambda>t. t\<lparr>tk_active_leases := tk_active_leases t - {le_lease_id (lr_lease l)}\<rparr>)
       (upd_executor (lr_executor l) (\<lambda>e. e\<lparr>er_active := er_active e - 1\<rparr>)
         (s\<lparr>sr_leases := map_erase lease_id (sr_leases s)\<rparr>))"

definition make_ready :: "('j, 's) sched_env \<Rightarrow> nat \<Rightarrow> ('j, 's) sched \<Rightarrow> ('j, 's) sched" where
  "make_ready env task s =
     (upd_task task (\<lambda>t. t\<lparr>tk_phase := ph_ready\<rparr>) s)
       \<lparr>sr_ready_queue := rq_insert (se_graph env) task (sr_ready_queue s)\<rparr>"

definition requeue_if_idle :: "('j, 's) sched_env \<Rightarrow> nat \<Rightarrow> ('j, 's) sched \<Rightarrow> ('j, 's) sched" where
  "requeue_if_idle env task s =
     (if tk_phase (task_of s task) \<noteq> ph_committed \<and> tk_active_leases (task_of s task) = {}
      then make_ready env task s else s)"

subsection \<open>Quarantine and loss accounting\<close>

fun abandon_each ::
  "('j, 's) sched_env \<Rightarrow> nat \<Rightarrow> string list \<Rightarrow> ('j, 's) sched \<Rightarrow> ('j, 's) sched" where
  "abandon_each env executor [] s = s"
| "abandon_each env executor (lease_id # ids) s =
     (case map_of (sr_leases s) lease_id of
        None \<Rightarrow> s
      | Some l \<Rightarrow>
          abandon_each env executor ids
            (requeue_if_idle env (lr_task l)
              (upd_task (lr_task l) (\<lambda>t. t\<lparr>tk_avoid := insert executor (tk_avoid t)\<rparr>)
                (record_effect (Cancel executor lease_id) (release lease_id l s)))))"

definition quarantine :: "('j, 's) sched_env \<Rightarrow> nat \<Rightarrow> ('j, 's) sched \<Rightarrow> ('j, 's) sched" where
  "quarantine env executor s =
     (if er_quarantined (executor_of s executor) then s
      else
        let s1 = upd_stats (\<lambda>st. st\<lparr>st_quarantined_executors :=
                   st_quarantined_executors st @ [executor_id env executor]\<rparr>)
                 (upd_executor executor (\<lambda>e. e\<lparr>er_quarantined := True\<rparr>) s);
            s2 = (if se_observer env
                  then record_effect (Observe
                    \<lparr>ae_kind = ev_executor_quarantined, ae_task_id = [], ae_attempt = 0,
                     ae_executor_id = executor_id env executor, ae_lease_id = [],
                     ae_speculative = False\<rparr>) s1
                  else s1);
            abandoned = List.map fst (filter (\<lambda>(_, l). lr_executor l = executor) (sr_leases s2))
        in abandon_each env executor abandoned s2)"

definition count_executor_loss ::
  "('j, 's) sched_env \<Rightarrow> lease_record \<Rightarrow> ('j, 's) sched \<Rightarrow> ('j, 's) sched" where
  "count_executor_loss env l s =
     (let executor = lr_executor l in
      if ex_loss_quarantine (se_executors env ! executor) = never_quarantine then s
      else if lr_grant_sequence l < er_loss_horizon (executor_of s executor) then s
      else
        let s1 = upd_executor executor
                   (\<lambda>e. e\<lparr>er_consecutive_loss_events := er_consecutive_loss_events e + 1,
                          er_loss_horizon := sr_next_lease_number s\<rparr>) s
        in if er_consecutive_loss_events (executor_of s1 executor)
               \<ge> unat (quarantine_after_loss_events (sp_retry (se_policy env)))
           then quarantine env executor s1 else s1)"

definition note_executor_recovery ::
  "lease_record \<Rightarrow> ('j, 's) sched \<Rightarrow> ('j, 's) sched" where
  "note_executor_recovery l s =
     (if lr_grant_sequence l \<ge> er_loss_horizon (executor_of s (lr_executor l))
      then upd_executor (lr_executor l) (\<lambda>e. e\<lparr>er_consecutive_loss_events := 0\<rparr>) s else s)"

definition attempt_failed ::
  "('j, 's) sched_env \<Rightarrow> nat \<Rightarrow> nat \<Rightarrow> ('j, 's) sched \<Rightarrow> ('j, 's) sched" where
  "attempt_failed env task executor s =
     (let s1 = upd_task task (\<lambda>t. t\<lparr>tk_failed_attempts := tk_failed_attempts t + 1,
                                    tk_avoid := insert executor (tk_avoid t)\<rparr>) s
      in if tk_phase (task_of s1 task) = ph_committed \<or> tk_active_leases (task_of s1 task) \<noteq> {}
            \<or> failed_run s1 then s1
         else if tk_failed_attempts (task_of s1 task)
                   \<ge> unat (max_attempts_for (se_policy env) (ts_task_type (spec_of env task)))
         then fail_build retries_exhausted (ts_task_id (spec_of env task)) s1
         else make_ready env task (upd_stats (\<lambda>st. st\<lparr>st_retries := st_retries st + 1\<rparr>) s1))"

subsection \<open>Committing\<close>

fun mark_each_ready ::
  "('j, 's) sched_env \<Rightarrow> nat list \<Rightarrow> ('j, 's) sched \<Rightarrow> ('j, 's) sched" where
  "mark_each_ready env [] s = s"
| "mark_each_ready env (ready # rest) s =
     mark_each_ready env rest
       (if tk_phase (task_of s ready) = ph_waiting then make_ready env ready s else s)"

definition mark_ready_dependents ::
  "('j, 's) sched_env \<Rightarrow> nat \<Rightarrow> ('j, 's) sched \<Rightarrow> exec_fault + ('j, 's) sched" where
  "mark_ready_dependents env task s =
     (case rs_complete_task (se_graph env) (sr_ready_set s) task of
        Inl fault \<Rightarrow> Inl fault
      | Inr (rs, ready) \<Rightarrow> Inr (mark_each_ready env ready (s\<lparr>sr_ready_set := rs\<rparr>)))"

definition commit_result ::
  "('j, 's) sched_env \<Rightarrow> lease_record \<Rightarrow> 'j attempt_output \<Rightarrow> ('j, 's) sched
     \<Rightarrow> exec_fault + ('j, 's) sched" where
  "commit_result env l output s =
     (let spec = spec_of env (lr_task l);
          committed = \<lparr>cr_result = ao_result output, cr_payloads = ao_payloads output,
                       cr_executor_id = executor_id env (lr_executor l)\<rparr>
      in case se_sink_commit env spec committed (sr_sink s) of
           Inl _ \<Rightarrow> Inr (fail_build commit_failed (ts_task_id spec) s)
         | Inr sink \<Rightarrow>
             mark_ready_dependents env (lr_task l)
               (emit env ev_committed l
                 (upd_stats (\<lambda>st. st\<lparr>st_committed := st_committed st + 1\<rparr>)
                   ((upd_task (lr_task l)
                      (\<lambda>t. t\<lparr>tk_phase := ph_committed,
                             tk_committed_attempt := le_attempt (lr_lease l),
                             tk_committed_executor_id := executor_id env (lr_executor l),
                             tk_committed_output_digest := tr_output_digest (ao_result output)\<rparr>)
                      (record_effect (SinkCommit spec committed) (s\<lparr>sr_sink := sink\<rparr>)))
                    \<lparr>sr_ready_queue := rq_erase (se_graph env) (lr_task l) (sr_ready_queue s)\<rparr>))))"

definition on_verified_success ::
  "('j, 's) sched_env \<Rightarrow> lease_record \<Rightarrow> 'j attempt_output \<Rightarrow> ('j, 's) sched
     \<Rightarrow> exec_fault + ('j, 's) sched" where
  "on_verified_success env l output s =
     (let s1 = note_executor_recovery l s;
          task = task_of s1 (lr_task l);
          task_id = ts_task_id (spec_of env (lr_task l))
      in if tk_phase task \<noteq> ph_committed then commit_result env l output s1
         else if tr_output_digest (ao_result output) = tk_committed_output_digest task
         then Inr (emit env ev_duplicate_discarded l
                (upd_stats (\<lambda>st. st\<lparr>st_duplicates_discarded := st_duplicates_discarded st + 1\<rparr>) s1))
         else
           let s2 = emit env ev_determinism_incident l s1;
               incident = \<lparr>di_task_id = task_id, di_committed_attempt = tk_committed_attempt task,
                           di_committed_executor_id = tk_committed_executor_id task,
                           di_committed_output_digest = tk_committed_output_digest task,
                           di_conflicting = \<lparr>cr_result = ao_result output,
                             cr_payloads = ao_payloads output,
                             cr_executor_id = executor_id env (lr_executor l)\<rparr>\<rparr>
           in Inr (fail_build determinism_incident task_id
                (s2\<lparr>sr_outcome := (sr_outcome s2)
                      \<lparr>bo_incidents := bo_incidents (sr_outcome s2) @ [incident]\<rparr>\<rparr>)))"

subsection \<open>Handling events\<close>

definition on_heartbeat :: "('j, 's) sched_env \<Rightarrow> string \<Rightarrow> ('j, 's) sched \<Rightarrow> ('j, 's) sched" where
  "on_heartbeat env lease_id s =
     (if map_of (sr_leases s) lease_id = None then s
      else let (now, s1) = clock_now env s
           in s1\<lparr>sr_leases := map_modify lease_id
                (\<lambda>l. l\<lparr>lr_expires_at := now + le_duration (lr_lease l)\<rparr>) (sr_leases s1)\<rparr>)"

definition on_finished ::
  "('j, 's) sched_env \<Rightarrow> string \<Rightarrow> 'j attempt_output \<Rightarrow> ('j, 's) sched
     \<Rightarrow> exec_fault + ('j, 's) sched" where
  "on_finished env lease_id output s =
     (case map_of (sr_leases s) lease_id of
        None \<Rightarrow> Inr s
      | Some l \<Rightarrow>
          let s1 = upd_executor (lr_executor l) (\<lambda>e. e\<lparr>er_declined_until := 0\<rparr>) (release lease_id l s);
              spec = spec_of env (lr_task l)
          in case find_result_defect (se_lib env) spec (le_attempt (lr_lease l))
                    (ao_result output) (ao_payloads output) of
               Some _ \<Rightarrow>
                 Inr (attempt_failed env (lr_task l) (lr_executor l)
                   (quarantine env (lr_executor l)
                     (emit env ev_failed l
                       (upd_stats (\<lambda>st. st\<lparr>st_invalid_results := st_invalid_results st + 1\<rparr>) s1))))
             | None \<Rightarrow>
                 if tr_status (ao_result output) = task_succeeded
                 then on_verified_success env l output s1
                 else
                   let s2 = emit env ev_failed l s1
                   in if tk_phase (task_of s2 (lr_task l)) = ph_committed then Inr s2
                      else if \<not> te_retryable (the (tr_error (ao_result output)))
                      then Inr (fail_build permanent_task_failure (ts_task_id spec) s2)
                      else Inr (attempt_failed env (lr_task l) (lr_executor l) s2))"

definition on_failed ::
  "('j, 's) sched_env \<Rightarrow> string \<Rightarrow> attempt_failure_kind \<Rightarrow> ('j, 's) sched \<Rightarrow> ('j, 's) sched" where
  "on_failed env lease_id kind s =
     (case map_of (sr_leases s) lease_id of
        None \<Rightarrow> s
      | Some l \<Rightarrow>
          let s1 = emit env ev_failed l (release lease_id l s);
              s2 = (if kind = invalid_result
                    then quarantine env (lr_executor l)
                      (upd_stats (\<lambda>st. st\<lparr>st_invalid_results := st_invalid_results st + 1\<rparr>) s1)
                    else count_executor_loss env l s1)
          in attempt_failed env (lr_task l) (lr_executor l) s2)"

definition on_rejected :: "('j, 's) sched_env \<Rightarrow> string \<Rightarrow> ('j, 's) sched \<Rightarrow> ('j, 's) sched" where
  "on_rejected env lease_id s =
     (case map_of (sr_leases s) lease_id of
        None \<Rightarrow> s
      | Some l \<Rightarrow>
          let s1 = emit env ev_rejected l
                     (upd_stats (\<lambda>st. st\<lparr>st_leases_rejected := st_leases_rejected st + 1\<rparr>)
                       (release lease_id l s));
              (now, s2) = clock_now env s1;
              s3 = upd_executor (lr_executor l)
                     (\<lambda>e. e\<lparr>er_declined_until := now + sp_rejection_backoff (se_policy env)\<rparr>) s2
          in requeue_if_idle env (lr_task l) s3)"

definition apply_event ::
  "('j, 's) sched_env \<Rightarrow> 'j inbox_event \<Rightarrow> ('j, 's) sched \<Rightarrow> exec_fault + ('j, 's) sched" where
  "apply_event env event s =
     (if failed_run s then Inr s
      else case event of
             HeartbeatEvent lease_id \<Rightarrow> Inr (on_heartbeat env lease_id s)
           | FinishedEvent lease_id output \<Rightarrow> on_finished env lease_id output s
           | RejectedEvent lease_id \<Rightarrow> Inr (on_rejected env lease_id s)
           | FailedEvent lease_id kind \<Rightarrow> Inr (on_failed env lease_id kind s))"

fun apply_events ::
  "('j, 's) sched_env \<Rightarrow> 'j inbox_event list \<Rightarrow> ('j, 's) sched \<Rightarrow> exec_fault + ('j, 's) sched" where
  "apply_events env [] s = Inr s"
| "apply_events env (event # events) s =
     (case apply_event env event s of Inl fault \<Rightarrow> Inl fault | Inr s' \<Rightarrow> apply_events env events s')"

subsection \<open>Leases that run out\<close>

definition end_lease_at_deadline ::
  "('j, 's) sched_env \<Rightarrow> lease_record \<Rightarrow> ('j, 's) sched \<Rightarrow> ('j, 's) sched" where
  "end_lease_at_deadline env l s =
     attempt_failed env (lr_task l) (lr_executor l)
       (count_executor_loss env l
         (record_effect (Cancel (lr_executor l) (le_lease_id (lr_lease l)))
           (emit env ev_deadline_exceeded l
             (upd_stats (\<lambda>st. st\<lparr>st_deadlines_exceeded := st_deadlines_exceeded st + 1\<rparr>) s))))"

fun end_each ::
  "('j, 's) sched_env \<Rightarrow> int \<Rightarrow> string list \<Rightarrow> ('j, 's) sched \<Rightarrow> ('j, 's) sched" where
  "end_each env now [] s = s"
| "end_each env now (lease_id # ids) s =
     end_each env now ids
       (case map_of (sr_leases s) lease_id of
          None \<Rightarrow> s
        | Some l \<Rightarrow>
            if failed_run s then s
            else if lr_deadline_at l \<le> now then end_lease_at_deadline env l (release lease_id l s)
            else attempt_failed env (lr_task l) (lr_executor l)
                   (count_executor_loss env l
                     (record_effect (LeaseExpired (lr_executor l) lease_id)
                       (emit env ev_expired l
                         (upd_stats (\<lambda>st. st\<lparr>st_leases_expired := st_leases_expired st + 1\<rparr>)
                           (release lease_id l s))))))"

definition expire_leases :: "('j, 's) sched_env \<Rightarrow> ('j, 's) sched \<Rightarrow> ('j, 's) sched" where
  "expire_leases env s =
     (let (now, s1) = clock_now env s;
          ended = List.map fst (filter (\<lambda>(_, l). lr_expires_at l \<le> now \<or> lr_deadline_at l \<le> now)
                    (sr_leases s1))
      in end_each env now ended s1)"

subsection \<open>Granting leases (scheduler_dispatch.cpp)\<close>

definition backing_off ::
  "('j, 's) sched_env \<Rightarrow> nat \<Rightarrow> ('j, 's) sched \<Rightarrow> bool \<times> ('j, 's) sched" where
  "backing_off env executor s =
     (let (now, s1) = clock_now env s in (er_declined_until (executor_of s1 executor) > now, s1))"

fun any_backing_off_from ::
  "('j, 's) sched_env \<Rightarrow> nat list \<Rightarrow> ('j, 's) sched \<Rightarrow> bool \<times> ('j, 's) sched" where
  "any_backing_off_from env [] s = (False, s)"
| "any_backing_off_from env (executor # rest) s =
     (if er_quarantined (executor_of s executor) then any_backing_off_from env rest s
      else let (off, s1) = backing_off env executor s
           in if off then (True, s1) else any_backing_off_from env rest s1)"

definition any_executor_backing_off ::
  "('j, 's) sched_env \<Rightarrow> ('j, 's) sched \<Rightarrow> bool \<times> ('j, 's) sched" where
  "any_executor_backing_off env s = any_backing_off_from env [0..<length (sr_executors s)] s"

definition has_other_usable_executor ::
  "('j, 's) sched_env \<Rightarrow> ('j, 's) sched \<Rightarrow> nat \<Rightarrow> nat \<Rightarrow> bool" where
  "has_other_usable_executor env s task executor \<longleftrightarrow>
     list_ex (\<lambda>other. other \<noteq> executor \<and> \<not> er_quarantined (executor_of s other)
        \<and> other \<notin> tk_avoid (task_of s task)
        \<and> ex_accepts (se_executors env ! other) (spec_of env task)) [0..<length (sr_executors s)]"

definition pick_task ::
  "('j, 's) sched_env \<Rightarrow> ('j, 's) sched \<Rightarrow> nat \<Rightarrow> nat option" where
  "pick_task env s executor =
     find (\<lambda>task. ex_accepts (se_executors env ! executor) (spec_of env task)
        \<and> (\<not> prefer_different_executor (sp_retry (se_policy env))
           \<or> executor \<notin> tk_avoid (task_of s task)
           \<or> \<not> has_other_usable_executor env s task executor)) (sr_ready_queue s)"

definition lease_name :: "nat \<Rightarrow> string" where
  "lease_name number = ''lease_'' @ to_string number"

definition grant ::
  "('j, 's) sched_env \<Rightarrow> nat \<Rightarrow> nat \<Rightarrow> bool \<Rightarrow> ('j, 's) sched \<Rightarrow> ('j, 's) sched" where
  "grant env task executor speculative s =
     (let spec = spec_of env task;
          number = sr_next_lease_number s;
          rules = lease_policy_for (se_policy env) (ts_task_type spec);
          est = est_seconds (ts_resources spec);
          issued = \<lparr>le_lease_id = lease_name number,
                    le_attempt = tk_attempts_started (task_of s task) + 1,
                    le_duration = lease_duration rules est,
                    le_heartbeat_interval = heartbeat_interval rules\<rparr>;
          (now, s1) = clock_now env s;
          l = \<lparr>lr_task = task, lr_executor = executor, lr_lease = issued,
               lr_grant_sequence = number, lr_granted_at = now,
               lr_expires_at = now + le_duration issued,
               lr_deadline_at = now + attempt_deadline rules est, lr_speculative = speculative\<rparr>;
          s2 = upd_task task (\<lambda>t. t\<lparr>tk_attempts_started := tk_attempts_started t + 1,
                 tk_phase := ph_leased,
                 tk_active_leases := insert (lease_name number) (tk_active_leases t)\<rparr>) s1;
          s3 = s2\<lparr>sr_next_lease_number := number + 1,
                  sr_ready_queue := rq_erase (se_graph env) task (sr_ready_queue s2)\<rparr>;
          s4 = upd_executor executor (\<lambda>e. e\<lparr>er_active := er_active e + 1\<rparr>) s3;
          s5 = upd_stats (\<lambda>st. st\<lparr>st_attempts_started := st_attempts_started st + 1,
                 st_speculative_attempts :=
                   (if speculative then st_speculative_attempts st + 1
                    else st_speculative_attempts st)\<rparr>) s4;
          s6 = emit env ev_leased l s5
      in record_effect (Assign executor spec issued)
           (s6\<lparr>sr_leases := map_emplace (lease_name number) l (sr_leases s6)\<rparr>))"

fun dispatch_executor ::
  "('j, 's) sched_env \<Rightarrow> nat \<Rightarrow> nat \<Rightarrow> ('j, 's) sched \<Rightarrow> ('j, 's) sched" where
  "dispatch_executor env executor 0 s = s"
| "dispatch_executor env executor (Suc n) s =
     (if \<not> er_quarantined (executor_of s executor)
         \<and> er_active (executor_of s executor) < ex_slots (se_executors env ! executor)
      then case pick_task env s executor of
             None \<Rightarrow> s
           | Some task \<Rightarrow> dispatch_executor env executor n (grant env task executor False s)
      else s)"

fun dispatch_each ::
  "('j, 's) sched_env \<Rightarrow> nat list \<Rightarrow> ('j, 's) sched \<Rightarrow> ('j, 's) sched" where
  "dispatch_each env [] s = s"
| "dispatch_each env (executor # rest) s =
     (let (off, s1) = backing_off env executor s
      in dispatch_each env rest
           (if off then s1 else dispatch_executor env executor (ex_slots (se_executors env ! executor)) s1))"

definition duplicable ::
  "('j, 's) sched_env \<Rightarrow> ('j, 's) sched \<Rightarrow> nat \<Rightarrow> lease_record \<Rightarrow> bool" where
  "duplicable env s executor l \<longleftrightarrow>
     (let task = task_of s (lr_task l) in
      \<not> (lr_executor l = executor \<or> tk_phase task = ph_committed \<or> card (tk_active_leases task) \<noteq> 1
         \<or> executor \<in> tk_avoid task
         \<or> \<not> ex_accepts (se_executors env ! executor) (spec_of env (lr_task l))))"

fun oldest_lease :: "(lease_record \<Rightarrow> bool) \<Rightarrow> lease_record list \<Rightarrow> lease_record option \<Rightarrow> lease_record option" where
  "oldest_lease ok [] oldest = oldest"
| "oldest_lease ok (l # ls) oldest =
     oldest_lease ok ls
       (if \<not> ok l then oldest
        else case oldest of
               None \<Rightarrow> Some l
             | Some o' \<Rightarrow> if lr_granted_at l < lr_granted_at o' then Some l else oldest)"

fun duplicate_executor ::
  "('j, 's) sched_env \<Rightarrow> nat \<Rightarrow> nat \<Rightarrow> ('j, 's) sched \<Rightarrow> ('j, 's) sched" where
  "duplicate_executor env executor 0 s = s"
| "duplicate_executor env executor (Suc n) s =
     (if \<not> er_quarantined (executor_of s executor)
         \<and> er_active (executor_of s executor) < ex_slots (se_executors env ! executor)
      then case oldest_lease (duplicable env s executor) (List.map snd (sr_leases s)) None of
             None \<Rightarrow> s
           | Some oldest \<Rightarrow>
               duplicate_executor env executor n (grant env (lr_task oldest) executor True s)
      else s)"

fun duplicate_each ::
  "('j, 's) sched_env \<Rightarrow> nat list \<Rightarrow> ('j, 's) sched \<Rightarrow> ('j, 's) sched" where
  "duplicate_each env [] s = s"
| "duplicate_each env (executor # rest) s =
     (let (off, s1) = backing_off env executor s
      in duplicate_each env rest
           (if off then s1 else duplicate_executor env executor (ex_slots (se_executors env ! executor)) s1))"

definition dispatch_speculative :: "('j, 's) sched_env \<Rightarrow> ('j, 's) sched \<Rightarrow> ('j, 's) sched" where
  "dispatch_speculative env s = duplicate_each env [0..<length (sr_executors s)] s"

definition dispatch :: "('j, 's) sched_env \<Rightarrow> ('j, 's) sched \<Rightarrow> ('j, 's) sched" where
  "dispatch env s =
     (let s1 = dispatch_each env [0..<length (sr_executors s)] s
      in if sp_speculative_duplicates (se_policy env) \<and> sr_ready_queue s1 = []
         then dispatch_speculative env s1 else s1)"

subsection \<open>The run\<close>

definition next_wait :: "('j, 's) sched_env \<Rightarrow> ('j, 's) sched \<Rightarrow> int \<times> ('j, 's) sched" where
  "next_wait env s =
     (let (now, s1) = clock_now env s;
          w1 = fold (\<lambda>(_, l) wait. min wait (max 0 (min (lr_expires_at l) (lr_deadline_at l) - now)))
                 (sr_leases s1) (sp_max_idle_wait (se_policy env));
          w2 = fold (\<lambda>e wait. if \<not> er_quarantined e \<and> er_declined_until e > now
                               then min wait (er_declined_until e - now) else wait)
                 (sr_executors s1) w1
      in (w2, s1))"

fun apply_resumed ::
  "('j, 's) sched_env \<Rightarrow> 'j committed_result list \<Rightarrow> ('j, 's) sched \<Rightarrow> exec_fault + ('j, 's) sched" where
  "apply_resumed env [] s = Inr s"
| "apply_resumed env (committed # resumed) s =
     (case tg_find (se_graph env) (tr_task_id (cr_result committed)) of
        None \<Rightarrow> Inl (ExecFault invalid_value)
      | Some index \<Rightarrow>
          if tk_phase (task_of s index) = ph_committed then Inl (ExecFault invalid_value)
          else if find_result_defect (se_lib env) (spec_of env index)
                    (tr_attempt (cr_result committed)) (cr_result committed) (cr_payloads committed) \<noteq> None
          then Inl (ExecFault invalid_value)
          else if tr_status (cr_result committed) \<noteq> task_succeeded then Inl (ExecFault invalid_value)
          else
            let s1 = upd_task index
                  (\<lambda>t. t\<lparr>tk_phase := ph_committed,
                         tk_committed_attempt := tr_attempt (cr_result committed),
                         tk_committed_executor_id := cr_executor_id committed,
                         tk_committed_output_digest := tr_output_digest (cr_result committed)\<rparr>) s
            in (case rs_complete_task (se_graph env) (sr_ready_set s1) index of
                  Inl fault \<Rightarrow> Inl fault
                | Inr (rs, _) \<Rightarrow>
                    apply_resumed env resumed
                      (upd_stats (\<lambda>st. st\<lparr>st_resumed := st_resumed st + 1\<rparr>)
                        (s1\<lparr>sr_ready_set := rs\<rparr>))))"

fun start_ready ::
  "('j, 's) sched_env \<Rightarrow> nat list \<Rightarrow> ('j, 's) sched \<Rightarrow> ('j, 's) sched" where
  "start_ready env [] s = s"
| "start_ready env (task # rest) s =
     start_ready env rest
       (if tk_phase (task_of s task) = ph_waiting
           \<and> list_all (\<lambda>d. rs_is_complete (sr_ready_set s) d = Inr True) (deps_at (se_graph env) task)
        then make_ready env task s else s)"

definition abandon_outstanding_leases :: "('j, 's) sched \<Rightarrow> ('j, 's) sched" where
  "abandon_outstanding_leases s =
     (fold (\<lambda>(lease_id, l). record_effect (Cancel (lr_executor l) lease_id)) (sr_leases s) s)
       \<lparr>sr_leases := []\<rparr>"

definition set_status :: "build_status \<Rightarrow> ('j, 's) sched \<Rightarrow> ('j, 's) sched" where
  "set_status status s = s\<lparr>sr_outcome := (sr_outcome s)\<lparr>bo_status := status\<rparr>\<rparr>"

text \<open>
  The loop, over what each iteration observes. The flag says whether the loop was left; it is
  \<open>False\<close> when the given iterations are used up while the run still waits.
\<close>

fun execute_loop ::
  "('j, 's) sched_env \<Rightarrow> (bool \<times> 'j inbox_event list) list \<Rightarrow> ('j, 's) sched
     \<Rightarrow> exec_fault + (bool \<times> ('j, 's) sched)" where
  "execute_loop env [] s = Inr (failed_run s, s)"
| "execute_loop env ((cancelled, events) # rounds) s =
     (if failed_run s then Inr (True, s)
      else if cancelled then Inr (True, set_status build_cancelled s)
      else if rs_all_complete (se_graph env) (sr_ready_set s) \<and> sr_leases s = []
      then Inr (True, set_status build_succeeded s)
      else
        let s1 = dispatch env s;
            (idle, s2) = (if sr_leases s1 = []
                          then let (off, s') = any_executor_backing_off env s1 in (\<not> off, s')
                          else (False, s1))
        in if idle then Inr (True, fail_build no_usable_executor [] s2)
           else
             let (wait, s3) = next_wait env s2
             in (case apply_events env events (record_effect (Wait wait) s3) of
                   Inl fault \<Rightarrow> Inl fault
                 | Inr s4 \<Rightarrow> execute_loop env rounds (expire_leases env s4)))"

definition execute ::
  "('j, 's) sched_env \<Rightarrow> (bool \<times> 'j inbox_event list) list \<Rightarrow> ('j, 's) sched
     \<Rightarrow> exec_fault + (bool \<times> ('j, 's) sched)" where
  "execute env rounds s =
     (case execute_loop env rounds (start_ready env [0..<tg_size (se_graph env)] s) of
        Inl fault \<Rightarrow> Inl fault
      | Inr (left, s') \<Rightarrow> Inr (left, if left then abandon_outstanding_leases s' else s'))"

fun validate_executors_from :: "string set \<Rightarrow> 'j executor list \<Rightarrow> exec_error_code option" where
  "validate_executors_from ids [] = None"
| "validate_executors_from ids (executor # rest) =
     (if ex_slots executor = 0 then Some invalid_value
      else if ex_id executor \<in> ids then Some invalid_value
      else validate_executors_from (insert (ex_id executor) ids) rest)"

definition validate_executors :: "'j executor list \<Rightarrow> exec_error_code option" where
  "validate_executors executors =
     (if executors = [] then Some invalid_value else validate_executors_from {} executors)"

text \<open>\<open>Scheduler::Scheduler\<close> followed by \<open>Scheduler::run\<close>.\<close>

definition scheduler_execute ::
  "('j, 's) sched_env \<Rightarrow> 's \<Rightarrow> 'j committed_result list \<Rightarrow> (bool \<times> 'j inbox_event list) list
     \<Rightarrow> exec_fault + (bool \<times> ('j, 's) sched)" where
  "scheduler_execute env sink resumed rounds =
     (case validate_scheduler_policy (se_policy env) of
        Some code \<Rightarrow> Inl (ExecFault code)
      | None \<Rightarrow>
     (case validate_executors (se_executors env) of
        Some code \<Rightarrow> Inl (ExecFault code)
      | None \<Rightarrow>
     (case apply_resumed env resumed (scheduler_run env sink) of
        Inl fault \<Rightarrow> Inl fault
      | Inr s \<Rightarrow> execute env rounds s)))"

end
