(* ===== verification/SchedulerInv.thy ===== *)
theory SchedulerInv
  imports Scheduler
begin

text \<open>
  The invariant of a scheduler run and its preservation by every operation. \<open>sinv env X E U s\<close>
  relates the task, executor and lease records, the ready set and the ready queue of \<open>s\<close>. The
  three sets name the exceptions an operation allows between its steps: \<open>X\<close> leased tasks whose
  last lease was just released, \<open>E\<close> executors just quarantined whose leases are still listed,
  \<open>U\<close> waiting tasks whose dependencies are complete but which are not queued yet. Between
  operations all three are empty, unless the build has failed.
\<close>

subsection \<open>Frame rules\<close>

lemma emit_frame [simp]:
  "sr_ready_set (emit env k l s) = sr_ready_set s" "sr_ready_queue (emit env k l s) = sr_ready_queue s"
  "sr_tasks (emit env k l s) = sr_tasks s" "sr_executors (emit env k l s) = sr_executors s"
  "sr_leases (emit env k l s) = sr_leases s" "sr_outcome (emit env k l s) = sr_outcome s"
  "sr_next_lease_number (emit env k l s) = sr_next_lease_number s"
  "sr_clock_reads (emit env k l s) = sr_clock_reads s" "sr_sink (emit env k l s) = sr_sink s"
  by (simp_all add: emit_def record_effect_def)

lemma record_effect_frame [simp]:
  "sr_ready_set (record_effect f s) = sr_ready_set s" "sr_ready_queue (record_effect f s) = sr_ready_queue s"
  "sr_tasks (record_effect f s) = sr_tasks s" "sr_executors (record_effect f s) = sr_executors s"
  "sr_leases (record_effect f s) = sr_leases s" "sr_outcome (record_effect f s) = sr_outcome s"
  "sr_next_lease_number (record_effect f s) = sr_next_lease_number s"
  "sr_clock_reads (record_effect f s) = sr_clock_reads s" "sr_sink (record_effect f s) = sr_sink s"
  by (simp_all add: record_effect_def)

lemma fail_build_frame [simp]:
  "sr_ready_set (fail_build k i s) = sr_ready_set s" "sr_ready_queue (fail_build k i s) = sr_ready_queue s"
  "sr_tasks (fail_build k i s) = sr_tasks s" "sr_executors (fail_build k i s) = sr_executors s"
  "sr_leases (fail_build k i s) = sr_leases s" "sr_trace (fail_build k i s) = sr_trace s"
  "sr_next_lease_number (fail_build k i s) = sr_next_lease_number s"
  "sr_clock_reads (fail_build k i s) = sr_clock_reads s" "sr_sink (fail_build k i s) = sr_sink s"
  by (simp_all add: fail_build_def)

lemma upd_stats_frame [simp]:
  "sr_ready_set (upd_stats f s) = sr_ready_set s" "sr_ready_queue (upd_stats f s) = sr_ready_queue s"
  "sr_tasks (upd_stats f s) = sr_tasks s" "sr_executors (upd_stats f s) = sr_executors s"
  "sr_leases (upd_stats f s) = sr_leases s" "sr_trace (upd_stats f s) = sr_trace s"
  "sr_next_lease_number (upd_stats f s) = sr_next_lease_number s"
  "sr_clock_reads (upd_stats f s) = sr_clock_reads s" "sr_sink (upd_stats f s) = sr_sink s"
  "failed_run (upd_stats f s) = failed_run s"
  by (simp_all add: upd_stats_def failed_run_def)

lemma upd_task_frame [simp]:
  "sr_ready_set (upd_task t f s) = sr_ready_set s" "sr_ready_queue (upd_task t f s) = sr_ready_queue s"
  "sr_executors (upd_task t f s) = sr_executors s" "sr_leases (upd_task t f s) = sr_leases s"
  "sr_outcome (upd_task t f s) = sr_outcome s" "sr_trace (upd_task t f s) = sr_trace s"
  "sr_next_lease_number (upd_task t f s) = sr_next_lease_number s"
  "sr_clock_reads (upd_task t f s) = sr_clock_reads s" "sr_sink (upd_task t f s) = sr_sink s"
  "sr_tasks (upd_task t f s) = (sr_tasks s)[t := f (sr_tasks s ! t)]"
  by (simp_all add: upd_task_def)

lemma upd_executor_frame [simp]:
  "sr_ready_set (upd_executor e f s) = sr_ready_set s" "sr_ready_queue (upd_executor e f s) = sr_ready_queue s"
  "sr_tasks (upd_executor e f s) = sr_tasks s" "sr_leases (upd_executor e f s) = sr_leases s"
  "sr_outcome (upd_executor e f s) = sr_outcome s" "sr_trace (upd_executor e f s) = sr_trace s"
  "sr_next_lease_number (upd_executor e f s) = sr_next_lease_number s"
  "sr_clock_reads (upd_executor e f s) = sr_clock_reads s" "sr_sink (upd_executor e f s) = sr_sink s"
  "sr_executors (upd_executor e f s) = (sr_executors s)[e := f (sr_executors s ! e)]"
  by (simp_all add: upd_executor_def)

lemma failed_run_frame [simp]:
  "failed_run (emit env k l s) = failed_run s" "failed_run (record_effect f s) = failed_run s"
  "failed_run (upd_task t g s) = failed_run s" "failed_run (upd_executor e h s) = failed_run s"
  "failed_run (fail_build kind i s)"
  "failed_run (s\<lparr>sr_leases := ls\<rparr>) = failed_run s" "failed_run (s\<lparr>sr_ready_queue := q\<rparr>) = failed_run s"
  "failed_run (s\<lparr>sr_clock_reads := n\<rparr>) = failed_run s" "failed_run (s\<lparr>sr_sink := k'\<rparr>) = failed_run s"
  "failed_run (s\<lparr>sr_ready_set := rs\<rparr>) = failed_run s" "failed_run (s\<lparr>sr_trace := tr\<rparr>) = failed_run s"
  "failed_run (s\<lparr>sr_next_lease_number := n\<rparr>) = failed_run s"
  by (simp_all add: failed_run_def fail_build_def)

subsection \<open>Leases by task and by executor\<close>

definition held :: "(string, lease_record) std_map \<Rightarrow> nat \<Rightarrow> string set" where
  "held leases task = {i. \<exists>l. map_of leases i = Some l \<and> lr_task l = task}"

definition load :: "(string, lease_record) std_map \<Rightarrow> nat \<Rightarrow> string set" where
  "load leases executor = {i. \<exists>l. map_of leases i = Some l \<and> lr_executor l = executor}"

lemma held_finite [simp]: "finite (held leases t)" and load_finite [simp]: "finite (load leases e)"
proof -
  have "held leases t \<subseteq> dom (map_of leases)" "load leases e \<subseteq> dom (map_of leases)"
    by (auto simp: held_def load_def)
  then show "finite (held leases t)" "finite (load leases e)"
    using finite_dom_map_of finite_subset by blast+
qed

lemma held_Nil [simp]: "held [] t = {}" and load_Nil [simp]: "load [] e = {}"
  by (simp_all add: held_def load_def)

lemma held_erase: "held (map_erase i leases) t = held leases t - {i}"
  and load_erase: "load (map_erase i leases) e = load leases e - {i}"
  by (auto simp: held_def load_def)

lemma held_emplace:
  "map_wf leases \<Longrightarrow> map_of leases i = None \<Longrightarrow>
     held (map_emplace i l leases) t = (if lr_task l = t then insert i (held leases t) else held leases t)"
  and load_emplace:
  "map_wf leases \<Longrightarrow> map_of leases i = None \<Longrightarrow>
     load (map_emplace i l leases) e = (if lr_executor l = e then insert i (load leases e) else load leases e)"
  by (auto simp: held_def load_def)

lemma held_modify:
  "(\<And>l. lr_task (f l) = lr_task l) \<Longrightarrow> held (map_modify i f leases) t = held leases t"
  and load_modify:
  "(\<And>l. lr_executor (f l) = lr_executor l) \<Longrightarrow> load (map_modify i f leases) e = load leases e"
  by (auto simp: held_def load_def split: if_splits)

lemma heldI: "map_of leases i = Some l \<Longrightarrow> i \<in> held leases (lr_task l)"
  and loadI: "map_of leases i = Some l \<Longrightarrow> i \<in> load leases (lr_executor l)"
  by (auto simp: held_def load_def)

lemma load_empty_iff: "load leases e = {} \<longleftrightarrow> (\<forall>i l. map_of leases i = Some l \<longrightarrow> lr_executor l \<noteq> e)"
  by (auto simp: load_def)

subsection \<open>The invariant\<close>

definition completed_of :: "('j, 's) sched \<Rightarrow> nat set" where
  "completed_of s = rs_completed (sr_ready_set s)"

definition task_ok :: "('j, 's) sched_env \<Rightarrow> nat set \<Rightarrow> nat set \<Rightarrow> ('j, 's) sched \<Rightarrow> nat \<Rightarrow> bool" where
  "task_ok env X U s t \<longleftrightarrow>
     (let task = task_of s t; deps = set (deps_at (se_graph env) t) in
      tk_active_leases task = held (sr_leases s) t \<and> card (held (sr_leases s) t) \<le> 2
      \<and> (tk_phase task = ph_committed \<longleftrightarrow> t \<in> completed_of s)
      \<and> (t \<in> set (sr_ready_queue s) \<longleftrightarrow> tk_phase task = ph_ready)
      \<and> (tk_phase task = ph_waiting \<or> tk_phase task = ph_ready \<longrightarrow> held (sr_leases s) t = {})
      \<and> (tk_phase task = ph_ready \<or> tk_phase task = ph_leased \<longrightarrow> deps \<subseteq> completed_of s)
      \<and> (tk_phase task = ph_leased \<and> held (sr_leases s) t = {} \<longrightarrow> t \<in> X)
      \<and> (tk_phase task = ph_waiting \<and> deps \<subseteq> completed_of s \<longrightarrow> t \<in> U))"

definition executor_ok :: "('j, 's) sched_env \<Rightarrow> nat set \<Rightarrow> ('j, 's) sched \<Rightarrow> nat \<Rightarrow> bool" where
  "executor_ok env E s e \<longleftrightarrow>
     er_active (executor_of s e) = card (load (sr_leases s) e)
     \<and> er_active (executor_of s e) \<le> ex_slots (se_executors env ! e)
     \<and> (er_quarantined (executor_of s e) \<and> load (sr_leases s) e \<noteq> {} \<longrightarrow> e \<in> E)"

definition lease_ok :: "('j, 's) sched_env \<Rightarrow> ('j, 's) sched \<Rightarrow> string \<Rightarrow> lease_record \<Rightarrow> bool" where
  "lease_ok env s i l \<longleftrightarrow>
     lr_task l < tg_size (se_graph env) \<and> lr_executor l < length (se_executors env)
     \<and> i = le_lease_id (lr_lease l) \<and> i = lease_name (lr_grant_sequence l)
     \<and> 0 < lr_grant_sequence l \<and> lr_grant_sequence l < sr_next_lease_number s
     \<and> ex_accepts (se_executors env ! lr_executor l) (spec_of env (lr_task l))
     \<and> (\<forall>i' l'. map_of (sr_leases s) i' = Some l' \<and> lr_task l' = lr_task l
          \<and> lr_executor l' = lr_executor l \<longrightarrow> i' = i)"

definition sinv ::
  "('j, 's) sched_env \<Rightarrow> nat set \<Rightarrow> nat set \<Rightarrow> nat set \<Rightarrow> ('j, 's) sched \<Rightarrow> bool" where
  "sinv env X E U s \<longleftrightarrow>
     wf_graph (se_graph env)
     \<and> length (sr_tasks s) = tg_size (se_graph env) \<and> length (sr_executors s) = length (se_executors env)
     \<and> rs_inv (se_graph env) (sr_ready_set s) \<and> rq_wf (se_graph env) (sr_ready_queue s)
     \<and> map_wf (sr_leases s) \<and> 0 < sr_next_lease_number s
     \<and> (\<forall>t < tg_size (se_graph env). task_ok env X U s t)
     \<and> (\<forall>e < length (se_executors env). executor_ok env E s e)
     \<and> (\<forall>i l. map_of (sr_leases s) i = Some l \<longrightarrow> lease_ok env s i l)"

text \<open>Only six fields matter.\<close>

lemma sinv_cong:
  assumes "sr_ready_set s' = sr_ready_set s" and "sr_ready_queue s' = sr_ready_queue s"
    and "sr_tasks s' = sr_tasks s" and "sr_executors s' = sr_executors s"
    and "sr_leases s' = sr_leases s" and "sr_next_lease_number s' = sr_next_lease_number s"
  shows "sinv env X E U s' = sinv env X E U s"
  by (simp add: sinv_def task_ok_def executor_ok_def lease_ok_def completed_of_def assms)

lemma sinv_frame [simp]:
  "sinv env X E U (emit env k l s) = sinv env X E U s"
  "sinv env X E U (record_effect f s) = sinv env X E U s"
  "sinv env X E U (upd_stats g s) = sinv env X E U s"
  "sinv env X E U (fail_build kind i s) = sinv env X E U s"
  "sinv env X E U (s\<lparr>sr_clock_reads := n\<rparr>) = sinv env X E U s"
  "sinv env X E U (s\<lparr>sr_outcome := out\<rparr>) = sinv env X E U s"
  "sinv env X E U (s\<lparr>sr_sink := k'\<rparr>) = sinv env X E U s"
  by (rule sinv_cong; simp)+

lemma sinv_mono: "sinv env X E U s \<Longrightarrow> X \<subseteq> X' \<Longrightarrow> E \<subseteq> E' \<Longrightarrow> U \<subseteq> U' \<Longrightarrow> sinv env X' E' U' s"
  unfolding sinv_def task_ok_def executor_ok_def Let_def by blast

subsection \<open>Primitive steps\<close>

lemma sinv_task: "sinv env X E U s \<Longrightarrow> t < tg_size (se_graph env) \<Longrightarrow> task_ok env X U s t"
  and sinv_executor: "sinv env X E U s \<Longrightarrow> e < length (se_executors env) \<Longrightarrow> executor_ok env E s e"
  and sinv_lease: "sinv env X E U s \<Longrightarrow> map_of (sr_leases s) i = Some l \<Longrightarrow> lease_ok env s i l"
  and sinv_lengths: "sinv env X E U s \<Longrightarrow>
    length (sr_tasks s) = tg_size (se_graph env) \<and> length (sr_executors s) = length (se_executors env)"
  and sinv_graph: "sinv env X E U s \<Longrightarrow> wf_graph (se_graph env)"
  by (simp_all add: sinv_def)

text \<open>Updates of a task record that leave phase and leases alone.\<close>

lemma sinv_upd_task:
  assumes "\<And>r. tk_phase (f r) = tk_phase r" and "\<And>r. tk_active_leases (f r) = tk_active_leases r"
  shows "sinv env X E U (upd_task t f s) = sinv env X E U s"
proof -
  have at: "tk_phase (task_of (upd_task t f s) t') = tk_phase (task_of s t')"
    "tk_active_leases (task_of (upd_task t f s) t') = tk_active_leases (task_of s t')" for t'
    using assms by (cases "t' = t"; cases "t < length (sr_tasks s)"; simp add: list_update_beyond)+
  have "task_ok env X U (upd_task t f s) t' = task_ok env X U s t'" for t'
    unfolding task_ok_def Let_def at completed_of_def by simp
  then show ?thesis by (simp add: sinv_def executor_ok_def lease_ok_def)
qed

lemma sinv_upd_executor:
  assumes "\<And>r. er_active (f r) = er_active r" and "\<And>r. er_quarantined (f r) = er_quarantined r"
  shows "sinv env X E U (upd_executor e f s) = sinv env X E U s"
proof -
  have at: "er_active (executor_of (upd_executor e f s) e') = er_active (executor_of s e')"
    "er_quarantined (executor_of (upd_executor e f s) e') = er_quarantined (executor_of s e')" for e'
    using assms by (cases "e' = e"; cases "e < length (sr_executors s)"; simp add: list_update_beyond)+
  have "executor_ok env E (upd_executor e f s) e' = executor_ok env E s e'" for e'
    unfolding executor_ok_def at by simp
  then show ?thesis by (simp add: sinv_def task_ok_def completed_of_def lease_ok_def)
qed

lemma sinv_quarantine_flag:
  assumes "sinv env X E U s"
  shows "sinv env X (insert e E) U (upd_executor e (\<lambda>r. r\<lparr>er_quarantined := True\<rparr>) s)"
proof -
  have "executor_ok env (insert e E) (upd_executor e (\<lambda>r. r\<lparr>er_quarantined := True\<rparr>) s) e'"
    if "e' < length (se_executors env)" for e'
    using sinv_executor [OF assms that] sinv_lengths [OF assms] that
    by (cases "e' = e") (auto simp: executor_ok_def)
  then show ?thesis using assms by (simp add: sinv_def task_ok_def completed_of_def lease_ok_def)
qed

lemma sinv_release:
  assumes inv: "sinv env X E U s" and l: "map_of (sr_leases s) i = Some l"
  shows "sinv env (insert (lr_task l) X) E U (release i l s)"
proof -
  note L = sinv_lease [OF inv l, unfolded lease_ok_def]
  have wf: "map_wf (sr_leases s)" using inv by (simp add: sinv_def)
  have lease: "sr_leases (release i l s) = map_erase i (sr_leases s)" by (simp add: release_def)
  have same: "sr_ready_set (release i l s) = sr_ready_set s" "sr_ready_queue (release i l s) = sr_ready_queue s"
    "sr_next_lease_number (release i l s) = sr_next_lease_number s"
    by (simp_all add: release_def)
  have "task_ok env (insert (lr_task l) X) U (release i l s) t" if t: "t < tg_size (se_graph env)" for t
  proof -
    note T = sinv_task [OF inv t, unfolded task_ok_def Let_def]
    have card: "card (held (sr_leases s) t - {i}) \<le> 2"
      using T by (meson card_Diff1_le held_finite le_trans)
    show ?thesis
    proof (cases "t = lr_task l")
      case True
      have "task_of (release i l s) t
          = (task_of s t)\<lparr>tk_active_leases := tk_active_leases (task_of s t) - {i}\<rparr>"
        using True L t sinv_lengths [OF inv] by (simp add: release_def)
      then show ?thesis
        using T True card unfolding task_ok_def Let_def completed_of_def lease held_erase same by auto
    next
      case False
      then have "task_of (release i l s) t = task_of s t" by (simp add: release_def)
      moreover have "held (sr_leases s) t - {i} = held (sr_leases s) t"
        using False l by (auto simp: held_def)
      ultimately show ?thesis
        using T unfolding task_ok_def Let_def completed_of_def lease held_erase same by auto
    qed
  qed
  moreover have "executor_ok env E (release i l s) e" if e: "e < length (se_executors env)" for e
  proof (cases "e = lr_executor l")
    case True
    have "i \<in> load (sr_leases s) e" using l True by (simp add: loadI)
    then have "card (load (sr_leases s) e - {i}) = card (load (sr_leases s) e) - 1"
      by (simp add: card_Diff_singleton)
    then show ?thesis
      using sinv_executor [OF inv e] True e sinv_lengths [OF inv]
      by (auto simp: executor_ok_def lease load_erase) (simp_all add: release_def)
  next
    case False
    then have "load (sr_leases s) e - {i} = load (sr_leases s) e" using l by (auto simp: load_def)
    then show ?thesis
      using sinv_executor [OF inv e] False by (simp add: executor_ok_def lease load_erase)
        (simp add: release_def)
  qed
  moreover have "lease_ok env (release i l s) i' l'" if "map_of (map_erase i (sr_leases s)) i' = Some l'" for i' l'
  proof -
    have "map_of (sr_leases s) i' = Some l'" using that by (simp split: if_splits)
    from sinv_lease [OF inv this] show ?thesis by (auto simp: lease_ok_def lease same split: if_splits)
  qed
  ultimately show ?thesis
    using inv by (simp add: sinv_def lease same) (simp add: release_def)
qed

lemma sinv_make_ready:
  assumes inv: "sinv env X E U s" and t: "t < tg_size (se_graph env)"
    and idle: "held (sr_leases s) t = {}" and ph: "tk_phase (task_of s t) \<noteq> ph_committed"
    and deps: "set (deps_at (se_graph env) t) \<subseteq> completed_of s"
  shows "sinv env (X - {t}) E (U - {t}) (make_ready env t s)"
proof -
  have q: "rq_wf (se_graph env) (sr_ready_queue s)" using inv by (simp add: sinv_def)
  note Q = rq_insert [OF sinv_graph [OF inv] q t]
  have same: "sr_ready_set (make_ready env t s) = sr_ready_set s" "sr_leases (make_ready env t s) = sr_leases s"
    "sr_executors (make_ready env t s) = sr_executors s"
    "sr_next_lease_number (make_ready env t s) = sr_next_lease_number s"
    "sr_ready_queue (make_ready env t s) = rq_insert (se_graph env) t (sr_ready_queue s)"
    by (simp_all add: make_ready_def)
  have "task_ok env (X - {t}) (U - {t}) (make_ready env t s) t'" if t': "t' < tg_size (se_graph env)" for t'
  proof -
    note T = sinv_task [OF inv t', unfolded task_ok_def Let_def]
    show ?thesis
    proof (cases "t' = t")
      case True
      then have "task_of (make_ready env t s) t' = (task_of s t)\<lparr>tk_phase := ph_ready\<rparr>"
        using t sinv_lengths [OF inv] by (simp add: make_ready_def)
      then show ?thesis
        using T True idle ph deps unfolding task_ok_def Let_def completed_of_def same Q by auto
    next
      case False
      then have "task_of (make_ready env t s) t' = task_of s t'" by (simp add: make_ready_def)
      then show ?thesis using T False unfolding task_ok_def Let_def completed_of_def same Q by auto
    qed
  qed
  moreover have "executor_ok env E (make_ready env t s) e = executor_ok env E s e" for e
    by (simp add: executor_ok_def same)
  moreover have "lease_ok env (make_ready env t s) i l = lease_ok env s i l" for i l
    by (simp add: lease_ok_def same)
  moreover have "length (sr_tasks (make_ready env t s)) = length (sr_tasks s)" by (simp add: make_ready_def)
  ultimately show ?thesis using inv Q(2) unfolding sinv_def same by simp
qed

subsection \<open>Granting\<close>

definition granted_lease ::
  "('j, 's) sched_env \<Rightarrow> nat \<Rightarrow> nat \<Rightarrow> bool \<Rightarrow> ('j, 's) sched \<Rightarrow> lease_record" where
  "granted_lease env task executor speculative s =
     (let rules = lease_policy_for (se_policy env) (ts_task_type (spec_of env task));
          est = est_seconds (ts_resources (spec_of env task));
          now = se_clock env (sr_clock_reads s)
      in \<lparr>lr_task = task, lr_executor = executor,
          lr_lease = \<lparr>le_lease_id = lease_name (sr_next_lease_number s),
            le_attempt = tk_attempts_started (task_of s task) + 1,
            le_duration = lease_duration rules est, le_heartbeat_interval = heartbeat_interval rules\<rparr>,
          lr_grant_sequence = sr_next_lease_number s, lr_granted_at = now,
          lr_expires_at = now + lease_duration rules est,
          lr_deadline_at = now + attempt_deadline rules est, lr_speculative = speculative\<rparr>)"

lemma grant_fields [simp]:
  "sr_ready_set (grant env t e sp s) = sr_ready_set s"
  "sr_ready_queue (grant env t e sp s) = rq_erase (se_graph env) t (sr_ready_queue s)"
  "sr_tasks (grant env t e sp s) = (sr_tasks s)[t := (task_of s t)
     \<lparr>tk_attempts_started := tk_attempts_started (task_of s t) + 1, tk_phase := ph_leased,
      tk_active_leases := insert (lease_name (sr_next_lease_number s)) (tk_active_leases (task_of s t))\<rparr>]"
  "sr_executors (grant env t e sp s) = (sr_executors s)[e := (executor_of s e)
     \<lparr>er_active := er_active (executor_of s e) + 1\<rparr>]"
  "sr_leases (grant env t e sp s)
     = map_emplace (lease_name (sr_next_lease_number s)) (granted_lease env t e sp s) (sr_leases s)"
  "sr_next_lease_number (grant env t e sp s) = sr_next_lease_number s + 1"
  "sr_clock_reads (grant env t e sp s) = sr_clock_reads s + 1"
  "failed_run (grant env t e sp s) = failed_run s"
  "sr_sink (grant env t e sp s) = sr_sink s"
  by (simp_all add: grant_def clock_now_def Let_def granted_lease_def)

lemma lease_name_inject [simp]: "lease_name a = lease_name b \<longleftrightarrow> a = b"
  by (simp add: lease_name_def)

lemma sinv_fresh_name:
  assumes "sinv env X E U s"
  shows "map_of (sr_leases s) (lease_name (sr_next_lease_number s)) = None"
proof (rule ccontr)
  assume "map_of (sr_leases s) (lease_name (sr_next_lease_number s)) \<noteq> None"
  then obtain l where "map_of (sr_leases s) (lease_name (sr_next_lease_number s)) = Some l" by blast
  from sinv_lease [OF assms this] show False by (auto simp: lease_ok_def)
qed

lemma granted_lease_fields [simp]:
  "lr_task (granted_lease env t e sp s) = t" "lr_executor (granted_lease env t e sp s) = e"
  "le_lease_id (lr_lease (granted_lease env t e sp s)) = lease_name (sr_next_lease_number s)"
  "lr_grant_sequence (granted_lease env t e sp s) = sr_next_lease_number s"
  "lr_speculative (granted_lease env t e sp s) = sp"
  "le_attempt (lr_lease (granted_lease env t e sp s)) = tk_attempts_started (task_of s t) + 1"
  by (simp_all add: granted_lease_def Let_def)

lemma sinv_grant:
  assumes inv: "sinv env {} {} {} s" and t: "t < tg_size (se_graph env)" and e: "e < length (se_executors env)"
    and ph: "tk_phase (task_of s t) = ph_ready \<or> tk_phase (task_of s t) = ph_leased"
    and few: "card (held (sr_leases s) t) \<le> 1"
    and other: "\<forall>i l. map_of (sr_leases s) i = Some l \<and> lr_task l = t \<longrightarrow> lr_executor l \<noteq> e"
    and usable: "\<not> er_quarantined (executor_of s e)"
    and slot: "er_active (executor_of s e) < ex_slots (se_executors env ! e)"
    and acc: "ex_accepts (se_executors env ! e) (spec_of env t)"
  shows "sinv env {} {} {} (grant env t e sp s)"
proof -
  let ?i = "lease_name (sr_next_lease_number s)" and ?l = "granted_lease env t e sp s"
  let ?s = "grant env t e sp s"
  have wf: "map_wf (sr_leases s)" and q: "rq_wf (se_graph env) (sr_ready_queue s)"
    using inv by (simp_all add: sinv_def)
  note fresh = sinv_fresh_name [OF inv]
  note Q = rq_erase [OF sinv_graph [OF inv] q t]
  have held: "held (sr_leases ?s) t' = (if t = t' then insert ?i (held (sr_leases s) t') else held (sr_leases s) t')" for t'
    using held_emplace [OF wf fresh] by simp
  have load: "load (sr_leases ?s) e' = (if e = e' then insert ?i (load (sr_leases s) e') else load (sr_leases s) e')" for e'
    using load_emplace [OF wf fresh] by simp
  have new: "?i \<notin> held (sr_leases s) t'" "?i \<notin> load (sr_leases s) e'" for t' e'
    using fresh by (auto simp: held_def load_def)
  have "task_ok env {} {} ?s t'" if t': "t' < tg_size (se_graph env)" for t'
  proof -
    note T = sinv_task [OF inv t', unfolded task_ok_def Let_def]
    show ?thesis
    proof (cases "t' = t")
      case True
      have rec: "task_of ?s t = (task_of s t)
          \<lparr>tk_attempts_started := tk_attempts_started (task_of s t) + 1, tk_phase := ph_leased,
           tk_active_leases := insert ?i (tk_active_leases (task_of s t))\<rparr>"
        using t sinv_lengths [OF inv] by simp
      have deps: "set (deps_at (se_graph env) t) \<subseteq> completed_of s" and "t \<notin> completed_of s"
        using T True ph by auto
      moreover have "tk_active_leases (task_of s t) = held (sr_leases s) t" using T True by simp
      ultimately show ?thesis
        using True few new(1) [of t] t sinv_lengths [OF inv] unfolding task_ok_def Let_def completed_of_def held
        by (simp add: Q)
    next
      case False
      then have "task_of ?s t' = task_of s t'" by simp
      then show ?thesis using T False unfolding task_ok_def Let_def completed_of_def held by (simp add: Q)
    qed
  qed
  moreover have "executor_ok env {} ?s e'" if e': "e' < length (se_executors env)" for e'
  proof (cases "e' = e")
    case True
    then show ?thesis
      using sinv_executor [OF inv e] usable slot e new(2) [of e] sinv_lengths [OF inv]
      unfolding executor_ok_def load by simp
  next
    case False
    then show ?thesis using sinv_executor [OF inv e'] unfolding executor_ok_def load by simp
  qed
  moreover have "lease_ok env ?s i l" if i: "map_of (sr_leases ?s) i = Some l" for i l
  proof (cases "i = ?i")
    case True
    then have l: "l = ?l" using i wf fresh by simp
    show ?thesis using True t e acc other wf fresh inv unfolding lease_ok_def l
      by (auto simp: sinv_def)
  next
    case False
    then have old: "map_of (sr_leases s) i = Some l" using i wf by simp
    note L = sinv_lease [OF inv old, unfolded lease_ok_def]
    have "lr_executor l \<noteq> e" if "lr_task l = t" using other old that by blast
    then show ?thesis using L wf fresh unfolding lease_ok_def by (auto split: if_splits)
  qed
  ultimately show ?thesis
    using inv wf Q(2) unfolding sinv_def by simp
qed

subsection \<open>Committing\<close>

lemma sinv_commit:
  assumes inv: "sinv env {t} {} {} s" and t: "t < tg_size (se_graph env)"
    and ph: "tk_phase (task_of s t) = ph_leased"
    and f: "tk_phase (f (task_of s t)) = ph_committed" "tk_active_leases (f (task_of s t)) = tk_active_leases (task_of s t)"
    and complete: "rs_complete_task (se_graph env) (sr_ready_set s) t = Inr (rs, ready)"
  shows "sinv env {} {} (set ready)
      ((upd_task t f s)\<lparr>sr_ready_queue := rq_erase (se_graph env) t (sr_ready_queue s), sr_ready_set := rs\<rparr>)"
    (is "sinv _ _ _ _ ?s")
proof -
  have q: "rq_wf (se_graph env) (sr_ready_queue s)" and rs: "rs_inv (se_graph env) (sr_ready_set s)"
    using inv by (simp_all add: sinv_def)
  note Q = rq_erase [OF sinv_graph [OF inv] q t]
  have new: "t \<notin> rs_completed (sr_ready_set s)"
    using sinv_task [OF inv t] ph by (auto simp: task_ok_def completed_of_def Let_def)
  have R: "rs_inv (se_graph env) rs" "rs_completed rs = insert t (rs_completed (sr_ready_set s))"
    "set ready = {d. d < tg_size (se_graph env) \<and> t \<in> set (deps_at (se_graph env) d)
        \<and> set (deps_at (se_graph env) d) \<subseteq> insert t (rs_completed (sr_ready_set s))}"
    using rs_complete_task_ok [OF sinv_graph [OF inv] rs t new] complete by auto
  have comp: "completed_of ?s = insert t (completed_of s)" using R(2) by (simp add: completed_of_def)
  have "task_ok env {} (set ready) ?s t'" if t': "t' < tg_size (se_graph env)" for t'
  proof -
    note T = sinv_task [OF inv t', unfolded task_ok_def Let_def]
    show ?thesis
    proof (cases "t' = t")
      case True
      then have "task_of ?s t' = f (task_of s t)" using t sinv_lengths [OF inv] by simp
      then show ?thesis using T True f ph unfolding task_ok_def Let_def comp by (simp add: Q)
    next
      case False
      then have same: "task_of ?s t' = task_of s t'" by simp
      have U: "t' \<in> set ready" if "tk_phase (task_of s t') = ph_waiting"
          "set (deps_at (se_graph env) t') \<subseteq> insert t (completed_of s)"
      proof -
        have "t \<in> set (deps_at (se_graph env) t')" using T that by auto
        then show ?thesis using t' that(2) unfolding R(3) completed_of_def by simp
      qed
      have "set (deps_at (se_graph env) t') \<subseteq> insert t (completed_of s)"
        if "tk_phase (task_of s t') = ph_ready \<or> tk_phase (task_of s t') = ph_leased"
        using T that by blast
      then show ?thesis using T False U unfolding task_ok_def Let_def comp same by (simp add: Q)
    qed
  qed
  moreover have "executor_ok env {} ?s e = executor_ok env {} s e" for e by (simp add: executor_ok_def)
  moreover have "lease_ok env ?s i l = lease_ok env s i l" for i l by (simp add: lease_ok_def)
  ultimately show ?thesis using inv Q(2) R(1) unfolding sinv_def by simp
qed

lemma sinv_mark_each_ready:
  "sinv env {} {} (set ready) s \<Longrightarrow> set ready \<subseteq> {..<tg_size (se_graph env)} \<Longrightarrow>
     (\<forall>d \<in> set ready. set (deps_at (se_graph env) d) \<subseteq> completed_of s) \<Longrightarrow>
     sinv env {} {} {} (mark_each_ready env ready s)"
proof (induction ready arbitrary: s)
  case (Cons d ready)
  let ?s = "if tk_phase (task_of s d) = ph_waiting then make_ready env d s else s"
  have d: "d < tg_size (se_graph env)" and deps: "set (deps_at (se_graph env) d) \<subseteq> completed_of s"
    using Cons.prems by auto
  have comp: "completed_of ?s = completed_of s" by (simp add: completed_of_def make_ready_def)
  have "sinv env {} {} (set ready) ?s"
  proof (cases "tk_phase (task_of s d) = ph_waiting")
    case True
    then have "held (sr_leases s) d = {}"
      using sinv_task [OF Cons.prems(1) d] by (simp add: task_ok_def Let_def)
    from sinv_make_ready [OF Cons.prems(1) d this _ deps] True
    have "sinv env ({} - {d}) {} (set (d # ready) - {d}) (make_ready env d s)" by simp
    then show ?thesis using True by (auto elim: sinv_mono)
  next
    case False
    have "task_ok env {} (set ready) s t" if t: "t < tg_size (se_graph env)" for t
      using sinv_task [OF Cons.prems(1) t] False by (cases "t = d") (auto simp: task_ok_def Let_def)
    then show ?thesis using Cons.prems(1) False unfolding sinv_def by simp
  qed
  then show ?case using Cons.IH Cons.prems(2,3) comp by (simp del: set_simps(2)) force
qed simp

end
