(* ===== verification/SchedulerSteps.thy ===== *)
theory SchedulerSteps
  imports SchedulerInv
begin

text \<open>
  Preservation of the invariant by the scheduler's operations, and what no operation but a grant
  and a commit changes: the relation \<open>settles s s'\<close> says that the ready set, the sink, the
  counters of attempts and commits and the record of assignments and commits are the same, and
  that no task goes back to waiting.
\<close>

subsection \<open>What stays\<close>

fun logged :: "'j effect \<Rightarrow> bool" where
  "logged (Assign _ _ _) = True"
| "logged (SinkCommit _ _) = True"
| "logged _ = False"

definition log_of :: "('j, 's) sched \<Rightarrow> 'j effect list" where
  "log_of s = filter logged (sr_trace s)"

definition started :: "('j, 's) sched \<Rightarrow> nat \<Rightarrow> bool" where
  "started s t \<longleftrightarrow> tk_phase (task_of s t) \<noteq> ph_waiting"

definition counters :: "('j, 's) sched \<Rightarrow> nat \<times> nat \<times> nat" where
  "counters s = (let st = bo_stats (sr_outcome s) in (st_attempts_started st, st_committed st, st_resumed st))"

definition settles :: "('j, 's) sched \<Rightarrow> ('j, 's) sched \<Rightarrow> bool" where
  "settles s s' \<longleftrightarrow>
     sr_ready_set s' = sr_ready_set s \<and> sr_next_lease_number s' = sr_next_lease_number s
     \<and> sr_sink s' = sr_sink s \<and> log_of s' = log_of s \<and> counters s' = counters s
     \<and> length (sr_tasks s') = length (sr_tasks s)
     \<and> (\<forall>t. tk_attempts_started (task_of s' t) = tk_attempts_started (task_of s t))
     \<and> (\<forall>t. started s t \<longrightarrow> started s' t)
     \<and> (bo_status (sr_outcome s) = build_failed \<longrightarrow> bo_status (sr_outcome s') = build_failed)"

lemma settles_refl [simp, intro]: "settles s s"
  by (simp add: settles_def)

lemma settles_trans: "settles s s' \<Longrightarrow> settles s' s'' \<Longrightarrow> settles s s''"
  by (simp add: settles_def)

lemma log_of_frame [simp]:
  "log_of (emit env k l s) = log_of s" "log_of (upd_task t f s) = log_of s"
  "log_of (upd_executor e g s) = log_of s" "log_of (upd_stats h s) = log_of s"
  "log_of (fail_build kind i s) = log_of s"
  "log_of (s\<lparr>sr_leases := ls\<rparr>) = log_of s" "log_of (s\<lparr>sr_ready_queue := q\<rparr>) = log_of s"
  "log_of (s\<lparr>sr_clock_reads := n\<rparr>) = log_of s" "log_of (s\<lparr>sr_outcome := oc\<rparr>) = log_of s"
  "log_of (s\<lparr>sr_ready_set := rs\<rparr>) = log_of s" "log_of (s\<lparr>sr_sink := k'\<rparr>) = log_of s"
  "log_of (record_effect x s) = log_of s @ (if logged x then [x] else [])"
  by (simp_all add: log_of_def emit_def record_effect_def fail_build_def)

lemma counters_frame [simp]:
  "counters (emit env k l s) = counters s" "counters (upd_task t f s) = counters s"
  "counters (upd_executor e g s) = counters s" "counters (record_effect x s) = counters s"
  "counters (fail_build kind i s) = counters s"
  "counters (s\<lparr>sr_leases := ls\<rparr>) = counters s" "counters (s\<lparr>sr_ready_queue := q\<rparr>) = counters s"
  "counters (s\<lparr>sr_clock_reads := n\<rparr>) = counters s" "counters (s\<lparr>sr_ready_set := rs\<rparr>) = counters s"
  "counters (s\<lparr>sr_sink := k'\<rparr>) = counters s"
  by (simp_all add: counters_def Let_def fail_build_def)

lemma settles_emit [simp]: "settles s (emit env k l s)"
  and settles_effect [simp]: "\<not> logged x \<Longrightarrow> settles s (record_effect x s)"
  and settles_fail [simp]: "settles s (fail_build kind i s)"
  and settles_executor [simp]: "settles s (upd_executor e g s)"
  and settles_clock [simp]: "settles s (s\<lparr>sr_clock_reads := n\<rparr>)"
  and settles_leases [simp]: "settles s (s\<lparr>sr_leases := ls\<rparr>)"
  by (simp_all add: settles_def started_def) (simp add: fail_build_def)

lemma settles_stats:
  "(\<And>st. (st_attempts_started (f st), st_committed (f st), st_resumed (f st))
      = (st_attempts_started st, st_committed st, st_resumed st)) \<Longrightarrow> settles s (upd_stats f s)"
  by (simp add: settles_def started_def counters_def upd_stats_def log_of_def Let_def)

lemma settles_task:
  assumes "\<And>r. tk_attempts_started (f r) = tk_attempts_started r"
    and "\<And>r. tk_phase (f r) = tk_phase r \<or> tk_phase (f r) \<noteq> ph_waiting"
  shows "settles s (upd_task t f s)"
proof -
  have at: "tk_attempts_started (task_of (upd_task t f s) t') = tk_attempts_started (task_of s t')"
    "started s t' \<Longrightarrow> started (upd_task t f s) t'" for t'
    using assms [of "task_of s t"]
    by (cases "t' = t"; cases "t < length (sr_tasks s)"; auto simp: list_update_beyond started_def)+
  show ?thesis unfolding settles_def using at by simp
qed

lemma settles_release: "settles s (release i l s)"
  unfolding release_def
  by (rule settles_trans [OF _ settles_task], rule settles_trans [OF _ settles_executor]) simp_all

lemma settles_make_ready: "settles s (make_ready env t s)"
proof -
  have "settles s (upd_task t (\<lambda>r. r\<lparr>tk_phase := ph_ready\<rparr>) s)" by (rule settles_task) simp_all
  then show ?thesis by (simp add: settles_def make_ready_def started_def log_of_def counters_def)
qed

lemma settles_requeue: "settles s (requeue_if_idle env t s)"
  by (simp add: requeue_if_idle_def settles_make_ready)

lemma settles_abandon_each: "settles s (abandon_each env e ids s)"
proof (induction env e ids s rule: abandon_each.induct)
  case (2 env e i ids s)
  show ?case
  proof (cases "map_of (sr_leases s) i")
    case (Some l)
    let ?s1 = "record_effect (Cancel e i) (release i l s)"
    let ?s2 = "upd_task (lr_task l) (\<lambda>t. t\<lparr>tk_avoid := insert e (tk_avoid t)\<rparr>) ?s1"
    have "settles s ?s1" by (rule settles_trans [OF settles_release [of s i l]]) simp
    moreover have "settles ?s1 ?s2" by (rule settles_task) simp_all
    ultimately have "settles s (requeue_if_idle env (lr_task l) ?s2)"
      using settles_requeue by (rule_tac settles_trans [of _ ?s2], rule_tac settles_trans [of _ ?s1])
    then have "settles s (abandon_each env e ids (requeue_if_idle env (lr_task l) ?s2))"
      using "2.IH" [OF Some] by (rule settles_trans)
    then show ?thesis using Some by simp
  qed simp
qed simp

lemma settles_quarantine: "settles s (quarantine env e s)"
proof -
  let ?s0 = "upd_executor e (\<lambda>r. r\<lparr>er_quarantined := True\<rparr>) s"
  let ?s1 = "upd_stats (\<lambda>st. st\<lparr>st_quarantined_executors :=
                   st_quarantined_executors st @ [executor_id env e]\<rparr>) ?s0"
  have s1: "settles s ?s1" by (rule settles_trans [OF settles_executor settles_stats]) simp
  then have "settles s (record_effect (Observe ev) ?s1)" for ev
    by (rule settles_trans) simp
  with s1 show ?thesis
    by (auto simp: quarantine_def Let_def intro: settles_trans [OF _ settles_abandon_each])
qed

lemma settles_count_executor_loss: "settles s (count_executor_loss env l s)"
  by (auto simp: count_executor_loss_def Let_def intro: settles_trans [OF settles_executor settles_quarantine])

lemma settles_note: "settles s (note_executor_recovery l s)"
  by (simp add: note_executor_recovery_def)

lemma settles_attempt_failed: "settles s (attempt_failed env t e s)"
proof -
  let ?s1 = "upd_task t (\<lambda>r. r\<lparr>tk_failed_attempts := tk_failed_attempts r + 1,
      tk_avoid := insert e (tk_avoid r)\<rparr>) s"
  have "settles s ?s1" by (rule settles_task) simp_all
  moreover from this have "settles s (make_ready env t (upd_stats (\<lambda>st. st\<lparr>st_retries := st_retries st + 1\<rparr>) ?s1))"
    by (rule settles_trans [OF _ settles_trans [OF settles_stats settles_make_ready]]) simp
  ultimately show ?thesis
    by (auto simp: attempt_failed_def Let_def intro: settles_trans [OF _ settles_fail])
qed

lemma settles_on_heartbeat: "settles s (on_heartbeat env i s)"
  by (auto simp: on_heartbeat_def clock_now_def Let_def
      intro: settles_trans [OF settles_clock settles_leases])

lemma settles_on_failed: "settles s (on_failed env i kind s)"
proof (cases "map_of (sr_leases s) i")
  case (Some l)
  have "settles s (emit env ev_failed l (release i l s))"
    by (rule settles_trans [OF settles_release [of s i l]]) simp
  moreover from this have "settles s (upd_stats (\<lambda>st. st\<lparr>st_invalid_results := st_invalid_results st + 1\<rparr>)
      (emit env ev_failed l (release i l s)))"
    by (rule settles_trans [OF _ settles_stats]) simp
  ultimately show ?thesis using Some
    by (auto simp: on_failed_def Let_def intro: settles_trans [OF _ settles_attempt_failed]
        settles_trans [OF _ settles_quarantine] settles_trans [OF _ settles_count_executor_loss])
qed (simp add: on_failed_def)

lemma settles_on_rejected: "settles s (on_rejected env i s)"
proof (cases "map_of (sr_leases s) i")
  case (Some l)
  have "settles s (upd_stats (\<lambda>st. st\<lparr>st_leases_rejected := st_leases_rejected st + 1\<rparr>) (release i l s))"
    by (rule settles_trans [OF settles_release settles_stats]) simp
  then have "settles s (emit env ev_rejected l (upd_stats (\<lambda>st. st\<lparr>st_leases_rejected := st_leases_rejected st + 1\<rparr>) (release i l s)))"
    by (rule settles_trans) simp
  then show ?thesis using Some
    by (auto simp: on_rejected_def Let_def clock_now_def intro: settles_trans [OF _ settles_requeue]
        settles_trans [OF _ settles_executor] settles_trans [OF _ settles_clock])
qed (simp add: on_rejected_def)

lemma settles_end_lease_at_deadline: "settles s (end_lease_at_deadline env l s)"
proof -
  have "settles s (upd_stats (\<lambda>st. st\<lparr>st_deadlines_exceeded := st_deadlines_exceeded st + 1\<rparr>) s)"
    by (rule settles_stats) simp
  then show ?thesis unfolding end_lease_at_deadline_def
    by (rule_tac settles_trans [OF _ settles_attempt_failed], rule_tac settles_trans [OF _ settles_count_executor_loss],
        rule_tac settles_trans [OF _ settles_effect], rule_tac settles_trans [OF _ settles_emit]) simp_all
qed

lemma settles_end_each: "settles s (end_each env now ids s)"
proof (induction env now ids s rule: end_each.induct)
  case (2 env now i ids s)
  have "settles s (case map_of (sr_leases s) i of None \<Rightarrow> s
        | Some l \<Rightarrow>
            if failed_run s then s
            else if lr_deadline_at l \<le> now then end_lease_at_deadline env l (release i l s)
            else attempt_failed env (lr_task l) (lr_executor l)
                   (count_executor_loss env l
                     (record_effect (LeaseExpired (lr_executor l) i)
                       (emit env ev_expired l
                         (upd_stats (\<lambda>st. st\<lparr>st_leases_expired := st_leases_expired st + 1\<rparr>)
                           (release i l s))))))" (is "settles s ?next")
  proof (cases "map_of (sr_leases s) i")
    case (Some l)
    have "settles s (upd_stats (\<lambda>st. st\<lparr>st_leases_expired := st_leases_expired st + 1\<rparr>) (release i l s))"
      by (rule settles_trans [OF settles_release settles_stats]) simp
    then have "settles s (record_effect (LeaseExpired (lr_executor l) i)
        (emit env ev_expired l (upd_stats (\<lambda>st. st\<lparr>st_leases_expired := st_leases_expired st + 1\<rparr>) (release i l s))))"
      by (rule_tac settles_trans [OF _ settles_effect], rule_tac settles_trans [OF _ settles_emit]) simp_all
    then show ?thesis using Some
      by (auto intro: settles_trans [OF settles_release settles_end_lease_at_deadline]
          settles_trans [OF _ settles_attempt_failed] settles_trans [OF _ settles_count_executor_loss])
  qed simp
  with "2.IH" show ?case by (simp add: settles_trans)
qed simp

lemma settles_expire_leases: "settles s (expire_leases env s)"
  by (auto simp: expire_leases_def clock_now_def Let_def intro: settles_trans [OF settles_clock settles_end_each])

subsection \<open>The invariant across the operations\<close>

lemma sinv_requeue:
  assumes inv: "sinv env (insert t X) E U s" and t: "t < tg_size (se_graph env)" and st: "started s t"
  shows "sinv env X E U (requeue_if_idle env t s)"
proof -
  note T = sinv_task [OF inv t, unfolded task_ok_def Let_def]
  show ?thesis
  proof (cases "tk_phase (task_of s t) \<noteq> ph_committed \<and> tk_active_leases (task_of s t) = {}")
    case True
    have "sinv env (insert t X - {t}) E (U - {t}) (make_ready env t s)"
      by (rule sinv_make_ready [OF inv t]) (use T True st in \<open>cases "tk_phase (task_of s t)"; auto simp: started_def\<close>)+
    then show ?thesis using True by (auto simp: requeue_if_idle_def elim: sinv_mono)
  next
    case False
    have "task_ok env X U s t'" if "t' < tg_size (se_graph env)" for t'
      using sinv_task [OF inv that] T False by (cases "t' = t") (auto simp: task_ok_def Let_def)
    then have "sinv env X E U s" using inv by (simp add: sinv_def)
    then show ?thesis using False by (simp only: requeue_if_idle_def if_False)
  qed
qed

lemma sinv_lease_started:
  assumes "sinv env X E U s" and "map_of (sr_leases s) i = Some l"
  shows "started s (lr_task l)" and "lr_task l < tg_size (se_graph env)"
    and "lr_executor l < length (se_executors env)" and "le_lease_id (lr_lease l) = i"
    and "tk_phase (task_of s (lr_task l)) = ph_leased \<or> tk_phase (task_of s (lr_task l)) = ph_committed"
proof -
  show t: "lr_task l < tg_size (se_graph env)" and "lr_executor l < length (se_executors env)"
    and "le_lease_id (lr_lease l) = i"
    using sinv_lease [OF assms] by (simp_all add: lease_ok_def)
  have "held (sr_leases s) (lr_task l) \<noteq> {}" using heldI [OF assms(2)] by blast
  then show "started s (lr_task l)"
    and "tk_phase (task_of s (lr_task l)) = ph_leased \<or> tk_phase (task_of s (lr_task l)) = ph_committed"
    using sinv_task [OF assms(1) t] by (cases "tk_phase (task_of s (lr_task l))";
      auto simp: task_ok_def Let_def started_def)+
qed

lemma started_settles: "settles s s' \<Longrightarrow> started s t \<Longrightarrow> started s' t"
  by (simp add: settles_def)

lemma requeue_leases [simp]: "sr_leases (requeue_if_idle env t s) = sr_leases s"
  by (simp add: requeue_if_idle_def make_ready_def)

lemma release_leases [simp]: "sr_leases (release i l s) = map_erase i (sr_leases s)"
  by (simp add: release_def)

lemma failed_run_ops [simp]:
  "failed_run (release i l s) = failed_run s" "failed_run (make_ready env t s) = failed_run s"
  "failed_run (requeue_if_idle env t s) = failed_run s"
  by (simp_all add: release_def make_ready_def requeue_if_idle_def failed_run_def)

lemma sinv_abandon_each:
  assumes "sinv env X {e} U s" and "distinct ids"
    and "\<forall>i \<in> set ids. \<exists>l. map_of (sr_leases s) i = Some l \<and> lr_executor l = e"
  shows "sinv env X {e} U (abandon_each env e ids s)
    \<and> (\<forall>i. map_of (sr_leases (abandon_each env e ids s)) i
         = (if i \<in> set ids then None else map_of (sr_leases s) i))
    \<and> failed_run (abandon_each env e ids s) = failed_run s"
  using assms
proof (induction env e ids s rule: abandon_each.induct)
  case (2 env e i ids s)
  obtain l where l: "map_of (sr_leases s) i = Some l" "lr_executor l = e" using "2.prems"(3) by auto
  let ?s1 = "record_effect (Cancel e i) (release i l s)"
  let ?s2 = "upd_task (lr_task l) (\<lambda>t. t\<lparr>tk_avoid := insert e (tk_avoid t)\<rparr>) ?s1"
  let ?s3 = "requeue_if_idle env (lr_task l) ?s2"
  have one: "sinv env (insert (lr_task l) X) {e} U ?s1"
    using sinv_release [OF "2.prems"(1) l(1)] by simp
  have two: "sinv env (insert (lr_task l) X) {e} U ?s2"
    by (rule sinv_upd_task [THEN iffD2, OF _ _ one]) simp_all
  have "settles s ?s1" by (rule settles_trans [OF settles_release [of s i l]]) simp
  then have "settles s ?s2" by (rule settles_trans [OF _ settles_task]) simp_all
  then have st: "started ?s2 (lr_task l)"
    using sinv_lease_started(1) [OF "2.prems"(1) l(1)] started_settles by blast
  have three: "sinv env X {e} U ?s3"
    by (rule sinv_requeue [OF two sinv_lease_started(2) [OF "2.prems"(1) l(1)] st])
  have leases: "map_of (sr_leases ?s3) j = (if j = i then None else map_of (sr_leases s) j)" for j
    by simp
  have dist: "distinct ids" and notin: "i \<notin> set ids" using "2.prems"(2) by simp_all
  have "\<forall>j \<in> set ids. \<exists>l. map_of (sr_leases ?s3) j = Some l \<and> lr_executor l = e"
  proof
    fix j
    assume j: "j \<in> set ids"
    then have "j \<noteq> i" using notin by blast
    then show "\<exists>l. map_of (sr_leases ?s3) j = Some l \<and> lr_executor l = e"
      using "2.prems"(3) j by (simp only: leases if_False) auto
  qed
  note IH = "2.IH" [OF l(1) three dist this]
  have "abandon_each env e (i # ids) s = abandon_each env e ids ?s3" using l by simp
  moreover have "failed_run ?s3 = failed_run s" by simp
  ultimately show ?case using IH leases notin by (simp only: list.set insert_iff) auto
qed simp

lemma load_eq_ids:
  "map_wf leases \<Longrightarrow>
     set (List.map fst (filter (\<lambda>(_, l). lr_executor l = e) leases)) = load leases e
     \<and> distinct (List.map fst (filter (\<lambda>(_, l). lr_executor l = e) leases))"
proof
  assume wf: "map_wf leases"
  show "set (List.map fst (filter (\<lambda>(_, l). lr_executor l = e) leases)) = load leases e"
    using map_of_mem_iff [OF wf] by (force simp: load_def)
  show "distinct (List.map fst (filter (\<lambda>(_, l). lr_executor l = e) leases))"
    using map_wf_distinct [OF wf] by (rule distinct_map_filter)
qed

lemma sinv_quarantine:
  assumes inv: "sinv env X {} U s" and e: "e < length (se_executors env)"
  shows "sinv env X {} U (quarantine env e s)" and "failed_run (quarantine env e s) = failed_run s"
    and "load (sr_leases (quarantine env e s)) e = {} \<or> er_quarantined (executor_of s e)"
proof -
  have "sinv env X {} U (quarantine env e s) \<and> failed_run (quarantine env e s) = failed_run s
    \<and> (load (sr_leases (quarantine env e s)) e = {} \<or> er_quarantined (executor_of s e))"
  proof (cases "er_quarantined (executor_of s e)")
    case True
    then show ?thesis using inv by (simp add: quarantine_def)
  next
    case False
    define s1 where "s1 = upd_stats (\<lambda>st. st\<lparr>st_quarantined_executors :=
                   st_quarantined_executors st @ [executor_id env e]\<rparr>)
                 (upd_executor e (\<lambda>r. r\<lparr>er_quarantined := True\<rparr>) s)"
    define s2 where "s2 = (if se_observer env
                  then record_effect (Observe
                    \<lparr>ae_kind = ev_executor_quarantined, ae_task_id = [], ae_attempt = 0,
                     ae_executor_id = executor_id env e, ae_lease_id = [],
                     ae_speculative = False\<rparr>) s1 else s1)"
    define ids where "ids = List.map fst (filter (\<lambda>(_, l). lr_executor l = e) (sr_leases s2))"
    have q: "quarantine env e s = abandon_each env e ids s2"
      using False by (simp add: quarantine_def s1_def s2_def ids_def Let_def)
    have inv2: "sinv env X {e} U s2"
      using sinv_quarantine_flag [OF inv, of e] by (simp add: s2_def s1_def)
    have leases: "sr_leases s2 = sr_leases s" "failed_run s2 = failed_run s" by (simp_all add: s2_def s1_def)
    have ids: "set ids = load (sr_leases s2) e" "distinct ids"
      using load_eq_ids [of "sr_leases s2" e] inv2 by (simp_all add: ids_def sinv_def)
    have "\<forall>i \<in> set ids. \<exists>l. map_of (sr_leases s2) i = Some l \<and> lr_executor l = e"
      unfolding ids(1) by (simp add: load_def)
    note A = sinv_abandon_each [OF inv2 ids(2) this]
    have empty: "load (sr_leases (abandon_each env e ids s2)) e = {}"
      using A ids(1) by (auto simp: load_def split: if_splits)
    have "executor_ok env {} (abandon_each env e ids s2) e'"
      if "e' < length (se_executors env)" for e'
      using sinv_executor [OF conjunct1 [OF A] that] empty by (cases "e' = e") (auto simp: executor_ok_def)
    then have "sinv env X {} U (abandon_each env e ids s2)"
      using A unfolding sinv_def by blast
    then show ?thesis using A empty leases q by simp
  qed
  then show "sinv env X {} U (quarantine env e s)" and "failed_run (quarantine env e s) = failed_run s"
    and "load (sr_leases (quarantine env e s)) e = {} \<or> er_quarantined (executor_of s e)" by blast+
qed

lemma sinv_count_executor_loss:
  assumes inv: "sinv env X {} U s" and e: "lr_executor l < length (se_executors env)"
  shows "sinv env X {} U (count_executor_loss env l s)"
    and "failed_run (count_executor_loss env l s) = failed_run s"
proof -
  let ?s1 = "upd_executor (lr_executor l)
      (\<lambda>e. e\<lparr>er_consecutive_loss_events := er_consecutive_loss_events e + 1,
             er_loss_horizon := sr_next_lease_number s\<rparr>) s"
  have "sinv env X {} U ?s1" by (rule sinv_upd_executor [THEN iffD2, OF _ _ inv]) simp_all
  then show "sinv env X {} U (count_executor_loss env l s)"
    and "failed_run (count_executor_loss env l s) = failed_run s"
    using inv sinv_quarantine [OF _ e] by (auto simp: count_executor_loss_def Let_def)
qed

lemma sinv_note:
  "sinv env X E U (note_executor_recovery l s) = sinv env X E U s"
  by (simp add: note_executor_recovery_def sinv_upd_executor)

definition loop_inv :: "('j, 's) sched_env \<Rightarrow> ('j, 's) sched \<Rightarrow> bool" where
  "loop_inv env s \<longleftrightarrow> sinv env (if failed_run s then UNIV else {}) {} {} s"

lemma sinv_attempt_failed:
  assumes inv: "sinv env {t} {} {} s" and t: "t < tg_size (se_graph env)" and st: "started s t"
  shows "loop_inv env (attempt_failed env t e s)"
proof -
  let ?f = "\<lambda>r. r\<lparr>tk_failed_attempts := tk_failed_attempts r + 1, tk_avoid := insert e (tk_avoid r)\<rparr>"
  let ?s1 = "upd_task t ?f s"
  have inv1: "sinv env {t} {} {} ?s1" by (rule sinv_upd_task [THEN iffD2, OF _ _ inv]) simp_all
  have "settles s ?s1" by (rule settles_task) simp_all
  then have st1: "started ?s1 t" using st started_settles by blast
  note T = sinv_task [OF inv1 t, unfolded task_ok_def Let_def]
  consider (failed) "failed_run ?s1" | (busy) "\<not> failed_run ?s1"
      "tk_phase (task_of ?s1 t) = ph_committed \<or> tk_active_leases (task_of ?s1 t) \<noteq> {}"
    | (idle) "\<not> failed_run ?s1" "tk_phase (task_of ?s1 t) \<noteq> ph_committed" "tk_active_leases (task_of ?s1 t) = {}"
    by blast
  then show ?thesis
  proof cases
    case failed
    then have "attempt_failed env t e s = ?s1" by (simp add: attempt_failed_def Let_def)
    then show ?thesis using failed inv1 by (auto simp: loop_inv_def elim: sinv_mono)
  next
    case busy
    then have eq: "attempt_failed env t e s = requeue_if_idle env t ?s1"
      by (simp add: attempt_failed_def Let_def requeue_if_idle_def) blast
    have "sinv env {} {} {} (requeue_if_idle env t ?s1)"
      by (rule sinv_requeue [OF _ t st1]) (use inv1 in simp)
    then show ?thesis unfolding eq by (auto simp: loop_inv_def elim: sinv_mono)
  next
    case idle
    let ?s2 = "upd_stats (\<lambda>st. st\<lparr>st_retries := st_retries st + 1\<rparr>) ?s1"
    show ?thesis
    proof (cases "tk_failed_attempts (task_of ?s1 t)
        \<ge> unat (max_attempts_for (se_policy env) (ts_task_type (spec_of env t)))")
      case True
      then have eq: "attempt_failed env t e s = fail_build retries_exhausted (ts_task_id (spec_of env t)) ?s1"
        using idle unfolding attempt_failed_def Let_def by simp
      have "sinv env UNIV {} {} ?s1" using inv1 by (auto elim: sinv_mono)
      then show ?thesis unfolding eq loop_inv_def by simp
    next
      case False
      then have eq: "attempt_failed env t e s = make_ready env t ?s2"
        using idle unfolding attempt_failed_def Let_def by simp
      have inv2: "sinv env {t} {} {} ?s2" using inv1 by simp
      have same: "sr_leases ?s2 = sr_leases ?s1" "task_of ?s2 t = task_of ?s1 t" "completed_of ?s2 = completed_of ?s1"
        by (simp_all add: completed_of_def)
      have "sinv env ({t} - {t}) {} ({} - {t}) (make_ready env t ?s2)"
        by (rule sinv_make_ready [OF inv2 t]; unfold same)
          (use T idle st1 in \<open>cases "tk_phase (task_of ?s1 t)"; auto simp: started_def\<close>)+
      then show ?thesis unfolding eq by (auto simp: loop_inv_def elim: sinv_mono)
    qed
  qed
qed

lemma loop_invI: "sinv env {} {} {} s \<Longrightarrow> loop_inv env s"
  by (auto simp: loop_inv_def elim: sinv_mono)

lemma loop_inv_failed: "sinv env X {} {} s \<Longrightarrow> failed_run s \<Longrightarrow> loop_inv env s"
  by (auto simp: loop_inv_def elim: sinv_mono)

lemma loop_invD: "loop_inv env s \<Longrightarrow> \<not> failed_run s \<Longrightarrow> sinv env {} {} {} s"
  by (simp add: loop_inv_def)

lemma sinv_modify:
  assumes inv: "sinv env X E U s"
    and f: "\<And>l. lr_task (f l) = lr_task l \<and> lr_executor (f l) = lr_executor l
      \<and> lr_lease (f l) = lr_lease l \<and> lr_grant_sequence (f l) = lr_grant_sequence l"
  shows "sinv env X E U (s\<lparr>sr_leases := map_modify i f (sr_leases s)\<rparr>)" (is "sinv _ _ _ _ ?s")
proof -
  have held: "held (sr_leases ?s) t = held (sr_leases s) t" for t
    using held_modify [of f i "sr_leases s" t] f by simp
  have load: "load (sr_leases ?s) e = load (sr_leases s) e" for e
    using load_modify [of f i "sr_leases s" e] f by simp
  have "lease_ok env ?s j l" if here: "map_of (sr_leases ?s) j = Some l" for j l
  proof -
    have old: "\<exists>l0. map_of (sr_leases s) j' = Some l0 \<and> lr_task l0 = lr_task l' \<and> lr_executor l0 = lr_executor l'
        \<and> lr_lease l0 = lr_lease l' \<and> lr_grant_sequence l0 = lr_grant_sequence l'"
      if "map_of (sr_leases ?s) j' = Some l'" for j' l'
      using that f by (auto split: if_splits)
    obtain l0 where l0: "map_of (sr_leases s) j = Some l0" "lr_task l0 = lr_task l" "lr_executor l0 = lr_executor l"
        "lr_lease l0 = lr_lease l" "lr_grant_sequence l0 = lr_grant_sequence l"
      using old [OF here] by blast
    have "j' = j" if "map_of (sr_leases ?s) j' = Some l'" "lr_task l' = lr_task l" "lr_executor l' = lr_executor l" for j' l'
      using old [OF that(1)] sinv_lease [OF inv l0(1)] l0 that(2,3) by (auto simp: lease_ok_def)
    then have pair: "\<forall>j' l'. map_of (sr_leases ?s) j' = Some l' \<and> lr_task l' = lr_task l
        \<and> lr_executor l' = lr_executor l \<longrightarrow> j' = j" by blast
    have "sr_next_lease_number ?s = sr_next_lease_number s" by simp
    then show ?thesis
      using sinv_lease [OF inv l0(1)] pair unfolding lease_ok_def l0(2-5) by metis
  qed
  moreover have "task_ok env X U ?s t = task_ok env X U s t" for t
    unfolding task_ok_def held by (simp add: completed_of_def)
  moreover have "executor_ok env E ?s e = executor_ok env E s e" for e
    unfolding executor_ok_def load by simp
  ultimately show ?thesis using inv unfolding sinv_def by simp
qed

lemma sinv_on_heartbeat:
  assumes "sinv env X E U s"
  shows "sinv env X E U (on_heartbeat env i s)"
proof -
  let ?s1 = "s\<lparr>sr_clock_reads := sr_clock_reads s + 1\<rparr>"
  let ?f = "\<lambda>l. l\<lparr>lr_expires_at := se_clock env (sr_clock_reads s) + le_duration (lr_lease l)\<rparr>"
  have "sinv env X E U ?s1" using assms by simp
  then have "sinv env X E U (?s1\<lparr>sr_leases := map_modify i ?f (sr_leases ?s1)\<rparr>)"
    by (rule sinv_modify) simp
  then show ?thesis using assms by (simp add: on_heartbeat_def clock_now_def Let_def)
qed

lemma loop_inv_on_failed:
  assumes inv: "sinv env {} {} {} s"
  shows "loop_inv env (on_failed env i kind s)"
proof (cases "map_of (sr_leases s) i")
  case None
  then show ?thesis using inv by (simp add: on_failed_def loop_invI)
next
  case (Some l)
  note L = sinv_lease_started [OF inv Some]
  let ?s1 = "emit env ev_failed l (release i l s)"
  let ?s2 = "if kind = invalid_result
      then quarantine env (lr_executor l) (upd_stats (\<lambda>st. st\<lparr>st_invalid_results := st_invalid_results st + 1\<rparr>) ?s1)
      else count_executor_loss env l ?s1"
  have one: "sinv env {lr_task l} {} {} ?s1" using sinv_release [OF inv Some] by simp
  then have two: "sinv env {lr_task l} {} {} ?s2"
    using sinv_quarantine(1) [OF _ L(3)] sinv_count_executor_loss(1) [OF _ L(3)] by simp
  have st: "settles s ?s1" by (rule settles_trans [OF settles_release [of s i l]]) simp
  then have st': "settles s (upd_stats (\<lambda>st. st\<lparr>st_invalid_results := st_invalid_results st + 1\<rparr>) ?s1)"
    by (rule settles_trans [OF _ settles_stats]) simp
  have "settles s ?s2"
    using settles_trans [OF st' settles_quarantine] settles_trans [OF st settles_count_executor_loss] by simp
  then have "started ?s2 (lr_task l)" using L(1) started_settles by blast
  from sinv_attempt_failed [OF two L(2) this] show ?thesis
    using Some by (simp add: on_failed_def Let_def)
qed

lemma sinv_on_rejected:
  assumes inv: "sinv env {} {} {} s"
  shows "sinv env {} {} {} (on_rejected env i s)" and "failed_run (on_rejected env i s) = failed_run s"
proof -
  have "sinv env {} {} {} (on_rejected env i s) \<and> failed_run (on_rejected env i s) = failed_run s"
  proof (cases "map_of (sr_leases s) i")
    case None
    then show ?thesis using inv by (simp add: on_rejected_def)
  next
    case (Some l)
    note L = sinv_lease_started [OF inv Some]
    define s1 where "s1 = emit env ev_rejected l
        (upd_stats (\<lambda>st. st\<lparr>st_leases_rejected := st_leases_rejected st + 1\<rparr>) (release i l s))"
    define s2 where "s2 = s1\<lparr>sr_clock_reads := sr_clock_reads s1 + 1\<rparr>"
    define s3 where "s3 = upd_executor (lr_executor l)
        (\<lambda>e. e\<lparr>er_declined_until := se_clock env (sr_clock_reads s1) + sp_rejection_backoff (se_policy env)\<rparr>) s2"
    have eq: "on_rejected env i s = requeue_if_idle env (lr_task l) s3"
      using Some by (simp add: on_rejected_def Let_def clock_now_def s1_def s2_def s3_def)
    have "settles s (upd_stats (\<lambda>st. st\<lparr>st_leases_rejected := st_leases_rejected st + 1\<rparr>) (release i l s))"
      by (rule settles_trans [OF settles_release [of s i l] settles_stats]) simp
    then have "settles s s1" unfolding s1_def by (rule settles_trans) simp
    then have "settles s s2" unfolding s2_def by (rule settles_trans) simp
    then have "settles s s3" unfolding s3_def by (rule settles_trans) simp
    then have st: "started s3 (lr_task l)" using L(1) started_settles by blast
    have "sinv env {lr_task l} {} {} s2"
      using sinv_release [OF inv Some] by (simp add: s1_def s2_def)
    then have "sinv env {lr_task l} {} {} s3" by (simp add: s3_def sinv_upd_executor)
    then have "sinv env {} {} {} (requeue_if_idle env (lr_task l) s3)"
      by (intro sinv_requeue [OF _ L(2) st]) simp
    moreover have "failed_run s3 = failed_run s" by (simp add: s1_def s2_def s3_def)
    ultimately show ?thesis by (simp add: eq)
  qed
  then show "sinv env {} {} {} (on_rejected env i s)" and "failed_run (on_rejected env i s) = failed_run s"
    by blast+
qed

text \<open>Committing a leased task whose lease was just released.\<close>

lemma mark_each_ready_frame [simp]:
  "failed_run (mark_each_ready env ready s) = failed_run s"
  "sr_ready_set (mark_each_ready env ready s) = sr_ready_set s"
  "sr_sink (mark_each_ready env ready s) = sr_sink s"
  "sr_next_lease_number (mark_each_ready env ready s) = sr_next_lease_number s"
  by (induction ready arbitrary: s) (simp_all add: make_ready_def)

lemma commit_result_ok:
  assumes inv: "sinv env {lr_task l} {} {} s" and t: "lr_task l < tg_size (se_graph env)"
    and ph: "tk_phase (task_of s (lr_task l)) = ph_leased"
  obtains s' where "commit_result env l output s = Inr s'" and "loop_inv env s'"
proof -
  let ?t = "lr_task l" and ?g = "se_graph env"
  let ?committed = "\<lparr>cr_result = ao_result output, cr_payloads = ao_payloads output,
                       cr_executor_id = executor_id env (lr_executor l)\<rparr>"
  show ?thesis
  proof (cases "se_sink_commit env (spec_of env ?t) ?committed (sr_sink s)")
    case (Inl e)
    then have "commit_result env l output s = Inr (fail_build commit_failed (ts_task_id (spec_of env ?t)) s)"
      by (simp add: commit_result_def Let_def)
    moreover have "loop_inv env (fail_build commit_failed (ts_task_id (spec_of env ?t)) s)"
      using inv by (intro loop_inv_failed) simp_all
    ultimately show ?thesis by (rule that)
  next
    case (Inr sink)
    let ?f = "\<lambda>r. r\<lparr>tk_phase := ph_committed, tk_committed_attempt := le_attempt (lr_lease l),
        tk_committed_executor_id := executor_id env (lr_executor l),
        tk_committed_output_digest := tr_output_digest (ao_result output)\<rparr>"
    define u where "u = emit env ev_committed l
        (upd_stats (\<lambda>st. st\<lparr>st_committed := st_committed st + 1\<rparr>)
          ((upd_task ?t ?f (record_effect (SinkCommit (spec_of env ?t) ?committed) (s\<lparr>sr_sink := sink\<rparr>)))
            \<lparr>sr_ready_queue := rq_erase ?g ?t (sr_ready_queue s)\<rparr>))"
    have rs: "rs_inv ?g (sr_ready_set s)" using inv by (simp add: sinv_def)
    have new: "?t \<notin> rs_completed (sr_ready_set s)"
      using sinv_task [OF inv t] ph by (auto simp: task_ok_def completed_of_def Let_def)
    obtain rs' ready where complete: "rs_complete_task ?g (sr_ready_set s) ?t = Inr (rs', ready)"
      and "rs_inv ?g rs'" and comp: "rs_completed rs' = insert ?t (rs_completed (sr_ready_set s))"
      and "sorted ready" and "distinct ready" and ready: "set ready = {d. d < tg_size ?g \<and> ?t \<in> set (deps_at ?g d)
          \<and> set (deps_at ?g d) \<subseteq> insert ?t (rs_completed (sr_ready_set s))}"
      by (rule rs_complete_task_ok [OF sinv_graph [OF inv] rs t new])
    have "sinv env {} {} (set ready)
        ((upd_task ?t ?f s)\<lparr>sr_ready_queue := rq_erase ?g ?t (sr_ready_queue s), sr_ready_set := rs'\<rparr>)"
      by (rule sinv_commit [OF inv t ph _ _ complete]) simp_all
    moreover have "sinv env {} {} (set ready) (u\<lparr>sr_ready_set := rs'\<rparr>)
      = sinv env {} {} (set ready)
          ((upd_task ?t ?f s)\<lparr>sr_ready_queue := rq_erase ?g ?t (sr_ready_queue s), sr_ready_set := rs'\<rparr>)"
      by (rule sinv_cong) (simp_all add: u_def)
    ultimately have "sinv env {} {} (set ready) (u\<lparr>sr_ready_set := rs'\<rparr>)" by simp
    then have "sinv env {} {} {} (mark_each_ready env ready (u\<lparr>sr_ready_set := rs'\<rparr>))"
      by (rule sinv_mark_each_ready) (auto simp: ready completed_of_def comp)
    moreover have "commit_result env l output s = Inr (mark_each_ready env ready (u\<lparr>sr_ready_set := rs'\<rparr>))"
    proof -
      have "sr_ready_set u = sr_ready_set s" by (simp add: u_def)
      then have "mark_ready_dependents env ?t u = Inr (mark_each_ready env ready (u\<lparr>sr_ready_set := rs'\<rparr>))"
        using complete by (simp add: mark_ready_dependents_def)
      then show ?thesis using Inr by (simp add: commit_result_def Let_def u_def)
    qed
    ultimately show ?thesis using that loop_invI by blast
  qed
qed

lemma on_verified_success_ok:
  assumes inv: "sinv env {lr_task l} {} {} s" and t: "lr_task l < tg_size (se_graph env)"
    and ph: "tk_phase (task_of s (lr_task l)) = ph_leased \<or> tk_phase (task_of s (lr_task l)) = ph_committed"
  obtains s' where "on_verified_success env l output s = Inr s'" and "loop_inv env s'"
proof -
  let ?s1 = "note_executor_recovery l s"
  have inv1: "sinv env {lr_task l} {} {} ?s1" using inv by (simp add: sinv_note)
  have same: "sr_tasks ?s1 = sr_tasks s" by (simp add: note_executor_recovery_def)
  show ?thesis
  proof (cases "tk_phase (task_of s (lr_task l)) = ph_committed")
    case False
    then have "tk_phase (task_of ?s1 (lr_task l)) = ph_leased" using ph same by simp
    with inv1 t obtain s' where "commit_result env l output ?s1 = Inr s'" "loop_inv env s'"
      by (rule commit_result_ok)
    with False show ?thesis using that same by (simp add: on_verified_success_def Let_def)
  next
    case True
    have "task_ok env {} {} ?s1 t'" if "t' < tg_size (se_graph env)" for t'
      using sinv_task [OF inv1 that] True same by (cases "t' = lr_task l") (auto simp: task_ok_def Let_def)
    then have inv2: "sinv env {} {} {} ?s1" using inv1 by (simp add: sinv_def)
    let ?t = "lr_task l"
    have dup: "tk_phase (task_of ?s1 ?t) = ph_committed" using True same by simp
    show ?thesis
    proof (cases "tr_output_digest (ao_result output) = tk_committed_output_digest (task_of ?s1 ?t)")
      case True
      let ?s2 = "emit env ev_duplicate_discarded l
          (upd_stats (\<lambda>st. st\<lparr>st_duplicates_discarded := st_duplicates_discarded st + 1\<rparr>) ?s1)"
      have "on_verified_success env l output s = Inr ?s2"
        unfolding on_verified_success_def Let_def using dup True by simp
      moreover have "loop_inv env ?s2" using inv2 by (intro loop_invI) simp
      ultimately show ?thesis by (rule that)
    next
      case False
      have "\<exists>u. on_verified_success env l output s = Inr (fail_build determinism_incident
          (ts_task_id (spec_of env ?t)) ((emit env ev_determinism_incident l ?s1)\<lparr>sr_outcome := u\<rparr>))"
        unfolding on_verified_success_def Let_def using dup False by auto
      then obtain u where u: "on_verified_success env l output s = Inr (fail_build determinism_incident
          (ts_task_id (spec_of env ?t)) ((emit env ev_determinism_incident l ?s1)\<lparr>sr_outcome := u\<rparr>))" ..
      have "loop_inv env (fail_build determinism_incident
          (ts_task_id (spec_of env ?t)) ((emit env ev_determinism_incident l ?s1)\<lparr>sr_outcome := u\<rparr>))"
        using inv2 by (intro loop_invI) simp
      with u show ?thesis by (rule that)
    qed
  qed
qed

lemma on_finished_ok:
  assumes inv: "sinv env {} {} {} s"
  obtains s' where "on_finished env i output s = Inr s'" and "loop_inv env s'"
proof (cases "map_of (sr_leases s) i")
  case None
  then have "on_finished env i output s = Inr s" by (simp add: on_finished_def)
  then show ?thesis using that loop_invI [OF inv] by blast
next
  case (Some l)
  note L = sinv_lease_started [OF inv Some]
  let ?t = "lr_task l"
  define s1 where "s1 = upd_executor (lr_executor l) (\<lambda>e. e\<lparr>er_declined_until := 0\<rparr>) (release i l s)"
  have inv1: "sinv env {?t} {} {} s1"
    using sinv_release [OF inv Some] by (simp add: s1_def sinv_upd_executor)
  have set1: "settles s s1"
    unfolding s1_def by (rule settles_trans [OF settles_release [of s i l] settles_executor])
  have ph1: "tk_phase (task_of s1 ?t) = tk_phase (task_of s ?t)"
    using L(2) sinv_lengths [OF inv] by (simp add: s1_def release_def)
  show ?thesis
  proof (cases "find_result_defect (se_lib env) (spec_of env ?t) (le_attempt (lr_lease l))
      (ao_result output) (ao_payloads output)")
    case (Some defect)
    let ?s2 = "emit env ev_failed l (upd_stats (\<lambda>st. st\<lparr>st_invalid_results := st_invalid_results st + 1\<rparr>) s1)"
    have "settles s (upd_stats (\<lambda>st. st\<lparr>st_invalid_results := st_invalid_results st + 1\<rparr>) s1)"
      by (rule settles_trans [OF set1 settles_stats]) simp
    then have "settles s ?s2" by (rule settles_trans) simp
    then have "started (quarantine env (lr_executor l) ?s2) ?t"
      using L(1) started_settles settles_trans [OF _ settles_quarantine] by blast
    moreover have "sinv env {?t} {} {} (quarantine env (lr_executor l) ?s2)"
      using sinv_quarantine(1) [OF _ L(3)] inv1 by simp
    ultimately have "loop_inv env (attempt_failed env ?t (lr_executor l) (quarantine env (lr_executor l) ?s2))"
      using sinv_attempt_failed L(2) by blast
    then show ?thesis using that Some \<open>map_of (sr_leases s) i = Some l\<close>
      by (simp add: on_finished_def Let_def s1_def)
  next
    case None
    show ?thesis
    proof (cases "tr_status (ao_result output) = task_succeeded")
      case True
      obtain s' where "on_verified_success env l output s1 = Inr s'" "loop_inv env s'"
        using on_verified_success_ok [OF inv1 L(2)] L(5) ph1 by auto
      then show ?thesis using that True None Some by (simp add: on_finished_def Let_def s1_def)
    next
      case False
      let ?s2 = "emit env ev_failed l s1"
      have inv2: "sinv env {?t} {} {} ?s2" using inv1 by simp
      have "started s1 ?t" using L(1) set1 started_settles by blast
      then have st2: "started ?s2 ?t" by (simp add: started_def)
      consider (committed) "tk_phase (task_of ?s2 ?t) = ph_committed"
        | (permanent) "tk_phase (task_of ?s2 ?t) \<noteq> ph_committed" "\<not> te_retryable (the (tr_error (ao_result output)))"
        | (again) "tk_phase (task_of ?s2 ?t) \<noteq> ph_committed" "te_retryable (the (tr_error (ao_result output)))"
        by blast
      then show ?thesis
      proof cases
        case committed
        then have "on_finished env i output s = Inr ?s2"
          using False None Some by (simp add: on_finished_def Let_def s1_def)
        moreover have "task_ok env {} {} ?s2 t'" if "t' < tg_size (se_graph env)" for t'
          using sinv_task [OF inv2 that] committed by (cases "t' = ?t") (auto simp: task_ok_def Let_def)
        then have "sinv env {} {} {} ?s2" using inv2 unfolding sinv_def by blast
        ultimately show ?thesis using that loop_invI by blast
      next
        case permanent
        then have "on_finished env i output s
            = Inr (fail_build permanent_task_failure (ts_task_id (spec_of env ?t)) ?s2)"
          using False None Some by (simp add: on_finished_def Let_def s1_def)
        moreover have "loop_inv env (fail_build permanent_task_failure (ts_task_id (spec_of env ?t)) ?s2)"
          using inv2 by (intro loop_inv_failed) simp_all
        ultimately show ?thesis by (rule that)
      next
        case again
        then have "on_finished env i output s = Inr (attempt_failed env ?t (lr_executor l) ?s2)"
          using False None Some by (simp add: on_finished_def Let_def s1_def)
        moreover have "loop_inv env (attempt_failed env ?t (lr_executor l) ?s2)"
          by (rule sinv_attempt_failed [OF inv2 L(2) st2])
        ultimately show ?thesis by (rule that)
      qed
    qed
  qed
qed

lemma apply_event_ok:
  assumes "loop_inv env s"
  obtains s' where "apply_event env event s = Inr s'" and "loop_inv env s'"
proof (cases "failed_run s")
  case True
  then show ?thesis using that assms by (simp add: apply_event_def)
next
  case False
  then have inv: "sinv env {} {} {} s" using assms by (rule loop_invD [rotated])
  show ?thesis
  proof (cases event)
    case (HeartbeatEvent i)
    then have "apply_event env event s = Inr (on_heartbeat env i s)" using False by (simp add: apply_event_def)
    then show ?thesis using that loop_invI [OF sinv_on_heartbeat [OF inv]] by blast
  next
    case (FinishedEvent i out)
    then have "apply_event env event s = on_finished env i out s" using False by (simp add: apply_event_def)
    then show ?thesis using that on_finished_ok [OF inv, of i out] by metis
  next
    case (FailedEvent i kind)
    then have "apply_event env event s = Inr (on_failed env i kind s)" using False by (simp add: apply_event_def)
    then show ?thesis using that loop_inv_on_failed [OF inv] by blast
  next
    case (RejectedEvent i)
    then have "apply_event env event s = Inr (on_rejected env i s)" using False by (simp add: apply_event_def)
    then show ?thesis using that loop_invI [OF sinv_on_rejected(1) [OF inv]] by blast
  qed
qed

lemma apply_events_ok:
  assumes "loop_inv env s"
  obtains s' where "apply_events env events s = Inr s'" and "loop_inv env s'"
proof -
  have "\<exists>s'. apply_events env events s = Inr s' \<and> loop_inv env s'"
    using assms
  proof (induction events arbitrary: s)
    case (Cons event events)
    then obtain s1 where "apply_event env event s = Inr s1" "loop_inv env s1"
      using apply_event_ok by blast
    then show ?case using Cons.IH by simp
  qed simp
  then show ?thesis using that by blast
qed

subsection \<open>Expiry, dispatch and the loop\<close>

lemma loop_inv_end_one:
  assumes inv: "sinv env {} {} {} s" and l: "map_of (sr_leases s) i = Some l"
  shows "loop_inv env (end_lease_at_deadline env l (release i l s))"
    and "loop_inv env (attempt_failed env (lr_task l) (lr_executor l)
          (count_executor_loss env l
            (record_effect (LeaseExpired (lr_executor l) i)
              (emit env ev_expired l
                (upd_stats (\<lambda>st. st\<lparr>st_leases_expired := st_leases_expired st + 1\<rparr>)
                  (release i l s))))))"
proof -
  note L = sinv_lease_started [OF inv l]
  have rel: "sinv env {lr_task l} {} {} (release i l s)" using sinv_release [OF inv l] by simp
  have fin: "loop_inv env (attempt_failed env (lr_task l) (lr_executor l) (count_executor_loss env l u))"
    if u: "sinv env {lr_task l} {} {} u" "settles s u" for u
  proof -
    have "started (count_executor_loss env l u) (lr_task l)"
      using L(1) started_settles settles_trans [OF u(2) settles_count_executor_loss] by blast
    with sinv_count_executor_loss(1) [OF u(1) L(3)] L(2) show ?thesis by (intro sinv_attempt_failed)
  qed
  have set1: "settles s (upd_stats (\<lambda>st. st\<lparr>st_deadlines_exceeded := st_deadlines_exceeded st + 1\<rparr>) (release i l s))"
    and set2: "settles s (upd_stats (\<lambda>st. st\<lparr>st_leases_expired := st_leases_expired st + 1\<rparr>) (release i l s))"
    by (rule settles_trans [OF settles_release [of s i l] settles_stats], simp)+
  show "loop_inv env (end_lease_at_deadline env l (release i l s))"
    unfolding end_lease_at_deadline_def
    by (rule fin, use rel in simp, rule settles_trans [OF _ settles_effect],
        rule settles_trans [OF set1 settles_emit]) simp
  show "loop_inv env (attempt_failed env (lr_task l) (lr_executor l)
          (count_executor_loss env l
            (record_effect (LeaseExpired (lr_executor l) i)
              (emit env ev_expired l
                (upd_stats (\<lambda>st. st\<lparr>st_leases_expired := st_leases_expired st + 1\<rparr>)
                  (release i l s))))))"
    by (rule fin, use rel in simp, rule settles_trans [OF _ settles_effect],
        rule settles_trans [OF set2 settles_emit]) simp
qed

lemma loop_inv_end_each: "loop_inv env s \<Longrightarrow> loop_inv env (end_each env now ids s)"
proof (induction env now ids s rule: end_each.induct)
  case (2 env now i ids s)
  show ?case
  proof (cases "map_of (sr_leases s) i")
    case None
    then show ?thesis using 2 by simp
  next
    case (Some l)
    show ?thesis
    proof (cases "failed_run s")
      case True
      then show ?thesis using 2 Some by simp
    next
      case False
      note I = loop_inv_end_one [OF loop_invD [OF "2.prems" False] Some]
      show ?thesis using "2.IH" I Some False by simp
    qed
  qed
qed simp

lemma loop_inv_clock [simp]: "loop_inv env (s\<lparr>sr_clock_reads := n\<rparr>) = loop_inv env s"
  by (simp add: loop_inv_def)

lemma loop_inv_expire: "loop_inv env s \<Longrightarrow> loop_inv env (expire_leases env s)"
  by (simp add: expire_leases_def clock_now_def Let_def loop_inv_end_each)

lemma pick_task_Some:
  assumes inv: "sinv env {} {} {} s" and "pick_task env s e = Some t"
  shows "t < tg_size (se_graph env)" and "tk_phase (task_of s t) = ph_ready"
    and "ex_accepts (se_executors env ! e) (spec_of env t)" and "held (sr_leases s) t = {}"
proof -
  have q: "t \<in> set (sr_ready_queue s)" and acc: "ex_accepts (se_executors env ! e) (spec_of env t)"
    using assms(2) by (auto simp: pick_task_def find_Some_iff)
  have "rq_wf (se_graph env) (sr_ready_queue s)" using inv by (simp add: sinv_def)
  with q show t: "t < tg_size (se_graph env)" by (auto simp: rq_wf_def)
  show "ex_accepts (se_executors env ! e) (spec_of env t)" by (rule acc)
  show ph: "tk_phase (task_of s t) = ph_ready" using sinv_task [OF inv t] q by (simp add: task_ok_def Let_def)
  then show "held (sr_leases s) t = {}" using sinv_task [OF inv t] by (simp add: task_ok_def Let_def)
qed

lemma sinv_dispatch_executor:
  assumes "sinv env {} {} {} s" and "e < length (se_executors env)"
  shows "sinv env {} {} {} (dispatch_executor env e n s)
    \<and> failed_run (dispatch_executor env e n s) = failed_run s"
  using assms(1)
proof (induction n arbitrary: s)
  case (Suc n)
  show ?case
  proof (cases "\<not> er_quarantined (executor_of s e) \<and> er_active (executor_of s e) < ex_slots (se_executors env ! e)")
    case free: True
    show ?thesis
    proof (cases "pick_task env s e")
      case None
      then show ?thesis using Suc.prems free by simp
    next
      case (Some t)
      note P = pick_task_Some [OF Suc.prems Some]
      have "sinv env {} {} {} (grant env t e False s)"
      proof (rule sinv_grant [OF Suc.prems P(1) assms(2)])
        show "\<forall>i l. map_of (sr_leases s) i = Some l \<and> lr_task l = t \<longrightarrow> lr_executor l \<noteq> e"
          using P(4) heldI by blast
      qed (use P free in simp_all)
      then show ?thesis using Suc.IH free Some by simp
    qed
  next
    case False
    then have "dispatch_executor env e (Suc n) s = s" by auto
    then show ?thesis using Suc.prems by simp
  qed
qed simp

lemma backing_off_simp: "backing_off env e s
    = (er_declined_until (executor_of s e) > se_clock env (sr_clock_reads s),
       s\<lparr>sr_clock_reads := sr_clock_reads s + 1\<rparr>)"
  by (simp add: backing_off_def clock_now_def)

lemma sinv_dispatch_each:
  assumes "sinv env {} {} {} s" and "set es \<subseteq> {..<length (se_executors env)}"
  shows "sinv env {} {} {} (dispatch_each env es s) \<and> failed_run (dispatch_each env es s) = failed_run s"
  using assms
proof (induction es arbitrary: s)
  case (Cons e es)
  let ?s1 = "s\<lparr>sr_clock_reads := sr_clock_reads s + 1\<rparr>"
  let ?s2 = "if er_declined_until (executor_of s e) > se_clock env (sr_clock_reads s) then ?s1
      else dispatch_executor env e (ex_slots (se_executors env ! e)) ?s1"
  have inv1: "sinv env {} {} {} ?s1" using Cons.prems(1) by simp
  have "sinv env {} {} {} ?s2 \<and> failed_run ?s2 = failed_run s"
    using inv1 sinv_dispatch_executor [OF inv1, of e] Cons.prems(2) by simp
  moreover have "dispatch_each env (e # es) s = dispatch_each env es ?s2" by (simp add: backing_off_simp)
  ultimately show ?case using Cons.IH [of ?s2] Cons.prems(2) by simp
qed simp

lemma oldest_lease_Some:
  "oldest_lease ok ls oldest = Some l \<Longrightarrow> (l \<in> set ls \<and> ok l) \<or> oldest = Some l"
  by (induction ok ls oldest rule: oldest_lease.induct) (auto split: if_splits option.splits)

lemma sinv_duplicate_executor:
  assumes "sinv env {} {} {} s" and "e < length (se_executors env)"
  shows "sinv env {} {} {} (duplicate_executor env e n s)
    \<and> failed_run (duplicate_executor env e n s) = failed_run s"
  using assms(1)
proof (induction n arbitrary: s)
  case (Suc n)
  show ?case
  proof (cases "\<not> er_quarantined (executor_of s e) \<and> er_active (executor_of s e) < ex_slots (se_executors env ! e)")
    case free: True
    show ?thesis
    proof (cases "oldest_lease (duplicable env s e) (List.map snd (sr_leases s)) None")
      case None
      then show ?thesis using Suc.prems free by simp
    next
      case (Some l)
      have dup: "duplicable env s e l" and "l \<in> set (List.map snd (sr_leases s))"
        using oldest_lease_Some [OF Some] by auto
      then obtain i where "(i, l) \<in> set (sr_leases s)" by auto
      moreover have "map_wf (sr_leases s)" using Suc.prems by (simp add: sinv_def)
      ultimately have l: "map_of (sr_leases s) i = Some l" by (simp add: map_of_mem_iff)
      note L = sinv_lease_started [OF Suc.prems l]
      have "tk_active_leases (task_of s (lr_task l)) = held (sr_leases s) (lr_task l)"
        using sinv_task [OF Suc.prems L(2)] by (simp add: task_ok_def Let_def)
      then have one: "card (held (sr_leases s) (lr_task l)) = 1" and away: "lr_executor l \<noteq> e"
        and live: "tk_phase (task_of s (lr_task l)) \<noteq> ph_committed"
        and acc: "ex_accepts (se_executors env ! e) (spec_of env (lr_task l))"
        using dup by (simp_all add: duplicable_def Let_def)
      have "sinv env {} {} {} (grant env (lr_task l) e True s)"
      proof (rule sinv_grant [OF Suc.prems L(2) assms(2)])
        show "\<forall>j k. map_of (sr_leases s) j = Some k \<and> lr_task k = lr_task l \<longrightarrow> lr_executor k \<noteq> e"
        proof (intro allI impI)
          fix j k
          assume k: "map_of (sr_leases s) j = Some k \<and> lr_task k = lr_task l"
          then have "j \<in> held (sr_leases s) (lr_task l)" "i \<in> held (sr_leases s) (lr_task l)"
            using heldI [OF l] by (auto simp: held_def)
          then have "j = i" using one by (metis card_1_singletonE singletonD)
          then show "lr_executor k \<noteq> e" using k l away by simp
        qed
        show "tk_phase (task_of s (lr_task l)) = ph_ready \<or> tk_phase (task_of s (lr_task l)) = ph_leased"
          using L(5) live by simp
        show "ex_accepts (se_executors env ! e) (spec_of env (lr_task l))"
          by (rule acc)
      qed (use one free in simp_all)
      then show ?thesis using Suc.IH free Some by simp
    qed
  next
    case False
    then have "duplicate_executor env e (Suc n) s = s" by auto
    then show ?thesis using Suc.prems by simp
  qed
qed simp

lemma sinv_duplicate_each:
  assumes "sinv env {} {} {} s" and "set es \<subseteq> {..<length (se_executors env)}"
  shows "sinv env {} {} {} (duplicate_each env es s) \<and> failed_run (duplicate_each env es s) = failed_run s"
  using assms
proof (induction es arbitrary: s)
  case (Cons e es)
  let ?s1 = "s\<lparr>sr_clock_reads := sr_clock_reads s + 1\<rparr>"
  let ?s2 = "if er_declined_until (executor_of s e) > se_clock env (sr_clock_reads s) then ?s1
      else duplicate_executor env e (ex_slots (se_executors env ! e)) ?s1"
  have inv1: "sinv env {} {} {} ?s1" using Cons.prems(1) by simp
  have "sinv env {} {} {} ?s2 \<and> failed_run ?s2 = failed_run s"
    using inv1 sinv_duplicate_executor [OF inv1, of e] Cons.prems(2) by simp
  moreover have "duplicate_each env (e # es) s = duplicate_each env es ?s2" by (simp add: backing_off_simp)
  ultimately show ?case using Cons.IH [of ?s2] Cons.prems(2) by simp
qed simp

lemma sinv_dispatch:
  assumes "sinv env {} {} {} s"
  shows "sinv env {} {} {} (dispatch env s)" and "failed_run (dispatch env s) = failed_run s"
proof -
  let ?es = "[0..<length (sr_executors s)]"
  have es: "set ?es \<subseteq> {..<length (se_executors env)}" using sinv_lengths [OF assms] by auto
  note D = sinv_dispatch_each [OF assms es]
  have es': "set [0..<length (sr_executors (dispatch_each env ?es s))] \<subseteq> {..<length (se_executors env)}"
    using sinv_lengths [OF conjunct1 [OF D]] by auto
  note D' = sinv_duplicate_each [OF conjunct1 [OF D] es']
  show "sinv env {} {} {} (dispatch env s)" and "failed_run (dispatch env s) = failed_run s"
    using D D' by (auto simp: dispatch_def dispatch_speculative_def Let_def)
qed

lemma any_backing_off_state:
  "snd (any_backing_off_from env es s) = s\<lparr>sr_clock_reads := sr_clock_reads (snd (any_backing_off_from env es s))\<rparr>"
proof (induction env es s rule: any_backing_off_from.induct)
  case (2 env e es s)
  show ?case
  proof (cases "er_quarantined (executor_of s e)")
    case True
    then show ?thesis using "2.IH"(1) by simp
  next
    case False
    let ?s1 = "s\<lparr>sr_clock_reads := sr_clock_reads s + 1\<rparr>"
    show ?thesis
    proof (cases "er_declined_until (executor_of s e) > se_clock env (sr_clock_reads s)")
      case True
      then show ?thesis using False by (simp add: backing_off_simp)
    next
      case False2: False
      then have "snd (any_backing_off_from env es ?s1)
          = ?s1\<lparr>sr_clock_reads := sr_clock_reads (snd (any_backing_off_from env es ?s1))\<rparr>"
        using "2.IH"(2) [OF False, of "(False, ?s1)" False ?s1] by (simp add: backing_off_simp)
      then show ?thesis using False False2 by (simp add: backing_off_simp)
    qed
  qed
qed simp

lemma any_backing_off_inv [simp]:
  "sinv env X E U (snd (any_executor_backing_off env s)) = sinv env X E U s"
  "failed_run (snd (any_executor_backing_off env s)) = failed_run s"
  unfolding any_executor_backing_off_def by (subst any_backing_off_state, simp)+

lemma next_wait_state: "snd (next_wait env s) = s\<lparr>sr_clock_reads := sr_clock_reads s + 1\<rparr>"
  by (simp add: next_wait_def clock_now_def Let_def)

end
