(* ===== verification/SchedulerLog.thy ===== *)
theory SchedulerLog
  imports SchedulerSteps
begin

text \<open>
  What a run's trace records. \<open>log_inv\<close> ties the assignments and commits in the trace to the
  state: lease numbers and attempt numbers are handed out in order without gaps or repeats,
  every task is committed at most once and only with a verified success, no task is assigned
  before its dependencies are committed, and the sink holds exactly the committed results.
\<close>

fun assigns_of :: "'j effect list \<Rightarrow> (nat \<times> 'j task_spec \<times> lease) list" where
  "assigns_of [] = []"
| "assigns_of (Assign e spec l # effects) = (e, spec, l) # assigns_of effects"
| "assigns_of (_ # effects) = assigns_of effects"

fun commits_of :: "'j effect list \<Rightarrow> ('j task_spec \<times> 'j committed_result) list" where
  "commits_of [] = []"
| "commits_of (SinkCommit spec c # effects) = (spec, c) # commits_of effects"
| "commits_of (_ # effects) = commits_of effects"

definition commit_ids :: "'j effect list \<Rightarrow> string list" where
  "commit_ids effects = List.map (\<lambda>(spec, c). ts_task_id spec) (commits_of effects)"

text \<open>Every assignment comes after the commits of what the task depends on.\<close>

fun deps_first :: "string set \<Rightarrow> 'j effect list \<Rightarrow> bool" where
  "deps_first available [] = True"
| "deps_first available (Assign e spec l # effects) =
     (set (ts_depends_on spec) \<subseteq> available \<and> deps_first available effects)"
| "deps_first available (SinkCommit spec c # effects) =
     deps_first (insert (ts_task_id spec) available) effects"
| "deps_first available (_ # effects) = deps_first available effects"

lemma assigns_of_append [simp]: "assigns_of (xs @ ys) = assigns_of xs @ assigns_of ys"
  by (induction xs rule: assigns_of.induct) auto

lemma commits_of_append [simp]: "commits_of (xs @ ys) = commits_of xs @ commits_of ys"
  by (induction xs rule: commits_of.induct) auto

lemma commit_ids_append [simp]: "commit_ids (xs @ ys) = commit_ids xs @ commit_ids ys"
  by (simp add: commit_ids_def)

lemma commit_ids_simps [simp]:
  "commit_ids [] = []" "commit_ids (SinkCommit spec c # effects) = ts_task_id spec # commit_ids effects"
  "commit_ids (Assign e spec l # effects) = commit_ids effects"
  by (simp_all add: commit_ids_def)

lemma deps_first_append:
  "deps_first available (xs @ ys)
     \<longleftrightarrow> deps_first available xs \<and> deps_first (available \<union> set (commit_ids xs)) ys"
  by (induction available xs rule: deps_first.induct) (auto simp: commit_ids_def)

lemma assigns_of_filter [simp]: "assigns_of (filter logged tr) = assigns_of tr"
  and commits_of_filter [simp]: "commits_of (filter logged tr) = commits_of tr"
proof -
  show "assigns_of (filter logged tr) = assigns_of tr" by (induction tr rule: assigns_of.induct) auto
  show "commits_of (filter logged tr) = commits_of tr" by (induction tr rule: commits_of.induct) auto
qed

lemma commit_ids_filter [simp]: "commit_ids (filter logged tr) = commit_ids tr"
  by (simp add: commit_ids_def)

lemma deps_first_filter [simp]: "deps_first available (filter logged tr) = deps_first available tr"
  by (induction available tr rule: deps_first.induct) auto

subsection \<open>The invariant of the log\<close>

definition attempts_of :: "string \<Rightarrow> 'j effect list \<Rightarrow> nat list" where
  "attempts_of task_id effects =
     List.map (\<lambda>(e, spec, l). le_attempt l) (filter (\<lambda>(e, spec, l). ts_task_id spec = task_id) (assigns_of effects))"

definition done_ids :: "('j, 's) sched_env \<Rightarrow> ('j, 's) sched \<Rightarrow> string set" where
  "done_ids env s = (\<lambda>t. ts_task_id (spec_of env t)) ` completed_of s"

definition log_inv ::
  "('j, 's) sched_env \<Rightarrow> 's \<Rightarrow> string list \<Rightarrow> ('j, 's) sched \<Rightarrow> bool" where
  "log_inv env sink0 resumed s \<longleftrightarrow>
     List.map (\<lambda>(e, spec, l). le_lease_id l) (assigns_of (log_of s))
       = List.map lease_name [1..<sr_next_lease_number s]
     \<and> (\<forall>t < tg_size (se_graph env). attempts_of (ts_task_id (spec_of env t)) (log_of s)
          = [1..<Suc (tk_attempts_started (task_of s t))])
     \<and> distinct (resumed @ commit_ids (log_of s))
     \<and> set (resumed @ commit_ids (log_of s)) = done_ids env s
     \<and> (\<forall>(spec, c) \<in> set (commits_of (log_of s)).
          verified_success (se_lib env) spec c \<and> (\<exists>t < tg_size (se_graph env). spec = spec_of env t))
     \<and> deps_first (set resumed) (log_of s)
     \<and> commit_each (se_sink_commit env) (commits_of (log_of s)) sink0 = Inr (sr_sink s)
     \<and> counters s = (sr_next_lease_number s - 1, length (commits_of (log_of s)), length resumed)
     \<and> bo_status (sr_outcome s) = build_failed"

lemma log_inv_settles:
  assumes "log_inv env sink0 resumed s" and "settles s s'"
  shows "log_inv env sink0 resumed s'"
  using assms unfolding log_inv_def settles_def done_ids_def completed_of_def by simp

lemma wf_graph_dependency_ids:
  assumes "wf_graph g" and "t < tg_size g" and "x \<in> set (ts_depends_on (tn_spec (tg_nodes g ! t)))"
  shows "\<exists>k \<in> set (deps_at g t). node_id (tg_nodes g ! k) = x"
proof -
  have deps: "tg_dependencies g ! t
      = List.map (\<lambda>x. the (tg_index_by_id g x)) (ts_depends_on (tn_spec (tg_nodes g ! t)))"
    and ids: "set (ts_depends_on (tn_spec (tg_nodes g ! t))) \<subseteq> node_id ` set (tg_nodes g)"
    using assms(1,2) unfolding wf_graph_def by blast+
  have "x \<in> node_id ` set (tg_nodes g)" using ids assms(3) by blast
  then obtain k where k: "k < tg_size g" "node_id (tg_nodes g ! k) = x"
    by (auto simp: in_set_conv_nth tg_size_def)
  then have "tg_index_by_id g x = Some k" using wf_graph_find [OF assms(1)] by (simp add: tg_find_def)
  then have "k \<in> set (deps_at g t)"
    using assms(3) by (force simp: deps_at_def deps)
  with k show ?thesis by blast
qed

lemma spec_ids_inj:
  assumes "wf_graph (se_graph env)" and "t < tg_size (se_graph env)" and "t' < tg_size (se_graph env)"
    and "ts_task_id (spec_of env t) = ts_task_id (spec_of env t')"
  shows "t = t'"
  using wf_graph_ids [OF assms(1)] assms(2-4) by (auto simp: distinct_conv_nth tg_size_def)

lemma next_number_frame [simp]:
  "log_of (s\<lparr>sr_next_lease_number := n\<rparr>) = log_of s"
  "counters (s\<lparr>sr_next_lease_number := n\<rparr>) = counters s"
  by (simp_all add: log_of_def counters_def Let_def)

lemma grant_log [simp]:
  "log_of (grant env t e sp s) = log_of s @ [Assign e (spec_of env t) (lr_lease (granted_lease env t e sp s))]"
  "counters (grant env t e sp s) = (fst (counters s) + 1, snd (counters s))"
  by (simp_all add: grant_def clock_now_def Let_def granted_lease_def)
    (simp add: counters_def upd_stats_def upd_executor_def upd_task_def Let_def)

lemma grant_status [simp]: "bo_status (sr_outcome (grant env t e sp s)) = bo_status (sr_outcome s)"
  by (simp add: grant_def clock_now_def Let_def upd_stats_def)

lemma log_inv_grant:
  assumes inv: "sinv env {} {} {} s" and log: "log_inv env sink0 resumed s"
    and t: "t < tg_size (se_graph env)"
    and ph: "tk_phase (task_of s t) = ph_ready \<or> tk_phase (task_of s t) = ph_leased"
  shows "log_inv env sink0 resumed (grant env t e sp s)"
proof -
  let ?s = "grant env t e sp s" and ?g = "se_graph env"
  have next_pos: "0 < sr_next_lease_number s" using inv by (simp add: sinv_def)
  have comp: "completed_of ?s = completed_of s" by (simp add: completed_of_def)
  have deps: "set (deps_at ?g t) \<subseteq> completed_of s"
    using sinv_task [OF inv t] ph by (auto simp: task_ok_def Let_def)
  have "set (ts_depends_on (spec_of env t)) \<subseteq> done_ids env s"
  proof
    fix x
    assume "x \<in> set (ts_depends_on (spec_of env t))"
    then obtain k where "k \<in> set (deps_at ?g t)" "node_id (tg_nodes ?g ! k) = x"
      using wf_graph_dependency_ids [OF sinv_graph [OF inv] t] by blast
    then show "x \<in> done_ids env s" using deps by (auto simp: done_ids_def)
  qed
  then have first: "deps_first (set resumed) (log_of ?s)"
    using log by (simp add: log_inv_def deps_first_append)
  have names: "List.map (\<lambda>(e, spec, l). le_lease_id l) (assigns_of (log_of ?s))
      = List.map lease_name [1..<sr_next_lease_number ?s]"
    using log next_pos by (simp add: log_inv_def)
  have attempts: "attempts_of (ts_task_id (spec_of env t')) (log_of ?s)
      = [1..<Suc (tk_attempts_started (task_of ?s t'))]" if t': "t' < tg_size ?g" for t'
  proof (cases "t' = t")
    case True
    then show ?thesis
      using log t sinv_lengths [OF inv] by (simp add: log_inv_def attempts_of_def)
  next
    case False
    then have "ts_task_id (spec_of env t) \<noteq> ts_task_id (spec_of env t')"
      using spec_ids_inj [OF sinv_graph [OF inv] t t'] by blast
    then show ?thesis using log t' False by (simp add: log_inv_def attempts_of_def)
  qed
  have "done_ids env ?s = done_ids env s" by (simp add: done_ids_def comp)
  then show ?thesis
    using log names attempts first next_pos unfolding log_inv_def by simp
qed

lemma settles_mark_each_ready: "settles s (mark_each_ready env ready s)"
proof (induction ready arbitrary: s)
  case (Cons d ready)
  show ?case using settles_trans [OF settles_make_ready Cons.IH] Cons.IH by simp
qed simp

lemma log_inv_commit:
  assumes inv: "sinv env X E U s" and log: "log_inv env sink0 resumed s"
    and t: "lr_task l < tg_size (se_graph env)"
    and ph: "tk_phase (task_of s (lr_task l)) \<noteq> ph_committed"
    and good: "find_result_defect (se_lib env) (spec_of env (lr_task l)) (le_attempt (lr_lease l))
        (ao_result output) (ao_payloads output) = None" "tr_status (ao_result output) = task_succeeded"
    and res: "commit_result env l output s = Inr s'"
  shows "log_inv env sink0 resumed s'"
proof -
  let ?t = "lr_task l" and ?g = "se_graph env"
  let ?committed = "\<lparr>cr_result = ao_result output, cr_payloads = ao_payloads output,
                       cr_executor_id = executor_id env (lr_executor l)\<rparr>"
  show ?thesis
  proof (cases "se_sink_commit env (spec_of env ?t) ?committed (sr_sink s)")
    case (Inl e)
    then have "s' = fail_build commit_failed (ts_task_id (spec_of env ?t)) s"
      using res by (simp add: commit_result_def Let_def)
    then show ?thesis using log_inv_settles [OF log] by simp
  next
    case (Inr sink)
    let ?f = "\<lambda>r. r\<lparr>tk_phase := ph_committed, tk_committed_attempt := le_attempt (lr_lease l),
        tk_committed_executor_id := executor_id env (lr_executor l),
        tk_committed_output_digest := tr_output_digest (ao_result output)\<rparr>"
    define u where "u = emit env ev_committed l
        (upd_stats (\<lambda>st. st\<lparr>st_committed := st_committed st + 1\<rparr>)
          ((upd_task ?t ?f (record_effect (SinkCommit (spec_of env ?t) ?committed) (s\<lparr>sr_sink := sink\<rparr>)))
            \<lparr>sr_ready_queue := rq_erase ?g ?t (sr_ready_queue s)\<rparr>))"
    have rs: "rs_inv ?g (sr_ready_set s)" using inv by (simp add: sinv_def)
    have new: "?t \<notin> rs_completed (sr_ready_set s)"
      using sinv_task [OF inv t] ph by (auto simp: task_ok_def completed_of_def Let_def)
    obtain rs' ready where complete: "rs_complete_task ?g (sr_ready_set s) ?t = Inr (rs', ready)"
      and "rs_inv ?g rs'" and comp: "rs_completed rs' = insert ?t (rs_completed (sr_ready_set s))"
      and "sorted ready" and "distinct ready" and ready: "set ready = {d. d < tg_size ?g \<and> ?t \<in> set (deps_at ?g d)
          \<and> set (deps_at ?g d) \<subseteq> insert ?t (rs_completed (sr_ready_set s))}"
      by (rule rs_complete_task_ok [OF sinv_graph [OF inv] rs t new])
    define v where "v = u\<lparr>sr_ready_set := rs'\<rparr>"
    have "sr_ready_set u = sr_ready_set s" by (simp add: u_def)
    then have s': "s' = mark_each_ready env ready v"
      using res Inr complete by (simp add: commit_result_def Let_def u_def v_def mark_ready_dependents_def)
    have log_u: "log_of v = log_of s @ [SinkCommit (spec_of env ?t) ?committed]" by (simp add: u_def v_def)
    have same: "sr_next_lease_number v = sr_next_lease_number s" "sr_sink v = sink"
      by (simp_all add: u_def v_def)
    have status: "bo_status (sr_outcome v) = bo_status (sr_outcome s)"
      by (simp add: u_def v_def) (simp add: upd_stats_def)
    have attempts: "tk_attempts_started (task_of v t') = tk_attempts_started (task_of s t')" for t'
      by (cases "t' = ?t"; cases "?t < length (sr_tasks s)"; simp add: u_def v_def list_update_beyond)
    have cnt: "counters v = (fst (counters s), fst (snd (counters s)) + 1, snd (snd (counters s)))"
      by (simp add: u_def v_def) (simp add: counters_def upd_stats_def Let_def)
    have done_u: "done_ids env v = insert (ts_task_id (spec_of env ?t)) (done_ids env s)"
      by (simp add: done_ids_def completed_of_def comp v_def)
    have fresh: "ts_task_id (spec_of env ?t) \<notin> done_ids env s"
    proof
      assume "ts_task_id (spec_of env ?t) \<in> done_ids env s"
      then obtain k where k: "k \<in> completed_of s" "ts_task_id (spec_of env ?t) = ts_task_id (spec_of env k)"
        by (auto simp: done_ids_def)
      then have "k < tg_size ?g" using rs_completed_subset [OF rs] by (auto simp: completed_of_def)
      then have "?t = k" using spec_ids_inj [OF sinv_graph [OF inv] t _ k(2)] by blast
      then show False using k(1) new by (simp add: completed_of_def)
    qed
    have ver: "verified_success (se_lib env) (spec_of env ?t) ?committed"
      using good by (simp add: verified_success_def find_result_defect_None)
    have att: "attempts_of i (log_of v) = attempts_of i (log_of s)" for i
      by (simp add: log_u attempts_of_def)
    note L = log [unfolded log_inv_def]
    have dist: "distinct (resumed @ commit_ids (log_of v))"
      and set_ids: "set (resumed @ commit_ids (log_of v)) = done_ids env v"
      using L fresh by (auto simp: log_u done_u)
    have commits: "\<forall>(spec, c) \<in> set (commits_of (log_of v)).
          verified_success (se_lib env) spec c \<and> (\<exists>t < tg_size ?g. spec = spec_of env t)"
      using L ver t by (auto simp: log_u)
    have sink_u: "commit_each (se_sink_commit env) (commits_of (log_of v)) sink0 = Inr (sr_sink v)"
      using L Inr by (simp add: log_u commit_each_append same)
    have first: "deps_first (set resumed) (log_of v)" using L by (simp add: log_u deps_first_append)
    have assigns: "assigns_of (log_of v) = assigns_of (log_of s)"
      and len: "length (commits_of (log_of v)) = length (commits_of (log_of s)) + 1" by (simp_all add: log_u)
    have "log_inv env sink0 resumed v"
      unfolding log_inv_def using L dist set_ids commits sink_u first
      by (simp add: same status attempts cnt assigns len att del: distinct_append set_append upt_Suc)
    then show ?thesis unfolding s' by (rule log_inv_settles [OF _ settles_mark_each_ready])
  qed
qed

end
