(* ===== verification/SchedulerRuns.thy ===== *)
theory SchedulerRuns
  imports SchedulerLog
begin

text \<open>
  Whole runs: resuming, starting, the loop and its exit. The invariants of the state and of the
  log hold whenever a run waits for events and when it ends.
\<close>

subsection \<open>Log invariant across operations\<close>

lemma log_inv_dispatch_executor:
  assumes "sinv env {} {} {} s" and "log_inv env sink0 resumed s" and "e < length (se_executors env)"
  shows "log_inv env sink0 resumed (dispatch_executor env e n s)"
  using assms(1,2)
proof (induction n arbitrary: s)
  case (Suc n)
  show ?case
  proof (cases "\<not> er_quarantined (executor_of s e) \<and> er_active (executor_of s e) < ex_slots (se_executors env ! e)")
    case free: True
    show ?thesis
    proof (cases "pick_task env s e")
      case None
      then show ?thesis using Suc.prems free by simp
    next
      case (Some t)
      note P = pick_task_Some [OF Suc.prems(1) Some]
      have one: "sinv env {} {} {} (dispatch_executor env e 1 s)"
        using sinv_dispatch_executor [OF Suc.prems(1) assms(3), of 1] by blast
      have "sinv env {} {} {} (grant env t e False s)"
        using one free Some by simp
      moreover have "log_inv env sink0 resumed (grant env t e False s)"
        using log_inv_grant [OF Suc.prems P(1)] P(2) by blast
      ultimately show ?thesis using Suc.IH free Some by simp
    qed
  next
    case False
    then have "dispatch_executor env e (Suc n) s = s" by auto
    then show ?thesis using Suc.prems by simp
  qed
qed simp

lemma log_inv_clock [simp]:
  "log_inv env sink0 resumed (s\<lparr>sr_clock_reads := n\<rparr>) = log_inv env sink0 resumed s"
  by (simp add: log_inv_def done_ids_def completed_of_def)

lemma log_inv_dispatch_each:
  assumes "sinv env {} {} {} s" and "log_inv env sink0 resumed s" and "set es \<subseteq> {..<length (se_executors env)}"
  shows "log_inv env sink0 resumed (dispatch_each env es s)"
  using assms
proof (induction es arbitrary: s)
  case (Cons e es)
  let ?s1 = "s\<lparr>sr_clock_reads := sr_clock_reads s + 1\<rparr>"
  let ?s2 = "if er_declined_until (executor_of s e) > se_clock env (sr_clock_reads s) then ?s1
      else dispatch_executor env e (ex_slots (se_executors env ! e)) ?s1"
  have inv1: "sinv env {} {} {} ?s1" and log1: "log_inv env sink0 resumed ?s1" using Cons.prems(1,2) by simp_all
  have "sinv env {} {} {} ?s2" using inv1 sinv_dispatch_executor [OF inv1, of e] Cons.prems(3) by simp
  moreover have "log_inv env sink0 resumed ?s2"
    using log1 log_inv_dispatch_executor [OF inv1 log1, of e] Cons.prems(3) by simp
  moreover have "dispatch_each env (e # es) s = dispatch_each env es ?s2" by (simp add: backing_off_simp)
  ultimately show ?case using Cons.IH [of ?s2] Cons.prems(3) by simp
qed simp

lemma duplicate_target:
  assumes inv: "sinv env {} {} {} s"
    and old: "oldest_lease (duplicable env s e) (List.map snd (sr_leases s)) None = Some l"
  shows "lr_task l < tg_size (se_graph env)" and "tk_phase (task_of s (lr_task l)) = ph_leased"
proof -
  have dup: "duplicable env s e l" and "l \<in> set (List.map snd (sr_leases s))"
    using oldest_lease_Some [OF old] by auto
  then obtain i where "(i, l) \<in> set (sr_leases s)" by auto
  moreover have "map_wf (sr_leases s)" using inv by (simp add: sinv_def)
  ultimately have l: "map_of (sr_leases s) i = Some l" by (simp add: map_of_mem_iff)
  show "lr_task l < tg_size (se_graph env)" by (rule sinv_lease_started(2) [OF inv l])
  show "tk_phase (task_of s (lr_task l)) = ph_leased"
    using sinv_lease_started(5) [OF inv l] dup by (simp add: duplicable_def Let_def)
qed

lemma log_inv_duplicate_executor:
  assumes "sinv env {} {} {} s" and "log_inv env sink0 resumed s" and "e < length (se_executors env)"
  shows "log_inv env sink0 resumed (duplicate_executor env e n s)"
  using assms(1,2)
proof (induction n arbitrary: s)
  case (Suc n)
  show ?case
  proof (cases "\<not> er_quarantined (executor_of s e) \<and> er_active (executor_of s e) < ex_slots (se_executors env ! e)")
    case free: True
    show ?thesis
    proof (cases "oldest_lease (duplicable env s e) (List.map snd (sr_leases s)) None")
      case None
      then show ?thesis using Suc.prems free by simp
    next
      case (Some l)
      note T = duplicate_target [OF Suc.prems(1) Some]
      have one: "sinv env {} {} {} (duplicate_executor env e 1 s)"
        using sinv_duplicate_executor [OF Suc.prems(1) assms(3), of 1] by blast
      have "sinv env {} {} {} (grant env (lr_task l) e True s)" using one free Some by simp
      moreover have "log_inv env sink0 resumed (grant env (lr_task l) e True s)"
        using log_inv_grant [OF Suc.prems T(1)] T(2) by blast
      ultimately show ?thesis using Suc.IH free Some by simp
    qed
  next
    case False
    then have "duplicate_executor env e (Suc n) s = s" by auto
    then show ?thesis using Suc.prems by simp
  qed
qed simp

lemma log_inv_duplicate_each:
  assumes "sinv env {} {} {} s" and "log_inv env sink0 resumed s" and "set es \<subseteq> {..<length (se_executors env)}"
  shows "log_inv env sink0 resumed (duplicate_each env es s)"
  using assms
proof (induction es arbitrary: s)
  case (Cons e es)
  let ?s1 = "s\<lparr>sr_clock_reads := sr_clock_reads s + 1\<rparr>"
  let ?s2 = "if er_declined_until (executor_of s e) > se_clock env (sr_clock_reads s) then ?s1
      else duplicate_executor env e (ex_slots (se_executors env ! e)) ?s1"
  have inv1: "sinv env {} {} {} ?s1" and log1: "log_inv env sink0 resumed ?s1" using Cons.prems(1,2) by simp_all
  have "sinv env {} {} {} ?s2" using inv1 sinv_duplicate_executor [OF inv1, of e] Cons.prems(3) by simp
  moreover have "log_inv env sink0 resumed ?s2"
    using log1 log_inv_duplicate_executor [OF inv1 log1, of e] Cons.prems(3) by simp
  moreover have "duplicate_each env (e # es) s = duplicate_each env es ?s2" by (simp add: backing_off_simp)
  ultimately show ?case using Cons.IH [of ?s2] Cons.prems(3) by simp
qed simp

lemma log_inv_dispatch:
  assumes "sinv env {} {} {} s" and "log_inv env sink0 resumed s"
  shows "log_inv env sink0 resumed (dispatch env s)"
proof -
  let ?es = "[0..<length (sr_executors s)]"
  have es: "set ?es \<subseteq> {..<length (se_executors env)}" using sinv_lengths [OF assms(1)] by auto
  note D = sinv_dispatch_each [OF assms(1) es] and L = log_inv_dispatch_each [OF assms es]
  have es': "set [0..<length (sr_executors (dispatch_each env ?es s))] \<subseteq> {..<length (se_executors env)}"
    using sinv_lengths [OF conjunct1 [OF D]] by auto
  show ?thesis
    using L log_inv_duplicate_each [OF conjunct1 [OF D] L es']
    by (simp add: dispatch_def dispatch_speculative_def Let_def)
qed

lemma on_verified_success_log:
  assumes inv: "sinv env {lr_task l} {} {} s" and log: "log_inv env sink0 resumed s"
    and t: "lr_task l < tg_size (se_graph env)"
    and good: "find_result_defect (se_lib env) (spec_of env (lr_task l)) (le_attempt (lr_lease l))
        (ao_result output) (ao_payloads output) = None" "tr_status (ao_result output) = task_succeeded"
    and res: "on_verified_success env l output s = Inr s'"
  shows "log_inv env sink0 resumed s'"
proof -
  let ?s1 = "note_executor_recovery l s" and ?t = "lr_task l"
  have inv1: "sinv env {?t} {} {} ?s1" using inv by (simp add: sinv_note)
  have log1: "log_inv env sink0 resumed ?s1" by (rule log_inv_settles [OF log settles_note])
  show ?thesis
  proof (cases "tk_phase (task_of ?s1 ?t) = ph_committed")
    case False
    then have "commit_result env l output ?s1 = Inr s'" using res by (simp add: on_verified_success_def Let_def)
    with log_inv_commit [OF inv1 log1 t False good] show ?thesis by blast
  next
    case True
    let ?dup = "emit env ev_duplicate_discarded l
          (upd_stats (\<lambda>st. st\<lparr>st_duplicates_discarded := st_duplicates_discarded st + 1\<rparr>) ?s1)"
    have "settles ?s1 s'"
    proof (cases "tr_output_digest (ao_result output) = tk_committed_output_digest (task_of ?s1 ?t)")
      case same: True
      then have "s' = ?dup" using res True unfolding on_verified_success_def Let_def by simp
      then show ?thesis by (auto intro!: settles_trans [OF settles_stats settles_emit])
    next
      case False
      let ?s2 = "emit env ev_determinism_incident l ?s1"
      obtain incidents where s': "s' = fail_build determinism_incident (ts_task_id (spec_of env ?t))
          (?s2\<lparr>sr_outcome := (sr_outcome ?s2)\<lparr>bo_incidents := incidents\<rparr>\<rparr>)"
        using res True False unfolding on_verified_success_def Let_def by auto
      have "settles ?s2 (?s2\<lparr>sr_outcome := (sr_outcome ?s2)\<lparr>bo_incidents := incidents\<rparr>\<rparr>)"
        by (simp add: settles_def started_def counters_def Let_def)
      then show ?thesis unfolding s' by (blast intro: settles_trans settles_emit settles_fail)
    qed
    then show ?thesis by (rule log_inv_settles [OF log1])
  qed
qed

lemma on_finished_log:
  assumes inv: "sinv env {} {} {} s" and log: "log_inv env sink0 resumed s"
    and res: "on_finished env i out s = Inr s'"
  shows "log_inv env sink0 resumed s'"
proof (cases "map_of (sr_leases s) i")
  case None
  then show ?thesis using res log by (simp add: on_finished_def)
next
  case (Some l)
  note L = sinv_lease_started [OF inv Some]
  let ?t = "lr_task l"
  define s1 where "s1 = upd_executor (lr_executor l) (\<lambda>e. e\<lparr>er_declined_until := 0\<rparr>) (release i l s)"
  have inv1: "sinv env {?t} {} {} s1"
    using sinv_release [OF inv Some] by (simp add: s1_def sinv_upd_executor)
  have set1: "settles s s1"
    unfolding s1_def by (rule settles_trans [OF settles_release [of s i l] settles_executor])
  let ?inv = "upd_stats (\<lambda>st. st\<lparr>st_invalid_results := st_invalid_results st + 1\<rparr>) s1"
  have "settles s ?inv" by (rule settles_trans [OF set1 settles_stats]) simp
  then have bad: "settles s (attempt_failed env ?t (lr_executor l) (quarantine env (lr_executor l) (emit env ev_failed l ?inv)))"
    by (blast intro: settles_trans settles_emit settles_quarantine settles_attempt_failed)
  have again: "settles s (emit env ev_failed l s1)"
    "settles s (fail_build k x (emit env ev_failed l s1))"
    "settles s (attempt_failed env ?t (lr_executor l) (emit env ev_failed l s1))" for k x
    using set1 by (blast intro: settles_trans settles_emit settles_fail settles_attempt_failed)+
  show ?thesis
  proof (cases "find_result_defect (se_lib env) (spec_of env ?t) (le_attempt (lr_lease l))
      (ao_result out) (ao_payloads out)")
    case (Some defect)
    then have "s' = attempt_failed env ?t (lr_executor l) (quarantine env (lr_executor l) (emit env ev_failed l ?inv))"
      using res \<open>map_of (sr_leases s) i = Some l\<close> by (simp add: on_finished_def Let_def s1_def)
    with bad show ?thesis using log_inv_settles [OF log] by blast
  next
    case None
    show ?thesis
    proof (cases "tr_status (ao_result out) = task_succeeded")
      case True
      then have "on_verified_success env l out s1 = Inr s'"
        using res None Some by (simp add: on_finished_def Let_def s1_def)
      with on_verified_success_log [OF inv1 log_inv_settles [OF log set1] L(2) None True] show ?thesis by blast
    next
      case False
      then have "s' = emit env ev_failed l s1
          \<or> s' = fail_build permanent_task_failure (ts_task_id (spec_of env ?t)) (emit env ev_failed l s1)
          \<or> s' = attempt_failed env ?t (lr_executor l) (emit env ev_failed l s1)"
        using res None Some by (auto simp: on_finished_def Let_def s1_def split: if_splits)
      with again show ?thesis using log_inv_settles [OF log] by blast
    qed
  qed
qed

definition run_inv :: "('j, 's) sched_env \<Rightarrow> 's \<Rightarrow> string list \<Rightarrow> ('j, 's) sched \<Rightarrow> bool" where
  "run_inv env sink0 resumed s \<longleftrightarrow> loop_inv env s \<and> log_inv env sink0 resumed s"

lemma run_inv_apply_event:
  assumes "run_inv env sink0 resumed s"
  shows "\<exists>s'. apply_event env event s = Inr s' \<and> run_inv env sink0 resumed s'"
proof -
  obtain s' where s': "apply_event env event s = Inr s'" "loop_inv env s'"
    using apply_event_ok assms by (metis run_inv_def)
  have log: "log_inv env sink0 resumed s" using assms by (simp add: run_inv_def)
  have "log_inv env sink0 resumed s'"
  proof (cases "failed_run s")
    case True
    then show ?thesis using s'(1) log by (simp add: apply_event_def)
  next
    case False
    then have inv: "sinv env {} {} {} s" using assms by (simp add: run_inv_def loop_invD)
    show ?thesis
    proof (cases event)
      case (HeartbeatEvent i)
      then show ?thesis using s'(1) False log_inv_settles [OF log settles_on_heartbeat]
        by (auto simp: apply_event_def)
    next
      case (FinishedEvent i out)
      then show ?thesis using s'(1) False on_finished_log [OF inv log] by (auto simp: apply_event_def)
    next
      case (FailedEvent i kind)
      then show ?thesis using s'(1) False log_inv_settles [OF log settles_on_failed]
        by (auto simp: apply_event_def)
    next
      case (RejectedEvent i)
      then show ?thesis using s'(1) False log_inv_settles [OF log settles_on_rejected]
        by (auto simp: apply_event_def)
    qed
  qed
  with s' show ?thesis by (simp add: run_inv_def)
qed

lemma run_inv_apply_events:
  "run_inv env sink0 resumed s \<Longrightarrow> \<exists>s'. apply_events env events s = Inr s' \<and> run_inv env sink0 resumed s'"
proof (induction events arbitrary: s)
  case (Cons event events)
  obtain s1 where "apply_event env event s = Inr s1" "run_inv env sink0 resumed s1"
    using run_inv_apply_event [OF Cons.prems] by blast
  then show ?case using Cons.IH by simp
qed simp

lemma run_inv_settles:
  "run_inv env sink0 resumed s \<Longrightarrow> loop_inv env s' \<Longrightarrow> settles s s' \<Longrightarrow> run_inv env sink0 resumed s'"
  using log_inv_settles by (auto simp: run_inv_def)

lemma any_backing_off_settles: "settles s (snd (any_executor_backing_off env s))"
  unfolding any_executor_backing_off_def by (subst any_backing_off_state) simp

lemma loop_inv_cong:
  "sinv env {} {} {} s' = sinv env {} {} {} s \<Longrightarrow> sinv env UNIV {} {} s' = sinv env UNIV {} {} s
     \<Longrightarrow> failed_run s' = failed_run s \<Longrightarrow> loop_inv env s' = loop_inv env s"
  by (simp add: loop_inv_def)

lemma run_inv_effect [simp]:
  "\<not> logged x \<Longrightarrow> run_inv env sink0 resumed s \<Longrightarrow> run_inv env sink0 resumed (record_effect x s)"
  by (rule run_inv_settles) (auto simp: run_inv_def loop_inv_def)

lemma run_inv_clock [simp]:
  "run_inv env sink0 resumed (s\<lparr>sr_clock_reads := n\<rparr>) = run_inv env sink0 resumed s"
  by (simp add: run_inv_def)

lemma run_inv_expire:
  assumes "run_inv env sink0 resumed s"
  shows "run_inv env sink0 resumed (expire_leases env s)"
proof -
  have "loop_inv env s" using assms by (simp add: run_inv_def)
  from run_inv_settles [OF assms loop_inv_expire [OF this] settles_expire_leases] show ?thesis .
qed

lemma run_inv_dispatch:
  assumes "run_inv env sink0 resumed s" and "\<not> failed_run s"
  shows "run_inv env sink0 resumed (dispatch env s)" and "\<not> failed_run (dispatch env s)"
proof -
  have inv: "sinv env {} {} {} s" and log: "log_inv env sink0 resumed s"
    using assms by (simp_all add: run_inv_def loop_invD)
  show "run_inv env sink0 resumed (dispatch env s)" and "\<not> failed_run (dispatch env s)"
    using sinv_dispatch [OF inv] log_inv_dispatch [OF inv log] assms(2) loop_invI
    by (auto simp: run_inv_def)
qed

subsection \<open>The loop\<close>

text \<open>How a state looks when the loop stops, whether it was left or still waits.\<close>

definition stop_inv :: "('j, 's) sched_env \<Rightarrow> 's \<Rightarrow> string list \<Rightarrow> bool \<Rightarrow> ('j, 's) sched \<Rightarrow> bool" where
  "stop_inv env sink0 resumed left s \<longleftrightarrow>
     loop_inv env s \<and> log_inv env sink0 resumed (set_status build_failed s)
     \<and> (left \<longrightarrow> bo_status (sr_outcome s) = build_failed \<longrightarrow> failed_run s)
     \<and> (\<not> left \<longrightarrow> bo_status (sr_outcome s) = build_failed \<and> \<not> failed_run s)
     \<and> (bo_status (sr_outcome s) = build_cancelled \<longrightarrow> \<not> failed_run s)
     \<and> (bo_status (sr_outcome s) = build_succeeded \<longrightarrow>
          \<not> failed_run s \<and> rs_all_complete (se_graph env) (sr_ready_set s) \<and> sr_leases s = [])"

lemma set_status_same: "bo_status (sr_outcome s) = st \<Longrightarrow> set_status st s = s"
  by (cases s, cases "sr_outcome s") (simp add: set_status_def)

lemma set_status_twice [simp]: "set_status a (set_status b s) = set_status a s"
  by (simp add: set_status_def)

lemma set_status_frame [simp]:
  "failed_run (set_status st s) = failed_run s" "sr_leases (set_status st s) = sr_leases s"
  "sr_ready_set (set_status st s) = sr_ready_set s" "bo_status (sr_outcome (set_status st s)) = st"
  "sr_tasks (set_status st s) = sr_tasks s" "sr_executors (set_status st s) = sr_executors s"
  "sr_trace (set_status st s) = sr_trace s" "sr_sink (set_status st s) = sr_sink s"
  "sr_next_lease_number (set_status st s) = sr_next_lease_number s"
  "log_of (set_status st s) = log_of s" "counters (set_status st s) = counters s"
  "completed_of (set_status st s) = completed_of s" "done_ids env (set_status st s) = done_ids env s"
  "loop_inv env (set_status st s) = loop_inv env s"
  by (simp_all add: set_status_def failed_run_def log_of_def counters_def completed_of_def done_ids_def
      loop_inv_def)

lemma run_inv_status: "run_inv env sink0 resumed s \<Longrightarrow> bo_status (sr_outcome s) = build_failed"
  by (simp add: run_inv_def log_inv_def)

lemma stop_inv_run:
  assumes "run_inv env sink0 resumed s" and "left = failed_run s"
  shows "stop_inv env sink0 resumed left s"
  using assms run_inv_status [OF assms(1)] set_status_same [of s build_failed]
  by (simp add: stop_inv_def run_inv_def)

lemma stop_inv_set_status:
  assumes "run_inv env sink0 resumed s" and "\<not> failed_run s" and "st \<noteq> build_failed"
    and "st = build_succeeded \<Longrightarrow> rs_all_complete (se_graph env) (sr_ready_set s) \<and> sr_leases s = []"
  shows "stop_inv env sink0 resumed True (set_status st s)"
  using assms set_status_same [OF run_inv_status [OF assms(1)]] by (simp add: stop_inv_def run_inv_def)

lemma execute_loop_ok:
  assumes "run_inv env sink0 resumed s"
  shows "\<exists>left s'. execute_loop env rounds s = Inr (left, s') \<and> stop_inv env sink0 resumed left s'"
  using assms
proof (induction rounds arbitrary: s)
  case Nil
  from stop_inv_run [OF Nil refl] show ?case by simp
next
  case (Cons round rounds)
  obtain cancelled events where round: "round = (cancelled, events)" by fastforce
  let ?done = "rs_all_complete (se_graph env) (sr_ready_set s) \<and> sr_leases s = []"
  consider (failed) "failed_run s" | (cancel) "\<not> failed_run s" cancelled
    | (complete) "\<not> failed_run s" "\<not> cancelled" ?done | (go) "\<not> failed_run s" "\<not> cancelled" "\<not> ?done"
    by blast
  then show ?case
  proof cases
    case failed
    then show ?thesis using stop_inv_run [OF Cons.prems refl] round by (intro exI [of _ True] exI [of _ s]) simp
  next
    case cancel
    then show ?thesis using stop_inv_set_status [OF Cons.prems, of build_cancelled] round
      by (intro exI [of _ True] exI [of _ "set_status build_cancelled s"]) simp
  next
    case complete
    then show ?thesis using stop_inv_set_status [OF Cons.prems, of build_succeeded] round
      by (intro exI [of _ True] exI [of _ "set_status build_succeeded s"]) simp
  next
    case go
    let ?s1 = "dispatch env s"
    have s1: "run_inv env sink0 resumed ?s1" "\<not> failed_run ?s1"
      using run_inv_dispatch [OF Cons.prems go(1)] .
    define idle where "idle = (sr_leases ?s1 = [] \<and> \<not> fst (any_executor_backing_off env ?s1))"
    define s2 where "s2 = (if sr_leases ?s1 = [] then snd (any_executor_backing_off env ?s1) else ?s1)"
    have pair: "(if sr_leases ?s1 = [] then let (off, s') = any_executor_backing_off env ?s1 in (\<not> off, s')
        else (False, ?s1)) = (idle, s2)"
      by (simp add: idle_def s2_def case_prod_beta' Let_def)
    have loop2: "loop_inv env s2"
      using s1(1) by (auto simp: s2_def run_inv_def loop_inv_def)
    have s2: "run_inv env sink0 resumed s2" "\<not> failed_run s2"
      using run_inv_settles [OF s1(1) loop2] any_backing_off_settles [of ?s1 env] s1(2) by (auto simp: s2_def)
    show ?thesis
    proof (cases idle)
      case True
      have "run_inv env sink0 resumed (fail_build no_usable_executor [] s2)"
        by (rule run_inv_settles [OF s2(1)]) (use loop2 s2 in \<open>auto simp: loop_inv_def elim: sinv_mono\<close>)
      then have "stop_inv env sink0 resumed True (fail_build no_usable_executor [] s2)"
        by (rule stop_inv_run) simp
      moreover have "execute_loop env (round # rounds) s = Inr (True, fail_build no_usable_executor [] s2)"
        unfolding round execute_loop.simps Let_def pair [unfolded Let_def] using go True by auto
      ultimately show ?thesis by blast
    next
      case False
      obtain wait s3 where w: "next_wait env s2 = (wait, s3)" by fastforce
      have s3: "s3 = s2\<lparr>sr_clock_reads := sr_clock_reads s2 + 1\<rparr>"
        using next_wait_state [of env s2] w by simp
      have waiting: "run_inv env sink0 resumed (record_effect (Wait wait) s3)" using s2(1) s3 by simp
      obtain s4 where s4: "apply_events env events (record_effect (Wait wait) s3) = Inr s4"
          "run_inv env sink0 resumed s4"
        using run_inv_apply_events [OF waiting, of events] by blast
      have "execute_loop env (round # rounds) s = execute_loop env rounds (expire_leases env s4)"
        unfolding round execute_loop.simps Let_def pair [unfolded Let_def] 
        by (simp only: w if_not_P [OF go(1)] if_not_P [OF go(2)] if_not_P [OF go(3)] if_not_P [OF False]
            prod.case sum.case s4(1))
      then show ?thesis using Cons.IH [OF run_inv_expire [OF s4(2)]] by simp
    qed
  qed
qed

subsection \<open>Resuming and starting\<close>

definition resume_inv :: "('j, 's) sched_env \<Rightarrow> 's \<Rightarrow> string list \<Rightarrow> ('j, 's) sched \<Rightarrow> bool" where
  "resume_inv env sink0 resumed s \<longleftrightarrow>
     sinv env {} {} UNIV s \<and> log_inv env sink0 resumed s \<and> \<not> failed_run s
     \<and> sr_leases s = [] \<and> sr_ready_queue s = []
     \<and> (\<forall>t < tg_size (se_graph env). tk_phase (task_of s t) = ph_waiting \<or> tk_phase (task_of s t) = ph_committed)
     \<and> sr_trace s = [] \<and> sr_next_lease_number s = 1 \<and> sr_clock_reads s = 0"

lemma resume_inv_start:
  assumes "wf_graph (se_graph env)"
  shows "resume_inv env sink0 [] (scheduler_run env sink0)"
proof -
  let ?s = "scheduler_run env sink0"
  have comp: "completed_of ?s = {}" by (simp add: completed_of_def scheduler_run_def)
  have task: "task_of ?s t = new_task_record" if "t < tg_size (se_graph env)" for t
    using that by (simp add: scheduler_run_def)
  have exec: "executor_of ?s e = new_executor_record" if "e < length (se_executors env)" for e
    using that by (simp add: scheduler_run_def)
  have fields: "sr_leases ?s = []" "sr_ready_queue ?s = []" "sr_trace ?s = []" "sr_next_lease_number ?s = 1"
    "sr_sink ?s = sink0" "sr_outcome ?s = empty_outcome" "sr_ready_set ?s = ready_set_of (se_graph env)"
    "length (sr_tasks ?s) = tg_size (se_graph env)" "length (sr_executors ?s) = length (se_executors env)"
    "sr_clock_reads ?s = 0"
    by (simp_all add: scheduler_run_def)
  have "task_ok env {} UNIV ?s t" if "t < tg_size (se_graph env)" for t
    unfolding task_ok_def task [OF that] comp fields Let_def by (simp add: new_task_record_def)
  moreover have "executor_ok env {} ?s e" if "e < length (se_executors env)" for e
    unfolding executor_ok_def exec [OF that] fields by (simp add: new_executor_record_def)
  ultimately have "sinv env {} {} UNIV ?s"
    using assms rs_inv_start [OF assms] unfolding sinv_def fields by simp
  moreover have "log_inv env sink0 [] ?s"
    unfolding log_inv_def log_of_def fields done_ids_def comp counters_def Let_def
    by (simp add: empty_outcome_def empty_stats_def attempts_of_def task new_task_record_def)
  moreover have "\<not> failed_run ?s" by (simp add: failed_run_def fields empty_outcome_def)
  ultimately show ?thesis
    unfolding resume_inv_def fields by (simp add: task new_task_record_def)
qed

lemma resume_inv_step:
  assumes inv: "resume_inv env sink0 resumed s" and t: "t < tg_size (se_graph env)"
    and ph: "tk_phase (task_of s t) \<noteq> ph_committed"
    and f: "tk_phase (f (task_of s t)) = ph_committed" "tk_active_leases (f (task_of s t)) = tk_active_leases (task_of s t)"
      "tk_attempts_started (f (task_of s t)) = tk_attempts_started (task_of s t)"
  obtains rs ready where "rs_complete_task (se_graph env) (sr_ready_set s) t = Inr (rs, ready)"
    and "resume_inv env sink0 (resumed @ [ts_task_id (spec_of env t)])
      (upd_stats (\<lambda>st. st\<lparr>st_resumed := st_resumed st + 1\<rparr>) ((upd_task t f s)\<lparr>sr_ready_set := rs\<rparr>))"
proof -
  let ?g = "se_graph env"
  note R = inv [unfolded resume_inv_def]
  have sinv: "sinv env {} {} UNIV s" and log: "log_inv env sink0 resumed s" using R by blast+
  have rs: "rs_inv ?g (sr_ready_set s)" using sinv by (simp add: sinv_def)
  have new: "t \<notin> rs_completed (sr_ready_set s)"
    using sinv_task [OF sinv t] ph by (auto simp: task_ok_def completed_of_def Let_def)
  obtain rs' ready where complete: "rs_complete_task ?g (sr_ready_set s) t = Inr (rs', ready)"
    and rs': "rs_inv ?g rs'" and comp: "rs_completed rs' = insert t (rs_completed (sr_ready_set s))"
    and "sorted ready" and "distinct ready" and ready: "set ready = {d. d < tg_size ?g \<and> t \<in> set (deps_at ?g d)
        \<and> set (deps_at ?g d) \<subseteq> insert t (rs_completed (sr_ready_set s))}"
    by (rule rs_complete_task_ok [OF sinv_graph [OF sinv] rs t new])
  define u where "u = upd_stats (\<lambda>st. st\<lparr>st_resumed := st_resumed st + 1\<rparr>) ((upd_task t f s)\<lparr>sr_ready_set := rs'\<rparr>)"
  have fields: "sr_leases u = []" "sr_ready_queue u = []" "sr_trace u = []" "sr_next_lease_number u = 1"
    "sr_clock_reads u = 0" "sr_sink u = sr_sink s" "sr_executors u = sr_executors s" "sr_ready_set u = rs'"
    "sr_tasks u = (sr_tasks s)[t := f (task_of s t)]" "failed_run u = failed_run s"
    "bo_status (sr_outcome u) = bo_status (sr_outcome s)" "log_of u = log_of s"
    using R by (simp_all add: u_def) (simp_all add: upd_stats_def)
  have cu: "completed_of u = insert t (completed_of s)" by (simp add: completed_of_def fields comp)
  have task: "task_of u t' = (if t' = t then f (task_of s t) else task_of s t')" if "t' < tg_size ?g" for t'
    using that t sinv_lengths [OF sinv] by (simp add: fields)
  have phases: "tk_phase (task_of u t') = ph_waiting \<or> tk_phase (task_of u t') = ph_committed"
    if "t' < tg_size ?g" for t'
    using R f that by (simp add: task)
  have leases: "sr_leases s = []" "sr_ready_queue s = []" using R by blast+
  have "task_ok env {} UNIV u t'" if t': "t' < tg_size ?g" for t'
    using sinv_task [OF sinv t'] phases [OF t'] f t'
    unfolding task_ok_def Let_def cu fields(1,2) leases task [OF t'] by auto
  moreover have "executor_ok env {} u e" if "e < length (se_executors env)" for e
    using sinv_executor [OF sinv that] unfolding executor_ok_def fields leases by simp
  ultimately have "sinv env {} {} UNIV u"
    using sinv rs' unfolding sinv_def fields by simp
  moreover have "log_inv env sink0 (resumed @ [ts_task_id (spec_of env t)]) u"
  proof -
    have fresh: "ts_task_id (spec_of env t) \<notin> done_ids env s"
    proof
      assume "ts_task_id (spec_of env t) \<in> done_ids env s"
      then obtain k where k: "k \<in> completed_of s" "ts_task_id (spec_of env t) = ts_task_id (spec_of env k)"
        by (auto simp: done_ids_def)
      then have "k < tg_size ?g" using rs_completed_subset [OF rs] by (auto simp: completed_of_def)
      then have "t = k" using spec_ids_inj [OF sinv_graph [OF sinv] t _ k(2)] by blast
      then show False using k(1) new by (simp add: completed_of_def)
    qed
    have empty: "log_of s = []" using R by (simp add: log_of_def)
    have done_u: "done_ids env u = insert (ts_task_id (spec_of env t)) (done_ids env s)"
      by (simp add: done_ids_def cu)
    have cnt: "counters u = (fst (counters s), fst (snd (counters s)), snd (snd (counters s)) + 1)"
      by (simp add: u_def counters_def upd_stats_def upd_task_def Let_def)
    have att: "tk_attempts_started (task_of u t') = tk_attempts_started (task_of s t')" if "t' < tg_size ?g" for t'
      using f(3) that by (simp add: task)
    note L = log [unfolded log_inv_def]
    have attempts: "\<forall>t' < tg_size ?g. attempts_of (ts_task_id (spec_of env t')) (log_of s)
        = [1..<Suc (tk_attempts_started (task_of u t'))]"
      using L by (simp add: att del: upt_Suc)
    have "sr_next_lease_number s = 1" using R by blast
    then show ?thesis
      using L fresh attempts empty unfolding log_inv_def fields(4,6,11,12) done_u cnt
      by (simp del: upt_Suc)
  qed
  ultimately have "resume_inv env sink0 (resumed @ [ts_task_id (spec_of env t)]) u"
    using phases R unfolding resume_inv_def fields by simp
  with complete show ?thesis using that unfolding u_def by blast
qed

lemma apply_resumed_ok:
  assumes "resume_inv env sink0 done0 s"
  shows "case apply_resumed env resumed s of
      Inl fault \<Rightarrow> fault = ExecFault invalid_value
    | Inr s' \<Rightarrow> resume_inv env sink0 (done0 @ List.map (\<lambda>c. tr_task_id (cr_result c)) resumed) s'
        \<and> (\<forall>c \<in> set resumed. \<exists>t < tg_size (se_graph env). verified_success (se_lib env) (spec_of env t) c)"
  using assms
proof (induction resumed arbitrary: s done0)
  case (Cons c resumed)
  let ?g = "se_graph env"
  have g: "wf_graph ?g" using Cons.prems by (simp add: resume_inv_def sinv_def)
  show ?case
  proof (cases "tg_find ?g (tr_task_id (cr_result c))")
    case (Some t)
    then have t: "t < tg_size ?g" "ts_task_id (spec_of env t) = tr_task_id (cr_result c)"
      using wf_graph_find [OF g] by blast+
    show ?thesis
    proof (cases "tk_phase (task_of s t) = ph_committed
        \<or> find_result_defect (se_lib env) (spec_of env t) (tr_attempt (cr_result c)) (cr_result c) (cr_payloads c) \<noteq> None
        \<or> tr_status (cr_result c) \<noteq> task_succeeded")
      case True
      then have "apply_resumed env (c # resumed) s = Inl (ExecFault invalid_value)" using Some by auto
      then show ?thesis by simp
    next
      case False
      let ?f = "\<lambda>r. r\<lparr>tk_phase := ph_committed, tk_committed_attempt := tr_attempt (cr_result c),
          tk_committed_executor_id := cr_executor_id c,
          tk_committed_output_digest := tr_output_digest (cr_result c)\<rparr>"
      have ph: "tk_phase (task_of s t) \<noteq> ph_committed" using False by blast
      obtain rs ready where rs: "rs_complete_task ?g (sr_ready_set s) t = Inr (rs, ready)"
        and inv: "resume_inv env sink0 (done0 @ [ts_task_id (spec_of env t)])
          (upd_stats (\<lambda>st. st\<lparr>st_resumed := st_resumed st + 1\<rparr>) ((upd_task t ?f s)\<lparr>sr_ready_set := rs\<rparr>))"
        by (rule resume_inv_step [OF Cons.prems t(1) ph, where f = ?f]) simp_all
      have ver: "verified_success (se_lib env) (spec_of env t) c"
        using False by (simp add: verified_success_def)
      have "apply_resumed env (c # resumed) s = apply_resumed env resumed
          (upd_stats (\<lambda>st. st\<lparr>st_resumed := st_resumed st + 1\<rparr>) ((upd_task t ?f s)\<lparr>sr_ready_set := rs\<rparr>))"
        using Some False rs by (simp add: Let_def)
      then show ?thesis using Cons.IH [OF inv] t ver by (auto split: sum.splits)
    qed
  qed simp
qed simp

lemma start_ready_ok:
  assumes "sinv env {} {} U s" and "set ts \<subseteq> {..<tg_size (se_graph env)}"
  shows "sinv env {} {} (U - set ts) (start_ready env ts s)" and "settles s (start_ready env ts s)"
    and "failed_run (start_ready env ts s) = failed_run s"
proof -
  have "sinv env {} {} (U - set ts) (start_ready env ts s) \<and> settles s (start_ready env ts s)
    \<and> failed_run (start_ready env ts s) = failed_run s"
    using assms
  proof (induction ts arbitrary: s U)
    case (Cons t ts)
    let ?g = "se_graph env"
    let ?ready = "tk_phase (task_of s t) = ph_waiting
        \<and> list_all (\<lambda>d. rs_is_complete (sr_ready_set s) d = Inr True) (deps_at ?g t)"
    let ?s1 = "if ?ready then make_ready env t s else s"
    have t: "t < tg_size ?g" using Cons.prems(2) by simp
    have rs: "rs_inv ?g (sr_ready_set s)" using Cons.prems(1) by (simp add: sinv_def)
    have deps: "list_all (\<lambda>d. rs_is_complete (sr_ready_set s) d = Inr True) (deps_at ?g t)
        \<longleftrightarrow> set (deps_at ?g t) \<subseteq> completed_of s"
      by (auto simp: list_all_iff rs_is_complete_def completed_of_def rs_completed_def split: if_splits)
    have "sinv env {} {} (U - {t}) ?s1"
    proof (cases ?ready)
      case True
      then have "held (sr_leases s) t = {}"
        using sinv_task [OF Cons.prems(1) t] by (simp add: task_ok_def Let_def)
      then have "sinv env ({} - {t}) {} (U - {t}) (make_ready env t s)"
        by (intro sinv_make_ready [OF Cons.prems(1) t]) (use True deps in auto)
      then show ?thesis using True by simp
    next
      case False
      have "task_ok env {} (U - {t}) s t'" if "t' < tg_size ?g" for t'
        using sinv_task [OF Cons.prems(1) that] False deps
        by (cases "t' = t") (auto simp: task_ok_def Let_def)
      then have "sinv env {} {} (U - {t}) s" using Cons.prems(1) unfolding sinv_def by blast
      then show ?thesis using False by (simp only: if_False)
    qed
    moreover have "settles s ?s1" by (simp add: settles_make_ready)
    moreover have "failed_run ?s1 = failed_run s" by simp
    moreover have "start_ready env (t # ts) s = start_ready env ts ?s1" by simp
    moreover have "U - set (t # ts) = U - {t} - set ts" by auto
    moreover have "set ts \<subseteq> {..<tg_size ?g}" using Cons.prems(2) by simp
    ultimately show ?case using Cons.IH [of "U - {t}" ?s1] settles_trans [of s ?s1] by simp
  qed simp
  then show "sinv env {} {} (U - set ts) (start_ready env ts s)" and "settles s (start_ready env ts s)"
    and "failed_run (start_ready env ts s) = failed_run s" by blast+
qed

lemma execute_ok:
  assumes "resume_inv env sink0 resumed s"
  shows "\<exists>left s'. execute_loop env rounds (start_ready env [0..<tg_size (se_graph env)] s) = Inr (left, s')
    \<and> stop_inv env sink0 resumed left s'"
proof -
  let ?s0 = "start_ready env [0..<tg_size (se_graph env)] s"
  have inv: "sinv env {} {} UNIV s" and log: "log_inv env sink0 resumed s" and nf: "\<not> failed_run s"
    using assms by (simp_all add: resume_inv_def)
  have range: "set [0..<tg_size (se_graph env)] \<subseteq> {..<tg_size (se_graph env)}" by auto
  note S = start_ready_ok [OF inv range]
  have "task_ok env {} {} ?s0 t" if "t < tg_size (se_graph env)" for t
    using sinv_task [OF S(1) that] that by (auto simp: task_ok_def Let_def)
  then have "sinv env {} {} {} ?s0" using S(1) unfolding sinv_def by blast
  then have "run_inv env sink0 resumed ?s0"
    using log_inv_settles [OF log S(2)] loop_invI by (simp add: run_inv_def)
  then show ?thesis by (rule execute_loop_ok)
qed

end
