(* ===== verification/Samples.thy ===== *)
theory Samples
  imports SchedulerRuns
begin

text \<open>
  Concrete inputs for the witnesses: an instance of the linked libraries (JSON texts as strings,
  a digest that pads its input), two small graphs, executors, policies and clocks.
\<close>

definition sample_lib :: "string exec_lib" where
  "sample_lib =
     \<lparr>js_object = \<lambda>fields. concat (List.map snd fields), js_array = concat, js_string = \<lambda>s. s,
      js_unsigned = \<lambda>n. [], js_is_object = \<lambda>_. True, js_encode_canonical = Inr,
      blake3_digest = \<lambda>bs. take 32 (bs @ replicate 32 0)\<rparr>"

definition sample_spec :: "string \<Rightarrow> string list \<Rightarrow> u64 \<Rightarrow> string task_spec" where
  "sample_spec task_id depends_on seconds =
     \<lparr>ts_build_session_id = ''s'', ts_task_id = task_id, ts_task_type = ''t'', ts_task_type_version = 1,
      ts_depends_on = depends_on, ts_model_refs = [], ts_inputs = [], ts_parameters = [],
      ts_parameters_blake3 = replicate 32 0, ts_cache_key = replicate 32 0,
      ts_resources = \<lparr>est_peak_rss_mb = 0, est_cpu_threads = 1, est_seconds = seconds\<rparr>\<rparr>"

definition sample_node :: "string \<Rightarrow> string list \<Rightarrow> u64 \<Rightarrow> u64 \<Rightarrow> string task_node" where
  "sample_node task_id depends_on seconds ordinal =
     \<lparr>tn_spec = sample_spec task_id depends_on seconds, tn_order_key = TaskOrderKey ''v'' [ordinal]\<rparr>"

definition chain_nodes :: "string task_node list" where
  "chain_nodes = [sample_node ''a'' [] 2 1, sample_node ''b'' [''a''] 3 2]"

definition cycle_nodes :: "string task_node list" where
  "cycle_nodes = [sample_node ''a'' [''b''] 2 1, sample_node ''b'' [''a''] 3 2, sample_node ''c'' [''a''] 1 3]"

definition single_nodes :: "string task_node list" where
  "single_nodes = [sample_node ''a'' [] 2 1]"

definition built :: "string task_node list \<Rightarrow> string task_graph" where
  "built nodes = (case task_graph sample_lib nodes of Inr g \<Rightarrow> g | Inl _ \<Rightarrow>
     \<lparr>tg_nodes = [], tg_index_by_id = Map.empty, tg_dependencies = [], tg_dependents = [],
      tg_critical_path_seconds = []\<rparr>)"

definition sample_executor :: "string \<Rightarrow> nat \<Rightarrow> string executor" where
  "sample_executor i slots =
     \<lparr>ex_id = i, ex_slots = slots, ex_loss_quarantine = after_repeated_losses, ex_accepts = \<lambda>_. True\<rparr>"

definition sample_env ::
  "(nat \<Rightarrow> int) \<Rightarrow> string task_node list \<Rightarrow> string executor list \<Rightarrow> scheduler_policy
     \<Rightarrow> (string, string memory_sink) sched_env" where
  "sample_env clock nodes executors policy =
     \<lparr>se_lib = sample_lib, se_policy = policy, se_clock = clock, se_graph = built nodes,
      se_executors = executors, se_sink_commit = memory_sink_commit, se_observer = True\<rparr>"

definition sample_result :: "string \<Rightarrow> nat \<Rightarrow> string task_result" where
  "sample_result task_id attempt =
     \<lparr>tr_task_id = task_id, tr_attempt = attempt, tr_status = task_succeeded, tr_outputs = [],
      tr_output_digest = (case compute_output_digest sample_lib [] of Inr d \<Rightarrow> d | Inl _ \<Rightarrow> []),
      tr_execution = \<lparr>tx_worker_session_id = ''w'', tx_runtime_id = replicate 32 0,
        tx_timing_ms = \<lparr>tm_queue = 0, tm_input_fetch = 0, tm_decode = 0, tm_compute = 0, tm_encode = 0\<rparr>,
        tx_cpu_ms = \<lparr>tc_user = 0, tc_system = 0\<rparr>, tx_peak_rss_bytes = 0\<rparr>,
      tr_diagnostics = [], tr_error = None\<rparr>"

definition sample_output :: "string \<Rightarrow> nat \<Rightarrow> string attempt_output" where
  "sample_output task_id attempt = \<lparr>ao_result = sample_result task_id attempt, ao_payloads = []\<rparr>"

definition sample_committed :: "string \<Rightarrow> nat \<Rightarrow> string committed_result" where
  "sample_committed task_id attempt =
     \<lparr>cr_result = sample_result task_id attempt, cr_payloads = [], cr_executor_id = ''x''\<rparr>"

definition accepted :: "string task_node list \<Rightarrow> bool" where
  "accepted nodes = (case task_graph sample_lib nodes of Inr _ \<Rightarrow> True | Inl _ \<Rightarrow> False)"

lemma built_graph: "accepted nodes \<Longrightarrow> task_graph sample_lib nodes = Inr (built nodes)"
  by (auto simp: accepted_def built_def split: sum.splits)

lemma chain_graph: "task_graph sample_lib chain_nodes = Inr (built chain_nodes)"
  by (rule built_graph) code_simp

lemma single_graph: "task_graph sample_lib single_nodes = Inr (built single_nodes)"
  by (rule built_graph) code_simp

end
