(* ===== verification/SchedulerProps.thy ===== *)
theory SchedulerProps
  imports Samples
begin

text \<open>
  The scheduler's promises, stated of whole runs: whatever the executors answer, in whatever
  order and at whatever clock readings, and wherever the run is stopped.
\<close>

subsection \<open>From a run to its invariants\<close>

lemma cancel_each_frame:
  fixes s :: "('j, 's) sched"
  defines "c \<equiv> \<lambda>ls s. fold (\<lambda>(i, l). record_effect (Cancel (lr_executor l) i)) ls (s :: ('j, 's) sched)"
  shows "sr_outcome (c ls s) = sr_outcome s" "sr_sink (c ls s) = sr_sink s"
    "sr_ready_set (c ls s) = sr_ready_set s" "sr_next_lease_number (c ls s) = sr_next_lease_number s"
    "sr_tasks (c ls s) = sr_tasks s"
    "sr_trace (c ls s) = sr_trace s @ List.map (\<lambda>(i, l). Cancel (lr_executor l) i) ls"
  unfolding c_def by (induction ls arbitrary: s) (auto simp: case_prod_beta' record_effect_def)

lemma abandon_outstanding_frame:
  "sr_leases (abandon_outstanding_leases s) = []"
  "sr_outcome (abandon_outstanding_leases s) = sr_outcome s"
  "sr_sink (abandon_outstanding_leases s) = sr_sink s"
  "sr_ready_set (abandon_outstanding_leases s) = sr_ready_set s"
  "sr_next_lease_number (abandon_outstanding_leases s) = sr_next_lease_number s"
  "sr_tasks (abandon_outstanding_leases s) = sr_tasks s"
  "sr_trace (abandon_outstanding_leases s)
     = sr_trace s @ List.map (\<lambda>(i, l). Cancel (lr_executor l) i) (sr_leases s)"
  by (simp_all add: abandon_outstanding_leases_def cancel_each_frame)

lemma no_logged_cancels: "filter logged (List.map (\<lambda>(i, l). Cancel (lr_executor l) i) ls) = []"
  by (induction ls) auto

text \<open>The ids of the results a run is resumed from.\<close>

definition result_ids :: "'j committed_result list \<Rightarrow> string list" where
  "result_ids results = List.map (\<lambda>c. tr_task_id (cr_result c)) results"

lemma scheduler_execute_cases:
  assumes "wf_graph (se_graph env)"
  shows "case scheduler_execute env sink resumed rounds of
      Inl fault \<Rightarrow> (\<exists>code. fault = ExecFault code \<and>
          (validate_scheduler_policy (se_policy env) = Some code
           \<or> validate_executors (se_executors env) = Some code))
        \<or> apply_resumed env resumed (scheduler_run env sink) = Inl fault
    | Inr (left, s) \<Rightarrow> validate_scheduler_policy (se_policy env) = None
        \<and> validate_executors (se_executors env) = None
        \<and> (\<exists>s'. stop_inv env sink (result_ids resumed) left s'
            \<and> s = (if left then abandon_outstanding_leases s' else s')
            \<and> (\<forall>c \<in> set resumed. \<exists>t < tg_size (se_graph env). verified_success (se_lib env) (spec_of env t) c))"
proof (cases "validate_scheduler_policy (se_policy env)")
  case None
  note policy = this
  show ?thesis
  proof (cases "validate_executors (se_executors env)")
    case None
    show ?thesis
    proof (cases "apply_resumed env resumed (scheduler_run env sink)")
      case (Inl fault)
      then show ?thesis using policy None by (simp add: scheduler_execute_def)
    next
      case (Inr s0)
      have "resume_inv env sink (result_ids resumed) s0"
        and ver: "\<forall>c \<in> set resumed. \<exists>t < tg_size (se_graph env). verified_success (se_lib env) (spec_of env t) c"
        using apply_resumed_ok [OF resume_inv_start [OF assms], of sink resumed] Inr
        by (simp_all add: result_ids_def)
      then obtain left s' where "execute_loop env rounds (start_ready env [0..<tg_size (se_graph env)] s0) = Inr (left, s')"
          "stop_inv env sink (result_ids resumed) left s'"
        using execute_ok [of env sink "result_ids resumed" s0 rounds] by blast
      then show ?thesis using policy None Inr ver by (auto simp: scheduler_execute_def execute_def)
    qed
  qed (use policy in \<open>simp add: scheduler_execute_def\<close>)
qed (simp add: scheduler_execute_def)

lemma scheduler_execute_Inr:
  assumes "task_graph lib nodes = Inr (se_graph env)"
    and "scheduler_execute env sink resumed rounds = Inr (left, s)"
  obtains s' where "stop_inv env sink (result_ids resumed) left s'"
    and "s = (if left then abandon_outstanding_leases s' else s')"
    and "validate_scheduler_policy (se_policy env) = None" and "validate_executors (se_executors env) = None"
    and "wf_graph (se_graph env)" and "tg_nodes (se_graph env) = nodes"
proof -
  note g = task_graph_wf [OF assms(1)]
  show ?thesis using scheduler_execute_cases [OF g(1), where sink = sink and resumed = resumed and rounds = rounds] assms(2) that g by auto
qed

lemma stop_inv_log:
  assumes "stop_inv env sink resumed left s'" and "s = (if left then abandon_outstanding_leases s' else s')"
  shows "log_inv env sink resumed (set_status build_failed s')"
    and "assigns_of (sr_trace s) = assigns_of (log_of s')" and "commits_of (sr_trace s) = commits_of (log_of s')"
    and "commit_ids (sr_trace s) = commit_ids (log_of s')"
    and "deps_first available (sr_trace s) = deps_first available (log_of s')"
    and "sr_sink s = sr_sink s'" and "sr_outcome s = sr_outcome s'"
    and "st_attempts_started (bo_stats (sr_outcome s')) = sr_next_lease_number s' - 1"
    and "st_committed (bo_stats (sr_outcome s')) = length (commits_of (log_of s'))"
proof -
  have "counters s' = (sr_next_lease_number s' - 1, length (commits_of (log_of s')), length resumed)"
    using assms(1) by (simp add: stop_inv_def log_inv_def)
  then show "st_attempts_started (bo_stats (sr_outcome s')) = sr_next_lease_number s' - 1"
    and "st_committed (bo_stats (sr_outcome s')) = length (commits_of (log_of s'))"
    by (simp_all add: counters_def Let_def)
  show "log_inv env sink resumed (set_status build_failed s')" using assms(1) by (simp add: stop_inv_def)
  have same: "filter logged (sr_trace s) = log_of s'"
    using assms(2) by (simp add: log_of_def abandon_outstanding_frame no_logged_cancels)
  show "assigns_of (sr_trace s) = assigns_of (log_of s')" "commits_of (sr_trace s) = commits_of (log_of s')"
    "commit_ids (sr_trace s) = commit_ids (log_of s')"
    "deps_first available (sr_trace s) = deps_first available (log_of s')"
    unfolding same [symmetric] by simp_all
  show "sr_sink s = sr_sink s'" and "sr_outcome s = sr_outcome s'"
    using assms(2) by (simp_all add: abandon_outstanding_frame)
qed

subsection \<open>Faults\<close>





subsection \<open>Properties of every run\<close>



text \<open>C2: Success means everything. A run that reports success has, with the results it was
  resumed from, a committed result for every task of the graph and no others, reports no
  failure, and holds no lease.\<close>

theorem scheduler_success_is_complete:
  assumes "task_graph lib nodes = Inr (se_graph env)"
    and "scheduler_execute env sink resumed rounds = Inr (left, s)"
    and "bo_status (sr_outcome s) = build_succeeded"
  shows "left \<and> set (result_ids resumed) \<union> set (commit_ids (sr_trace s)) = node_id ` set nodes
    \<and> length resumed + st_committed (bo_stats (sr_outcome s)) = length nodes
    \<and> bo_failure (sr_outcome s) = None \<and> sr_leases s = []"
proof -
  obtain s' where stop: "stop_inv env sink (result_ids resumed) left s'"
    and s: "s = (if left then abandon_outstanding_leases s' else s')"
    and g: "wf_graph (se_graph env)" and nodes: "tg_nodes (se_graph env) = nodes"
    by (rule scheduler_execute_Inr [OF assms(1,2)])
  note S = stop_inv_log [OF stop s]
  note L = S(1) [unfolded log_inv_def]
  have st: "bo_status (sr_outcome s') = build_succeeded" using assms(3) S(7) by simp
  then have over: "left" "\<not> failed_run s'" "rs_all_complete (se_graph env) (sr_ready_set s')" "sr_leases s' = []"
    using stop by (auto simp: stop_inv_def)
  have inv: "sinv env {} {} {} s'" using stop over(2) by (simp add: stop_inv_def loop_invD)
  then have comp: "completed_of s' = {..<length nodes}"
    using rs_all_complete_iff [of "se_graph env" "sr_ready_set s'"] over(3) nodes
    by (auto simp: sinv_def completed_of_def tg_size_def)
  have ids: "done_ids env s' = node_id ` set nodes"
    unfolding done_ids_def comp nodes by (auto simp: set_conv_nth image_iff)
  have all: "set (result_ids resumed @ commit_ids (log_of s')) = node_id ` set nodes"
    and dist: "distinct (result_ids resumed @ commit_ids (log_of s'))" using L ids by simp_all
  have "length (result_ids resumed @ commit_ids (log_of s')) = card (node_id ` set nodes)"
    using all dist by (metis distinct_card)
  also have "\<dots> = length nodes"
    using wf_graph_ids [OF g] nodes by (metis card_image distinct_card distinct_map)
  finally have "length resumed + length (commits_of (log_of s')) = length nodes"
    by (simp add: result_ids_def commit_ids_def)
  moreover have "sr_leases s = []" using s over by (simp add: abandon_outstanding_frame)
  ultimately show ?thesis using over all S by (simp add: failed_run_def)
qed

text \<open>C4: Dependencies first. In any run no task is assigned to an executor before each task it
  depends on was resumed or its result was accepted by the sink.\<close>

theorem scheduler_assigns_after_dependencies:
  assumes "task_graph lib nodes = Inr (se_graph env)"
    and "scheduler_execute env sink resumed rounds = Inr (left, s)"
  shows "deps_first (set (result_ids resumed)) (sr_trace s)"
proof -
  obtain s' where stop: "stop_inv env sink (result_ids resumed) left s'"
    and s: "s = (if left then abandon_outstanding_leases s' else s')"
    by (rule scheduler_execute_Inr [OF assms])
  note S = stop_inv_log [OF stop s]
  show ?thesis unfolding S(5) using S(1) by (simp add: log_inv_def)
qed

text \<open>Attempts are numbered. The leases of a run are \<open>lease_1\<close>, \<open>lease_2\<close>, ... in the order
  they are assigned, and the assignments of one task carry the attempt numbers 1, 2, ... in
  order, so a lease id or a (task, attempt) pair never names two attempts.\<close>

theorem scheduler_numbers_attempts:
  assumes "task_graph lib nodes = Inr (se_graph env)"
    and "scheduler_execute env sink resumed rounds = Inr (left, s)"
  shows "List.map (\<lambda>(e, spec, l). le_lease_id l) (assigns_of (sr_trace s))
      = List.map lease_name [1..<Suc (length (assigns_of (sr_trace s)))]
    \<and> list_all (\<lambda>node. attempts_of (node_id node) (sr_trace s)
          = [1..<Suc (length (attempts_of (node_id node) (sr_trace s)))]) nodes
    \<and> distinct (List.map (\<lambda>(e, spec, l). le_lease_id l) (assigns_of (sr_trace s)))
    \<and> st_attempts_started (bo_stats (sr_outcome s)) = length (assigns_of (sr_trace s))"
proof -
  obtain s' where stop: "stop_inv env sink (result_ids resumed) left s'"
    and s: "s = (if left then abandon_outstanding_leases s' else s')"
    and nodes: "tg_nodes (se_graph env) = nodes"
    by (rule scheduler_execute_Inr [OF assms])
  note S = stop_inv_log [OF stop s]
  note L = S(1) [unfolded log_inv_def]
  have ids: "List.map (\<lambda>(e, spec, l). le_lease_id l) (assigns_of (log_of s'))
      = List.map lease_name [1..<sr_next_lease_number s']" using L by simp
  have len: "length (assigns_of (log_of s')) = sr_next_lease_number s' - 1"
    using arg_cong [OF ids, of length] by simp
  have "sr_next_lease_number s' > 0" using stop by (auto simp: stop_inv_def loop_inv_def sinv_def)
  then have num: "sr_next_lease_number s' = Suc (length (assigns_of (log_of s')))" using len by simp
  have att: "attempts_of i (sr_trace s) = attempts_of i (log_of s')" for i
    by (simp add: attempts_of_def S(2))
  have one: "attempts_of (node_id node) (sr_trace s)
      = [1..<Suc (length (attempts_of (node_id node) (sr_trace s)))]" if mem: "node \<in> set nodes" for node
  proof -
    obtain t where t: "t < length nodes" "nodes ! t = node" using mem by (auto simp: in_set_conv_nth)
    have "attempts_of (ts_task_id (spec_of env t)) (log_of s') = [1..<Suc (tk_attempts_started (task_of s' t))]"
      using L t(1) nodes unfolding tg_size_def set_status_frame by blast
    then show ?thesis using t nodes by (simp add: att del: upt_Suc)
  qed
  have "distinct (List.map lease_name [1..<Suc (length (assigns_of (log_of s')))])"
    by (simp add: distinct_map inj_on_def del: upt_Suc)
  then have "distinct (List.map (\<lambda>(e, spec, l). le_lease_id l) (assigns_of (log_of s')))"
    unfolding ids num .
  moreover have "list_all (\<lambda>node. attempts_of (node_id node) (sr_trace s)
      = [1..<Suc (length (attempts_of (node_id node) (sr_trace s)))]) nodes"
    unfolding list_all_iff using one by blast
  moreover have "st_attempts_started (bo_stats (sr_outcome s')) = length (assigns_of (log_of s'))"
    using S(8) len by simp
  ultimately show ?thesis
    unfolding S(2,7) using ids unfolding num by blast
qed

definition leases_at_rest :: "('j, 's) sched_env \<Rightarrow> ('j, 's) sched \<Rightarrow> bool" where
  "leases_at_rest env s \<longleftrightarrow>
     (\<forall>e < length (se_executors env).
        er_active (executor_of s e) = length (filter (\<lambda>(i, l). lr_executor l = e) (sr_leases s))
        \<and> er_active (executor_of s e) \<le> ex_slots (se_executors env ! e)
        \<and> (er_quarantined (executor_of s e) \<longrightarrow> er_active (executor_of s e) = 0))
     \<and> (\<forall>(i, l) \<in> set (sr_leases s).
          lr_task l < tg_size (se_graph env) \<and> lr_executor l < length (se_executors env)
          \<and> ex_accepts (se_executors env ! lr_executor l) (spec_of env (lr_task l))
          \<and> (tk_phase (task_of s (lr_task l)) = ph_leased
               \<longrightarrow> (\<forall>d \<in> set (deps_at (se_graph env) (lr_task l)). tk_phase (task_of s d) = ph_committed))
          \<and> length (filter (\<lambda>(i', l'). lr_task l' = lr_task l) (sr_leases s)) \<le> 2
          \<and> (\<forall>(i', l') \<in> set (sr_leases s). lr_task l' = lr_task l \<and> lr_executor l' = lr_executor l \<longrightarrow> i' = i))
     \<and> ((\<exists>t < tg_size (se_graph env). tk_phase (task_of s t) \<noteq> ph_committed)
         \<longrightarrow> (\<exists>t < tg_size (se_graph env). t \<in> set (sr_ready_queue s)
               \<or> (\<exists>(i, l) \<in> set (sr_leases s). lr_task l = t \<and> tk_phase (task_of s t) = ph_leased)))"

lemma load_length:
  "map_wf leases \<Longrightarrow> length (filter (\<lambda>(i, l). lr_executor l = e) leases) = card (load leases e)"
  and held_length:
  "map_wf leases \<Longrightarrow> length (filter (\<lambda>(i, l). lr_task l = t) leases) = card (held leases t)"
proof -
  assume wf: "map_wf leases"
  have card: "card {i. \<exists>l. map_of leases i = Some l \<and> P l} = length (filter (\<lambda>(i, l). P l) leases)" for P
  proof -
    have "{i. \<exists>l. map_of leases i = Some l \<and> P l} = set (List.map fst (filter (\<lambda>(i, l). P l) leases))"
      using map_of_mem_iff [OF wf] by force
    moreover have "distinct (List.map fst (filter (\<lambda>(i, l). P l) leases))"
      using map_wf_distinct [OF wf] by (rule distinct_map_filter)
    ultimately show ?thesis by (metis distinct_card length_map)
  qed
  show "length (filter (\<lambda>(i, l). lr_executor l = e) leases) = card (load leases e)"
    and "length (filter (\<lambda>(i, l). lr_task l = t) leases) = card (held leases t)"
    using card [of "\<lambda>l. lr_executor l = e"] card [of "\<lambda>l. lr_task l = t"] by (simp_all add: load_def held_def)
qed

lemma unfinished_open:
  assumes inv: "sinv env {} {} {} s" and t: "t < tg_size (se_graph env)"
    and ph: "tk_phase (task_of s t) \<noteq> ph_committed"
  shows "\<exists>t < tg_size (se_graph env). t \<in> set (sr_ready_queue s)
    \<or> (\<exists>(i, l) \<in> set (sr_leases s). lr_task l = t \<and> tk_phase (task_of s t) = ph_leased)"
proof -
  have "t \<notin> completed_of s" using sinv_task [OF inv t] ph by (auto simp: task_ok_def Let_def)
  then obtain r where r: "r < tg_size (se_graph env)" "r \<notin> completed_of s"
      "set (deps_at (se_graph env) r) \<subseteq> completed_of s"
    using dag.unfinished_has_ready [OF sinv_graph [OF inv] t] by blast
  note T = sinv_task [OF inv r(1), unfolded task_ok_def Let_def]
  have wf: "map_wf (sr_leases s)" using inv by (simp add: sinv_def)
  have "tk_phase (task_of s r) = ph_ready \<or> tk_phase (task_of s r) = ph_leased"
    using T r by (cases "tk_phase (task_of s r)") auto
  then show ?thesis
  proof
    assume "tk_phase (task_of s r) = ph_ready"
    then show ?thesis using T r(1) by auto
  next
    assume ph: "tk_phase (task_of s r) = ph_leased"
    then obtain i l where "map_of (sr_leases s) i = Some l" "lr_task l = r"
      using T by (auto simp: held_def)
    then show ?thesis using ph r(1) map_of_mem_iff [OF wf] by fastforce
  qed
qed

lemma sinv_leases_at_rest:
  assumes inv: "sinv env {} {} {} s"
  shows "leases_at_rest env s"
proof -
  have wf: "map_wf (sr_leases s)" and rs: "rs_inv (se_graph env) (sr_ready_set s)"
    using inv by (simp_all add: sinv_def)
  have exec: "er_active (executor_of s e) = length (filter (\<lambda>(i, l). lr_executor l = e) (sr_leases s))
        \<and> er_active (executor_of s e) \<le> ex_slots (se_executors env ! e)
        \<and> (er_quarantined (executor_of s e) \<longrightarrow> er_active (executor_of s e) = 0)"
    if "e < length (se_executors env)" for e
    using sinv_executor [OF inv that] load_length [OF wf, of e] by (auto simp: executor_ok_def)
  have lease: "lr_task l < tg_size (se_graph env) \<and> lr_executor l < length (se_executors env)
      \<and> ex_accepts (se_executors env ! lr_executor l) (spec_of env (lr_task l))
      \<and> (tk_phase (task_of s (lr_task l)) = ph_leased
           \<longrightarrow> (\<forall>d \<in> set (deps_at (se_graph env) (lr_task l)). tk_phase (task_of s d) = ph_committed))
      \<and> length (filter (\<lambda>(i', l'). lr_task l' = lr_task l) (sr_leases s)) \<le> 2
      \<and> (\<forall>(i', l') \<in> set (sr_leases s). lr_task l' = lr_task l \<and> lr_executor l' = lr_executor l \<longrightarrow> i' = i)"
    if "(i, l) \<in> set (sr_leases s)" for i l
  proof -
    have l: "map_of (sr_leases s) i = Some l" using that wf by (simp add: map_of_mem_iff)
    note L = sinv_lease [OF inv l, unfolded lease_ok_def]
    have t: "lr_task l < tg_size (se_graph env)" using L by blast
    note T = sinv_task [OF inv t, unfolded task_ok_def Let_def]
    have "tk_phase (task_of s d) = ph_committed" if "d \<in> completed_of s" for d
      using sinv_task [OF inv, of d] that rs_completed_subset [OF rs]
      by (auto simp: task_ok_def Let_def completed_of_def)
    then have "\<forall>d \<in> set (deps_at (se_graph env) (lr_task l)). tk_phase (task_of s d) = ph_committed"
      if "tk_phase (task_of s (lr_task l)) = ph_leased"
      using T that by blast
    then show ?thesis using L T held_length [OF wf] map_of_mem_iff [OF wf] by auto
  qed
  show ?thesis
  proof (unfold leases_at_rest_def, intro conjI, goal_cases)
    case 1
    show ?case using exec by blast
  next
    case 2
    show ?case by (intro ballI, simp only: split_paired_all prod.case, rule lease)
  next
    case 3
    show ?case using unfinished_open [OF inv] by blast
  qed
qed

text \<open>C3: Leases at rest. Whenever a run waits for its next events: an executor's active count is
  the number of its leases and at most its slots; a quarantined executor holds none; every lease
  is of a task its executor accepts, whose dependencies are all committed; a task has at most two
  leases, on different executors; and while tasks remain uncommitted one of them is queued or
  leased, so the run is never stuck on its own.\<close>

theorem scheduler_waiting_state:
  assumes "task_graph lib nodes = Inr (se_graph env)"
    and "scheduler_execute env sink resumed rounds = Inr (False, s)"
  shows "leases_at_rest env s"
proof -
  obtain s' where stop: "stop_inv env sink (result_ids resumed) False s'" and s: "s = s'"
    by (rule scheduler_execute_Inr [OF assms]) simp
  then have "sinv env {} {} {} s" by (simp add: stop_inv_def loop_invD)
  then show ?thesis by (rule sinv_leases_at_rest)
qed

end
