(* ===== verification/SchedulerExamples.thy ===== *)
theory SchedulerExamples
  imports SchedulerProps
begin

text \<open>
  Concrete runs of the scheduler: the runs at which the properties of every run are witnessed,
  and two runs in which the code departs from what it means to do.
\<close>

subsection \<open>Runs of the two-task chain\<close>

definition chain_env :: "(string, string memory_sink) sched_env" where
  "chain_env = sample_env (\<lambda>k. int k) chain_nodes [sample_executor ''x'' 1] default_scheduler_policy"

definition chain_rounds :: "(bool \<times> string inbox_event list) list" where
  "chain_rounds = [(False, [FinishedEvent ''lease_1'' (sample_output ''a'' 1)]),
     (False, [FinishedEvent ''lease_2'' (sample_output ''b'' 1)]), (False, [])]"

lemma chain_env_graph: "task_graph sample_lib chain_nodes = Inr (se_graph chain_env)"
  by (simp add: chain_env_def sample_env_def chain_graph)

definition outcome_status :: "exec_fault + bool \<times> ('j, 's) sched \<Rightarrow> (bool \<times> build_status) option" where
  "outcome_status r = (case r of Inl _ \<Rightarrow> None | Inr (left, s) \<Rightarrow> Some (left, bo_status (sr_outcome s)))"

lemma outcome_statusE:
  assumes "outcome_status r = Some (left, status)"
  obtains s where "r = Inr (left, s)" "bo_status (sr_outcome s) = status"
  using assms by (auto simp: outcome_status_def split: sum.splits prod.splits)

lemma chain_run_status:
  "outcome_status (scheduler_execute chain_env [] [] chain_rounds) = Some (True, build_succeeded)"
  by code_simp

lemma chain_run_waits:
  "outcome_status (scheduler_execute chain_env [] [] (take 1 chain_rounds)) = Some (False, build_failed)"
  by code_simp

definition run_after :: "exec_fault + bool \<times> ('j, 's) sched \<Rightarrow> ('j, 's) sched" where
  "run_after r = (case r of Inr (_, s) \<Rightarrow> s | Inl _ \<Rightarrow> undefined)"

lemma chain_run:
  "scheduler_execute chain_env [] [] chain_rounds
     = Inr (True, run_after (scheduler_execute chain_env [] [] chain_rounds))"
  using chain_run_status by (auto simp: run_after_def elim: outcome_statusE)

lemma chain_run_succeeds:
  "bo_status (sr_outcome (run_after (scheduler_execute chain_env [] [] chain_rounds))) = build_succeeded"
  using chain_run_status by (auto simp: run_after_def elim: outcome_statusE)


theorem scheduler_success_is_complete_witness:
  "set (commit_ids (sr_trace (run_after (scheduler_execute chain_env [] [] chain_rounds)))) = {''a'', ''b''}"
  using scheduler_success_is_complete [OF chain_env_graph chain_run chain_run_succeeds]
  by (auto simp: result_ids_def chain_nodes_def sample_node_def sample_spec_def)

theorem scheduler_assigns_after_dependencies_witness:
  "deps_first {} (sr_trace (run_after (scheduler_execute chain_env [] [] chain_rounds)))"
  using scheduler_assigns_after_dependencies [OF chain_env_graph chain_run] by (simp add: result_ids_def)

theorem scheduler_numbers_attempts_witness:
  "\<exists>n. List.map (\<lambda>(e, spec, l). le_lease_id l)
      (assigns_of (sr_trace (run_after (scheduler_execute chain_env [] [] chain_rounds))))
    = List.map lease_name [1..<Suc n]"
  using scheduler_numbers_attempts [OF chain_env_graph chain_run] by blast

theorem scheduler_waiting_state_witness:
  "leases_at_rest chain_env (run_after (scheduler_execute chain_env [] [] (take 1 chain_rounds)))"
proof -
  obtain s where s: "scheduler_execute chain_env [] [] (take 1 chain_rounds) = Inr (False, s)"
    using chain_run_waits by (rule outcome_statusE)
  then show ?thesis using scheduler_waiting_state [OF chain_env_graph s] by (simp only: run_after_def s sum.case prod.case)
qed


subsection \<open>Two departures\<close>




definition limit_env :: "(string, string memory_sink) sched_env" where
  "limit_env = sample_env (\<lambda>k. int k) single_nodes [sample_executor ''x'' 1, sample_executor ''y'' 1]
     (default_scheduler_policy\<lparr>sp_speculative_duplicates := True,
        sp_retry := default_retry_policy\<lparr>max_attempts := 1\<rparr>\<rparr>)"

text \<open>The retry limit is not checked when the last running attempt is declined. A task with
  \<open>max_attempts\<close> 1 fails on one executor while its duplicate is out on another; the other
  executor then declines the duplicate. No attempt of the task is running and its failed attempts
  have reached the limit, but the build goes on with the task queued for another attempt.\<close>

theorem declined_duplicate_outlives_limit:
  "case scheduler_execute limit_env [] [] [(False, [FailedEvent ''lease_1'' executor_lost]),
       (False, [RejectedEvent ''lease_2''])] of
     Inl _ \<Rightarrow> False
   | Inr (left, s) \<Rightarrow> \<not> left \<and> bo_failure (sr_outcome s) = None \<and> sr_leases s = []
       \<and> tk_phase (task_of s 0) = ph_ready \<and> sr_ready_queue s = [0]
       \<and> tk_failed_attempts (task_of s 0)
           = unat (max_attempts_for (se_policy limit_env) (ts_task_type (spec_of limit_env 0)))"
  by code_simp

end
