(* ===== verification/CoreProps.thy ===== *)
theory CoreProps
  imports Samples
begin

text \<open>
  What the components under the scheduler promise: digests, the task graph, the policies, the
  checks of a result, the in-memory sink and the reduction in canonical order.
\<close>

subsection \<open>Digests\<close>

text \<open>Digest texts. \<open>parse_blake3_hex\<close> and \<open>parse_blake3_prefixed\<close> accept exactly the texts
  \<open>blake3_hex\<close> and \<open>blake3_prefixed\<close> print, and return the digest that was printed; upper case,
  a wrong length and a missing prefix are refused.\<close>

theorem digest_text_roundtrip:
  "(parse_blake3_hex text = Some d \<longleftrightarrow> is_digest d \<and> blake3_hex d = text)
   \<and> (parse_blake3_prefixed text = Some d \<longleftrightarrow> is_digest d \<and> blake3_prefixed d = text)"
  using parse_blake3_hex_Some parse_blake3_prefixed_Some by auto

subsection \<open>Task graph\<close>

lemma task_graph_Inr_valid:
  assumes "task_graph lib nodes = Inr g"
  shows "valid_nodes lib nodes"
proof -
  note W = task_graph_wf [OF assms]
  have v: "validate_node_identities lib nodes = None"
    by (rule task_graph_Inr_parts [OF assms])
  have deps: "set (ts_depends_on (tn_spec node)) \<subseteq> node_id ` set nodes" if "node \<in> set nodes" for node
    using W that unfolding wf_graph_def tg_size_def by (metis in_set_conv_nth)
  show ?thesis
    using v deps wf_graph_ids [OF W(1)] W(2)
    by (simp add: valid_nodes_def validate_node_identities_def validate_nodes_from_None)
qed

text \<open>C13: Exactly the acyclic graphs. The constructor returns a graph if and only if the nodes are
  valid (each specification validates and belongs to the first one's session, order keys and task
  ids are distinct, every dependency names a node) and the dependency relation has no cycle. For
  valid nodes with a cycle it raises \<open>dependency_cycle\<close> naming a task on or behind a cycle.\<close>

theorem task_graph_accepts_acyclic:
  "((\<exists>g. task_graph lib nodes = Inr g) \<longleftrightarrow> valid_nodes lib nodes \<and> acyclic (id_edges nodes))
   \<and> (if valid_nodes lib nodes \<and> \<not> acyclic (id_edges nodes)
      then \<exists>stuck cyclic. task_graph lib nodes = Inl (TaskGraphError dependency_cycle stuck)
        \<and> (cyclic, cyclic) \<in> (id_edges nodes)\<^sup>+ \<and> (cyclic, stuck) \<in> (id_edges nodes)\<^sup>* else True)"
proof (cases "valid_nodes lib nodes")
  case True
  then show ?thesis using task_graph_decides [OF True] by (cases "acyclic (id_edges nodes)") auto
next
  case False
  then show ?thesis using task_graph_Inr_valid [of lib nodes] by auto
qed

text \<open>C14: Critical paths. In a constructed graph \<open>critical_path_seconds(i)\<close> is the largest total
  estimate of a chain of dependent tasks starting at task i, capped at the largest 64-bit value:
  no chain exceeds it and some chain attains it.\<close>

theorem critical_path_is_longest_chain:
  assumes "task_graph lib nodes = Inr g" and "i < length nodes"
  shows "(\<forall>rest. is_chain (tg_dependents g) (i # rest) \<longrightarrow>
        min (2 ^ 64 - 1) (chain_seconds nodes (i # rest)) \<le> unat (tg_critical_path_seconds g ! i))
    \<and> (\<exists>rest. is_chain (tg_dependents g) (i # rest) \<and>
        unat (tg_critical_path_seconds g ! i) = min (2 ^ 64 - 1) (chain_seconds nodes (i # rest)))"
  using critical_path_longest_chain [of g i] task_graph_wf [OF assms(1)] assms(2) by (simp add: tg_size_def)

theorem critical_path_is_longest_chain_witness:
  "min (2 ^ 64 - 1) (chain_seconds chain_nodes [0, 1]) \<le> unat (tg_critical_path_seconds (built chain_nodes) ! 0)"
proof -
  have "0 < length chain_nodes" by (simp add: chain_nodes_def)
  moreover have "is_chain (tg_dependents (built chain_nodes)) [0, 1]" by code_simp
  ultimately show ?thesis using critical_path_is_longest_chain [OF chain_graph, of 0] by blast
qed

text \<open>The graph's tables. In a constructed graph \<open>find\<close> inverts the task ids, the dependents of
  a task are exactly the tasks that depend on it, \<open>dependencies\<close> lists the tasks named by
  \<open>depends_on\<close>, and no order key or id repeats.\<close>

theorem task_graph_tables:
  assumes "task_graph lib nodes = Inr g"
  shows "tg_size g = length nodes
    \<and> (\<forall>x k. tg_find g x = Some k \<longleftrightarrow> k < length nodes \<and> node_id (nodes ! k) = x)
    \<and> (\<forall>i < length nodes. \<forall>j < length nodes. i \<in> set (dependents_at g j) \<longleftrightarrow> j \<in> set (deps_at g i))
    \<and> (\<forall>i < length nodes. List.map (\<lambda>j. node_id (nodes ! j)) (deps_at g i) = ts_depends_on (tn_spec (nodes ! i)))
    \<and> distinct (List.map tn_order_key nodes)"
proof -
  note W = task_graph_wf [OF assms]
  have size: "tg_size g = length nodes" using W(2) by (simp add: tg_size_def)
  have names: "List.map (\<lambda>j. node_id (nodes ! j)) (deps_at g i) = ts_depends_on (tn_spec (nodes ! i))"
    if i: "i < length nodes" for i
  proof -
    have deps: "tg_dependencies g ! i = List.map (\<lambda>x. the (tg_index_by_id g x)) (ts_depends_on (tn_spec (nodes ! i)))"
      and ids: "set (ts_depends_on (tn_spec (nodes ! i))) \<subseteq> node_id ` set nodes"
      using W i size unfolding wf_graph_def by auto
    have "node_id (nodes ! the (tg_index_by_id g x)) = x" if "x \<in> set (ts_depends_on (tn_spec (nodes ! i)))" for x
    proof -
      have "x \<in> node_id ` set nodes" using ids that by blast
      then obtain k where "k < tg_size g" "node_id (tg_nodes g ! k) = x"
        using W(2) size by (auto simp: in_set_conv_nth)
      then have "tg_index_by_id g x = Some k" using wf_graph_find [OF W(1)] by (simp add: tg_find_def)
      then show ?thesis using wf_graph_find [OF W(1), of x k] W(2) by (simp add: tg_find_def)
    qed
    then show ?thesis by (simp add: deps_at_def deps map_idI)
  qed
  show ?thesis
    using size wf_graph_find [OF W(1)] dag.dependents_ok [OF W(1)] names wf_graph_keys [OF W(1)] W(2)
    by (intro conjI) (simp, simp, auto)
qed

theorem task_graph_tables_witness:
  "tg_find (built chain_nodes) ''b'' = Some 1"
proof -
  have "1 < length chain_nodes \<and> node_id (chain_nodes ! 1) = ''b''"
    by (simp add: chain_nodes_def sample_node_def sample_spec_def)
  then show ?thesis using task_graph_tables [OF chain_graph] by blast
qed

subsection \<open>Policies\<close>

text \<open>Lease lengths. For a validated policy with its floors in the range of the clock's type, a
  lease lasts the larger of the floor and factor times estimate in milliseconds, capped at the
  largest 64-bit value, the hard deadline is computed the same way from its own floor and factor,
  neither computation wraps, and the deadline is never shorter than the lease.\<close>

theorem lease_lengths:
  assumes "validate_lease_policy policy = None" and "in_int64 (attempt_deadline_floor policy)"
  shows "lease_duration policy est
        = max (lease_floor policy) (min (2 ^ 63 - 1) (1000 * uint (lease_factor policy) * uint est))
    \<and> attempt_deadline policy est
        = max (attempt_deadline_floor policy)
            (min (2 ^ 63 - 1) (1000 * uint (attempt_deadline_factor policy) * uint est))
    \<and> 3 * heartbeat_interval policy < lease_duration policy est
    \<and> lease_duration policy est \<le> attempt_deadline policy est
    \<and> in_int64 (attempt_deadline policy est)"
proof -
  note V = validate_lease_policy_facts [OF assms(1)]
  have floors: "0 < lease_floor policy" "lease_floor policy < 2 ^ 63" "0 < attempt_deadline_floor policy"
    "attempt_deadline_floor policy < 2 ^ 63"
    using V assms(2) by (auto simp: in_int64_def)
  have "attempt_deadline_factor policy \<noteq> 0"
    using V(4,5) by (metis word_le_0_iff)
  then have a: "attempt_deadline policy est = max (attempt_deadline_floor policy)
            (min (2 ^ 63 - 1) (1000 * uint (attempt_deadline_factor policy) * uint est))"
    unfolding attempt_deadline_def by (rule scaled_with_floor_eq [OF floors(3,4)])
  have l: "lease_duration policy est = max (lease_floor policy)
            (min (2 ^ 63 - 1) (1000 * uint (lease_factor policy) * uint est))"
    unfolding lease_duration_def by (rule scaled_with_floor_eq [OF floors(1,2) V(4)])
  have "uint (lease_factor policy) \<le> uint (attempt_deadline_factor policy)"
    using V(5) by (simp add: word_le_def)
  then have "1000 * uint (lease_factor policy) * uint est \<le> 1000 * uint (attempt_deadline_factor policy) * uint est"
    by (intro mult_right_mono) simp_all
  then have "lease_duration policy est \<le> attempt_deadline policy est"
    unfolding a l using V(3) by (intro max.mono min.mono) simp_all
  moreover have "in_int64 (attempt_deadline policy est)"
  proof -
    have "min (2 ^ 63 - 1) (1000 * uint (attempt_deadline_factor policy) * uint est) \<le> 2 ^ 63 - 1"
      by (rule min.cobounded1)
    then show ?thesis unfolding a in_int64_def using floors by linarith
  qed
  moreover have "3 * heartbeat_interval policy < lease_duration policy est"
    unfolding l using V(2) by (simp add: less_max_iff_disj)
  ultimately show ?thesis using a l by blast
qed

theorem lease_lengths_witness:
  "lease_duration default_lease_policy 100 = 200000"
proof -
  have ok: "validate_lease_policy default_lease_policy = None" "in_int64 (attempt_deadline_floor default_lease_policy)"
    by (simp_all add: validate_lease_policy_def default_lease_policy_def kMinHeartbeatsPerLeaseFloor_def in_int64_def)
  show ?thesis using lease_lengths [OF ok, of 100] by (simp add: default_lease_policy_def)
qed

text \<open>A deadline can leave the clock's range. The length of a deadline saturates, but the
  addition of the grant time to it does not: for an estimate of 2^60 seconds, under the default
  policy, any positive clock reading plus the deadline exceeds what 64-bit milliseconds hold.\<close>

theorem deadline_sum_overflows:
  "validate_scheduler_policy default_scheduler_policy = None
   \<and> 0 < now \<Longrightarrow> \<not> in_int64 (now + attempt_deadline (lease_policy_for default_scheduler_policy task_type) (2 ^ 60))"
proof -
  assume now: "validate_scheduler_policy default_scheduler_policy = None \<and> 0 < now"
  have ok: "validate_lease_policy default_lease_policy = None"
    by (simp add: validate_lease_policy_def default_lease_policy_def kMinHeartbeatsPerLeaseFloor_def)
  have "attempt_deadline default_lease_policy (2 ^ 60) = 2 ^ 63 - 1"
    unfolding attempt_deadline_def
    by (subst scaled_with_floor_eq) (simp_all add: default_lease_policy_def)
  then show ?thesis
    using now by (simp add: lease_policy_for_def default_scheduler_policy_def in_int64_def)
qed

theorem deadline_sum_overflows_witness:
  "\<not> in_int64 (1 + attempt_deadline (lease_policy_for default_scheduler_policy ''t'') (2 ^ 60))"
proof -
  have "validate_scheduler_policy default_scheduler_policy = None"
    by (simp add: validate_scheduler_policy_def default_scheduler_policy_def validate_lease_policy_def
        default_lease_policy_def kMinHeartbeatsPerLeaseFloor_def validate_retry_policy_def default_retry_policy_def)
  then show ?thesis using deadline_sum_overflows [of 1] by simp
qed

subsection \<open>Results\<close>

text \<open>What a commit checks. \<open>find_result_defect\<close> finds no defect exactly when the record
  validates, names the task and attempt of the lease, and carries one payload per output whose
  length and BLAKE3 are the declared ones, in order; the validated record's output digest then is
  the digest of its outputs and its error is present exactly on failure.\<close>

theorem result_defects:
  "(find_result_defect lib spec attempt result payloads = None \<longleftrightarrow>
     validate_task_result lib result = None \<and> tr_task_id result = ts_task_id spec
     \<and> tr_attempt result = attempt
     \<and> list_all2 (\<lambda>ref payload. length payload = unat (ar_bytes ref)
         \<and> blake3_digest lib payload = ar_blake3 ref) (tr_outputs result) payloads)
   \<and> (if find_result_defect lib spec attempt result payloads = None
      then compute_output_digest lib (tr_outputs result) = Inr (tr_output_digest result)
        \<and> (tr_error result = None \<longleftrightarrow> tr_status result = task_succeeded) else True)"
  using find_result_defect_None [of lib spec attempt result payloads]
    validate_task_result_digest [of lib result] validate_task_result_status [of lib result] by auto

text \<open>The order of arrival leaves no trace. Whatever order the committed results are given in,
  \<open>results_in_canonical_order\<close> returns the same list or the same error; when it returns a list, it
  holds one result for each task of the lane and no other, in ascending order of the order keys.\<close>

theorem canonical_order_is_deterministic:
  assumes "task_graph lib nodes = Inr g" and "mset results = mset results'"
  shows "results_in_canonical_order g ln results = results_in_canonical_order g ln results'
    \<and> (case results_in_canonical_order g ln results of
         Inl code \<Rightarrow> code = invalid_value
       | Inr out \<Rightarrow> set out \<subseteq> set results
           \<and> List.map (result_index g) out = List.map Some
               (sort_key (order_key_at g) (filter (\<lambda>i. lane (order_key_at g i) = ln) [0..<length nodes])))"
proof -
  note W = task_graph_wf [OF assms(1)]
  have size: "tg_size g = length nodes" using W(2) by (simp add: tg_size_def)
  have "place_results g (replicate (tg_size g) None) results = place_results g (replicate (tg_size g) None) results'"
    by (rule place_results_perm [OF W(1) _ assms(2)]) simp
  then have same: "results_in_canonical_order g ln results = results_in_canonical_order g ln results'"
    by (simp add: results_in_canonical_order_def)
  have "code = invalid_value" if "results_in_canonical_order g ln results = Inl code" for code
    using that place_results_Inr [OF W(1), of "replicate (tg_size g) None" results]
    by (auto simp: results_in_canonical_order_def collect_lane_eq split: sum.splits if_splits)
  with same show ?thesis
    using results_in_canonical_order_Inr [OF W(1), of ln results] size by (auto split: sum.splits)
qed

theorem canonical_order_is_deterministic_witness:
  "results_in_canonical_order (built chain_nodes) ''v'' [sample_committed ''b'' 1, sample_committed ''a'' 1]
     = Inr [sample_committed ''a'' 1, sample_committed ''b'' 1]"
proof -
  have "mset [sample_committed ''b'' 1, sample_committed ''a'' 1]
      = mset [sample_committed ''a'' 1, sample_committed ''b'' 1]" by simp
  note D = canonical_order_is_deterministic [OF chain_graph this, of "''v''"]
  have "results_in_canonical_order (built chain_nodes) ''v'' [sample_committed ''a'' 1, sample_committed ''b'' 1]
      = Inr [sample_committed ''a'' 1, sample_committed ''b'' 1]" by code_simp
  with D show ?thesis by simp
qed

end
