(* ===== verification/Json.thy ===== *)
theory Json
  imports Records OrderedMaps
begin

text \<open>
  JSON values and the readers of packages/svp-exec/src/json_fields.cpp and canonical_json.cpp.

  A value of \<open>nlohmann::json\<close> is one of its documented types: an object is a \<open>std::map\<close> (its
  entries in key order), a double is its 64 bits. Its \<open>dump\<close> and \<open>parse\<close> and the hash function
  are linked libraries: the record \<open>json_codec\<close>, an argument of what uses them.
\<close>

subsection \<open>Values\<close>

datatype json =
    JNull
  | JBool bool
  | JInteger int
  | JUnsigned u64
  | JFloat u64
  | JString string
  | JArray "json list"
  | JObject "(string \<times> json) list"
  | JBinary "byte list"
  | JDiscarded

record json_codec =
  jc_dump :: "json \<Rightarrow> string option"
  jc_parse :: "string \<Rightarrow> json option"
  jc_blake3 :: "byte list \<Rightarrow> digest"

text \<open>An object built from an initializer list, and assignment through \<open>operator[]\<close>.\<close>

definition json_object :: "(string \<times> json) list \<Rightarrow> json" where
  "json_object members = JObject (fold (\<lambda>(name, v). map_emplace name v) members [])"

definition json_assign :: "string \<Rightarrow> json \<Rightarrow> json \<Rightarrow> json" where
  "json_assign name v value =
     (case value of JObject members \<Rightarrow> JObject (map_modify name (\<lambda>_. v) (map_emplace name v members))
      | other \<Rightarrow> other)"

fun is_object :: "json \<Rightarrow> bool" where
  "is_object (JObject _) = True"
| "is_object _ = False"

fun json_fields :: "json \<Rightarrow> (string \<times> json) list" where
  "json_fields (JObject members) = members"
| "json_fields _ = []"

definition double_is_finite :: "u64 \<Rightarrow> bool" where
  "double_is_finite bits \<longleftrightarrow> drop_bit 52 bits AND 0x7FF \<noteq> 0x7FF"

lemma map_emplace_above: "\<forall>k' \<in> fst ` set m. k' < k \<Longrightarrow> map_emplace k v m = m @ [(k, v)]"
  by (induction m) (auto dest: less_asym)

lemma fold_emplace_sorted:
  "map_wf (acc @ members) \<Longrightarrow> fold (\<lambda>(name, v). map_emplace name v) members acc = acc @ members"
proof (induction members arbitrary: acc)
  case (Cons f members)
  obtain k v where f: "f = (k, v)" by fastforce
  have "map_emplace k v acc = acc @ [(k, v)]"
    using Cons.prems f by (intro map_emplace_above) (auto simp: map_wf_def sorted_wrt_append)
  then show ?case using Cons.IH [of "acc @ [f]"] Cons.prems f by simp
qed simp

lemma json_object_sorted: "map_wf members \<Longrightarrow> json_object members = JObject members"
  using fold_emplace_sorted [of "[]" members] by (simp add: json_object_def)

lemma json_object_wf: "\<exists>members'. json_object members = JObject members' \<and> map_wf members'"
  using sm.dom_emplace_all [of "[]" members] by (simp add: json_object_def)

text \<open>A sorted map is determined by its keys and what they map to.\<close>

lemma map_wf_eq_map:
  assumes "map_wf m" and "sorted_wrt (<) ks" and "fst ` set m = set ks"
  shows "m = List.map (\<lambda>k. (k, the (map_of m k))) ks"
proof -
  have keys: "List.map fst m = ks"
    using assms strict_sorted_iff [of "List.map fst m"] strict_sorted_iff [of ks]
    by (intro sorted_distinct_set_unique) (auto simp: map_wf_def)
  have "the (map_of m (fst p)) = snd p" if "p \<in> set m" for p
    using map_of_mem_iff [OF assms(1), of "fst p" "snd p"] that by simp
  then have "List.map (\<lambda>k. (k, the (map_of m k))) (List.map fst m) = m"
    by (simp add: map_idI)
  then show ?thesis using keys by simp
qed

subsection \<open>Field readers (json_fields.cpp)\<close>

definition require_object :: "json \<Rightarrow> exec_error_code option" where
  "require_object value = guard_error (\<not> is_object value) wrong_type"

definition reject_unknown_fields :: "string list \<Rightarrow> json \<Rightarrow> exec_error_code option" where
  "reject_unknown_fields allowed value =
     guard_error (\<exists>name \<in> fst ` set (json_fields value). name \<notin> set allowed) unknown_field"

definition required_field :: "json \<Rightarrow> string \<Rightarrow> exec_error_code + json" where
  "required_field value name =
     (case map_of (json_fields value) name of None \<Rightarrow> Inl missing_field | Some v \<Rightarrow> Inr v)"

definition required_string :: "json \<Rightarrow> string \<Rightarrow> exec_error_code + string" where
  "required_string value name = and_then (required_field value name)
     (\<lambda>v. case v of JString s \<Rightarrow> Inr s | _ \<Rightarrow> Inl wrong_type)"

definition required_unsigned :: "json \<Rightarrow> string \<Rightarrow> exec_error_code + u64" where
  "required_unsigned value name = and_then (required_field value name)
     (\<lambda>v. case v of JUnsigned n \<Rightarrow> Inr n
        | JInteger i \<Rightarrow> if i \<ge> 0 then Inr (word_of_int i) else Inl wrong_type
        | _ \<Rightarrow> Inl wrong_type)"

definition required_bool :: "json \<Rightarrow> string \<Rightarrow> exec_error_code + bool" where
  "required_bool value name = and_then (required_field value name)
     (\<lambda>v. case v of JBool b \<Rightarrow> Inr b | _ \<Rightarrow> Inl wrong_type)"

definition required_object :: "json \<Rightarrow> string \<Rightarrow> exec_error_code + json" where
  "required_object value name = and_then (required_field value name)
     (\<lambda>v. checked (require_object v) v)"

definition required_array :: "json \<Rightarrow> string \<Rightarrow> exec_error_code + json list" where
  "required_array value name = and_then (required_field value name)
     (\<lambda>v. case v of JArray vs \<Rightarrow> Inr vs | _ \<Rightarrow> Inl wrong_type)"

definition required_blake3_hex :: "json \<Rightarrow> string \<Rightarrow> exec_error_code + digest" where
  "required_blake3_hex value name = and_then (required_string value name)
     (\<lambda>text. case parse_blake3_hex text of None \<Rightarrow> Inl invalid_digest | Some d \<Rightarrow> Inr d)"

definition required_blake3_prefixed :: "json \<Rightarrow> string \<Rightarrow> exec_error_code + digest" where
  "required_blake3_prefixed value name = and_then (required_string value name)
     (\<lambda>text. case parse_blake3_prefixed text of None \<Rightarrow> Inl invalid_digest | Some d \<Rightarrow> Inr d)"

named_theorems field_readers

lemmas field_reader_defs [field_readers] =
  required_string_def required_unsigned_def required_bool_def required_object_def
  required_array_def required_blake3_hex_def required_blake3_prefixed_def require_object_def
  required_field_def

subsection \<open>Canonical JSON (canonical_json.cpp)\<close>

definition kMaxCanonicalJsonDepth :: nat where
  "kMaxCanonicalJsonDepth = 64"

fun require_encodable :: "nat \<Rightarrow> json \<Rightarrow> exec_error_code option" where
  "require_encodable depth (JObject members) =
     (if depth \<ge> kMaxCanonicalJsonDepth then Some invalid_value
      else first_error (List.map (\<lambda>entry. require_encodable (depth + 1) (snd entry)) members))"
| "require_encodable depth (JArray values) =
     (if depth \<ge> kMaxCanonicalJsonDepth then Some invalid_value
      else first_error (List.map (require_encodable (depth + 1)) values))"
| "require_encodable depth (JFloat bits) = guard_error (\<not> double_is_finite bits) non_finite_number"
| "require_encodable depth (JBinary _) = Some wrong_type"
| "require_encodable depth JDiscarded = Some wrong_type"
| "require_encodable depth _ = None"

text \<open>
  The scan of the text before it is parsed. A character's effect on (depth, in\_string, escaped);
  \<open>None\<close> is the throw.
\<close>

fun bounded_depth_step :: "nat \<times> bool \<times> bool \<Rightarrow> char \<Rightarrow> (nat \<times> bool \<times> bool) option" where
  "bounded_depth_step (depth, in_string, escaped) c =
     (if in_string then
        (if escaped then Some (depth, True, False)
         else if c = CHR 0x5C then Some (depth, True, True)
         else if c = CHR 0x22 then Some (depth, False, escaped)
         else Some (depth, True, escaped))
      else if c = CHR 0x22 then Some (depth, True, escaped)
      else if c = CHR ''{'' \<or> c = CHR ''['' then
        (if depth + 1 > kMaxCanonicalJsonDepth then None else Some (depth + 1, in_string, escaped))
      else if (c = CHR ''}'' \<or> c = CHR '']'') \<and> depth > 0 then Some (depth - 1, in_string, escaped)
      else Some (depth, in_string, escaped))"

fun bounded_depth_scan :: "nat \<times> bool \<times> bool \<Rightarrow> string \<Rightarrow> exec_error_code option" where
  "bounded_depth_scan st [] = None"
| "bounded_depth_scan st (c # cs) =
     (case bounded_depth_step st c of None \<Rightarrow> Some invalid_value | Some st' \<Rightarrow> bounded_depth_scan st' cs)"

definition require_bounded_depth :: "string \<Rightarrow> exec_error_code option" where
  "require_bounded_depth bytes = bounded_depth_scan (0, False, False) bytes"

definition encode_canonical_json :: "json_codec \<Rightarrow> json \<Rightarrow> exec_error_code + string" where
  "encode_canonical_json codec value =
     (case require_encodable 0 value of
        Some e \<Rightarrow> Inl e
      | None \<Rightarrow> (case jc_dump codec value of None \<Rightarrow> Inl invalid_json | Some text \<Rightarrow> Inr text))"

definition decode_canonical_json :: "json_codec \<Rightarrow> string \<Rightarrow> exec_error_code + json" where
  "decode_canonical_json codec bytes =
     (case require_bounded_depth bytes of
        Some e \<Rightarrow> Inl e
      | None \<Rightarrow>
     (case jc_parse codec bytes of
        None \<Rightarrow> Inl invalid_json
      | Some value \<Rightarrow> and_then (encode_canonical_json codec value)
          (\<lambda>text. if text \<noteq> bytes then Inl non_canonical_json else Inr value)))"

text \<open>What a decoded document guarantees: it is the canonical text of its value.\<close>

lemma decode_canonical_json_Inr:
  "decode_canonical_json codec bytes = Inr value \<longleftrightarrow>
     require_bounded_depth bytes = None \<and> jc_parse codec bytes = Some value
     \<and> encode_canonical_json codec value = Inr bytes"
  by (auto simp: decode_canonical_json_def and_then_Inr_iff split: option.splits if_splits)

subsection \<open>Nesting\<close>

text \<open>How deep the containers of a value nest, and that the two checks agree on the bound.\<close>

fun json_depth :: "json \<Rightarrow> nat" where
  "json_depth (JObject members) = Suc (Max (insert 0 (json_depth ` snd ` set members)))"
| "json_depth (JArray vs) = Suc (Max (insert 0 (json_depth ` set vs)))"
| "json_depth _ = 0"

lemma require_encodable_depth:
  "require_encodable depth v = None \<Longrightarrow> depth \<le> kMaxCanonicalJsonDepth \<Longrightarrow>
     depth + json_depth v \<le> kMaxCanonicalJsonDepth"
proof (induction depth v rule: require_encodable.induct)
  case (1 depth members)
  have "Suc depth + json_depth v \<le> kMaxCanonicalJsonDepth" if "v \<in> snd ` set members" for v
    using 1 that by (auto split: if_splits)
  then have "\<forall>n \<in> insert 0 (json_depth ` snd ` set members). n \<le> kMaxCanonicalJsonDepth - Suc depth"
    by fastforce
  then have "Max (insert 0 (json_depth ` snd ` set members)) \<le> kMaxCanonicalJsonDepth - Suc depth"
    by (intro Max.boundedI) auto
  moreover have "depth < kMaxCanonicalJsonDepth" using 1(2) by (simp split: if_splits)
  ultimately show ?case unfolding json_depth.simps by linarith
next
  case (2 depth vs)
  have "Suc depth + json_depth v \<le> kMaxCanonicalJsonDepth" if "v \<in> set vs" for v
    using 2 that by (auto split: if_splits)
  then have "\<forall>n \<in> insert 0 (json_depth ` set vs). n \<le> kMaxCanonicalJsonDepth - Suc depth"
    by fastforce
  then have "Max (insert 0 (json_depth ` set vs)) \<le> kMaxCanonicalJsonDepth - Suc depth"
    by (intro Max.boundedI) auto
  moreover have "depth < kMaxCanonicalJsonDepth" using 2(2) by (simp split: if_splits)
  ultimately show ?case unfolding json_depth.simps by linarith
qed simp_all

end
