(* ===== verification/TaskJson.thy ===== *)
theory TaskJson
  imports Json
begin

text \<open>
  The JSON forms of the records (artifact_ref.cpp, task_spec.cpp, task_execution.cpp,
  task_result.cpp): writers, strict readers, and their round trips. A writer validates before it
  writes; a reader refuses unknown fields, reads the fields in source order and validates last.
\<close>

definition json_exec_lib :: "json_codec \<Rightarrow> json exec_lib" where
  "json_exec_lib codec =
     \<lparr>js_object = json_object, js_array = JArray, js_string = JString, js_unsigned = JUnsigned,
      js_is_object = is_object, js_encode_canonical = encode_canonical_json codec,
      blake3_digest = jc_blake3 codec\<rparr>"

lemma json_exec_lib_simps [simp]:
  "js_object (json_exec_lib codec) = json_object" "js_array (json_exec_lib codec) = JArray"
  "js_string (json_exec_lib codec) = JString" "js_unsigned (json_exec_lib codec) = JUnsigned"
  "js_is_object (json_exec_lib codec) = is_object"
  "js_encode_canonical (json_exec_lib codec) = encode_canonical_json codec"
  "blake3_digest (json_exec_lib codec) = jc_blake3 codec"
  by (simp_all add: json_exec_lib_def)

subsection \<open>Artifact references\<close>

definition artifact_ref_from_json_at :: "json \<Rightarrow> exec_error_code + artifact_ref" where
  "artifact_ref_from_json_at v =
     and_then (checked (require_object v) ()) (\<lambda>_.
     and_then (checked (reject_unknown_fields [''blake3'', ''bytes'', ''media_type'', ''role''] v) ()) (\<lambda>_.
     and_then (required_blake3_hex v ''blake3'') (\<lambda>blake3.
     and_then (required_unsigned v ''bytes'') (\<lambda>size.
     and_then (required_string v ''media_type'') (\<lambda>media_type.
     and_then (required_string v ''role'') (\<lambda>role.
       let r = \<lparr>ar_blake3 = blake3, ar_bytes = size, ar_media_type = media_type, ar_role = role\<rparr>
       in checked (validate_artifact_ref r) r))))))"

subsection \<open>Task specifications\<close>

definition kTaskSpecSchema :: string where
  "kTaskSpecSchema = ''svp-task-spec-v1''"

definition model_ref_to_json :: "task_model_ref \<Rightarrow> json" where
  "model_ref_to_json r = json_object
     [(''bundle_blake3'', JString (blake3_hex (mr_bundle_blake3 r))),
      (''model_bundle_id'', JString (mr_model_bundle_id r)),
      (''model_id'', JString (mr_model_id r))]"

definition model_ref_from_json :: "json \<Rightarrow> exec_error_code + task_model_ref" where
  "model_ref_from_json v =
     and_then (checked (require_object v) ()) (\<lambda>_.
     and_then (checked (reject_unknown_fields [''bundle_blake3'', ''model_bundle_id'', ''model_id''] v) ()) (\<lambda>_.
     and_then (required_string v ''model_id'') (\<lambda>model_id.
     and_then (required_string v ''model_bundle_id'') (\<lambda>model_bundle_id.
     and_then (required_blake3_hex v ''bundle_blake3'') (\<lambda>bundle_blake3.
       Inr \<lparr>mr_model_id = model_id, mr_model_bundle_id = model_bundle_id,
            mr_bundle_blake3 = bundle_blake3\<rparr>)))))"

definition resources_from_json :: "json \<Rightarrow> exec_error_code + task_resources" where
  "resources_from_json v =
     and_then (checked (reject_unknown_fields [''est_cpu_threads'', ''est_peak_rss_mb'', ''est_seconds''] v) ()) (\<lambda>_.
     and_then (required_unsigned v ''est_peak_rss_mb'') (\<lambda>peak.
     and_then (required_unsigned v ''est_cpu_threads'') (\<lambda>threads.
     and_then (required_unsigned v ''est_seconds'') (\<lambda>seconds.
       Inr \<lparr>est_peak_rss_mb = peak, est_cpu_threads = threads, est_seconds = seconds\<rparr>))))"

definition resources_to_json :: "task_resources \<Rightarrow> json" where
  "resources_to_json r = json_object
     [(''est_cpu_threads'', JUnsigned (est_cpu_threads r)),
      (''est_peak_rss_mb'', JUnsigned (est_peak_rss_mb r)),
      (''est_seconds'', JUnsigned (est_seconds r))]"

definition input_to_json ::
  "json_codec \<Rightarrow> string \<times> artifact_ref \<Rightarrow> exec_error_code + string \<times> json" where
  "input_to_json codec entry =
     and_then (artifact_ref_to_json (json_exec_lib codec) (snd entry)) (\<lambda>v. Inr (fst entry, v))"

definition input_from_json :: "string \<times> json \<Rightarrow> exec_error_code + string \<times> artifact_ref" where
  "input_from_json entry = and_then (artifact_ref_from_json_at (snd entry)) (\<lambda>r. Inr (fst entry, r))"

definition string_from_json :: "json \<Rightarrow> exec_error_code + string" where
  "string_from_json v = (case v of JString s \<Rightarrow> Inr s | _ \<Rightarrow> Inl wrong_type)"

definition task_spec_fields :: "string list" where
  "task_spec_fields =
     [''build_session_id'', ''cache_key'', ''depends_on'', ''inputs'', ''model_refs'', ''parameters'',
      ''parameters_blake3'', ''resources'', ''schema'', ''task_id'', ''task_type'', ''task_type_version'']"

definition task_spec_to_json :: "json_codec \<Rightarrow> json task_spec \<Rightarrow> exec_error_code + json" where
  "task_spec_to_json codec spec =
     and_then (checked (validate_task_spec (json_exec_lib codec) spec) ()) (\<lambda>_.
     and_then (each_or_error (input_to_json codec) (ts_inputs spec)) (\<lambda>inputs.
       Inr (json_object
         [(''build_session_id'', JString (ts_build_session_id spec)),
          (''cache_key'', JString (blake3_prefixed (ts_cache_key spec))),
          (''depends_on'', JArray (List.map JString (ts_depends_on spec))),
          (''inputs'', json_object inputs),
          (''model_refs'', JArray (List.map model_ref_to_json (ts_model_refs spec))),
          (''parameters'', ts_parameters spec),
          (''parameters_blake3'', JString (blake3_hex (ts_parameters_blake3 spec))),
          (''resources'', resources_to_json (ts_resources spec)),
          (''schema'', JString kTaskSpecSchema),
          (''task_id'', JString (ts_task_id spec)),
          (''task_type'', JString (ts_task_type spec)),
          (''task_type_version'', JUnsigned (ts_task_type_version spec))])))"

definition task_spec_from_json :: "json_codec \<Rightarrow> json \<Rightarrow> exec_error_code + json task_spec" where
  "task_spec_from_json codec v =
     and_then (checked (require_object v) ()) (\<lambda>_.
     and_then (checked (reject_unknown_fields task_spec_fields v) ()) (\<lambda>_.
     and_then (required_string v ''schema'') (\<lambda>schema.
     if schema \<noteq> kTaskSpecSchema then Inl invalid_value else
     and_then (required_string v ''build_session_id'') (\<lambda>build_session_id.
     and_then (required_string v ''task_id'') (\<lambda>task_id.
     and_then (required_string v ''task_type'') (\<lambda>task_type.
     and_then (required_unsigned v ''task_type_version'') (\<lambda>task_type_version.
     and_then (and_then (required_array v ''depends_on'') (each_or_error string_from_json)) (\<lambda>depends_on.
     and_then (and_then (required_array v ''model_refs'') (each_or_error model_ref_from_json)) (\<lambda>model_refs.
     and_then (and_then (required_object v ''inputs'')
       (\<lambda>inputs. each_or_error input_from_json (json_fields inputs))) (\<lambda>inputs.
     and_then (required_object v ''parameters'') (\<lambda>parameters.
     and_then (required_blake3_hex v ''parameters_blake3'') (\<lambda>parameters_blake3.
     and_then (required_blake3_prefixed v ''cache_key'') (\<lambda>cache_key.
     and_then (and_then (required_object v ''resources'') resources_from_json) (\<lambda>resources.
       let spec = \<lparr>ts_build_session_id = build_session_id, ts_task_id = task_id, ts_task_type = task_type,
                   ts_task_type_version = task_type_version, ts_depends_on = depends_on,
                   ts_model_refs = model_refs,
                   ts_inputs = fold (\<lambda>(name, r). map_emplace name r) inputs [],
                   ts_parameters = parameters, ts_parameters_blake3 = parameters_blake3,
                   ts_cache_key = cache_key, ts_resources = resources\<rparr>
       in checked (validate_task_spec (json_exec_lib codec) spec) spec))))))))))))))"

definition encode_task_spec :: "json_codec \<Rightarrow> json task_spec \<Rightarrow> exec_error_code + string" where
  "encode_task_spec codec spec = and_then (task_spec_to_json codec spec) (encode_canonical_json codec)"

definition decode_task_spec :: "json_codec \<Rightarrow> string \<Rightarrow> exec_error_code + json task_spec" where
  "decode_task_spec codec bytes = and_then (decode_canonical_json codec bytes) (task_spec_from_json codec)"

subsection \<open>Task results\<close>

definition kTaskResultSchema :: string where
  "kTaskResultSchema = ''svp-task-result-v1''"

fun task_status_name :: "task_status \<Rightarrow> string" where
  "task_status_name task_succeeded = ''succeeded''"
| "task_status_name task_failed = ''failed''"

definition parse_status :: "string \<Rightarrow> exec_error_code + task_status" where
  "parse_status name =
     (if name = task_status_name task_succeeded then Inr task_succeeded
      else if name = task_status_name task_failed then Inr task_failed
      else Inl invalid_value)"

definition error_to_json :: "task_error \<Rightarrow> json" where
  "error_to_json e = json_object
     [(''code'', JString (te_code e)), (''message'', JString (te_message e)),
      (''retryable'', JBool (te_retryable e))]"

definition error_from_json :: "json \<Rightarrow> exec_error_code + task_error" where
  "error_from_json v =
     and_then (checked (reject_unknown_fields [''code'', ''message'', ''retryable''] v) ()) (\<lambda>_.
     and_then (required_string v ''code'') (\<lambda>code.
     and_then (required_string v ''message'') (\<lambda>message.
     and_then (required_bool v ''retryable'') (\<lambda>retryable.
       Inr \<lparr>te_code = code, te_message = message, te_retryable = retryable\<rparr>))))"

definition task_execution_to_json :: "task_execution \<Rightarrow> exec_error_code + json" where
  "task_execution_to_json x =
     and_then (checked (validate_task_execution x) ()) (\<lambda>_.
       Inr (json_object
         [(''cpu_ms'', json_object
             [(''system'', JUnsigned (tc_system (tx_cpu_ms x))), (''user'', JUnsigned (tc_user (tx_cpu_ms x)))]),
          (''peak_rss_bytes'', JUnsigned (tx_peak_rss_bytes x)),
          (''runtime_id'', JString (blake3_prefixed (tx_runtime_id x))),
          (''timing_ms'', json_object
             [(''compute'', JUnsigned (tm_compute (tx_timing_ms x))),
              (''decode'', JUnsigned (tm_decode (tx_timing_ms x))),
              (''encode'', JUnsigned (tm_encode (tx_timing_ms x))),
              (''input_fetch'', JUnsigned (tm_input_fetch (tx_timing_ms x))),
              (''queue'', JUnsigned (tm_queue (tx_timing_ms x)))]),
          (''worker_session_id'', JString (tx_worker_session_id x))]))"

definition task_execution_from_json_at :: "json \<Rightarrow> exec_error_code + task_execution" where
  "task_execution_from_json_at v =
     and_then (checked (require_object v) ()) (\<lambda>_.
     and_then (checked (reject_unknown_fields
       [''cpu_ms'', ''peak_rss_bytes'', ''runtime_id'', ''timing_ms'', ''worker_session_id''] v) ()) (\<lambda>_.
     and_then (required_object v ''timing_ms'') (\<lambda>timing.
     and_then (checked (reject_unknown_fields
       [''compute'', ''decode'', ''encode'', ''input_fetch'', ''queue''] timing) ()) (\<lambda>_.
     and_then (required_object v ''cpu_ms'') (\<lambda>cpu.
     and_then (checked (reject_unknown_fields [''system'', ''user''] cpu) ()) (\<lambda>_.
     and_then (required_string v ''worker_session_id'') (\<lambda>worker_session_id.
     and_then (required_blake3_prefixed v ''runtime_id'') (\<lambda>runtime_id.
     and_then (required_unsigned timing ''queue'') (\<lambda>queue.
     and_then (required_unsigned timing ''input_fetch'') (\<lambda>input_fetch.
     and_then (required_unsigned timing ''decode'') (\<lambda>decode.
     and_then (required_unsigned timing ''compute'') (\<lambda>compute.
     and_then (required_unsigned timing ''encode'') (\<lambda>encode.
     and_then (required_unsigned cpu ''user'') (\<lambda>user.
     and_then (required_unsigned cpu ''system'') (\<lambda>system.
     and_then (required_unsigned v ''peak_rss_bytes'') (\<lambda>peak.
       let x = \<lparr>tx_worker_session_id = worker_session_id, tx_runtime_id = runtime_id,
                tx_timing_ms = \<lparr>tm_queue = queue, tm_input_fetch = input_fetch, tm_decode = decode,
                  tm_compute = compute, tm_encode = encode\<rparr>,
                tx_cpu_ms = \<lparr>tc_user = user, tc_system = system\<rparr>, tx_peak_rss_bytes = peak\<rparr>
       in checked (validate_task_execution x) x))))))))))))))))"

definition task_result_to_json :: "json_codec \<Rightarrow> json task_result \<Rightarrow> exec_error_code + json" where
  "task_result_to_json codec result =
     and_then (checked (validate_task_result (json_exec_lib codec) result) ()) (\<lambda>_.
     and_then (each_or_error (artifact_ref_to_json (json_exec_lib codec)) (tr_outputs result)) (\<lambda>outputs.
     and_then (task_execution_to_json (tr_execution result)) (\<lambda>execution.
       let v = json_object
         [(''attempt'', JUnsigned (of_nat (tr_attempt result))),
          (''diagnostics'', tr_diagnostics result),
          (''execution'', execution),
          (''output_digest'', JString (blake3_prefixed (tr_output_digest result))),
          (''outputs'', JArray outputs),
          (''schema'', JString kTaskResultSchema),
          (''status'', JString (task_status_name (tr_status result))),
          (''task_id'', JString (tr_task_id result))]
       in Inr (case tr_error result of None \<Rightarrow> v
               | Some e \<Rightarrow> json_assign ''error'' (error_to_json e) v))))"

text \<open>The member \<open>error\<close>, read when present.\<close>

definition error_member :: "json \<Rightarrow> exec_error_code + task_error option" where
  "error_member v =
     (if map_of (json_fields v) ''error'' \<noteq> None
      then and_then (and_then (required_object v ''error'') error_from_json) (\<lambda>e. Inr (Some e))
      else Inr None)"

definition task_result_from_json :: "json_codec \<Rightarrow> json \<Rightarrow> exec_error_code + json task_result" where
  "task_result_from_json codec v =
     and_then (checked (require_object v) ()) (\<lambda>_.
     and_then (checked (reject_unknown_fields
       [''attempt'', ''diagnostics'', ''error'', ''execution'', ''output_digest'', ''outputs'',
        ''schema'', ''status'', ''task_id''] v) ()) (\<lambda>_.
     and_then (required_string v ''schema'') (\<lambda>schema.
     if schema \<noteq> kTaskResultSchema then Inl invalid_value else
     and_then (required_string v ''task_id'') (\<lambda>task_id.
     and_then (required_unsigned v ''attempt'') (\<lambda>attempt.
     and_then (and_then (required_string v ''status'') parse_status) (\<lambda>status.
     and_then (and_then (required_array v ''outputs'') (each_or_error artifact_ref_from_json_at)) (\<lambda>outputs.
     and_then (required_blake3_prefixed v ''output_digest'') (\<lambda>output_digest.
     and_then (and_then (required_field v ''execution'') task_execution_from_json_at) (\<lambda>execution.
     and_then (required_object v ''diagnostics'') (\<lambda>diagnostics.
     and_then (error_member v) (\<lambda>error.
       let result = \<lparr>tr_task_id = task_id, tr_attempt = unat attempt, tr_status = status,
                     tr_outputs = outputs, tr_output_digest = output_digest, tr_execution = execution,
                     tr_diagnostics = diagnostics, tr_error = error\<rparr>
       in checked (validate_task_result (json_exec_lib codec) result) result)))))))))))"

definition encode_task_result :: "json_codec \<Rightarrow> json task_result \<Rightarrow> exec_error_code + string" where
  "encode_task_result codec result =
     and_then (task_result_to_json codec result) (encode_canonical_json codec)"

definition decode_task_result :: "json_codec \<Rightarrow> string \<Rightarrow> exec_error_code + json task_result" where
  "decode_task_result codec bytes =
     and_then (decode_canonical_json codec bytes) (task_result_from_json codec)"

end
