(* ===== verification/Frames.thy ===== *)
theory Frames
  imports TaskJson
begin

text \<open>
  The frames of the worker protocol (packages/svp-exec: message\_type.cpp, frame\_limits.hpp,
  frame\_header.cpp, frame\_encoder.cpp, frame\_decoder.cpp, frame\_stream.cpp). A frame is a
  4-byte big-endian header length, a canonical JSON header and the payloads it declares. The
  decoder is incremental: its state is a record, passed explicitly; a call returns its result (or
  the thrown error) and the state after it.
\<close>

subsection \<open>Message types\<close>

datatype message_type =
    msg_hello | msg_hello_ack | msg_runtime_have | msg_runtime_put | msg_blob_have | msg_blob_put
  | msg_calibrate | msg_assign | msg_accept | msg_reject | msg_heartbeat | msg_result | msg_cancel
  | msg_drain | msg_shutdown | msg_unpair | msg_error | msg_blob_get | msg_blob_release
  | msg_join_offer | msg_join_challenge | msg_join_accept | msg_join_done | msg_fleet_member

definition kAllMessageTypes :: "message_type list" where
  "kAllMessageTypes =
     [msg_hello, msg_hello_ack, msg_runtime_have, msg_runtime_put, msg_blob_have, msg_blob_put,
      msg_calibrate, msg_assign, msg_accept, msg_reject, msg_heartbeat, msg_result, msg_cancel,
      msg_drain, msg_shutdown, msg_unpair, msg_error, msg_blob_get, msg_blob_release,
      msg_join_offer, msg_join_challenge, msg_join_accept, msg_join_done, msg_fleet_member]"

fun message_type_name :: "message_type \<Rightarrow> string" where
  "message_type_name msg_hello = ''HELLO''"
| "message_type_name msg_hello_ack = ''HELLO_ACK''"
| "message_type_name msg_runtime_have = ''RUNTIME_HAVE''"
| "message_type_name msg_runtime_put = ''RUNTIME_PUT''"
| "message_type_name msg_blob_have = ''BLOB_HAVE''"
| "message_type_name msg_blob_put = ''BLOB_PUT''"
| "message_type_name msg_calibrate = ''CALIBRATE''"
| "message_type_name msg_assign = ''ASSIGN''"
| "message_type_name msg_accept = ''ACCEPT''"
| "message_type_name msg_reject = ''REJECT''"
| "message_type_name msg_heartbeat = ''HEARTBEAT''"
| "message_type_name msg_result = ''RESULT''"
| "message_type_name msg_cancel = ''CANCEL''"
| "message_type_name msg_drain = ''DRAIN''"
| "message_type_name msg_shutdown = ''SHUTDOWN''"
| "message_type_name msg_unpair = ''UNPAIR''"
| "message_type_name msg_error = ''ERROR''"
| "message_type_name msg_blob_get = ''BLOB_GET''"
| "message_type_name msg_blob_release = ''BLOB_RELEASE''"
| "message_type_name msg_join_offer = ''JOIN_OFFER''"
| "message_type_name msg_join_challenge = ''JOIN_CHALLENGE''"
| "message_type_name msg_join_accept = ''JOIN_ACCEPT''"
| "message_type_name msg_join_done = ''JOIN_DONE''"
| "message_type_name msg_fleet_member = ''FLEET_MEMBER''"

definition parse_message_type :: "string \<Rightarrow> message_type option" where
  "parse_message_type name = find (\<lambda>t. message_type_name t = name) kAllMessageTypes"

lemma kAllMessageTypes_complete: "t \<in> set kAllMessageTypes"
  by (cases t) (simp_all add: kAllMessageTypes_def)

lemma message_type_names_distinct: "distinct (List.map message_type_name kAllMessageTypes)"
  by (simp add: kAllMessageTypes_def)

lemma message_type_name_inject: "message_type_name t = message_type_name u \<longleftrightarrow> t = u"
  using message_type_names_distinct kAllMessageTypes_complete [of t] kAllMessageTypes_complete [of u]
  by (auto simp: distinct_map inj_on_def)

lemma parse_message_type_Some: "parse_message_type name = Some t \<longleftrightarrow> message_type_name t = name"
proof
  assume "parse_message_type name = Some t"
  then show "message_type_name t = name" by (auto simp: parse_message_type_def find_Some_iff)
next
  assume t: "message_type_name t = name"
  then have "parse_message_type name \<noteq> None"
    using kAllMessageTypes_complete [of t] by (auto simp: parse_message_type_def find_None_iff)
  then obtain u where "parse_message_type name = Some u" by auto
  moreover from this have "message_type_name u = name" by (auto simp: parse_message_type_def find_Some_iff)
  ultimately show "parse_message_type name = Some t" using t message_type_name_inject by metis
qed

subsection \<open>Limits and headers\<close>

definition kFrameLengthPrefixBytes :: nat where
  "kFrameLengthPrefixBytes = 4"

record frame_limits =
  max_header_bytes :: u32
  max_payload_bytes :: u64
  max_total_payload_bytes :: u64

definition default_frame_limits :: frame_limits where
  "default_frame_limits =
     \<lparr>max_header_bytes = 4 * 1024 * 1024, max_payload_bytes = 64 * 1024 * 1024,
      max_total_payload_bytes = 4 * (64 * 1024 * 1024)\<rparr>"

record payload_declaration =
  pd_bytes :: u64
  pd_blake3 :: digest

record frame_header =
  fh_type :: message_type
  fh_body :: json
  fh_payloads :: "payload_declaration list"

definition declared_payload_bytes :: "payload_declaration list \<Rightarrow> u64" where
  "declared_payload_bytes payloads = foldl (\<lambda>n payload. n + pd_bytes payload) 0 payloads"

fun check_payload_limits_from ::
  "frame_limits \<Rightarrow> u64 \<Rightarrow> payload_declaration list \<Rightarrow> exec_error_code option" where
  "check_payload_limits_from limits so_far [] = None"
| "check_payload_limits_from limits so_far (payload # rest) =
     (if pd_bytes payload > max_payload_bytes limits then Some frame_payload_too_large
      else if so_far > max_total_payload_bytes limits
           \<or> pd_bytes payload > max_total_payload_bytes limits - so_far then Some frame_payload_too_large
      else check_payload_limits_from limits (so_far + pd_bytes payload) rest)"

definition check_payload_limits ::
  "payload_declaration list \<Rightarrow> frame_limits \<Rightarrow> exec_error_code option" where
  "check_payload_limits payloads limits = check_payload_limits_from limits 0 payloads"

definition declaration_to_json :: "payload_declaration \<Rightarrow> json" where
  "declaration_to_json payload = json_object
     [(''blake3'', JString (blake3_hex (pd_blake3 payload))), (''bytes'', JUnsigned (pd_bytes payload))]"

definition frame_header_to_json :: "frame_header \<Rightarrow> json" where
  "frame_header_to_json header = json_object
     [(''body'', fh_body header), (''payloads'', JArray (List.map declaration_to_json (fh_payloads header))),
      (''type'', JString (message_type_name (fh_type header)))]"

definition encode_frame_header ::
  "json_codec \<Rightarrow> frame_header \<Rightarrow> frame_limits \<Rightarrow> exec_error_code + string" where
  "encode_frame_header codec header limits =
     (if \<not> is_object (fh_body header) then Inl wrong_type
      else and_then (checked (check_payload_limits (fh_payloads header) limits) ()) (\<lambda>_.
        and_then (encode_canonical_json codec (frame_header_to_json header)) (\<lambda>bytes.
          if length bytes > unat (max_header_bytes limits) then Inl frame_header_too_large
          else Inr bytes)))"

definition declaration_from_json :: "json \<Rightarrow> exec_error_code + payload_declaration" where
  "declaration_from_json v =
     and_then (checked (require_object v) ()) (\<lambda>_.
     and_then (checked (reject_unknown_fields [''blake3'', ''bytes''] v) ()) (\<lambda>_.
     and_then (required_unsigned v ''bytes'') (\<lambda>size.
     and_then (required_blake3_hex v ''blake3'') (\<lambda>blake3.
       Inr \<lparr>pd_bytes = size, pd_blake3 = blake3\<rparr>))))"

definition frame_header_from_json :: "frame_limits \<Rightarrow> json \<Rightarrow> exec_error_code + frame_header" where
  "frame_header_from_json limits v =
     and_then (checked (require_object v) ()) (\<lambda>_.
     and_then (checked (reject_unknown_fields [''body'', ''payloads'', ''type''] v) ()) (\<lambda>_.
     and_then (required_string v ''type'') (\<lambda>type_name.
     (case parse_message_type type_name of
        None \<Rightarrow> Inl unknown_message_type
      | Some t \<Rightarrow>
     and_then (required_object v ''body'') (\<lambda>body.
     and_then (and_then (required_array v ''payloads'') (each_or_error declaration_from_json)) (\<lambda>payloads.
     checked (check_payload_limits payloads limits)
       \<lparr>fh_type = t, fh_body = body, fh_payloads = payloads\<rparr>))))))"

definition decode_frame_header ::
  "json_codec \<Rightarrow> string \<Rightarrow> frame_limits \<Rightarrow> exec_error_code + frame_header" where
  "decode_frame_header codec bytes limits =
     and_then (decode_canonical_json codec bytes) (frame_header_from_json limits)"

subsection \<open>The encoder\<close>

record frame =
  fr_type :: message_type
  fr_body :: json
  fr_payloads :: "byte list list"

definition big_endian_u32 :: "u32 \<Rightarrow> byte list" where
  "big_endian_u32 n = List.map (\<lambda>i. ucast (drop_bit (8 * i) n AND 0xFF)) [3, 2, 1, 0]"

definition read_big_endian_u32 :: "byte list \<Rightarrow> u32" where
  "read_big_endian_u32 bytes =
     foldl (\<lambda>v b. push_bit 8 v OR ucast b) 0 (take kFrameLengthPrefixBytes bytes)"

definition header_of_frame :: "json_codec \<Rightarrow> frame \<Rightarrow> frame_header" where
  "header_of_frame codec f =
     \<lparr>fh_type = fr_type f, fh_body = fr_body f,
      fh_payloads = List.map (\<lambda>p. \<lparr>pd_bytes = of_nat (length p), pd_blake3 = jc_blake3 codec p\<rparr>)
        (fr_payloads f)\<rparr>"

definition encode_frame :: "json_codec \<Rightarrow> frame \<Rightarrow> frame_limits \<Rightarrow> exec_error_code + byte list" where
  "encode_frame codec f limits =
     and_then (encode_frame_header codec (header_of_frame codec f) limits) (\<lambda>header_bytes.
       Inr (big_endian_u32 (of_nat (length header_bytes)) @ string_bytes header_bytes
            @ concat (fr_payloads f)))"

subsection \<open>The incremental decoder\<close>

record frame_decoder =
  fd_limits :: frame_limits
  fd_buffer :: "byte list"
  fd_pending_header :: "frame_header option"
  fd_pending_header_end :: nat
  fd_failed :: bool

definition new_frame_decoder :: "frame_limits \<Rightarrow> frame_decoder" where
  "new_frame_decoder limits =
     \<lparr>fd_limits = limits, fd_buffer = [], fd_pending_header = None, fd_pending_header_end = 0,
      fd_failed = False\<rparr>"

definition decoder_feed ::
  "byte list \<Rightarrow> frame_decoder \<Rightarrow> exec_error_code + frame_decoder" where
  "decoder_feed bytes d =
     (if fd_failed d then Inl frame_malformed else Inr (d\<lparr>fd_buffer := fd_buffer d @ bytes\<rparr>))"

text \<open>The first half of \<open>next_unchecked\<close>: parse the header once its bytes are there.\<close>

definition parse_pending ::
  "json_codec \<Rightarrow> frame_decoder \<Rightarrow> exec_error_code + frame_decoder" where
  "parse_pending codec d =
     (case fd_pending_header d of
        Some _ \<Rightarrow> Inr d
      | None \<Rightarrow>
        if length (fd_buffer d) < kFrameLengthPrefixBytes then Inr d
        else let header_bytes = read_big_endian_u32 (fd_buffer d);
                 header_end = kFrameLengthPrefixBytes + unat header_bytes
        in if header_bytes = 0 then Inl frame_malformed
           else if header_bytes > max_header_bytes (fd_limits d) then Inl frame_header_too_large
           else if length (fd_buffer d) < header_end then Inr d
           else and_then (decode_frame_header codec
                 (bytes_string (take (unat header_bytes) (drop kFrameLengthPrefixBytes (fd_buffer d))))
                 (fd_limits d)) (\<lambda>header.
               Inr (d\<lparr>fd_pending_header := Some header, fd_pending_header_end := header_end\<rparr>)))"

text \<open>The payloads after the header, each checked against its declaration.\<close>

fun read_payloads ::
  "json_codec \<Rightarrow> byte list \<Rightarrow> nat \<Rightarrow> payload_declaration list \<Rightarrow> exec_error_code + byte list list" where
  "read_payloads codec buffer offset [] = Inr []"
| "read_payloads codec buffer offset (declaration # rest) =
     (let payload = take (unat (pd_bytes declaration)) (drop offset buffer)
      in if jc_blake3 codec payload \<noteq> pd_blake3 declaration then Inl payload_hash_mismatch
         else and_then (read_payloads codec buffer (offset + unat (pd_bytes declaration)) rest)
           (\<lambda>payloads. Inr (payload # payloads)))"

definition next_unchecked ::
  "json_codec \<Rightarrow> frame_decoder \<Rightarrow> exec_error_code + frame option \<times> frame_decoder" where
  "next_unchecked codec d =
     and_then (parse_pending codec d) (\<lambda>d1.
       case fd_pending_header d1 of
         None \<Rightarrow> Inr (None, d1)
       | Some header \<Rightarrow>
         let frame_end = unat (of_nat (fd_pending_header_end d1) + declared_payload_bytes (fh_payloads header))
         in if length (fd_buffer d1) < frame_end then Inr (None, d1)
            else and_then (read_payloads codec (fd_buffer d1) (fd_pending_header_end d1) (fh_payloads header))
              (\<lambda>payloads.
                Inr (Some \<lparr>fr_type = fh_type header, fr_body = fh_body header, fr_payloads = payloads\<rparr>,
                     d1\<lparr>fd_buffer := drop frame_end (fd_buffer d1), fd_pending_header := None,
                        fd_pending_header_end := 0\<rparr>)))"

text \<open>
  \<open>next\<close>: an error leaves the decoder failed. (What else a throw leaves changed, a parsed header
  or a moved-out body, is never read again: every later call throws first.)
\<close>

definition decoder_next ::
  "json_codec \<Rightarrow> frame_decoder \<Rightarrow> (exec_error_code + frame option) \<times> frame_decoder" where
  "decoder_next codec d =
     (if fd_failed d then (Inl frame_malformed, d)
      else case next_unchecked codec d of
             Inl e \<Rightarrow> (Inl e, d\<lparr>fd_failed := True\<rparr>)
           | Inr (f, d') \<Rightarrow> (Inr f, d'))"

definition decoder_finish :: "frame_decoder \<Rightarrow> (exec_error_code + unit) \<times> frame_decoder" where
  "decoder_finish d =
     (if fd_failed d then (Inl frame_malformed, d)
      else if fd_buffer d \<noteq> [] then (Inl frame_truncated, d\<lparr>fd_failed := True\<rparr>)
      else (Inr (), d))"

definition decode_frame :: "json_codec \<Rightarrow> byte list \<Rightarrow> frame_limits \<Rightarrow> exec_error_code + frame" where
  "decode_frame codec bytes limits =
     and_then (decoder_feed bytes (new_frame_decoder limits)) (\<lambda>d.
       case decoder_next codec d of
         (Inl e, _) \<Rightarrow> Inl e
       | (Inr None, _) \<Rightarrow> Inl frame_truncated
       | (Inr (Some f), d') \<Rightarrow> if length (fd_buffer d') \<noteq> 0 then Inl frame_malformed else Inr f)"

subsection \<open>The stream reader (frame\_stream.cpp)\<close>

text \<open>
  \<open>StreamFrameReader::read\<close> over a stream whose \<open>read_some\<close> returns the listed chunks and then
  0, the end of the stream.
\<close>

fun read_frame ::
  "json_codec \<Rightarrow> byte list list \<Rightarrow> frame_decoder
     \<Rightarrow> (exec_error_code + frame option) \<times> byte list list \<times> frame_decoder" where
  "read_frame codec [] d =
     (case decoder_next codec d of
        (Inr None, d') \<Rightarrow>
          (case decoder_finish d' of (Inl e, d'') \<Rightarrow> (Inl e, [], d'') | (Inr _, d'') \<Rightarrow> (Inr None, [], d''))
      | (result, d') \<Rightarrow> (result, [], d'))"
| "read_frame codec (chunk # chunks) d =
     (case decoder_next codec d of
        (Inr None, d') \<Rightarrow>
          (case decoder_feed chunk d' of
             Inl e \<Rightarrow> (Inl e, chunks, d')
           | Inr d'' \<Rightarrow> read_frame codec chunks d'')
      | (result, d') \<Rightarrow> (result, chunk # chunks, d'))"

text \<open>Reading until the stream ends or fails: the frames, the error if any, bounded by fuel.\<close>

fun read_all ::
  "nat \<Rightarrow> json_codec \<Rightarrow> byte list list \<Rightarrow> frame_decoder \<Rightarrow> (frame list \<times> exec_error_code option) option" where
  "read_all 0 codec chunks d = None"
| "read_all (Suc fuel) codec chunks d =
     (case read_frame codec chunks d of
        (Inl e, _) \<Rightarrow> Some ([], Some e)
      | (Inr None, _) \<Rightarrow> Some ([], None)
      | (Inr (Some f), chunks', d') \<Rightarrow>
          map_option (\<lambda>(fs, e). (f # fs, e)) (read_all fuel codec chunks' d'))"

end
