(* ===== verification/TaskJsonFacts.thy ===== *)
theory TaskJsonFacts
  imports TaskJson
begin

text \<open>
  The record readers undo the writers, and accept nothing else: on a value that
  \<open>parse\<close> can build, a reader returns a record exactly when the writer writes that value.
\<close>

subsection \<open>Written objects are already in key order\<close>

named_theorems json_objects

lemma artifact_ref_object [json_objects]:
  "json_object [(''blake3'', a), (''bytes'', b), (''media_type'', c), (''role'', d)]
   = JObject [(''blake3'', a), (''bytes'', b), (''media_type'', c), (''role'', d)]"
  by (rule json_object_sorted) (simp add: map_wf_def)

lemma model_ref_object [json_objects]:
  "json_object [(''bundle_blake3'', a), (''model_bundle_id'', b), (''model_id'', c)]
   = JObject [(''bundle_blake3'', a), (''model_bundle_id'', b), (''model_id'', c)]"
  by (rule json_object_sorted) (simp add: map_wf_def)

lemma resources_object [json_objects]:
  "json_object [(''est_cpu_threads'', a), (''est_peak_rss_mb'', b), (''est_seconds'', c)]
   = JObject [(''est_cpu_threads'', a), (''est_peak_rss_mb'', b), (''est_seconds'', c)]"
  by (rule json_object_sorted) (simp add: map_wf_def)

lemma task_spec_object [json_objects]:
  "json_object
     [(''build_session_id'', a), (''cache_key'', b), (''depends_on'', c), (''inputs'', d),
      (''model_refs'', e), (''parameters'', f), (''parameters_blake3'', g), (''resources'', h),
      (''schema'', i), (''task_id'', j), (''task_type'', k), (''task_type_version'', l)]
   = JObject
     [(''build_session_id'', a), (''cache_key'', b), (''depends_on'', c), (''inputs'', d),
      (''model_refs'', e), (''parameters'', f), (''parameters_blake3'', g), (''resources'', h),
      (''schema'', i), (''task_id'', j), (''task_type'', k), (''task_type_version'', l)]"
  by (rule json_object_sorted) (simp add: map_wf_def)

lemma error_object [json_objects]:
  "json_object [(''code'', a), (''message'', b), (''retryable'', c)]
   = JObject [(''code'', a), (''message'', b), (''retryable'', c)]"
  by (rule json_object_sorted) (simp add: map_wf_def)

lemma cpu_object [json_objects]:
  "json_object [(''system'', a), (''user'', b)]
   = JObject [(''system'', a), (''user'', b)]"
  by (rule json_object_sorted) (simp add: map_wf_def)

lemma timing_object [json_objects]:
  "json_object [(''compute'', a), (''decode'', b), (''encode'', c), (''input_fetch'', d), (''queue'', e)]
   = JObject [(''compute'', a), (''decode'', b), (''encode'', c), (''input_fetch'', d), (''queue'', e)]"
  by (rule json_object_sorted) (simp add: map_wf_def)

lemma execution_object [json_objects]:
  "json_object [(''cpu_ms'', a), (''peak_rss_bytes'', b), (''runtime_id'', c), (''timing_ms'', d), (''worker_session_id'', e)]
   = JObject [(''cpu_ms'', a), (''peak_rss_bytes'', b), (''runtime_id'', c), (''timing_ms'', d), (''worker_session_id'', e)]"
  by (rule json_object_sorted) (simp add: map_wf_def)

lemma task_result_object [json_objects]:
  "json_object [(''attempt'', a), (''diagnostics'', b), (''execution'', c), (''output_digest'', d), (''outputs'', e), (''schema'', f), (''status'', g), (''task_id'', h)]
   = JObject [(''attempt'', a), (''diagnostics'', b), (''execution'', c), (''output_digest'', d), (''outputs'', e), (''schema'', f), (''status'', g), (''task_id'', h)]"
  by (rule json_object_sorted) (simp add: map_wf_def)

lemma failed_result_object [json_objects]:
  "json_object [(''attempt'', a), (''diagnostics'', b), (''error'', c), (''execution'', d), (''output_digest'', e), (''outputs'', f), (''schema'', g), (''status'', h), (''task_id'', i)]
   = JObject [(''attempt'', a), (''diagnostics'', b), (''error'', c), (''execution'', d), (''output_digest'', e), (''outputs'', f), (''schema'', g), (''status'', h), (''task_id'', i)]"
  by (rule json_object_sorted) (simp add: map_wf_def)

subsection \<open>Readers undo writers\<close>

lemma artifact_ref_roundtrip:
  assumes "artifact_ref_to_json (json_exec_lib codec) r = Inr v" and "is_digest (ar_blake3 r)"
  shows "artifact_ref_from_json_at v = Inr r"
  using assms parse_blake3_hex_Some [of "blake3_hex (ar_blake3 r)" "ar_blake3 r"]
  by (cases r) (auto simp: artifact_ref_to_json_def artifact_ref_from_json_at_def field_readers
      reject_unknown_fields_def Let_def json_objects split: option.splits)

lemma model_ref_roundtrip:
  assumes "is_digest (mr_bundle_blake3 r)"
  shows "model_ref_from_json (model_ref_to_json r) = Inr r"
  using assms parse_blake3_hex_Some [of "blake3_hex (mr_bundle_blake3 r)" "mr_bundle_blake3 r"]
  by (cases r) (simp add: model_ref_to_json_def model_ref_from_json_def field_readers
      reject_unknown_fields_def json_objects)

lemma resources_roundtrip: "resources_from_json (resources_to_json r) = Inr r"
  by (cases r) (simp add: resources_to_json_def resources_from_json_def field_readers
      reject_unknown_fields_def json_objects)

lemma resources_object_is: "is_object (resources_to_json r)"
  by (simp add: resources_to_json_def json_objects)

text \<open>What the C++ types of a specification's fields guarantee.\<close>

definition spec_types :: "json task_spec \<Rightarrow> bool" where
  "spec_types spec \<longleftrightarrow> map_wf (ts_inputs spec) \<and> is_digest (ts_parameters_blake3 spec)
     \<and> is_digest (ts_cache_key spec) \<and> list_all (\<lambda>r. is_digest (mr_bundle_blake3 r)) (ts_model_refs spec)
     \<and> list_all (\<lambda>(name, r). is_digest (ar_blake3 r)) (ts_inputs spec)"

lemma inputs_roundtrip:
  assumes "each_or_error (input_to_json codec) inputs = Inr vs"
    and "list_all (\<lambda>(name, r). is_digest (ar_blake3 r)) inputs" and "map_wf inputs"
  shows "json_object vs = JObject vs" and "each_or_error input_from_json vs = Inr inputs"
proof -
  have rel: "list_all2 (\<lambda>x y. input_to_json codec x = Inr y) inputs vs"
    using assms(1) by (simp add: each_or_error_Inr_iff)
  have one: "fst y = fst x \<and> input_from_json y = Inr x"
    if "input_to_json codec x = Inr y" "is_digest (ar_blake3 (snd x))" for x y
    using that artifact_ref_roundtrip
    by (auto simp: input_to_json_def input_from_json_def and_then_Inr_iff)
  have "List.map fst vs = List.map fst inputs \<and> list_all2 (\<lambda>y x. input_from_json y = Inr x) vs inputs"
    using rel assms(2) by (induction rule: list_all2_induct) (auto dest: one)
  then show "json_object vs = JObject vs" and "each_or_error input_from_json vs = Inr inputs"
    using assms(3) by (simp_all add: json_object_sorted map_wf_def each_or_error_Inr_iff)
qed

lemma each_or_error_defined:
  "(\<forall>x \<in> set xs. \<exists>y. f x = Inr y) \<Longrightarrow> \<exists>ys. each_or_error f xs = Inr ys"
  by (induction xs) auto

lemma validated_inputs:
  assumes "validate_task_spec lib spec = None"
  shows "\<exists>vs. each_or_error (input_to_json codec) (ts_inputs spec) = Inr vs"
proof (rule each_or_error_defined, rule ballI)
  fix x assume "x \<in> set (ts_inputs spec)"
  then have "validate_input x = None" using assms by (simp add: validate_task_spec_def)
  then have "validate_artifact_ref (snd x) = None" by (simp add: validate_input_def)
  then show "\<exists>y. input_to_json codec x = Inr y"
    by (simp add: input_to_json_def artifact_ref_to_json_def)
qed

lemma validated_parameters:
  "validate_task_spec (json_exec_lib codec) spec = None \<Longrightarrow> is_object (ts_parameters spec)"
  by (auto simp: validate_task_spec_def compute_parameters_blake3_def split: if_splits)

lemma task_spec_json_roundtrip:
  assumes "validate_task_spec (json_exec_lib codec) spec = None" and "spec_types spec"
  shows "and_then (task_spec_to_json codec spec) (task_spec_from_json codec) = Inr spec"
proof -
  obtain vs where vs: "each_or_error (input_to_json codec) (ts_inputs spec) = Inr vs"
    using validated_inputs [OF assms(1)] by blast
  note I = inputs_roundtrip [OF vs]
  have "and_then (task_spec_to_json codec spec) (task_spec_from_json codec)
      = checked (validate_task_spec (json_exec_lib codec) spec) spec"
    using vs I assms validated_parameters [OF assms(1)] fold_emplace_sorted [of "[]" "ts_inputs spec"]
      each_or_error_inverse [of "ts_depends_on spec" string_from_json JString]
      each_or_error_inverse [of "ts_model_refs spec" model_ref_from_json model_ref_to_json]
    by (cases spec) (simp add: task_spec_to_json_def task_spec_from_json_def json_objects field_readers
      reject_unknown_fields_def task_spec_fields_def spec_types_def string_from_json_def
      model_ref_roundtrip list_all_iff resources_roundtrip parse_blake3_hex_Some
      parse_blake3_prefixed_Some case_prod_beta' resources_object_is)
  then show ?thesis using assms(1) by simp
qed

lemma error_roundtrip: "error_from_json (error_to_json e) = Inr e" "is_object (error_to_json e)"
  by (cases e, simp add: error_to_json_def error_from_json_def field_readers
      reject_unknown_fields_def json_objects) (simp add: error_to_json_def json_objects)

lemma task_execution_roundtrip:
  assumes "task_execution_to_json x = Inr v" and "is_digest (tx_runtime_id x)"
  shows "task_execution_from_json_at v = Inr x"
proof -
  have ok: "validate_task_execution x = None"
    using assms(1) by (cases "validate_task_execution x") (simp_all add: task_execution_to_json_def)
  obtain s r p c m where x: "x = \<lparr>tx_worker_session_id = s, tx_runtime_id = r, tx_timing_ms = p,
      tx_cpu_ms = c, tx_peak_rss_bytes = m\<rparr>" by (cases x)
  have v: "task_execution_to_json x = Inr v" "is_digest r" using assms x by simp_all
  have "and_then (task_execution_to_json x) task_execution_from_json_at = Inr x"
    using ok v(2) unfolding x by (cases p; cases c)
      (simp add: task_execution_to_json_def task_execution_from_json_at_def field_readers
        reject_unknown_fields_def json_objects)
  then show ?thesis using v(1) by simp
qed

definition result_types :: "json task_result \<Rightarrow> bool" where
  "result_types result \<longleftrightarrow> tr_attempt result < 2 ^ 64 \<and> is_digest (tr_output_digest result)
     \<and> is_digest (tx_runtime_id (tr_execution result))
     \<and> list_all (\<lambda>r. is_digest (ar_blake3 r)) (tr_outputs result)"

lemma parse_status_name: "parse_status (task_status_name st) = Inr st"
  by (cases st) (simp_all add: parse_status_def)

lemma outputs_roundtrip:
  assumes "each_or_error (artifact_ref_to_json (json_exec_lib codec)) rs = Inr vs"
    and "list_all (\<lambda>r. is_digest (ar_blake3 r)) rs"
  shows "each_or_error artifact_ref_from_json_at vs = Inr rs"
proof -
  have "list_all2 (\<lambda>x y. artifact_ref_to_json (json_exec_lib codec) x = Inr y) rs vs"
    using assms(1) by (simp add: each_or_error_Inr_iff)
  then have "list_all2 (\<lambda>y x. artifact_ref_from_json_at y = Inr x) vs rs"
    using assms(2) by (induction rule: list_all2_induct) (auto dest: artifact_ref_roundtrip)
  then show ?thesis by (simp add: each_or_error_Inr_iff)
qed

lemma task_result_parts:
  assumes "validate_task_result (json_exec_lib codec) result = None"
  shows "is_object (tr_diagnostics result)"
    and "\<exists>vs. each_or_error (artifact_ref_to_json (json_exec_lib codec)) (tr_outputs result) = Inr vs"
    and "\<exists>v. task_execution_to_json (tr_execution result) = Inr v"
proof -
  show "is_object (tr_diagnostics result)"
    using assms by (simp add: validate_task_result_def)
  have "validate_artifact_ref r = None" if "r \<in> set (tr_outputs result)" for r
    using assms that by (simp add: validate_task_result_def)
  then show "\<exists>vs. each_or_error (artifact_ref_to_json (json_exec_lib codec)) (tr_outputs result) = Inr vs"
    by (intro each_or_error_defined) (simp add: artifact_ref_to_json_def)
  have "validate_task_execution (tr_execution result) = None"
    using assms by (simp add: validate_task_result_def)
  then show "\<exists>v. task_execution_to_json (tr_execution result) = Inr v"
    by (simp add: task_execution_to_json_def)
qed

lemma task_result_json_roundtrip:
  assumes "validate_task_result (json_exec_lib codec) result = None" and "result_types result"
  shows "and_then (task_result_to_json codec result) (task_result_from_json codec) = Inr result"
proof -
  obtain vs where vs: "each_or_error (artifact_ref_to_json (json_exec_lib codec)) (tr_outputs result) = Inr vs"
    using task_result_parts(2) [OF assms(1)] by blast
  obtain x where x: "task_execution_to_json (tr_execution result) = Inr x"
    using task_result_parts(3) [OF assms(1)] by blast
  note parts = outputs_roundtrip [OF vs] task_execution_roundtrip [OF x]
  have attempt: "unat (of_nat (tr_attempt result) :: u64) = tr_attempt result"
    using assms(2) by (simp add: result_types_def unat_of_nat)
  have "and_then (task_result_to_json codec result) (task_result_from_json codec)
      = checked (validate_task_result (json_exec_lib codec) result) result"
    using vs x parts assms task_result_parts(1) [OF assms(1)] attempt
    by (cases result; cases "tr_error result")
      (simp_all add: task_result_to_json_def task_result_from_json_def json_objects field_readers
        reject_unknown_fields_def result_types_def parse_status_name error_roundtrip
        parse_blake3_prefixed_Some json_assign_def map_modify_def error_member_def)
  then show ?thesis using assms(1) by simp
qed


subsection \<open>Readers are strict\<close>

text \<open>
  What \<open>parse\<close> guarantees of the values it builds: objects are maps, and an integer that is
  not negative is stored unsigned. On such values a reader accepts only what the writer writes.
\<close>

fun as_parsed :: "json \<Rightarrow> bool" where
  "as_parsed (JObject members) = (map_wf members \<and> list_all (\<lambda>entry. as_parsed (snd entry)) members)"
| "as_parsed (JArray elements) = list_all as_parsed elements"
| "as_parsed (JInteger i) = (i < 0)"
| "as_parsed _ = True"

lemma required_field_Inr: "required_field v k = Inr x \<longleftrightarrow> map_of (json_fields v) k = Some x"
  by (simp add: required_field_def split: option.splits)

lemma as_parsed_field:
  "as_parsed v \<Longrightarrow> map_of (json_fields v) k = Some x \<Longrightarrow> as_parsed x"
  by (cases v) (auto simp: list_all_iff dest!: map_of_SomeD)

lemma required_string_Inr: "required_string v k = Inr s \<longleftrightarrow> map_of (json_fields v) k = Some (JString s)"
  by (auto simp: required_string_def required_field_def split: option.split json.split)

lemma required_bool_Inr: "required_bool v k = Inr b \<longleftrightarrow> map_of (json_fields v) k = Some (JBool b)"
  by (auto simp: required_bool_def required_field_def split: option.split json.split)

lemma required_array_Inr: "required_array v k = Inr vs \<longleftrightarrow> map_of (json_fields v) k = Some (JArray vs)"
  by (auto simp: required_array_def required_field_def split: option.split json.split)

lemma required_object_Inr:
  "required_object v k = Inr x \<longleftrightarrow> map_of (json_fields v) k = Some x \<and> is_object x"
  by (auto simp: required_object_def and_then_Inr_iff required_field_Inr require_object_def)

lemma required_unsigned_Inr:
  assumes "as_parsed v"
  shows "required_unsigned v k = Inr n \<longleftrightarrow> map_of (json_fields v) k = Some (JUnsigned n)"
proof (cases "map_of (json_fields v) k")
  case (Some x)
  then have "as_parsed x" by (rule as_parsed_field [OF assms])
  then show ?thesis using Some
    by (cases x) (simp_all add: required_unsigned_def required_field_def)
qed (simp add: required_unsigned_def required_field_def)

lemma required_blake3_hex_Inr:
  "required_blake3_hex v k = Inr d \<Longrightarrow> map_of (json_fields v) k = Some (JString (blake3_hex d)) \<and> is_digest d"
  by (auto simp: required_blake3_hex_def and_then_Inr_iff required_string_Inr
      dest: parse_blake3_hex_Some split: option.splits)

lemma required_blake3_prefixed_Inr:
  "required_blake3_prefixed v k = Inr d \<Longrightarrow>
     map_of (json_fields v) k = Some (JString (blake3_prefixed d)) \<and> is_digest d"
  by (auto simp: required_blake3_prefixed_def and_then_Inr_iff required_string_Inr
      dest: parse_blake3_prefixed_Some split: option.splits)

lemmas strict_readers = required_string_Inr required_bool_Inr required_array_Inr required_object_Inr
  required_unsigned_Inr

text \<open>An object that has every allowed field and no other is the list of those fields.\<close>

lemma object_of_fields:
  assumes "as_parsed v" and "is_object v" and "reject_unknown_fields ks v = None"
    and "sorted_wrt (<) ks" and "\<forall>k \<in> set ks. map_of (json_fields v) k \<noteq> None"
  shows "v = json_object (List.map (\<lambda>k. (k, the (map_of (json_fields v) k))) ks)"
proof -
  obtain m where v: "v = JObject m" using assms(2) by (cases v) simp_all
  have wf: "map_wf m" using assms(1) v by simp
  have "fst ` set m = set ks"
    using assms(3,5) v by (auto simp: reject_unknown_fields_def domI dest: map_of_SomeD)
      (force dest: map_of_SomeD)
  then have m: "m = List.map (\<lambda>k. (k, the (map_of m k))) ks" by (rule map_wf_eq_map [OF wf assms(4)])
  have "json_object m = JObject m" by (rule json_object_sorted [OF wf])
  then show ?thesis using m v by simp
qed

lemma artifact_ref_strict:
  assumes "as_parsed v" and "artifact_ref_from_json_at v = Inr r"
  shows "artifact_ref_to_json (json_exec_lib codec) r = Inr v \<and> is_digest (ar_blake3 r)"
proof -
  let ?ks = "[''blake3'', ''bytes'', ''media_type'', ''role'']"
  have R: "is_object v" "reject_unknown_fields ?ks v = None"
    and d: "required_blake3_hex v ''blake3'' = Inr (ar_blake3 r)"
    and f: "map_of (json_fields v) ''bytes'' = Some (JUnsigned (ar_bytes r))"
      "map_of (json_fields v) ''media_type'' = Some (JString (ar_media_type r))"
      "map_of (json_fields v) ''role'' = Some (JString (ar_role r))"
    and ok: "validate_artifact_ref r = None"
    using assms by (auto simp: artifact_ref_from_json_at_def and_then_Inr_iff strict_readers
        require_object_def Let_def split: if_splits)
  note D = required_blake3_hex_Inr [OF d]
  have "v = json_object (List.map (\<lambda>k. (k, the (map_of (json_fields v) k))) ?ks)"
    using D f by (intro object_of_fields [OF assms(1) R]) simp_all
  then show ?thesis using D f ok by (simp add: artifact_ref_to_json_def)
qed


lemma model_ref_strict:
  assumes "as_parsed v" and "model_ref_from_json v = Inr r"
  shows "model_ref_to_json r = v \<and> is_digest (mr_bundle_blake3 r)"
proof -
  let ?ks = "[''bundle_blake3'', ''model_bundle_id'', ''model_id'']"
  have R: "is_object v" "reject_unknown_fields ?ks v = None"
    and d: "required_blake3_hex v ''bundle_blake3'' = Inr (mr_bundle_blake3 r)"
    and f: "map_of (json_fields v) ''model_bundle_id'' = Some (JString (mr_model_bundle_id r))"
      "map_of (json_fields v) ''model_id'' = Some (JString (mr_model_id r))"
    using assms by (auto simp: model_ref_from_json_def and_then_Inr_iff strict_readers
        require_object_def split: if_splits)
  note D = required_blake3_hex_Inr [OF d]
  have "v = json_object (List.map (\<lambda>k. (k, the (map_of (json_fields v) k))) ?ks)"
    using D f by (intro object_of_fields [OF assms(1) R]) simp_all
  then show ?thesis using D f by (simp add: model_ref_to_json_def)
qed

lemma resources_strict:
  assumes "as_parsed v" and "is_object v" and "resources_from_json v = Inr r"
  shows "resources_to_json r = v"
proof -
  let ?ks = "[''est_cpu_threads'', ''est_peak_rss_mb'', ''est_seconds'']"
  have R: "reject_unknown_fields ?ks v = None"
    and f: "map_of (json_fields v) ''est_cpu_threads'' = Some (JUnsigned (est_cpu_threads r))"
      "map_of (json_fields v) ''est_peak_rss_mb'' = Some (JUnsigned (est_peak_rss_mb r))"
      "map_of (json_fields v) ''est_seconds'' = Some (JUnsigned (est_seconds r))"
    using assms by (auto simp: resources_from_json_def and_then_Inr_iff strict_readers split: if_splits)
  have "v = json_object (List.map (\<lambda>k. (k, the (map_of (json_fields v) k))) ?ks)"
    using f by (intro object_of_fields [OF assms(1,2) R]) simp_all
  then show ?thesis using f by (simp add: resources_to_json_def)
qed

lemma inputs_strict:
  assumes "as_parsed (JObject members)" and "each_or_error input_from_json members = Inr inputs"
  shows "map_wf inputs" and "each_or_error (input_to_json codec) inputs = Inr members"
    and "list_all (\<lambda>(name, r). is_digest (ar_blake3 r)) inputs"
proof -
  have rel: "list_all2 (\<lambda>x y. input_from_json x = Inr y) members inputs"
    using assms(2) by (simp add: each_or_error_Inr_iff)
  have one: "fst y = fst x \<and> input_to_json codec y = Inr x \<and> is_digest (ar_blake3 (snd y))"
    if "input_from_json x = Inr y" "as_parsed (snd x)" for x y
    using that artifact_ref_strict [of "snd x"]
    by (cases x) (fastforce simp: input_to_json_def input_from_json_def and_then_Inr_iff)
  have "list_all (\<lambda>x. as_parsed (snd x)) members" using assms(1) by simp
  with rel have "List.map fst inputs = List.map fst members
      \<and> list_all2 (\<lambda>y x. input_to_json codec y = Inr x) inputs members
      \<and> list_all (\<lambda>(name, r). is_digest (ar_blake3 r)) inputs"
    by (induction rule: list_all2_induct) (auto dest: one)
  then show "map_wf inputs" and "each_or_error (input_to_json codec) inputs = Inr members"
    and "list_all (\<lambda>(name, r). is_digest (ar_blake3 r)) inputs"
    using assms(1) by (simp_all add: map_wf_def each_or_error_Inr_iff)
qed

lemma strings_strict: "each_or_error string_from_json vs = Inr ss \<Longrightarrow> vs = List.map JString ss"
proof -
  assume "each_or_error string_from_json vs = Inr ss"
  then have "list_all2 (\<lambda>v s. string_from_json v = Inr s) vs ss" by (simp add: each_or_error_Inr_iff)
  then show ?thesis
    by (induction rule: list_all2_induct) (auto simp: string_from_json_def split: json.splits)
qed

lemma model_refs_strict:
  assumes "list_all as_parsed vs" and "each_or_error model_ref_from_json vs = Inr rs"
  shows "vs = List.map model_ref_to_json rs \<and> list_all (\<lambda>r. is_digest (mr_bundle_blake3 r)) rs"
proof -
  have "list_all2 (\<lambda>v r. model_ref_from_json v = Inr r) vs rs"
    using assms(2) by (simp add: each_or_error_Inr_iff)
  then show ?thesis using assms(1)
    by (induction rule: list_all2_induct) (auto dest: model_ref_strict)
qed

lemma task_spec_json_strict:
  assumes "as_parsed v" and "task_spec_from_json codec v = Inr spec"
  shows "task_spec_to_json codec spec = Inr v \<and> spec_types spec
    \<and> validate_task_spec (json_exec_lib codec) spec = None"
proof -
  let ?f = "map_of (json_fields v)"
  obtain deps refs ins res inputs where R: "is_object v" "reject_unknown_fields task_spec_fields v = None"
    and f: "?f ''schema'' = Some (JString kTaskSpecSchema)"
      "?f ''build_session_id'' = Some (JString (ts_build_session_id spec))"
      "?f ''task_id'' = Some (JString (ts_task_id spec))"
      "?f ''task_type'' = Some (JString (ts_task_type spec))"
      "?f ''task_type_version'' = Some (JUnsigned (ts_task_type_version spec))"
      "?f ''depends_on'' = Some (JArray deps)" "?f ''model_refs'' = Some (JArray refs)"
      "?f ''inputs'' = Some ins" "?f ''parameters'' = Some (ts_parameters spec)"
      "?f ''resources'' = Some res"
    and d: "required_blake3_hex v ''parameters_blake3'' = Inr (ts_parameters_blake3 spec)"
      "required_blake3_prefixed v ''cache_key'' = Inr (ts_cache_key spec)"
    and e: "each_or_error string_from_json deps = Inr (ts_depends_on spec)"
      "each_or_error model_ref_from_json refs = Inr (ts_model_refs spec)"
      "is_object ins" "each_or_error input_from_json (json_fields ins) = Inr inputs"
      "ts_inputs spec = fold (\<lambda>(name, r). map_emplace name r) inputs []"
      "is_object res" "resources_from_json res = Inr (ts_resources spec)"
    and ok: "validate_task_spec (json_exec_lib codec) spec = None"
    using assms by (auto simp: task_spec_from_json_def and_then_Inr_iff strict_readers
        require_object_def Let_def split: if_splits)
  note D = required_blake3_hex_Inr [OF d(1)] required_blake3_prefixed_Inr [OF d(2)]
  note P = as_parsed_field [OF assms(1)]
  obtain members where ins: "ins = JObject members" using e(3) by (cases ins) simp_all
  have parsed: "as_parsed (JObject members)" "list_all as_parsed refs" "as_parsed res"
    using P [OF f(8)] P [OF f(7)] P [OF f(10)] ins by simp_all
  have "each_or_error input_from_json members = Inr inputs" using e(4) ins by simp
  note I = inputs_strict [OF parsed(1) this]
  have inputs: "ts_inputs spec = inputs" using e(5) fold_emplace_sorted [of "[]" inputs] I(1) by simp
  note M = model_refs_strict [OF parsed(2) e(2)] and S = strings_strict [OF e(1)]
    and Q = resources_strict [OF parsed(3) e(6,7)]
  have "v = json_object (List.map (\<lambda>k. (k, the (?f k))) task_spec_fields)"
    using D f by (intro object_of_fields [OF assms(1) R]) (simp_all add: task_spec_fields_def)
  moreover have "json_object members = JObject members"
    using parsed(1) by (simp add: json_object_sorted)
  ultimately have "task_spec_to_json codec spec = Inr v"
    using D f ok I(2) inputs ins M S Q by (simp add: task_spec_to_json_def task_spec_fields_def)
  then show ?thesis using ok D I M inputs by (simp add: spec_types_def)
qed


lemma error_strict:
  assumes "as_parsed v" and "is_object v" and "error_from_json v = Inr e"
  shows "error_to_json e = v"
proof -
  let ?ks = "[''code'', ''message'', ''retryable'']"
  have R: "reject_unknown_fields ?ks v = None"
    and f: "map_of (json_fields v) ''code'' = Some (JString (te_code e))"
      "map_of (json_fields v) ''message'' = Some (JString (te_message e))"
      "map_of (json_fields v) ''retryable'' = Some (JBool (te_retryable e))"
    using assms by (auto simp: error_from_json_def and_then_Inr_iff strict_readers split: if_splits)
  have "v = json_object (List.map (\<lambda>k. (k, the (map_of (json_fields v) k))) ?ks)"
    using f by (intro object_of_fields [OF assms(1,2) R]) simp_all
  then show ?thesis using f by (simp add: error_to_json_def)
qed

lemma timing_strict:
  assumes "as_parsed v" and "is_object v"
    and "reject_unknown_fields [''compute'', ''decode'', ''encode'', ''input_fetch'', ''queue''] v = None"
    and "map_of (json_fields v) ''compute'' = Some a" "map_of (json_fields v) ''decode'' = Some b"
      "map_of (json_fields v) ''encode'' = Some c" "map_of (json_fields v) ''input_fetch'' = Some d"
      "map_of (json_fields v) ''queue'' = Some e"
  shows "json_object [(''compute'', a), (''decode'', b), (''encode'', c), (''input_fetch'', d), (''queue'', e)] = v"
  using object_of_fields [OF assms(1-3)] assms(4-8) by simp

lemma cpu_strict:
  assumes "as_parsed v" and "is_object v" and "reject_unknown_fields [''system'', ''user''] v = None"
    and "map_of (json_fields v) ''system'' = Some a" "map_of (json_fields v) ''user'' = Some b"
  shows "json_object [(''system'', a), (''user'', b)] = v"
  using object_of_fields [OF assms(1-3)] assms(4-5) by simp

lemma task_execution_strict:
  assumes "as_parsed v" and "task_execution_from_json_at v = Inr x"
  shows "task_execution_to_json x = Inr v \<and> is_digest (tx_runtime_id x)"
proof -
  let ?ks = "[''cpu_ms'', ''peak_rss_bytes'', ''runtime_id'', ''timing_ms'', ''worker_session_id'']"
  let ?f = "map_of (json_fields v)"
  have sub: "as_parsed y" if "required_object v k = Inr y" for k y
    using that as_parsed_field [OF assms(1)] by (auto simp: required_object_Inr)
  obtain timing cpu where R: "is_object v" "reject_unknown_fields ?ks v = None"
    and f: "?f ''timing_ms'' = Some timing" "?f ''cpu_ms'' = Some cpu"
      "?f ''worker_session_id'' = Some (JString (tx_worker_session_id x))"
      "?f ''peak_rss_bytes'' = Some (JUnsigned (tx_peak_rss_bytes x))"
    and o: "is_object timing" "is_object cpu" "as_parsed timing" "as_parsed cpu"
      "reject_unknown_fields [''compute'', ''decode'', ''encode'', ''input_fetch'', ''queue''] timing = None"
      "reject_unknown_fields [''system'', ''user''] cpu = None"
    and d: "required_blake3_prefixed v ''runtime_id'' = Inr (tx_runtime_id x)"
    and u: "required_unsigned timing ''queue'' = Inr (tm_queue (tx_timing_ms x))"
      "required_unsigned timing ''input_fetch'' = Inr (tm_input_fetch (tx_timing_ms x))"
      "required_unsigned timing ''decode'' = Inr (tm_decode (tx_timing_ms x))"
      "required_unsigned timing ''compute'' = Inr (tm_compute (tx_timing_ms x))"
      "required_unsigned timing ''encode'' = Inr (tm_encode (tx_timing_ms x))"
      "required_unsigned cpu ''user'' = Inr (tc_user (tx_cpu_ms x))"
      "required_unsigned cpu ''system'' = Inr (tc_system (tx_cpu_ms x))"
    and ok: "validate_task_execution x = None"
    using assms sub by (auto simp: task_execution_from_json_at_def and_then_Inr_iff
        required_string_Inr required_object_Inr required_unsigned_Inr [OF assms(1)]
        require_object_def Let_def split: if_splits)
  note D = required_blake3_prefixed_Inr [OF d]
  note U = u(1-5) [unfolded required_unsigned_Inr [OF o(3)]] u(6-7) [unfolded required_unsigned_Inr [OF o(4)]]
  have timing: "timing = json_object
      [(''compute'', JUnsigned (tm_compute (tx_timing_ms x))), (''decode'', JUnsigned (tm_decode (tx_timing_ms x))),
       (''encode'', JUnsigned (tm_encode (tx_timing_ms x))),
       (''input_fetch'', JUnsigned (tm_input_fetch (tx_timing_ms x))),
       (''queue'', JUnsigned (tm_queue (tx_timing_ms x)))]"
    by (rule timing_strict [OF o(3) o(1) o(5) U(4) U(3) U(5) U(2) U(1), symmetric])
  have cpu: "cpu = json_object
      [(''system'', JUnsigned (tc_system (tx_cpu_ms x))), (''user'', JUnsigned (tc_user (tx_cpu_ms x)))]"
    by (rule cpu_strict [OF o(4) o(2) o(6) U(7) U(6), symmetric])
  have "v = json_object (List.map (\<lambda>k. (k, the (?f k))) ?ks)"
    using D f by (intro object_of_fields [OF assms(1) R]) simp_all
  then show ?thesis using D f ok by (simp add: task_execution_to_json_def timing cpu)
qed

lemma outputs_strict:
  assumes "list_all as_parsed vs" and "each_or_error artifact_ref_from_json_at vs = Inr rs"
  shows "each_or_error (artifact_ref_to_json (json_exec_lib codec)) rs = Inr vs
    \<and> list_all (\<lambda>r. is_digest (ar_blake3 r)) rs"
proof -
  have "list_all2 (\<lambda>v r. artifact_ref_from_json_at v = Inr r) vs rs"
    using assms(2) by (simp add: each_or_error_Inr_iff)
  then have "list_all2 (\<lambda>r v. artifact_ref_to_json (json_exec_lib codec) r = Inr v) rs vs
      \<and> list_all (\<lambda>r. is_digest (ar_blake3 r)) rs" using assms(1)
    by (induction rule: list_all2_induct) (auto dest: artifact_ref_strict)
  then show ?thesis by (simp add: each_or_error_Inr_iff)
qed

lemma reject_fewer_fields:
  assumes "reject_unknown_fields ks v = None" and "map_of (json_fields v) k = None"
    and "set ks \<subseteq> insert k (set ks')"
  shows "reject_unknown_fields ks' v = None"
proof -
  have "k \<notin> fst ` set (json_fields v)" using assms(2) by (simp add: map_of_eq_None_iff)
  then show ?thesis using assms(1,3) unfolding reject_unknown_fields_def guard_error_None_iff by blast
qed

lemma parse_status_Inr: "parse_status name = Inr st \<Longrightarrow> name = task_status_name st"
  by (auto simp: parse_status_def split: if_splits)

lemma task_result_json_strict:
  assumes "as_parsed v" and "task_result_from_json codec v = Inr result"
  shows "task_result_to_json codec result = Inr v \<and> result_types result
    \<and> validate_task_result (json_exec_lib codec) result = None"
proof -
  let ?f = "map_of (json_fields v)"
  let ?ks = "[''attempt'', ''diagnostics'', ''error'', ''execution'', ''output_digest'', ''outputs'',
        ''schema'', ''status'', ''task_id'']"
  let ?ks' = "[''attempt'', ''diagnostics'', ''execution'', ''output_digest'', ''outputs'',
        ''schema'', ''status'', ''task_id'']"
  obtain attempt outs execution name where R: "is_object v" "reject_unknown_fields ?ks v = None"
    and f: "?f ''schema'' = Some (JString kTaskResultSchema)"
      "?f ''task_id'' = Some (JString (tr_task_id result))"
      "?f ''attempt'' = Some (JUnsigned attempt)" "?f ''status'' = Some (JString name)"
      "?f ''outputs'' = Some (JArray outs)" "?f ''execution'' = Some execution"
      "?f ''diagnostics'' = Some (tr_diagnostics result)"
    and d: "required_blake3_prefixed v ''output_digest'' = Inr (tr_output_digest result)"
    and e: "parse_status name = Inr (tr_status result)"
      "each_or_error artifact_ref_from_json_at outs = Inr (tr_outputs result)"
      "task_execution_from_json_at execution = Inr (tr_execution result)"
      "tr_attempt result = unat attempt"
    and err: "error_member v = Inr (tr_error result)"
    and ok: "validate_task_result (json_exec_lib codec) result = None"
    using assms by (auto simp: task_result_from_json_def and_then_Inr_iff strict_readers required_field_Inr
        require_object_def Let_def split: if_splits)
  note D = required_blake3_prefixed_Inr [OF d]
  note P = as_parsed_field [OF assms(1)]
  have parsed: "list_all as_parsed outs" "as_parsed execution"
    using P [OF f(5)] P [OF f(6)] by simp_all
  note O = outputs_strict [OF parsed(1) e(2)] and X = task_execution_strict [OF parsed(2) e(3)]
    and N = parse_status_Inr [OF e(1)]
  have attempt: "attempt = of_nat (tr_attempt result)" using e(4) by simp
  have "task_result_to_json codec result = Inr v"
  proof (cases "?f ''error''")
    case None
    then have none: "tr_error result = None" using err by (simp add: error_member_def)
    have "reject_unknown_fields ?ks' v = None"
      using R(2) None by (rule reject_fewer_fields) auto
    then have "v = json_object (List.map (\<lambda>k. (k, the (?f k))) ?ks')"
      using D f by (intro object_of_fields [OF assms(1) R(1)]) simp_all
    then show ?thesis using D f ok O X N attempt none by (simp add: task_result_to_json_def)
  next
    case (Some w)
    then obtain x where x: "error_from_json w = Inr x" "is_object w" "tr_error result = Some x"
      using err by (auto simp: error_member_def and_then_Inr_iff required_object_Inr)
    have w: "w = error_to_json x" using error_strict [OF P [OF Some] x(2) x(1)] by simp
    have "v = json_object (List.map (\<lambda>k. (k, the (?f k))) ?ks)"
      using D f Some by (intro object_of_fields [OF assms(1) R]) simp_all
    then have v: "v = JObject (List.map (\<lambda>k. (k, the (?f k))) ?ks)" by (simp add: json_objects)
    show ?thesis using D f ok O X N attempt x w Some
      by (subst v) (simp add: task_result_to_json_def json_objects json_assign_def map_modify_def)
  qed
  then show ?thesis using ok D O X e(4) u64_unat_less [of attempt] by (simp add: result_types_def)
qed

end
