(* ===== verification/FrameFacts.thy ===== *)
theory FrameFacts
  imports Frames TaskJsonFacts
begin

text \<open>
  Facts of the frame codec: the limits, the reference \<open>split_frame\<close> that takes one frame off a
  byte sequence with no state, the decoder and the stream reader as refinements of it, and the
  round trip of encoded frames.
\<close>

subsection \<open>Lengths and limits\<close>

lemma u32_unat_less: "unat (w :: u32) < 2 ^ 32"
proof -
  have "unat w < 2 ^ LENGTH(32)" by (rule unsigned_less)
  then show ?thesis by simp
qed

lemma length_big_endian [simp]: "length (big_endian_u32 n) = 4"
  by (simp add: big_endian_u32_def)

text \<open>A 32-bit value is the OR of its four bytes; \<open>k\<close> stands for the mask \<open>0xFF\<close>.\<close>

lemma four_bytes:
  fixes n k :: u32
  assumes m: "\<And>j. bit k j \<longleftrightarrow> j < 8"
  shows "push_bit 24 (drop_bit 24 n AND k) OR push_bit 16 (drop_bit 16 n AND k)
      OR push_bit 8 (drop_bit 8 n AND k) OR (n AND k) = n"
proof (rule bit_word_eqI)
  fix i assume "i < LENGTH(32)"
  then have i: "i < 32" by simp
  consider "i < 8" | "8 \<le> i" "i < 16" | "16 \<le> i" "i < 24" | "24 \<le> i" using i by linarith
  then show "bit (push_bit 24 (drop_bit 24 n AND k) OR push_bit 16 (drop_bit 16 n AND k)
      OR push_bit 8 (drop_bit 8 n AND k) OR (n AND k)) i = bit n i"
    using i by cases (auto simp: bit_simps m less_diff_conv2)
qed

lemma byte_mask_bit: "bit (255 :: u32) j \<longleftrightarrow> j < 8"
proof -
  have e: "(255 :: u32) = mask 8" by (simp add: mask_eq_exp_minus_1)
  show ?thesis unfolding e by (auto simp: bit_mask_iff)
qed

lemma low_byte:
  fixes w k :: u32
  assumes m: "\<And>j. bit k j \<longleftrightarrow> j < 8"
  shows "(ucast (ucast (w AND k) :: byte) :: u32) = w AND k"
  by (rule bit_word_eqI) (auto simp: bit_simps m)

lemma read_big_endian_append [simp]: "read_big_endian_u32 (big_endian_u32 n @ rest) = n"
proof -
  have "read_big_endian_u32 (big_endian_u32 n @ rest)
      = push_bit 8 (push_bit 8 (push_bit 8 (drop_bit 24 n AND 255) OR (drop_bit 16 n AND 255))
          OR (drop_bit 8 n AND 255)) OR (n AND 255)"
    by (simp add: read_big_endian_u32_def big_endian_u32_def kFrameLengthPrefixBytes_def
        low_byte [OF byte_mask_bit])
  also have "\<dots> = push_bit 24 (drop_bit 24 n AND 255) OR push_bit 16 (drop_bit 16 n AND 255)
      OR push_bit 8 (drop_bit 8 n AND 255) OR (n AND 255)"
    by (simp only: push_bit_or push_bit_push_bit or.assoc numeral_plus_numeral add_num_simps)
  also have "\<dots> = n" by (rule four_bytes [OF byte_mask_bit])
  finally show ?thesis .
qed

lemma check_payload_limits_from_None:
  "check_payload_limits_from limits so_far ps = None \<Longrightarrow> so_far \<le> max_total_payload_bytes limits \<Longrightarrow>
     unat so_far + sum_list (List.map (unat \<circ> pd_bytes) ps) \<le> unat (max_total_payload_bytes limits)
     \<and> list_all (\<lambda>p. pd_bytes p \<le> max_payload_bytes limits) ps
     \<and> unat (foldl (\<lambda>n p. n + pd_bytes p) so_far ps) = unat so_far + sum_list (List.map (unat \<circ> pd_bytes) ps)"
proof (induction limits so_far ps rule: check_payload_limits_from.induct)
  case (2 limits so_far p rest)
  have c: "pd_bytes p \<le> max_payload_bytes limits" "pd_bytes p \<le> max_total_payload_bytes limits - so_far"
    and rest: "check_payload_limits_from limits (so_far + pd_bytes p) rest = None"
    using "2.prems" by (auto split: if_splits)
  have "unat (pd_bytes p) \<le> unat (max_total_payload_bytes limits) - unat so_far"
    using c(2) "2.prems"(2) by (simp add: word_le_nat_alt unat_sub)
  then have le: "unat so_far + unat (pd_bytes p) \<le> unat (max_total_payload_bytes limits)"
    using "2.prems"(2) by (simp add: word_le_nat_alt)
  then have u: "unat (so_far + pd_bytes p) = unat so_far + unat (pd_bytes p)"
    using u64_unat_less [of "max_total_payload_bytes limits"] by (simp add: unat_plus_simple unat_word_ariths)
  have "so_far + pd_bytes p \<le> max_total_payload_bytes limits" using le u by (simp add: word_le_nat_alt)
  from "2.IH" [OF _ _ rest this] c u show ?case using "2.prems" by (auto simp: not_less)
qed (simp add: word_le_nat_alt)

lemma check_payload_limits_from_complete:
  "list_all (\<lambda>p. pd_bytes p \<le> max_payload_bytes limits) ps \<Longrightarrow>
     unat so_far + sum_list (List.map (unat \<circ> pd_bytes) ps) \<le> unat (max_total_payload_bytes limits) \<Longrightarrow>
     check_payload_limits_from limits so_far ps = None"
proof (induction limits so_far ps rule: check_payload_limits_from.induct)
  case (2 limits so_far p rest)
  have le: "unat so_far + unat (pd_bytes p) \<le> unat (max_total_payload_bytes limits)"
    using "2.prems" by simp
  then have so_far: "so_far \<le> max_total_payload_bytes limits" by (simp add: word_le_nat_alt)
  have u: "unat (so_far + pd_bytes p) = unat so_far + unat (pd_bytes p)"
    using le u64_unat_less [of "max_total_payload_bytes limits"] by (simp add: unat_word_ariths)
  have "pd_bytes p \<le> max_total_payload_bytes limits - so_far"
    using le so_far by (simp add: word_le_nat_alt unat_sub)
  then have c: "\<not> pd_bytes p > max_payload_bytes limits"
      "\<not> (so_far > max_total_payload_bytes limits \<or> pd_bytes p > max_total_payload_bytes limits - so_far)"
    using "2.prems" so_far by (auto simp: not_less)
  then show ?case using "2.IH" [OF c] "2.prems" u by simp
qed simp

lemma check_payload_limits_iff:
  "check_payload_limits ps limits = None \<longleftrightarrow>
     list_all (\<lambda>p. pd_bytes p \<le> max_payload_bytes limits) ps
     \<and> sum_list (List.map (unat \<circ> pd_bytes) ps) \<le> unat (max_total_payload_bytes limits)"
  using check_payload_limits_from_None [of limits 0 ps] check_payload_limits_from_complete [of limits ps 0]
  by (auto simp: check_payload_limits_def)

lemma declared_payload_bytes_sum:
  "check_payload_limits ps limits = None \<Longrightarrow>
     unat (declared_payload_bytes ps) = sum_list (List.map (unat \<circ> pd_bytes) ps)"
  using check_payload_limits_from_None [of limits 0 ps]
  by (simp add: check_payload_limits_def declared_payload_bytes_def)


subsection \<open>Splitting one frame off a byte sequence\<close>

text \<open>
  The reference for the decoder: what the bytes from the start of a frame on determine, with no
  state. \<open>None\<close> asks for more bytes.
\<close>

definition header_at ::
  "json_codec \<Rightarrow> frame_limits \<Rightarrow> byte list \<Rightarrow> exec_error_code + (frame_header \<times> nat) option" where
  "header_at codec limits bytes =
     (if length bytes < 4 then Inr None
      else let n = read_big_endian_u32 bytes
      in if n = 0 then Inl frame_malformed
         else if n > max_header_bytes limits then Inl frame_header_too_large
         else if length bytes < 4 + unat n then Inr None
         else and_then (decode_frame_header codec (bytes_string (take (unat n) (drop 4 bytes))) limits)
           (\<lambda>h. Inr (Some (h, 4 + unat n))))"

definition payload_total :: "frame_header \<Rightarrow> nat" where
  "payload_total h = sum_list (List.map (unat \<circ> pd_bytes) (fh_payloads h))"

definition split_frame ::
  "json_codec \<Rightarrow> frame_limits \<Rightarrow> byte list \<Rightarrow> exec_error_code + (frame \<times> nat) option" where
  "split_frame codec limits bytes = and_then (header_at codec limits bytes) (\<lambda>found.
     case found of
       None \<Rightarrow> Inr None
     | Some (h, header_end) \<Rightarrow>
       if length bytes < header_end + payload_total h then Inr None
       else and_then (read_payloads codec bytes header_end (fh_payloads h)) (\<lambda>payloads.
         Inr (Some (\<lparr>fr_type = fh_type h, fr_body = fh_body h, fr_payloads = payloads\<rparr>,
                    header_end + payload_total h))))"

text \<open>Limits whose largest frame a 64-bit size can address; the defaults are far below.\<close>

definition limits_fit :: "frame_limits \<Rightarrow> bool" where
  "limits_fit limits \<longleftrightarrow>
     4 + unat (max_header_bytes limits) + unat (max_total_payload_bytes limits) < 2 ^ 64"

definition decoder_wf :: "json_codec \<Rightarrow> frame_decoder \<Rightarrow> bool" where
  "decoder_wf codec d \<longleftrightarrow> limits_fit (fd_limits d)
     \<and> (case fd_pending_header d of None \<Rightarrow> True
        | Some h \<Rightarrow> header_at codec (fd_limits d) (fd_buffer d) = Inr (Some (h, fd_pending_header_end d)))"

lemma decode_frame_header_limits:
  "decode_frame_header codec text limits = Inr h \<Longrightarrow> check_payload_limits (fh_payloads h) limits = None"
  by (auto simp: decode_frame_header_def frame_header_from_json_def and_then_Inr_iff split: option.splits)

lemma header_at_Some:
  assumes "header_at codec limits bytes = Inr (Some (h, n))"
  shows "4 < n" and "n \<le> length bytes" and "n \<le> 4 + unat (max_header_bytes limits)"
    and "check_payload_limits (fh_payloads h) limits = None"
    and "payload_total h \<le> unat (max_total_payload_bytes limits)"
proof -
  let ?n = "read_big_endian_u32 bytes"
  have a: "?n \<noteq> 0" "\<not> ?n > max_header_bytes limits" "\<not> length bytes < 4 + unat ?n" "n = 4 + unat ?n"
    and d: "decode_frame_header codec (bytes_string (take (unat ?n) (drop 4 bytes))) limits = Inr h"
    using assms by (auto simp: header_at_def Let_def and_then_Inr_iff split: if_splits)
  show "4 < n" "n \<le> length bytes" "n \<le> 4 + unat (max_header_bytes limits)"
    using a by (auto simp: unat_gt_0 not_less word_le_nat_alt)
  show c: "check_payload_limits (fh_payloads h) limits = None" by (rule decode_frame_header_limits [OF d])
  then show "payload_total h \<le> unat (max_total_payload_bytes limits)"
    by (simp add: check_payload_limits_iff payload_total_def)
qed

lemma read_big_endian_prefix:
  "4 \<le> length bytes \<Longrightarrow> read_big_endian_u32 (bytes @ tail) = read_big_endian_u32 bytes"
  by (simp add: read_big_endian_u32_def kFrameLengthPrefixBytes_def)

lemma header_at_append:
  "header_at codec limits bytes \<noteq> Inr None \<Longrightarrow>
     header_at codec limits (bytes @ tail) = header_at codec limits bytes"
  by (auto simp: header_at_def Let_def read_big_endian_prefix not_less split: if_splits)

lemma read_payloads_append:
  "offset + sum_list (List.map (unat \<circ> pd_bytes) ds) \<le> length bytes \<Longrightarrow>
     read_payloads codec (bytes @ tail) offset ds = read_payloads codec bytes offset ds"
  by (induction codec bytes offset ds rule: read_payloads.induct) (auto simp: Let_def)

lemma split_frame_append:
  assumes "split_frame codec limits bytes \<noteq> Inr None"
  shows "split_frame codec limits (bytes @ tail) = split_frame codec limits bytes"
proof -
  have "header_at codec limits bytes \<noteq> Inr None" using assms by (auto simp: split_frame_def)
  note H = header_at_append [OF this, of tail]
  show ?thesis
  proof (cases "header_at codec limits bytes")
    case (Inr found)
    then obtain h n where found: "found = Some (h, n)" using assms by (cases found) (auto simp: split_frame_def)
    have len: "n + payload_total h \<le> length bytes"
      using assms Inr found by (auto simp: split_frame_def split: if_splits)
    then show ?thesis using Inr found H read_payloads_append [of n "fh_payloads h" bytes codec tail]
      by (simp add: split_frame_def payload_total_def)
  qed (use H in \<open>simp add: split_frame_def\<close>)
qed

lemma split_frame_Some:
  assumes "split_frame codec limits bytes = Inr (Some (f, n))"
  shows "4 < n" and "n \<le> length bytes"
proof -
  obtain h e where h: "header_at codec limits bytes = Inr (Some (h, e))" "n = e + payload_total h"
      "\<not> length bytes < n"
    using assms by (auto simp: split_frame_def and_then_Inr_iff split: option.splits if_splits)
  show "4 < n" "n \<le> length bytes" using header_at_Some [OF h(1)] h(2,3) by simp_all
qed

lemma split_frame_bounds:
  "split_frame codec limits bytes = Inr (Some (f, n)) \<Longrightarrow> 4 < n \<and> n \<le> length bytes"
  using split_frame_Some by blast

text \<open>The end of a frame does not wrap around.\<close>

lemma frame_end_exact:
  assumes "header_at codec limits bytes = Inr (Some (h, n))" and "limits_fit limits"
  shows "unat (of_nat n + declared_payload_bytes (fh_payloads h)) = n + payload_total h"
proof -
  note H = header_at_Some [OF assms(1)]
  have p: "unat (declared_payload_bytes (fh_payloads h)) = payload_total h"
    using declared_payload_bytes_sum [OF H(4)] by (simp add: payload_total_def)
  have lt: "n + payload_total h < 2 ^ 64" using H assms(2) by (simp add: limits_fit_def)
  then have "unat (of_nat n :: u64) = n" by (simp add: unat_of_nat)
  then show ?thesis using p lt by (simp add: unat_word_ariths)
qed

lemma parse_pending_header_at:
  assumes "decoder_wf codec d"
  shows "parse_pending codec d = and_then (header_at codec (fd_limits d) (fd_buffer d)) (\<lambda>found.
    case found of None \<Rightarrow> Inr d
    | Some (h, n) \<Rightarrow> Inr (d\<lparr>fd_pending_header := Some h, fd_pending_header_end := n\<rparr>))"
proof (cases "fd_pending_header d")
  case None
  then show ?thesis
    by (cases "decode_frame_header codec (bytes_string (take (unat (read_big_endian_u32 (fd_buffer d)))
          (drop 4 (fd_buffer d)))) (fd_limits d)")
      (auto simp: parse_pending_def header_at_def Let_def kFrameLengthPrefixBytes_def)
next
  case (Some h)
  then show ?thesis using assms by (simp add: parse_pending_def decoder_wf_def)
qed

text \<open>On a well-formed decoder, \<open>next_unchecked\<close> is \<open>split_frame\<close> of its buffer.\<close>

lemma next_unchecked_split:
  assumes wf: "decoder_wf codec d"
  shows "case split_frame codec (fd_limits d) (fd_buffer d) of
      Inl e \<Rightarrow> next_unchecked codec d = Inl e
    | Inr None \<Rightarrow> (\<exists>d'. next_unchecked codec d = Inr (None, d') \<and> decoder_wf codec d'
        \<and> fd_buffer d' = fd_buffer d \<and> fd_limits d' = fd_limits d \<and> fd_failed d' = fd_failed d)
    | Inr (Some (f, n)) \<Rightarrow> (\<exists>d'. next_unchecked codec d = Inr (Some f, d') \<and> decoder_wf codec d'
        \<and> fd_buffer d' = drop n (fd_buffer d) \<and> fd_limits d' = fd_limits d \<and> fd_failed d' = fd_failed d)"
proof -
  note P = parse_pending_header_at [OF wf]
  have fit: "limits_fit (fd_limits d)" using wf by (simp add: decoder_wf_def)
  show ?thesis
  proof (cases "header_at codec (fd_limits d) (fd_buffer d)")
    case (Inl e)
    then show ?thesis using P by (simp add: split_frame_def next_unchecked_def)
  next
    case (Inr found)
    show ?thesis
    proof (cases found)
      case None
      then have "fd_pending_header d = None"
        using wf Inr by (auto simp: decoder_wf_def split: option.splits)
      then show ?thesis using P Inr None wf by (simp add: split_frame_def next_unchecked_def)
    next
      case (Some p)
      obtain h n where p: "p = (h, n)" by fastforce
      have head: "header_at codec (fd_limits d) (fd_buffer d) = Inr (Some (h, n))" using Inr Some p by simp
      note E = frame_end_exact [OF head fit]
      have "decoder_wf codec (d\<lparr>fd_pending_header := Some h, fd_pending_header_end := n\<rparr>)"
        using head fit by (simp add: decoder_wf_def)
      then show ?thesis using P head E fit
        by (cases "read_payloads codec (fd_buffer d) n (fh_payloads h)")
          (auto simp: split_frame_def next_unchecked_def Let_def decoder_wf_def)
    qed
  qed
qed


subsection \<open>A whole stream\<close>

text \<open>What a stream of bytes holds: its frames, and why it does not continue.\<close>

function parse_all ::
  "json_codec \<Rightarrow> frame_limits \<Rightarrow> byte list \<Rightarrow> frame list \<times> exec_error_code option" where
  "parse_all codec limits bytes =
     (case split_frame codec limits bytes of
        Inl e \<Rightarrow> ([], Some e)
      | Inr None \<Rightarrow> ([], if bytes = [] then None else Some frame_truncated)
      | Inr (Some (f, n)) \<Rightarrow>
          (let (fs, e) = parse_all codec limits (drop n bytes) in (f # fs, e)))"
  by pat_completeness auto
termination
  by (relation "measure (\<lambda>(codec, limits, bytes). length bytes)") (auto dest!: split_frame_bounds)

declare parse_all.simps [simp del]

lemma split_frame_Nil [simp]: "split_frame codec limits [] = Inr None"
  by (simp add: split_frame_def header_at_def)

definition reader_ok :: "json_codec \<Rightarrow> frame_limits \<Rightarrow> byte list list \<Rightarrow> frame_decoder \<Rightarrow> bool" where
  "reader_ok codec limits chunks d \<longleftrightarrow> decoder_wf codec d \<and> fd_limits d = limits \<and> \<not> fd_failed d
     \<and> list_all (\<lambda>chunk. chunk \<noteq> []) chunks"

lemma decoder_wf_feed:
  "decoder_wf codec d \<Longrightarrow> decoder_wf codec (d\<lparr>fd_buffer := fd_buffer d @ bytes\<rparr>)"
  by (auto simp: decoder_wf_def header_at_append split: option.splits)

text \<open>One \<open>read\<close> returns what splitting all the remaining bytes gives, however they are chunked.\<close>

lemma read_frame_split:
  assumes "reader_ok codec limits chunks d"
  shows "case split_frame codec limits (fd_buffer d @ concat chunks) of
      Inl e \<Rightarrow> fst (read_frame codec chunks d) = Inl e
    | Inr None \<Rightarrow> fst (read_frame codec chunks d)
        = (if fd_buffer d @ concat chunks = [] then Inr None else Inl frame_truncated)
    | Inr (Some (f, n)) \<Rightarrow> (\<exists>chunks' d'. read_frame codec chunks d = (Inr (Some f), chunks', d')
        \<and> reader_ok codec limits chunks' d'
        \<and> fd_buffer d' @ concat chunks' = drop n (fd_buffer d @ concat chunks))"
  using assms
proof (induction chunks arbitrary: d)
  case Nil
  then have ok: "decoder_wf codec d" "fd_limits d = limits" "\<not> fd_failed d" by (simp_all add: reader_ok_def)
  note N = next_unchecked_split [OF ok(1)]
  show ?case using N ok
    by (auto simp: decoder_next_def decoder_finish_def reader_ok_def split: sum.splits option.splits prod.splits)
next
  case (Cons chunk chunks)
  then have ok: "decoder_wf codec d" "fd_limits d = limits" "\<not> fd_failed d"
    and chunks: "chunk \<noteq> []" "list_all (\<lambda>chunk. chunk \<noteq> []) chunks" by (simp_all add: reader_ok_def)
  note N = next_unchecked_split [OF ok(1), unfolded ok(2)]
  show ?case
  proof (cases "split_frame codec limits (fd_buffer d)")
    case (Inl e)
    then have "split_frame codec limits (fd_buffer d @ concat (chunk # chunks)) = Inl e"
      using split_frame_append [of codec limits "fd_buffer d"] by simp
    then show ?thesis using N Inl ok by (simp add: decoder_next_def)
  next
    case (Inr found)
    show ?thesis
    proof (cases found)
      case None
      then obtain d' where d': "next_unchecked codec d = Inr (None, d')" "decoder_wf codec d'"
          "fd_buffer d' = fd_buffer d" "fd_limits d' = limits" "fd_failed d' = fd_failed d"
        using N Inr ok by auto
      let ?d = "d'\<lparr>fd_buffer := fd_buffer d' @ chunk\<rparr>"
      have "reader_ok codec limits chunks ?d"
        using d' ok chunks decoder_wf_feed [OF d'(2), of chunk] by (simp add: reader_ok_def)
      note IH = Cons.IH [OF this]
      have step: "read_frame codec (chunk # chunks) d = read_frame codec chunks ?d"
        using d' ok by (simp add: decoder_next_def decoder_feed_def)
      have eq: "fd_buffer ?d @ concat chunks = fd_buffer d @ concat (chunk # chunks)"
        using d'(3) by simp
      show ?thesis using IH by (simp only: eq step)
    next
      case (Some p)
      obtain f n where p: "p = (f, n)" by fastforce
      have here: "split_frame codec limits (fd_buffer d) = Inr (Some (f, n))" using Inr Some p by simp
      then have all: "split_frame codec limits (fd_buffer d @ concat (chunk # chunks)) = Inr (Some (f, n))"
        using split_frame_append [of codec limits "fd_buffer d"] by simp
      have n: "n \<le> length (fd_buffer d)" using split_frame_Some [OF here] by simp
      obtain d' where d': "next_unchecked codec d = Inr (Some f, d')" "decoder_wf codec d'"
          "fd_buffer d' = drop n (fd_buffer d)" "fd_limits d' = limits" "fd_failed d' = fd_failed d"
        using N here ok by auto
      then have "reader_ok codec limits (chunk # chunks) d'" using ok chunks by (simp add: reader_ok_def)
      moreover have "read_frame codec (chunk # chunks) d = (Inr (Some f), chunk # chunks, d')"
        using d'(1) ok by (simp add: decoder_next_def)
      ultimately show ?thesis using all d'(3) n by simp
    qed
  qed
qed

lemma read_all_parse_all:
  "reader_ok codec limits chunks d \<Longrightarrow> length (fd_buffer d @ concat chunks) < fuel \<Longrightarrow>
     read_all fuel codec chunks d = Some (parse_all codec limits (fd_buffer d @ concat chunks))"
proof (induction fuel arbitrary: chunks d)
  case (Suc fuel)
  let ?bytes = "fd_buffer d @ concat chunks"
  note R = read_frame_split [OF Suc.prems(1)]
  show ?case
  proof (cases "split_frame codec limits ?bytes")
    case (Inl e)
    then show ?thesis using R
      by (cases "read_frame codec chunks d") (simp add: parse_all.simps [of codec limits ?bytes])
  next
    case (Inr found)
    show ?thesis
    proof (cases found)
      case None
      then show ?thesis using R Inr
        by (cases "read_frame codec chunks d") (auto simp: parse_all.simps [of codec limits ?bytes])
    next
      case (Some p)
      obtain f n where p: "p = (f, n)" by fastforce
      have here: "split_frame codec limits ?bytes = Inr (Some (f, n))" using Inr Some p by simp
      obtain chunks' d' where next': "read_frame codec chunks d = (Inr (Some f), chunks', d')"
          "reader_ok codec limits chunks' d'" "fd_buffer d' @ concat chunks' = drop n ?bytes"
        using R here by auto
      have "length (drop n ?bytes) < fuel" using split_frame_Some [OF here] Suc.prems(2) by auto
      then have "read_all fuel codec chunks' d' = Some (parse_all codec limits (drop n ?bytes))"
        using Suc.IH [OF next'(2)] next'(3) by simp
      then show ?thesis using next'(1) here
        by (simp add: parse_all.simps [of codec limits ?bytes] case_prod_beta' Let_def)
    qed
  qed
qed simp

lemma reader_ok_new:
  "limits_fit limits \<Longrightarrow> list_all (\<lambda>chunk. chunk \<noteq> []) chunks \<Longrightarrow>
     reader_ok codec limits chunks (new_frame_decoder limits)"
  by (simp add: reader_ok_def decoder_wf_def new_frame_decoder_def)

subsection \<open>Encoded frames\<close>

lemma declaration_object [json_objects]:
  "json_object [(''blake3'', a), (''bytes'', b)] = JObject [(''blake3'', a), (''bytes'', b)]"
  by (rule json_object_sorted) (simp add: map_wf_def)

lemma header_object [json_objects]:
  "json_object [(''body'', a), (''payloads'', b), (''type'', c)] = JObject [(''body'', a), (''payloads'', b), (''type'', c)]"
  by (rule json_object_sorted) (simp add: map_wf_def)

lemma declaration_roundtrip:
  "is_digest (pd_blake3 p) \<Longrightarrow> declaration_from_json (declaration_to_json p) = Inr p"
  by (cases p) (simp add: declaration_from_json_def declaration_to_json_def field_readers
      reject_unknown_fields_def json_objects)

lemma frame_header_roundtrip:
  assumes "is_object (fh_body h)" and "list_all (\<lambda>p. is_digest (pd_blake3 p)) (fh_payloads h)"
    and "check_payload_limits (fh_payloads h) limits = None"
  shows "frame_header_from_json limits (frame_header_to_json h) = Inr h"
  using assms each_or_error_inverse [of "fh_payloads h" declaration_from_json declaration_to_json]
    parse_message_type_Some [of "message_type_name (fh_type h)" "fh_type h"]
  by (cases h) (simp add: frame_header_from_json_def frame_header_to_json_def field_readers
      reject_unknown_fields_def json_objects declaration_roundtrip list_all_iff)

lemma read_payloads_concat:
  assumes "list_all (\<lambda>p. length p < 2 ^ 64) ps"
  shows "read_payloads codec (front @ concat ps @ tail) (length front)
      (List.map (\<lambda>p. \<lparr>pd_bytes = of_nat (length p), pd_blake3 = jc_blake3 codec p\<rparr>) ps) = Inr ps"
  using assms
proof (induction ps arbitrary: front)
  case (Cons p ps)
  have len: "unat (of_nat (length p) :: u64) = length p" using Cons.prems by (simp add: unat_of_nat)
  have "read_payloads codec ((front @ p) @ concat ps @ tail) (length (front @ p))
      (List.map (\<lambda>p. \<lparr>pd_bytes = of_nat (length p), pd_blake3 = jc_blake3 codec p\<rparr>) ps) = Inr ps"
    using Cons by (intro Cons.IH) simp
  then show ?case using len by simp
qed simp

lemma encode_frame_split:
  assumes enc: "encode_frame codec f limits = Inr bytes"
    and law: "\<And>v t. jc_dump codec v = Some t \<Longrightarrow> t \<noteq> []"
    and reads: "\<And>t. encode_canonical_json codec (frame_header_to_json (header_of_frame codec f)) = Inr t
        \<Longrightarrow> decode_canonical_json codec t = Inr (frame_header_to_json (header_of_frame codec f))"
    and digests: "\<And>bs. is_digest (jc_blake3 codec bs)"
    and sizes: "list_all (\<lambda>p. length p < 2 ^ 64) (fr_payloads f)"
  shows "split_frame codec limits (bytes @ tail) = Inr (Some (f, length bytes))" and "bytes \<noteq> []"
proof -
  let ?h = "header_of_frame codec f"
  obtain t where t: "encode_canonical_json codec (frame_header_to_json ?h) = Inr t"
    and h: "is_object (fh_body ?h)" "check_payload_limits (fh_payloads ?h) limits = None"
      "length t \<le> unat (max_header_bytes limits)"
    and bytes: "bytes = big_endian_u32 (of_nat (length t)) @ string_bytes t @ concat (fr_payloads f)"
    using enc by (auto simp: encode_frame_def encode_frame_header_def and_then_Inr_iff split: if_splits)
  show "bytes \<noteq> []" using bytes by (metis append_is_Nil_conv length_big_endian list.size(3) zero_neq_numeral)
  have ne: "t \<noteq> []" using t law by (auto simp: encode_canonical_json_def split: option.splits)
  have lt: "length t < 2 ^ 32" using h(3) u32_unat_less [of "max_header_bytes limits"] by simp
  let ?n = "of_nat (length t) :: u32"
  have n: "unat ?n = length t" using lt by (simp add: unat_of_nat)
  then have n': "?n \<noteq> 0" "\<not> ?n > max_header_bytes limits"
    using ne h(3) by (auto simp: word_less_nat_alt unat_eq_0 [symmetric])
  have "decode_frame_header codec t limits = Inr ?h"
    using reads [OF t] frame_header_roundtrip [OF h(1) _ h(2)] digests
    by (simp add: decode_frame_header_def header_of_frame_def list_all_iff)
  then have head: "header_at codec limits (bytes @ tail) = Inr (Some (?h, 4 + length t))"
    using n n' by (simp add: header_at_def bytes Let_def)
  have total: "payload_total ?h = length (concat (fr_payloads f))"
    using sizes by (induction "fr_payloads f" arbitrary: f)
      (auto simp: payload_total_def header_of_frame_def length_concat comp_def unat_of_nat list_all_iff
        intro!: arg_cong [where f = sum_list])
  have "read_payloads codec ((big_endian_u32 ?n @ string_bytes t) @ concat (fr_payloads f) @ tail)
      (length (big_endian_u32 ?n @ string_bytes t))
      (List.map (\<lambda>p. \<lparr>pd_bytes = of_nat (length p), pd_blake3 = jc_blake3 codec p\<rparr>) (fr_payloads f))
      = Inr (fr_payloads f)" by (rule read_payloads_concat [OF sizes])
  then have pay: "read_payloads codec (bytes @ tail) (4 + length t) (fh_payloads ?h) = Inr (fr_payloads f)"
    by (simp add: bytes header_of_frame_def)
  show "split_frame codec limits (bytes @ tail) = Inr (Some (f, length bytes))"
    using head pay total by (cases f) (simp add: split_frame_def bytes header_of_frame_def)
qed

end
