(* ===== verification/JsonProps.thy ===== *)
theory JsonProps
  imports TaskJsonFacts
begin

text \<open>
  The text forms of task specifications and results: what is encoded decodes to the same record,
  and a text that decodes is the canonical encoding of its record. Each holds for any codec that
  reads back what it writes, and builds values the way \<open>nlohmann::json::parse\<close> documents.
\<close>

definition reads_back :: "json_codec \<Rightarrow> json \<Rightarrow> bool" where
  "reads_back codec v \<longleftrightarrow> (case jc_dump codec v of None \<Rightarrow> True
     | Some t \<Rightarrow> jc_parse codec t = Some v \<and> require_bounded_depth t = None)"

definition builds_maps :: "json_codec \<Rightarrow> string \<Rightarrow> bool" where
  "builds_maps codec t \<longleftrightarrow> (case jc_parse codec t of None \<Rightarrow> True | Some v \<Rightarrow> as_parsed v)"

lemma decode_encoded:
  "encode_canonical_json codec v = Inr t \<Longrightarrow> reads_back codec v \<Longrightarrow> decode_canonical_json codec t = Inr v"
  by (auto simp: decode_canonical_json_Inr reads_back_def) (auto simp: encode_canonical_json_def split: option.splits)

lemma decoded_parsed:
  "decode_canonical_json codec t = Inr v \<Longrightarrow> builds_maps codec t \<Longrightarrow> as_parsed v \<and> encode_canonical_json codec v = Inr t"
  by (auto simp: decode_canonical_json_Inr builds_maps_def)

subsection \<open>A codec for one document\<close>

definition digest_of :: "byte list \<Rightarrow> digest" where
  "digest_of bs = take 32 (bs @ replicate 32 0)"

definition sample_codec :: "json \<Rightarrow> json_codec" where
  "sample_codec document =
     \<lparr>jc_dump = \<lambda>v. Some (if v = document then ''{1}'' else ''{}''),
      jc_parse = \<lambda>t. if t = ''{1}'' then Some document else if t = ''{}'' then Some (JObject []) else None,
      jc_blake3 = digest_of\<rparr>"

definition json_spec :: "json task_spec" where
  "json_spec =
     \<lparr>ts_build_session_id = ''s'', ts_task_id = ''a'', ts_task_type = ''t'', ts_task_type_version = 1,
      ts_depends_on = [''b''], ts_model_refs = [],
      ts_inputs = [(''video'', \<lparr>ar_blake3 = digest_of [1], ar_bytes = 5, ar_media_type = ''video/mp4'', ar_role = ''source''\<rparr>)],
      ts_parameters = JObject [], ts_parameters_blake3 = digest_of (string_bytes ''{}''),
      ts_cache_key = digest_of [2],
      ts_resources = \<lparr>est_peak_rss_mb = 10, est_cpu_threads = 1, est_seconds = 3\<rparr>\<rparr>"

definition spec_document :: json where
  "spec_document = (case task_spec_to_json (sample_codec JNull) json_spec of Inr v \<Rightarrow> v | Inl _ \<Rightarrow> JNull)"

definition json_result :: "json task_result" where
  "json_result =
     \<lparr>tr_task_id = ''a'', tr_attempt = 1, tr_status = task_failed, tr_outputs = [],
      tr_output_digest = digest_of (string_bytes ''{}''),
      tr_execution = \<lparr>tx_worker_session_id = ''w'', tx_runtime_id = digest_of [3],
        tx_timing_ms = \<lparr>tm_queue = 1, tm_input_fetch = 2, tm_decode = 3, tm_compute = 4, tm_encode = 5\<rparr>,
        tx_cpu_ms = \<lparr>tc_user = 6, tc_system = 7\<rparr>, tx_peak_rss_bytes = 8\<rparr>,
      tr_diagnostics = JObject [], tr_error = Some \<lparr>te_code = ''oom'', te_message = ''m'', te_retryable = True\<rparr>\<rparr>"

definition result_document :: json where
  "result_document = (case task_result_to_json (sample_codec JNull) json_result of Inr v \<Rightarrow> v | Inl _ \<Rightarrow> JNull)"

subsection \<open>Properties\<close>

text \<open>C20: A task specification survives its encoding: whenever a specification encodes, decoding
  the bytes gives the same specification.\<close>

theorem task_spec_text_roundtrip:
  assumes "encode_task_spec codec spec = Inr bytes" and "spec_types spec"
    and "\<And>v. task_spec_to_json codec spec = Inr v \<Longrightarrow> reads_back codec v"
  shows "decode_task_spec codec bytes = Inr spec"
proof -
  obtain v where v: "task_spec_to_json codec spec = Inr v" "encode_canonical_json codec v = Inr bytes"
    using assms(1) by (auto simp: encode_task_spec_def and_then_Inr_iff)
  have "validate_task_spec (json_exec_lib codec) spec = None"
    using v(1) by (auto simp: task_spec_to_json_def and_then_Inr_iff)
  from task_spec_json_roundtrip [OF this assms(2)] show ?thesis
    using decode_encoded [OF v(2) assms(3) [OF v(1)]] v(1) by (simp add: decode_task_spec_def)
qed

theorem task_spec_text_roundtrip_witness:
  "decode_task_spec (sample_codec spec_document) ''{1}'' = Inr json_spec"
proof (rule task_spec_text_roundtrip)
  show "encode_task_spec (sample_codec spec_document) json_spec = Inr ''{1}''" by code_simp
  show "spec_types json_spec" by code_simp
  have doc: "task_spec_to_json (sample_codec spec_document) json_spec = Inr spec_document" by code_simp
  have "reads_back (sample_codec spec_document) spec_document" by code_simp
  then show "reads_back (sample_codec spec_document) v"
    if "task_spec_to_json (sample_codec spec_document) json_spec = Inr v" for v
    using that doc by simp
qed

text \<open>Only canonical specifications decode: a text that decodes to a specification is exactly
  the encoding of that specification, and the specification is valid.\<close>

theorem task_spec_decoding_is_canonical:
  assumes "decode_task_spec codec bytes = Inr spec" and "builds_maps codec bytes"
  shows "encode_task_spec codec spec = Inr bytes
    \<and> validate_task_spec (json_exec_lib codec) spec = None \<and> spec_types spec"
proof -
  obtain v where v: "decode_canonical_json codec bytes = Inr v" "task_spec_from_json codec v = Inr spec"
    using assms(1) by (auto simp: decode_task_spec_def and_then_Inr_iff)
  note D = decoded_parsed [OF v(1) assms(2)]
  show ?thesis using task_spec_json_strict [of v codec spec] D v(2) by (simp add: encode_task_spec_def)
qed

theorem task_spec_decoding_is_canonical_witness:
  "encode_task_spec (sample_codec spec_document) json_spec = Inr ''{1}''"
proof -
  have "decode_task_spec (sample_codec spec_document) ''{1}'' = Inr json_spec" by code_simp
  moreover have "builds_maps (sample_codec spec_document) ''{1}''" by code_simp
  ultimately show ?thesis using task_spec_decoding_is_canonical by blast
qed

text \<open>A task result survives its encoding, its error included.\<close>

theorem task_result_text_roundtrip:
  assumes "encode_task_result codec result = Inr bytes" and "result_types result"
    and "\<And>v. task_result_to_json codec result = Inr v \<Longrightarrow> reads_back codec v"
  shows "decode_task_result codec bytes = Inr result"
proof -
  obtain v where v: "task_result_to_json codec result = Inr v" "encode_canonical_json codec v = Inr bytes"
    using assms(1) by (auto simp: encode_task_result_def and_then_Inr_iff)
  have "validate_task_result (json_exec_lib codec) result = None"
    using v(1) by (auto simp: task_result_to_json_def and_then_Inr_iff)
  from task_result_json_roundtrip [OF this assms(2)] show ?thesis
    using decode_encoded [OF v(2) assms(3) [OF v(1)]] v(1) by (simp add: decode_task_result_def)
qed

theorem task_result_text_roundtrip_witness:
  "decode_task_result (sample_codec result_document) ''{1}'' = Inr json_result"
proof (rule task_result_text_roundtrip)
  show "encode_task_result (sample_codec result_document) json_result = Inr ''{1}''" by code_simp
  show "result_types json_result"
    by (simp add: result_types_def json_result_def is_digest_def digest_of_def kBlake3DigestBytes_def)
  have doc: "task_result_to_json (sample_codec result_document) json_result = Inr result_document" by code_simp
  have "reads_back (sample_codec result_document) result_document" by code_simp
  then show "reads_back (sample_codec result_document) v"
    if "task_result_to_json (sample_codec result_document) json_result = Inr v" for v
    using that doc by simp
qed

text \<open>Only canonical results decode: a text that decodes to a result is exactly the encoding
  of that result, whose outputs match its output digest and whose error is present exactly when it
  failed.\<close>

theorem task_result_decoding_is_canonical:
  assumes "decode_task_result codec bytes = Inr result" and "builds_maps codec bytes"
  shows "encode_task_result codec result = Inr bytes \<and> result_types result
    \<and> compute_output_digest (json_exec_lib codec) (tr_outputs result) = Inr (tr_output_digest result)
    \<and> (tr_error result = None \<longleftrightarrow> tr_status result = task_succeeded)"
proof -
  obtain v where v: "decode_canonical_json codec bytes = Inr v" "task_result_from_json codec v = Inr result"
    using assms(1) by (auto simp: decode_task_result_def and_then_Inr_iff)
  note D = decoded_parsed [OF v(1) assms(2)]
  note S = task_result_json_strict [of v codec result]
  have ok: "validate_task_result (json_exec_lib codec) result = None" using S D v(2) by simp
  show ?thesis using S D v(2) validate_task_result_digest [OF ok] validate_task_result_status [OF ok]
    by (simp add: encode_task_result_def)
qed

theorem task_result_decoding_is_canonical_witness:
  "encode_task_result (sample_codec result_document) json_result = Inr ''{1}''"
proof -
  have "decode_task_result (sample_codec result_document) ''{1}'' = Inr json_result" by code_simp
  moreover have "builds_maps (sample_codec result_document) ''{1}''" by code_simp
  ultimately show ?thesis using task_result_decoding_is_canonical by blast
qed

end
