(* ===== verification/FrameProps.thy ===== *)
theory FrameProps
  imports FrameFacts JsonProps
begin

text \<open>
  Properties of the frame protocol: what is written is read, however the stream is cut into
  chunks; the limits; the memory a decoder holds; and that an error is final.
\<close>

subsection \<open>Reachable decoders\<close>

inductive decoder_reachable :: "json_codec \<Rightarrow> frame_limits \<Rightarrow> frame_decoder \<Rightarrow> bool"
  for codec limits where
  new: "decoder_reachable codec limits (new_frame_decoder limits)"
| feed: "decoder_reachable codec limits d \<Longrightarrow> decoder_feed bytes d = Inr d' \<Longrightarrow> decoder_reachable codec limits d'"
| next_frame: "decoder_reachable codec limits d \<Longrightarrow> decoder_next codec d = (result, d') \<Longrightarrow>
    decoder_reachable codec limits d'"
| finish: "decoder_reachable codec limits d \<Longrightarrow> decoder_finish d = (result, d') \<Longrightarrow>
    decoder_reachable codec limits d'"

lemma next_unchecked_wf:
  assumes "decoder_wf codec d" and "next_unchecked codec d = Inr (f, d')"
  shows "decoder_wf codec d' \<and> fd_limits d' = fd_limits d"
  using next_unchecked_split [OF assms(1)] assms(2) by (auto split: sum.splits option.splits prod.splits)

lemma decoder_wf_failed [simp]: "decoder_wf codec (d\<lparr>fd_failed := failed\<rparr>) = decoder_wf codec d"
  by (cases "fd_pending_header d") (simp_all add: decoder_wf_def)

lemma decoder_reachable_wf:
  "decoder_reachable codec limits d \<Longrightarrow> limits_fit limits \<Longrightarrow> decoder_wf codec d \<and> fd_limits d = limits"
proof (induction rule: decoder_reachable.induct)
  case new
  then show ?case by (simp add: decoder_wf_def new_frame_decoder_def)
next
  case (feed d bytes d')
  then show ?case using decoder_wf_feed [of codec d bytes] by (auto simp: decoder_feed_def split: if_splits)
next
  case (next_frame d result d')
  then have wf: "decoder_wf codec d" "fd_limits d = limits" by simp_all
  show ?case
  proof (cases "fd_failed d")
    case True
    then show ?thesis using next_frame.hyps(2) wf by (simp add: decoder_next_def)
  next
    case False
    then show ?thesis using next_frame.hyps(2) wf next_unchecked_wf [OF wf(1)]
      by (cases "next_unchecked codec d") (auto simp: decoder_next_def)
  qed
next
  case (finish d result d')
  then show ?case by (auto simp: decoder_finish_def split: if_splits)
qed

lemma waiting_buffer_bound:
  assumes "split_frame codec limits bytes = Inr None"
  shows "length bytes < 4 + unat (max_header_bytes limits) + unat (max_total_payload_bytes limits)
    \<or> length bytes < 4"
proof (cases "header_at codec limits bytes")
  case (Inr found)
  show ?thesis
  proof (cases found)
    case None
    then show ?thesis using Inr
      by (auto simp: header_at_def Let_def word_le_nat_alt not_less and_then_Inr_iff split: if_splits)
  next
    case (Some p)
    obtain h n where p: "p = (h, n)" by fastforce
    then have "length bytes < n + payload_total h"
      using assms Inr Some by (auto simp: split_frame_def and_then_Inr_iff split: if_splits)
    then show ?thesis using header_at_Some [of codec limits bytes h n] Inr Some p by simp
  qed
qed (use assms in \<open>simp add: split_frame_def\<close>)

subsection \<open>A codec and two frames\<close>

definition frame_codec :: "json \<Rightarrow> json \<Rightarrow> json_codec" where
  "frame_codec one two =
     \<lparr>jc_dump = \<lambda>v. Some (if v = one then ''{1}'' else if v = two then ''{2}'' else ''{}''),
      jc_parse = \<lambda>t. if t = ''{1}'' then Some one else if t = ''{2}'' then Some two else None,
      jc_blake3 = digest_of\<rparr>"

definition sample_frames :: "frame list" where
  "sample_frames =
     [\<lparr>fr_type = msg_assign, fr_body = JObject [], fr_payloads = [[1, 2, 3], []]\<rparr>,
      \<lparr>fr_type = msg_drain, fr_body = JObject [], fr_payloads = []\<rparr>]"

definition header_document :: "frame \<Rightarrow> json" where
  "header_document f = frame_header_to_json (header_of_frame (frame_codec JNull JNull) f)"

definition small_limits :: frame_limits where
  "small_limits = \<lparr>max_header_bytes = 16, max_payload_bytes = 16, max_total_payload_bytes = 32\<rparr>"

definition two_codec :: json_codec where
  "two_codec = frame_codec (header_document (sample_frames ! 0)) (header_document (sample_frames ! 1))"

definition sample_encoded :: "byte list list" where
  "sample_encoded = [[0, 0, 0, 3, 123, 49, 125, 1, 2, 3], [0, 0, 0, 3, 123, 50, 125]]"

lemma is_digest_digest_of [simp]: "is_digest (digest_of bs)"
  by (simp add: is_digest_def digest_of_def kBlake3DigestBytes_def)

lemma two_codec_laws:
  "jc_dump two_codec v = Some t \<Longrightarrow> t \<noteq> []" "is_digest (jc_blake3 two_codec bs)"
  by (auto simp: two_codec_def frame_codec_def split: if_splits)

lemma sample_encodes:
  "list_all2 (\<lambda>f bytes. encode_frame two_codec f small_limits = Inr bytes) sample_frames sample_encoded"
  by code_simp

subsection \<open>Properties\<close>

text \<open>C16: Frames survive the stream. Encode any frames, put their bytes on a stream, cut it into
  chunks anywhere, inside a length prefix, a header or a payload: the reader returns exactly the
  frames, in order, and then the clean end of the stream.\<close>

theorem stream_reads_back:
  assumes "list_all2 (\<lambda>f bytes. encode_frame codec f limits = Inr bytes) frames encoded"
    and "concat chunks = concat encoded" and "list_all (\<lambda>chunk. chunk \<noteq> []) chunks"
    and "limits_fit limits"
    and "\<And>v t. jc_dump codec v = Some t \<Longrightarrow> t \<noteq> []"
    and "\<And>f. f \<in> set frames \<Longrightarrow> reads_back codec (frame_header_to_json (header_of_frame codec f))"
    and "\<And>bs. is_digest (jc_blake3 codec bs)"
    and "list_all (\<lambda>f. list_all (\<lambda>p. length p < 2 ^ 64) (fr_payloads f)) frames"
  shows "read_all (length (concat chunks) + 1) codec chunks (new_frame_decoder limits) = Some (frames, None)"
proof -
  have "parse_all codec limits (concat encoded) = (frames, None)" using assms(1,6,8)
  proof (induction rule: list_all2_induct)
    case Nil
    then show ?case by (simp add: parse_all.simps [of codec limits "[]"])
  next
    case (Cons f fs bytes bs)
    have "decode_canonical_json codec t = Inr (frame_header_to_json (header_of_frame codec f))"
      if "encode_canonical_json codec (frame_header_to_json (header_of_frame codec f)) = Inr t" for t
      using decode_encoded [OF that] Cons.prems(1) by simp
    from encode_frame_split [OF Cons.hyps(1) assms(5) this assms(7)]
    have "split_frame codec limits (bytes @ concat bs) = Inr (Some (f, length bytes))"
      using Cons.prems(2) by simp
    then show ?case using Cons by (simp add: parse_all.simps [of codec limits "bytes @ concat bs"])
  qed
  moreover have "reader_ok codec limits chunks (new_frame_decoder limits)"
    by (rule reader_ok_new [OF assms(4,3)])
  ultimately show ?thesis
    using read_all_parse_all [of codec limits chunks "new_frame_decoder limits"] assms(2)
    by (simp add: new_frame_decoder_def del: read_all.simps)
qed

theorem stream_reads_back_witness:
  "read_all 18 two_codec [[0, 0], [0, 3, 123, 49, 125, 1], [2, 3, 0, 0, 0, 3, 123, 50, 125]]
     (new_frame_decoder small_limits) = Some (sample_frames, None)"
proof -
  let ?chunks = "[[0, 0], [0, 3, 123, 49, 125, 1], [2, 3, 0, 0, 0, 3, 123, 50, 125]] :: byte list list"
  have "read_all (length (concat ?chunks) + 1) two_codec ?chunks (new_frame_decoder small_limits)
      = Some (sample_frames, None)"
  proof (rule stream_reads_back [OF sample_encodes])
    show "concat ?chunks = concat sample_encoded" by (simp add: sample_encoded_def)
    show "limits_fit small_limits" by (simp add: limits_fit_def small_limits_def)
    have "list_all (\<lambda>f. reads_back two_codec (frame_header_to_json (header_of_frame two_codec f))) sample_frames"
      by code_simp
    then show "reads_back two_codec (frame_header_to_json (header_of_frame two_codec f))"
      if "f \<in> set sample_frames" for f using that by (simp add: list_all_iff)
    show "list_all (\<lambda>f. list_all (\<lambda>p. length p < 2 ^ 64) (fr_payloads f)) sample_frames"
      by (simp add: sample_frames_def)
  qed (use two_codec_laws in auto)
  moreover have "length (concat ?chunks) + 1 = 18" by simp
  ultimately show ?thesis by (simp only:)
qed

text \<open>C17: Chunk boundaries are invisible: what a reader returns from a stream, frames and error
  alike, is the stateless parse of all its bytes, and so the same for every way to cut the same
  bytes into chunks.\<close>

theorem chunking_is_invisible:
  assumes "limits_fit limits" and "list_all (\<lambda>chunk. chunk \<noteq> []) chunks"
    and "length (concat chunks) < fuel"
  shows "read_all fuel codec chunks (new_frame_decoder limits) = Some (parse_all codec limits (concat chunks))"
  using read_all_parse_all [OF reader_ok_new [OF assms(1,2)], of fuel codec] assms(3)
  by (simp add: new_frame_decoder_def)

theorem chunking_is_invisible_witness:
  "read_all 3 two_codec [[0], [0]] (new_frame_decoder small_limits)
     = Some (parse_all two_codec small_limits [0, 0])"
proof -
  have "limits_fit small_limits" by (simp add: limits_fit_def small_limits_def)
  from chunking_is_invisible [OF this, of "[[0], [0]]" 3 two_codec] show ?thesis by simp
qed

text \<open>A single-frame buffer decodes exactly when the stream of its bytes holds that one frame
  and then ends cleanly; every other buffer is refused.\<close>

theorem decode_frame_is_one_frame:
  assumes "limits_fit limits"
  shows "decode_frame codec bytes limits = Inr f \<longleftrightarrow> parse_all codec limits bytes = ([f], None)"
proof -
  let ?d = "(new_frame_decoder limits)\<lparr>fd_buffer := bytes\<rparr>"
  have wf: "decoder_wf codec ?d" "fd_limits ?d = limits" "fd_buffer ?d = bytes" "\<not> fd_failed ?d"
    using assms by (simp_all add: decoder_wf_def new_frame_decoder_def)
  note N = next_unchecked_split [OF wf(1), unfolded wf(2,3)]
  have feed: "decoder_feed bytes (new_frame_decoder limits) = Inr ?d"
    by (simp add: decoder_feed_def new_frame_decoder_def)
  note P = parse_all.simps [of codec limits bytes]
  show ?thesis
  proof (cases "split_frame codec limits bytes")
    case (Inl e)
    then show ?thesis using N wf feed P by (simp add: decode_frame_def decoder_next_def)
  next
    case (Inr found)
    show ?thesis
    proof (cases found)
      case None
      then show ?thesis using N wf feed P Inr by (auto simp: decode_frame_def decoder_next_def)
    next
      case (Some p)
      obtain g n where p: "p = (g, n)" by fastforce
      have here: "split_frame codec limits bytes = Inr (Some (g, n))" using Inr Some p by simp
      then obtain d' where d': "next_unchecked codec ?d = Inr (Some g, d')" "fd_buffer d' = drop n bytes"
        using N by auto
      have "parse_all codec limits (drop n bytes) = ([], None) \<longleftrightarrow> drop n bytes = []"
        by (auto simp: parse_all.simps [of codec limits "drop n bytes"] Let_def split: sum.splits option.splits prod.splits if_splits)
      then show ?thesis using d' wf feed P here
        by (auto simp: decode_frame_def decoder_next_def Let_def split: prod.splits)
    qed
  qed
qed

theorem decode_frame_is_one_frame_witness:
  "decode_frame two_codec (sample_encoded ! 1) small_limits = Inr (sample_frames ! 1)
     \<longleftrightarrow> parse_all two_codec small_limits (sample_encoded ! 1) = ([sample_frames ! 1], None)"
proof -
  have "limits_fit small_limits" by (simp add: limits_fit_def small_limits_def)
  then show ?thesis by (rule decode_frame_is_one_frame)
qed

text \<open>C18: What a decoder holds and how it fails. A decoder that has been drained (its last
  \<open>next\<close> asked for more bytes) buffers less than the length prefix and the largest header and
  payloads the limits allow; and once a call has thrown, every later call throws
  \<open>frame_malformed\<close> and nothing changes any more.\<close>

theorem decoder_is_bounded_and_fails_for_good:
  assumes "decoder_reachable codec limits d" and "limits_fit limits"
    and "unat (max_header_bytes limits) + unat (max_total_payload_bytes limits) > 0"
  shows "(if fst (decoder_next codec d) = Inr None
     then length (fd_buffer (snd (decoder_next codec d)))
       < 4 + unat (max_header_bytes limits) + unat (max_total_payload_bytes limits) else True)
   \<and> (if fd_failed d
     then decoder_next codec d = (Inl frame_malformed, d) \<and> decoder_finish d = (Inl frame_malformed, d)
       \<and> decoder_feed bytes d = Inl frame_malformed else True)
   \<and> (case fst (decoder_next codec d) of Inl _ \<Rightarrow> fd_failed (snd (decoder_next codec d)) | Inr _ \<Rightarrow> \<not> fd_failed d)
   \<and> (case fst (decoder_finish d) of Inl _ \<Rightarrow> fd_failed (snd (decoder_finish d)) | Inr _ \<Rightarrow> fd_buffer d = [])"
proof -
  have wf: "decoder_wf codec d" "fd_limits d = limits"
    using decoder_reachable_wf [OF assms(1,2)] by simp_all
  note N = next_unchecked_split [OF wf(1), unfolded wf(2)]
  have "length (fd_buffer (snd (decoder_next codec d)))
       < 4 + unat (max_header_bytes limits) + unat (max_total_payload_bytes limits)"
    if none: "fst (decoder_next codec d) = Inr None"
  proof -
    obtain d' where d': "next_unchecked codec d = Inr (None, d')" "decoder_next codec d = (Inr None, d')"
      using none by (auto simp: decoder_next_def split: if_splits sum.splits prod.splits)
    then have "split_frame codec limits (fd_buffer d) = Inr None" "fd_buffer d' = fd_buffer d"
      using N by (auto split: sum.splits option.splits prod.splits)
    then show ?thesis using waiting_buffer_bound [of codec limits "fd_buffer d"] d'(2) assms(3) by auto
  qed
  moreover have "case fst (decoder_next codec d) of Inl _ \<Rightarrow> fd_failed (snd (decoder_next codec d)) | Inr _ \<Rightarrow> \<not> fd_failed d"
    by (auto simp: decoder_next_def split: sum.splits prod.splits)
  ultimately show ?thesis
    by (auto simp: decoder_next_def decoder_feed_def decoder_finish_def split: sum.splits)
qed

theorem decoder_is_bounded_and_fails_for_good_witness:
  "length (fd_buffer (snd (decoder_next two_codec (new_frame_decoder small_limits))))
     < 4 + unat (max_header_bytes small_limits) + unat (max_total_payload_bytes small_limits)"
proof -
  have "limits_fit small_limits" by (simp add: limits_fit_def small_limits_def)
  moreover have "unat (max_header_bytes small_limits) + unat (max_total_payload_bytes small_limits) > 0"
    by (simp add: small_limits_def)
  moreover have "fst (decoder_next two_codec (new_frame_decoder small_limits)) = Inr None" by code_simp
  ultimately show ?thesis
    using decoder_is_bounded_and_fails_for_good [OF decoder_reachable.new, of small_limits two_codec] by presburger
qed

text \<open>C19: Payload limits without overflow. The check passes exactly when every declared payload is
  within the payload limit and their true sum within the frame limit; then the 64-bit sum the
  decoder computes is that true sum.\<close>

theorem payload_limits_exact:
  "(check_payload_limits ps limits = None \<longleftrightarrow>
      list_all (\<lambda>p. pd_bytes p \<le> max_payload_bytes limits) ps
      \<and> sum_list (List.map (unat \<circ> pd_bytes) ps) \<le> unat (max_total_payload_bytes limits))
   \<and> (if check_payload_limits ps limits = None
      then unat (declared_payload_bytes ps) = sum_list (List.map (unat \<circ> pd_bytes) ps)
      else check_payload_limits ps limits = Some frame_payload_too_large)"
proof -
  have "check_payload_limits_from limits n ps \<in> {None, Some frame_payload_too_large}" for n
    by (induction limits n ps rule: check_payload_limits_from.induct) auto
  then show ?thesis
    using check_payload_limits_iff declared_payload_bytes_sum by (auto simp: check_payload_limits_def)
qed

end
