(* ===== verification/LeaseFrames.thy ===== *)
theory LeaseFrames
  imports Frames SchedulerState
begin

text \<open>
  The frames a coordinator and a worker exchange about leases (packages/svp-exec:
  lease\_frames.cpp, task\_frames.cpp) and the coordinator's record of the leases one worker
  session holds (worker\_session\_leases.cpp). The session's mutex is not modelled: each frame is
  handled as one step. Events are the scheduler's inbox events, in the order delivered.
\<close>

subsection \<open>Lease frames (lease\_frames.cpp)\<close>

definition require_control_frame :: "frame \<Rightarrow> message_type \<Rightarrow> exec_error_code option" where
  "require_control_frame f expected = first_error
     [guard_error (fr_type f \<noteq> expected) frame_malformed,
      guard_error (fr_payloads f \<noteq> []) frame_malformed]"

definition checked_lease_id :: "string \<Rightarrow> exec_error_code + string" where
  "checked_lease_id lease_id =
     (if \<not> is_record_identifier lease_id then Inl invalid_value else Inr lease_id)"

definition positive_ms :: "int \<Rightarrow> exec_error_code + u64" where
  "positive_ms v = (if v \<le> 0 then Inl invalid_value else Inr (word_of_int v))"

definition positive_field :: "json \<Rightarrow> string \<Rightarrow> exec_error_code + u64" where
  "positive_field object name = and_then (required_unsigned object name)
     (\<lambda>n. if n = 0 then Inl invalid_value else Inr n)"

definition positive_ms_field :: "json \<Rightarrow> string \<Rightarrow> exec_error_code + int" where
  "positive_ms_field object name = and_then (positive_field object name)
     (\<lambda>n. if n > 0x7FFFFFFFFFFFFFFF then Inl invalid_value else Inr (uint n))"

definition lease_id_frame :: "message_type \<Rightarrow> string \<Rightarrow> exec_error_code + frame" where
  "lease_id_frame t lease_id = and_then (checked_lease_id lease_id)
     (\<lambda>i. Inr \<lparr>fr_type = t, fr_body = json_object [(''lease_id'', JString i)], fr_payloads = []\<rparr>)"

definition lease_id_from :: "frame \<Rightarrow> message_type \<Rightarrow> exec_error_code + string" where
  "lease_id_from f t =
     and_then (checked (require_control_frame f t) ()) (\<lambda>_.
     and_then (checked (require_object (fr_body f)) ()) (\<lambda>_.
     and_then (checked (reject_unknown_fields [''lease_id''] (fr_body f)) ()) (\<lambda>_.
     and_then (required_string (fr_body f) ''lease_id'') checked_lease_id)))"

record leased_assignment =
  la_spec :: "json task_spec"
  la_lease :: lease

definition lease_to_json :: "lease \<Rightarrow> exec_error_code + json" where
  "lease_to_json l =
     and_then (positive_ms (le_duration l)) (\<lambda>expires_in.
     and_then (positive_ms (le_heartbeat_interval l)) (\<lambda>interval.
     and_then (checked_lease_id (le_lease_id l)) (\<lambda>lease_id.
       Inr (json_object
         [(''attempt'', JUnsigned (of_nat (le_attempt l))), (''expires_in_ms'', JUnsigned expires_in),
          (''heartbeat_interval_ms'', JUnsigned interval), (''lease_id'', JString lease_id)]))))"

definition make_leased_assign_frame ::
  "json_codec \<Rightarrow> json task_spec \<Rightarrow> lease \<Rightarrow> exec_error_code + frame" where
  "make_leased_assign_frame codec spec l =
     (if le_attempt l = 0 then Inl invalid_value
      else and_then (lease_to_json l) (\<lambda>lease_json.
        and_then (task_spec_to_json codec spec) (\<lambda>spec_json.
          Inr \<lparr>fr_type = msg_assign,
               fr_body = json_object [(''lease'', lease_json), (''task_spec'', spec_json)],
               fr_payloads = []\<rparr>)))"

definition lease_from_json :: "json \<Rightarrow> exec_error_code + lease" where
  "lease_from_json v =
     and_then (checked (reject_unknown_fields
       [''attempt'', ''expires_in_ms'', ''heartbeat_interval_ms'', ''lease_id''] v) ()) (\<lambda>_.
     and_then (and_then (required_string v ''lease_id'') checked_lease_id) (\<lambda>lease_id.
     and_then (positive_field v ''attempt'') (\<lambda>attempt.
     and_then (positive_ms_field v ''expires_in_ms'') (\<lambda>expires_in.
     and_then (positive_ms_field v ''heartbeat_interval_ms'') (\<lambda>interval.
       Inr \<lparr>le_lease_id = lease_id, le_attempt = unat attempt, le_duration = expires_in,
            le_heartbeat_interval = interval\<rparr>)))))"

definition leased_assignment_from_frame ::
  "json_codec \<Rightarrow> frame \<Rightarrow> exec_error_code + leased_assignment" where
  "leased_assignment_from_frame codec f =
     and_then (checked (require_control_frame f msg_assign) ()) (\<lambda>_.
     and_then (checked (require_object (fr_body f)) ()) (\<lambda>_.
     and_then (checked (reject_unknown_fields [''lease'', ''task_spec''] (fr_body f)) ()) (\<lambda>_.
     and_then (and_then (required_object (fr_body f) ''lease'') lease_from_json) (\<lambda>l.
     and_then (and_then (required_object (fr_body f) ''task_spec'') (task_spec_from_json codec)) (\<lambda>spec.
       Inr \<lparr>la_spec = spec, la_lease = l\<rparr>)))))"

definition make_heartbeat_frame :: "string \<Rightarrow> exec_error_code + frame" where
  "make_heartbeat_frame lease_id = lease_id_frame msg_heartbeat lease_id"

definition lease_id_from_heartbeat_frame :: "frame \<Rightarrow> exec_error_code + string" where
  "lease_id_from_heartbeat_frame f = lease_id_from f msg_heartbeat"

definition make_cancel_frame :: "string \<Rightarrow> exec_error_code + frame" where
  "make_cancel_frame lease_id = lease_id_frame msg_cancel lease_id"

definition lease_id_from_cancel_frame :: "frame \<Rightarrow> exec_error_code + string" where
  "lease_id_from_cancel_frame f = lease_id_from f msg_cancel"

definition make_shutdown_frame :: frame where
  "make_shutdown_frame = \<lparr>fr_type = msg_shutdown, fr_body = JObject [], fr_payloads = []\<rparr>"

definition checked_rejection_code :: "string \<Rightarrow> exec_error_code + string" where
  "checked_rejection_code code =
     (if code \<noteq> [] \<and> list_all (\<lambda>c. is_lower_alnum c \<or> c = CHR ''_'') code then Inr code
      else Inl invalid_value)"

record lease_rejection =
  rj_lease_id :: string
  rj_code :: string
  rj_message :: string

definition make_reject_frame :: "lease_rejection \<Rightarrow> exec_error_code + frame" where
  "make_reject_frame r =
     and_then (checked_rejection_code (rj_code r)) (\<lambda>code.
     and_then (checked_lease_id (rj_lease_id r)) (\<lambda>lease_id.
       Inr \<lparr>fr_type = msg_reject,
            fr_body = json_object [(''code'', JString code), (''lease_id'', JString lease_id),
              (''message'', JString (rj_message r))],
            fr_payloads = []\<rparr>))"

definition lease_rejection_from_frame :: "frame \<Rightarrow> exec_error_code + lease_rejection" where
  "lease_rejection_from_frame f =
     and_then (checked (require_control_frame f msg_reject) ()) (\<lambda>_.
     and_then (checked (require_object (fr_body f)) ()) (\<lambda>_.
     and_then (checked (reject_unknown_fields [''code'', ''lease_id'', ''message''] (fr_body f)) ()) (\<lambda>_.
     and_then (and_then (required_string (fr_body f) ''lease_id'') checked_lease_id) (\<lambda>lease_id.
     and_then (and_then (required_string (fr_body f) ''code'') checked_rejection_code) (\<lambda>code.
     and_then (required_string (fr_body f) ''message'') (\<lambda>message.
       Inr \<lparr>rj_lease_id = lease_id, rj_code = code, rj_message = message\<rparr>))))))"

subsection \<open>Result frames (task\_frames.cpp)\<close>

definition single_member_body :: "frame \<Rightarrow> message_type \<Rightarrow> string \<Rightarrow> exec_error_code + json" where
  "single_member_body f expected_type member =
     (if fr_type f \<noteq> expected_type then Inl frame_malformed
      else and_then (checked (require_object (fr_body f)) ()) (\<lambda>_.
        and_then (checked (reject_unknown_fields [member] (fr_body f)) ()) (\<lambda>_.
          required_object (fr_body f) member)))"

fun payloads_match_from ::
  "json_codec \<Rightarrow> exec_error_code \<Rightarrow> artifact_ref list \<Rightarrow> byte list list \<Rightarrow> exec_error_code option" where
  "payloads_match_from codec content_code (r # outputs) (payload # payloads) =
     (if length payload \<noteq> unat (ar_bytes r) \<or> jc_blake3 codec payload \<noteq> ar_blake3 r
      then Some content_code else payloads_match_from codec content_code outputs payloads)"
| "payloads_match_from codec content_code outputs payloads = None"

definition require_payloads_match ::
  "json_codec \<Rightarrow> artifact_ref list \<Rightarrow> byte list list \<Rightarrow> exec_error_code \<Rightarrow> exec_error_code
     \<Rightarrow> exec_error_code option" where
  "require_payloads_match codec outputs payloads count_code content_code =
     (if length payloads \<noteq> length outputs then Some count_code
      else payloads_match_from codec content_code outputs payloads)"

definition make_result_frame ::
  "json_codec \<Rightarrow> json task_result \<Rightarrow> byte list list \<Rightarrow> exec_error_code + frame" where
  "make_result_frame codec result payloads =
     and_then (checked (require_payloads_match codec (tr_outputs result) payloads invalid_value invalid_value) ()) (\<lambda>_.
     and_then (task_result_to_json codec result) (\<lambda>v.
       Inr \<lparr>fr_type = msg_result, fr_body = json_object [(''task_result'', v)], fr_payloads = payloads\<rparr>))"

definition task_result_from_result_frame :: "json_codec \<Rightarrow> frame \<Rightarrow> exec_error_code + json task_result" where
  "task_result_from_result_frame codec f =
     and_then (and_then (single_member_body f msg_result ''task_result'') (task_result_from_json codec)) (\<lambda>result.
       checked (require_payloads_match codec (tr_outputs result) (fr_payloads f)
                  frame_malformed payload_hash_mismatch) result)"

subsection \<open>The leases of a worker session (worker\_session\_leases.cpp)\<close>

record outstanding =
  os_task_id :: string
  os_attempt :: nat
  os_cancelled :: bool

type_synonym session_leases = "(string, outstanding) std_map"

definition leases_add :: "string \<Rightarrow> string \<Rightarrow> nat \<Rightarrow> session_leases \<Rightarrow> session_leases" where
  "leases_add lease_id task_id attempt leases =
     (let o' = \<lparr>os_task_id = task_id, os_attempt = attempt, os_cancelled = False\<rparr>
      in map_modify lease_id (\<lambda>_. o') (map_emplace lease_id o' leases))"

definition leases_contains :: "string \<Rightarrow> session_leases \<Rightarrow> bool" where
  "leases_contains lease_id leases \<longleftrightarrow> map_of leases lease_id \<noteq> None"

definition mark_cancelled :: "string \<Rightarrow> session_leases \<Rightarrow> bool \<times> session_leases" where
  "mark_cancelled lease_id leases =
     (case map_of leases lease_id of
        None \<Rightarrow> (False, leases)
      | Some _ \<Rightarrow> (True, map_modify lease_id (\<lambda>o'. o'\<lparr>os_cancelled := True\<rparr>) leases))"

definition is_live :: "string \<Rightarrow> session_leases \<Rightarrow> bool" where
  "is_live lease_id leases \<longleftrightarrow>
     (case map_of leases lease_id of None \<Rightarrow> False | Some o' \<Rightarrow> \<not> os_cancelled o')"

definition claim_result ::
  "json task_result \<Rightarrow> session_leases \<Rightarrow> exec_error_code + string option \<times> session_leases" where
  "claim_result result leases =
     (case find (\<lambda>(i, o'). os_task_id o' = tr_task_id result \<and> os_attempt o' = tr_attempt result) leases of
        None \<Rightarrow> Inl frame_malformed
      | Some (i, o') \<Rightarrow> Inr (if os_cancelled o' then None else Some i, map_erase i leases))"

definition claim_rejected :: "string \<Rightarrow> session_leases \<Rightarrow> exec_error_code + bool \<times> session_leases" where
  "claim_rejected lease_id leases =
     (case map_of leases lease_id of
        None \<Rightarrow> Inl frame_malformed
      | Some o' \<Rightarrow> Inr (\<not> os_cancelled o', map_erase lease_id leases))"

definition take_live :: "session_leases \<Rightarrow> string list \<times> session_leases" where
  "take_live leases = (List.map fst (filter (\<lambda>(i, o'). \<not> os_cancelled o') leases), [])"

definition handle_worker_frame ::
  "json_codec \<Rightarrow> frame \<Rightarrow> session_leases \<Rightarrow> exec_error_code + json inbox_event list \<times> session_leases" where
  "handle_worker_frame codec f leases =
     (case fr_type f of
        msg_heartbeat \<Rightarrow> and_then (lease_id_from_heartbeat_frame f) (\<lambda>lease_id.
          Inr (if is_live lease_id leases then [HeartbeatEvent lease_id] else [], leases))
      | msg_result \<Rightarrow> and_then (task_result_from_result_frame codec f) (\<lambda>result.
          and_then (claim_result result leases) (\<lambda>(claimed, leases').
            Inr (case claimed of None \<Rightarrow> []
                 | Some lease_id \<Rightarrow> [FinishedEvent lease_id \<lparr>ao_result = result, ao_payloads = fr_payloads f\<rparr>],
                 leases')))
      | msg_reject \<Rightarrow> and_then (lease_rejection_from_frame f) (\<lambda>rejection.
          and_then (claim_rejected (rj_lease_id rejection) leases) (\<lambda>(live, leases').
            Inr (if live then [RejectedEvent (rj_lease_id rejection)] else [], leases')))
      | _ \<Rightarrow> Inl frame_malformed)"

text \<open>
  \<open>pump_worker_frames\<close> over what the successive calls of \<open>reader.read()\<close> give: a frame, the end of
  the stream, or the error thrown. The result is the failure kind the session ended with (\<open>None\<close>:
  all listed reads are handled and it still reads), the events delivered and the leases left.
\<close>

fun pump_worker_frames ::
  "json_codec \<Rightarrow> (exec_error_code + frame option) list \<Rightarrow> session_leases
     \<Rightarrow> attempt_failure_kind option \<times> json inbox_event list \<times> session_leases" where
  "pump_worker_frames codec [] leases = (None, [], leases)"
| "pump_worker_frames codec (Inl e # reads) leases =
     (Some (if e \<noteq> frame_truncated then invalid_result else executor_lost), [], leases)"
| "pump_worker_frames codec (Inr None # reads) leases = (Some executor_lost, [], leases)"
| "pump_worker_frames codec (Inr (Some f) # reads) leases =
     (if fr_type f = msg_error then (Some executor_lost, [], leases)
      else case handle_worker_frame codec f leases of
        Inl e \<Rightarrow> (Some (if e \<noteq> frame_truncated then invalid_result else executor_lost), [], leases)
      | Inr (events, leases') \<Rightarrow>
          (let (ended, events', left) = pump_worker_frames codec reads leases'
           in (ended, events @ events', left)))"

end
