(* ===== verification/SessionProps.thy ===== *)
theory SessionProps
  imports LeaseFrames JsonProps
begin

text \<open>
  Properties of lease frames and worker sessions: every frame a side builds is read back as what
  it was built from, and a session accounts for each of its leases exactly once.
\<close>

subsection \<open>Frames\<close>

lemma lease_id_object [json_objects]: "json_object [(''lease_id'', a)] = JObject [(''lease_id'', a)]"
  by (rule json_object_sorted) (simp add: map_wf_def)

lemma task_result_member_object [json_objects]:
  "json_object [(''task_result'', a)] = JObject [(''task_result'', a)]"
  by (rule json_object_sorted) (simp add: map_wf_def)

lemma reject_object [json_objects]:
  "json_object [(''code'', a), (''lease_id'', b), (''message'', c)]
   = JObject [(''code'', a), (''lease_id'', b), (''message'', c)]"
  by (rule json_object_sorted) (simp add: map_wf_def)

lemma assign_object [json_objects]:
  "json_object [(''lease'', a), (''task_spec'', b)] = JObject [(''lease'', a), (''task_spec'', b)]"
  by (rule json_object_sorted) (simp add: map_wf_def)

lemma lease_object [json_objects]:
  "json_object [(''attempt'', a), (''expires_in_ms'', b), (''heartbeat_interval_ms'', c), (''lease_id'', d)]
   = JObject [(''attempt'', a), (''expires_in_ms'', b), (''heartbeat_interval_ms'', c), (''lease_id'', d)]"
  by (rule json_object_sorted) (simp add: map_wf_def)

lemma lease_id_frame_reads:
  "and_then (lease_id_frame t i) (\<lambda>f. lease_id_from f t) = checked_lease_id i"
  by (simp add: lease_id_frame_def lease_id_from_def checked_lease_id_def require_control_frame_def
      field_readers reject_unknown_fields_def json_objects guard_error_def)

definition lease_sendable :: "lease \<Rightarrow> bool" where
  "lease_sendable l \<longleftrightarrow> is_record_identifier (le_lease_id l) \<and> 0 < le_attempt l \<and> le_attempt l < 2 ^ 64
     \<and> 0 < le_duration l \<and> le_duration l < 2 ^ 63
     \<and> 0 < le_heartbeat_interval l \<and> le_heartbeat_interval l < 2 ^ 63"

lemma ms_field_word:
  assumes "0 < (v :: int)" and "v < 2 ^ 63"
  shows "(word_of_int v :: u64) \<noteq> 0" and "\<not> (word_of_int v :: u64) > 0x7FFFFFFFFFFFFFFF"
    and "uint (word_of_int v :: u64) = v"
proof -
  show u: "uint (word_of_int v :: u64) = v"
    using assms by (simp add: uint_word_of_int)
  show "(word_of_int v :: u64) \<noteq> 0"
  proof
    assume "(word_of_int v :: u64) = 0"
    then show False using u assms(1) by simp
  qed
  show "\<not> (word_of_int v :: u64) > 0x7FFFFFFFFFFFFFFF"
    using u assms(2) by (simp add: word_less_def)
qed

lemma lease_roundtrip:
  assumes "lease_sendable l"
  shows "\<exists>v. lease_to_json l = Inr v \<and> is_object v \<and> lease_from_json v = Inr l"
proof -
  have "unat (of_nat (le_attempt l) :: u64) = le_attempt l" "(of_nat (le_attempt l) :: u64) \<noteq> 0"
    using assms by (auto simp: lease_sendable_def unat_of_nat dest: arg_cong [where f = unat])
  then show ?thesis
    using assms ms_field_word [of "le_duration l"] ms_field_word [of "le_heartbeat_interval l"]
    by (cases l) (simp add: lease_sendable_def lease_to_json_def lease_from_json_def positive_ms_def
      positive_ms_field_def positive_field_def checked_lease_id_def field_readers
      reject_unknown_fields_def json_objects)
qed

text \<open>Control frames survive. Building a heartbeat or a cancel frame and reading it back gives
  the lease id, or refuses it in the builder for the reason the reader would; a reject frame gives
  back its lease, code and message; and no kind of frame is read as another.\<close>

theorem control_frames_roundtrip:
  "and_then (make_heartbeat_frame i) lease_id_from_heartbeat_frame = checked_lease_id i
   \<and> and_then (make_cancel_frame i) lease_id_from_cancel_frame = checked_lease_id i
   \<and> and_then (make_heartbeat_frame i) lease_id_from_cancel_frame
       = and_then (checked_lease_id i) (\<lambda>_. Inl frame_malformed)
   \<and> and_then (make_reject_frame r) lease_rejection_from_frame
       = and_then (checked_rejection_code (rj_code r)) (\<lambda>_. and_then (checked_lease_id (rj_lease_id r)) (\<lambda>_. Inr r))"
proof (intro conjI)
  show "and_then (make_heartbeat_frame i) lease_id_from_heartbeat_frame = checked_lease_id i"
    using lease_id_frame_reads [of msg_heartbeat i]
    by (simp add: make_heartbeat_frame_def lease_id_from_heartbeat_frame_def [abs_def])
  show "and_then (make_cancel_frame i) lease_id_from_cancel_frame = checked_lease_id i"
    using lease_id_frame_reads [of msg_cancel i]
    by (simp add: make_cancel_frame_def lease_id_from_cancel_frame_def [abs_def])
  show "and_then (make_heartbeat_frame i) lease_id_from_cancel_frame
       = and_then (checked_lease_id i) (\<lambda>_. Inl frame_malformed)"
    by (simp add: make_heartbeat_frame_def lease_id_from_cancel_frame_def lease_id_frame_def
        lease_id_from_def checked_lease_id_def require_control_frame_def guard_error_def)
  show "and_then (make_reject_frame r) lease_rejection_from_frame
       = and_then (checked_rejection_code (rj_code r)) (\<lambda>_. and_then (checked_lease_id (rj_lease_id r)) (\<lambda>_. Inr r))"
    by (cases r) (simp add: make_reject_frame_def lease_rejection_from_frame_def checked_lease_id_def
        checked_rejection_code_def require_control_frame_def field_readers reject_unknown_fields_def
        json_objects guard_error_def)
qed

text \<open>An assignment survives its frame: a valid specification with a sendable lease (attempt
  and durations positive, durations within 63 bits) builds a frame that reads back as both.\<close>

theorem assign_frame_roundtrip:
  assumes "validate_task_spec (json_exec_lib codec) spec = None" and "spec_types spec"
    and "lease_sendable l"
  shows "and_then (make_leased_assign_frame codec spec l) (leased_assignment_from_frame codec)
    = Inr \<lparr>la_spec = spec, la_lease = l\<rparr>"
proof -
  obtain lv where lv: "lease_to_json l = Inr lv" "is_object lv" "lease_from_json lv = Inr l"
    using lease_roundtrip [OF assms(3)] by blast
  obtain sv where sv: "task_spec_to_json codec spec = Inr sv" "task_spec_from_json codec sv = Inr spec"
    using task_spec_json_roundtrip [OF assms(1,2)] by (auto simp: and_then_Inr_iff)
  then have "is_object sv" by (auto simp: task_spec_from_json_def and_then_Inr_iff require_object_def split: if_splits)
  moreover have "le_attempt l \<noteq> 0" using assms(3) by (simp add: lease_sendable_def)
  ultimately show ?thesis using lv sv
    by (simp add: make_leased_assign_frame_def leased_assignment_from_frame_def require_control_frame_def
        field_readers reject_unknown_fields_def json_objects guard_error_def)
qed

theorem assign_frame_roundtrip_witness:
  "and_then (make_leased_assign_frame (sample_codec JNull) json_spec
       \<lparr>le_lease_id = ''l1'', le_attempt = 2, le_duration = 30000, le_heartbeat_interval = 5000\<rparr>)
     (leased_assignment_from_frame (sample_codec JNull))
   = Inr \<lparr>la_spec = json_spec, la_lease =
       \<lparr>le_lease_id = ''l1'', le_attempt = 2, le_duration = 30000, le_heartbeat_interval = 5000\<rparr>\<rparr>"
proof (rule assign_frame_roundtrip)
  show "validate_task_spec (json_exec_lib (sample_codec JNull)) json_spec = None" by code_simp
  show "spec_types json_spec" by code_simp
  show "lease_sendable \<lparr>le_lease_id = ''l1'', le_attempt = 2, le_duration = 30000, le_heartbeat_interval = 5000\<rparr>"
    by (simp add: lease_sendable_def is_record_identifier_def is_alnum_def is_lower_alnum_def)
qed

subsection \<open>Sessions\<close>

definition live_leases :: "session_leases \<Rightarrow> string list" where
  "live_leases leases = fst (take_live leases)"

text \<open>The leases an event sequence ends: a finished or a rejected attempt.\<close>

fun concluded :: "json inbox_event list \<Rightarrow> string list" where
  "concluded [] = []"
| "concluded (FinishedEvent i r # events) = i # concluded events"
| "concluded (RejectedEvent i # events) = i # concluded events"
| "concluded (_ # events) = concluded events"

fun renewed :: "json inbox_event list \<Rightarrow> string list" where
  "renewed [] = []"
| "renewed (HeartbeatEvent i # events) = i # renewed events"
| "renewed (_ # events) = renewed events"

lemma concluded_append [simp]: "concluded (xs @ ys) = concluded xs @ concluded ys"
  by (induction xs rule: concluded.induct) auto

lemma renewed_append [simp]: "renewed (xs @ ys) = renewed xs @ renewed ys"
  by (induction xs rule: renewed.induct) auto

lemma set_live_leases:
  assumes "map_wf leases"
  shows "i \<in> set (live_leases leases) \<longleftrightarrow> is_live i leases"
proof -
  have "i \<in> set (live_leases leases) \<longleftrightarrow> (\<exists>o'. (i, o') \<in> set leases \<and> \<not> os_cancelled o')"
    by (force simp: live_leases_def take_live_def)
  also have "\<dots> \<longleftrightarrow> (\<exists>o'. map_of leases i = Some o' \<and> \<not> os_cancelled o')"
    by (simp add: map_of_mem_iff [OF assms])
  also have "\<dots> \<longleftrightarrow> is_live i leases" by (cases "map_of leases i") (simp_all add: is_live_def)
  finally show ?thesis .
qed

lemma map_wf_leases_add [simp]: "map_wf leases \<Longrightarrow> map_wf (leases_add i t n leases)"
  by (simp add: leases_add_def Let_def)

lemma claim_result_Inr:
  assumes "claim_result result leases = Inr (claimed, leases')"
  shows "\<exists>i o'. (i, o') \<in> set leases \<and> os_task_id o' = tr_task_id result \<and> os_attempt o' = tr_attempt result
    \<and> claimed = (if os_cancelled o' then None else Some i) \<and> leases' = map_erase i leases"
proof -
  let ?P = "\<lambda>(i :: string, o'). os_task_id o' = tr_task_id result \<and> os_attempt o' = tr_attempt result"
  obtain p where p: "find ?P leases = Some p"
    using assms by (cases "find ?P leases") (simp_all add: claim_result_def)
  obtain i o' where io: "p = (i, o')" by fastforce
  obtain k where "k < length leases" "?P (leases ! k)" "p = leases ! k"
    using p unfolding find_Some_iff by (elim exE conjE) (rule that)
  then have mem: "(i, o') \<in> set leases" and P: "?P (i, o')" using io by (metis nth_mem)+
  have "claimed = (if os_cancelled o' then None else Some i)" "leases' = map_erase i leases"
    using assms p io by (simp_all add: claim_result_def)
  then show ?thesis using mem P by blast
qed

lemma live_erase:
  "map_wf leases \<Longrightarrow> set (live_leases (map_erase i leases)) = set (live_leases leases) - {i}"
  by (auto simp: live_leases_def take_live_def set_map_erase)

lemma handle_frame_accounts:
  assumes "map_wf leases" and "handle_worker_frame codec f leases = Inr (events, leases')"
  shows "map_wf leases' \<and> distinct (concluded events)
    \<and> set (concluded events) \<union> set (renewed events) \<subseteq> set (live_leases leases)
    \<and> set (live_leases leases') = set (live_leases leases) - set (concluded events)
    \<and> (\<forall>i. is_live i leases' \<longrightarrow> map_of leases' i = map_of leases i)"
proof -
  have mem: "map_of leases i = Some o'" if "(i, o') \<in> set leases" for i o'
    using that assms(1) by (simp add: map_of_mem_iff)
  show ?thesis
  proof (cases "fr_type f")
    case msg_heartbeat
    then show ?thesis using assms
      by (auto simp: handle_worker_frame_def and_then_Inr_iff set_live_leases split: if_splits)
  next
    case msg_result
    then obtain result claimed where c: "claim_result result leases = Inr (claimed, leases')"
      and e: "events = (case claimed of None \<Rightarrow> []
        | Some i \<Rightarrow> [FinishedEvent i \<lparr>ao_result = result, ao_payloads = fr_payloads f\<rparr>])"
      using assms(2) by (auto simp: handle_worker_frame_def and_then_Inr_iff)
    obtain i o' where io: "(i, o') \<in> set leases" "claimed = (if os_cancelled o' then None else Some i)"
        "leases' = map_erase i leases"
      using claim_result_Inr [OF c] by blast
    then show ?thesis using e assms(1) mem [OF io(1)] live_erase [OF assms(1), of i]
      by (auto simp: set_live_leases is_live_def split: if_splits)
  next
    case msg_reject
    then obtain i live where c: "claim_rejected i leases = Inr (live, leases')"
      and e: "events = (if live then [RejectedEvent i] else [])"
      using assms(2) by (auto simp: handle_worker_frame_def and_then_Inr_iff)
    then obtain o' where "map_of leases i = Some o'" "live = (\<not> os_cancelled o')" "leases' = map_erase i leases"
      by (auto simp: claim_rejected_def split: option.splits)
    then show ?thesis using e assms(1) live_erase [OF assms(1), of i]
      by (auto simp: set_live_leases is_live_def split: if_splits)
  qed (use assms(2) in \<open>simp_all add: handle_worker_frame_def\<close>)
qed




text \<open>C22: A result is only reported after it was checked. Every finished attempt a session reports
  carries a result that validates, answers the task and attempt its lease was added with, and comes
  with payloads that match its outputs in number, length and digest.\<close>

theorem session_reports_checked_results:
  assumes "map_wf leases" and "pump_worker_frames codec reads leases = (ended, events, left)"
    and "FinishedEvent i out \<in> set events"
  shows "validate_task_result (json_exec_lib codec) (ao_result out) = None
    \<and> (\<exists>o'. map_of leases i = Some o' \<and> \<not> os_cancelled o' \<and> os_task_id o' = tr_task_id (ao_result out)
         \<and> os_attempt o' = tr_attempt (ao_result out))
    \<and> require_payloads_match codec (tr_outputs (ao_result out)) (ao_payloads out)
        frame_malformed payload_hash_mismatch = None"
  using assms
proof (induction codec reads leases arbitrary: ended events left rule: pump_worker_frames.induct)
  case (4 codec f reads leases)
  have ne: "fr_type f \<noteq> msg_error" using "4.prems"(2,3) by (auto split: if_splits)
  obtain events1 leases1 where h: "handle_worker_frame codec f leases = Inr (events1, leases1)"
    using "4.prems"(2,3) ne by (cases "handle_worker_frame codec f leases") auto
  obtain events2 where rest: "pump_worker_frames codec reads leases1 = (ended, events2, left)"
    and events: "events = events1 @ events2"
    using "4.prems"(2) ne h by (auto split: prod.splits)
  note A = handle_frame_accounts [OF "4.prems"(1) h]
  show ?case
  proof (cases "FinishedEvent i out \<in> set events1")
    case True
    then have t: "fr_type f = msg_result"
      using h by (cases "fr_type f") (auto simp: handle_worker_frame_def and_then_Inr_iff split: if_splits)
    then obtain result claimed where r: "task_result_from_result_frame codec f = Inr result"
        "claim_result result leases = Inr (claimed, leases1)"
      and e: "events1 = (case claimed of None \<Rightarrow> []
        | Some i \<Rightarrow> [FinishedEvent i \<lparr>ao_result = result, ao_payloads = fr_payloads f\<rparr>])"
      using h by (auto simp: handle_worker_frame_def and_then_Inr_iff)
    then have c: "claimed = Some i" and out: "out = \<lparr>ao_result = result, ao_payloads = fr_payloads f\<rparr>"
      using True by (auto split: option.splits)
    from r(2) c obtain o' where "(i, o') \<in> set leases" "\<not> os_cancelled o'"
        "os_task_id o' = tr_task_id result" "os_attempt o' = tr_attempt result"
      using claim_result_Inr [OF r(2)] by (auto split: if_splits)
    then have "\<exists>o'. map_of leases i = Some o' \<and> \<not> os_cancelled o' \<and> os_task_id o' = tr_task_id result
        \<and> os_attempt o' = tr_attempt result"
      using map_of_mem_iff [OF "4.prems"(1)] by blast
    moreover have "validate_task_result (json_exec_lib codec) result = None
        \<and> require_payloads_match codec (tr_outputs result) (fr_payloads f) frame_malformed payload_hash_mismatch = None"
      using r(1) by (auto simp: task_result_from_result_frame_def and_then_Inr_iff task_result_from_json_def Let_def
          split: if_splits)
    ultimately show ?thesis using out by simp
  next
    case False
    then have in2: "FinishedEvent i out \<in> set events2" using "4.prems"(3) events by simp
    have wf1: "map_wf leases1" using A by blast
    note IH = "4.IH" [OF ne h refl wf1 rest in2]
    then have "is_live i leases1" by (auto simp: is_live_def)
    then have "map_of leases1 i = map_of leases i" using A by blast
    then show ?thesis using IH by simp
  qed
qed auto

theorem session_reports_checked_results_witness:
  "\<exists>out :: json attempt_output. validate_task_result (json_exec_lib (sample_codec JNull)) (ao_result out) = None
     \<and> tr_task_id (ao_result out) = ''a''"
proof -
  let ?codec = "sample_codec JNull"
  let ?f = "\<lparr>fr_type = msg_result, fr_body = JObject [(''task_result'', result_document)], fr_payloads = []\<rparr>"
  let ?leases = "leases_add ''l1'' ''a'' 1 []"
  have pump: "pump_worker_frames ?codec [Inr (Some ?f)] ?leases
      = (None, [FinishedEvent ''l1'' \<lparr>ao_result = json_result, ao_payloads = []\<rparr>], [])" by code_simp
  have "map_wf ?leases" by simp
  from session_reports_checked_results [OF this pump, of "''l1''" "\<lparr>ao_result = json_result, ao_payloads = []\<rparr>"]
  have "validate_task_result (json_exec_lib ?codec) json_result = None" by simp
  moreover have "tr_task_id json_result = ''a''" by (simp add: json_result_def)
  ultimately show ?thesis by (intro exI [of _ "\<lparr>ao_result = json_result, ao_payloads = []\<rparr>"]) simp
qed

end
