(* ===== verification/Admission.thy ===== *)
theory Admission
  imports OrderedMaps "HOL-Library.Product_Lexorder"
begin

text \<open>
  What a worker lets run at once (packages/svp-exec/worker): memory turns (memory\_turns.cpp),
  memory admission (admission.cpp), the sharing of slots between coordinators
  (slot\_sharing.cpp), and how a session decides on an assigned lease with them
  (\<open>assign\<close> in agent\_session.cpp). Clocks and memory samples are inputs; messages and locks are
  not modelled. Times are integers, byte counts 64-bit words, tickets naturals (a counter from 0
  that takes one step per wait).
\<close>

subsection \<open>Memory turns (memory\_turns.cpp)\<close>

type_synonym lease_key = "string \<times> string"

record memory_turn_policy =
  idle_window :: int
  max_wait :: int

record turn_wait =
  tw_ticket :: nat
  tw_since :: int
  tw_last_asked :: int
  tw_waiting_for :: "lease_key set"

record memory_turns =
  mt_policy :: memory_turn_policy
  mt_waits :: "(string, turn_wait) std_map"
  mt_rests :: "(string, int) std_map"
  mt_next_ticket :: nat

definition new_memory_turns :: "memory_turn_policy \<Rightarrow> memory_turns" where
  "new_memory_turns policy =
     \<lparr>mt_policy = policy, mt_waits = [], mt_rests = [], mt_next_ticket = 0\<rparr>"

definition end_fruitless :: "string \<Rightarrow> turn_wait \<Rightarrow> int \<Rightarrow> memory_turns \<Rightarrow> memory_turns" where
  "end_fruitless task_type wait now turns =
     turns\<lparr>mt_rests := map_assign task_type (now + (now - tw_since wait)) (mt_rests turns),
           mt_waits := map_erase task_type (mt_waits turns)\<rparr>"

fun expire_each :: "int \<Rightarrow> (string \<times> turn_wait) list \<Rightarrow> memory_turns \<Rightarrow> memory_turns" where
  "expire_each now [] turns = turns"
| "expire_each now ((task_type, wait) # rest) turns =
     expire_each now rest
       (if now - tw_last_asked wait > idle_window (mt_policy turns)
        then turns\<lparr>mt_waits := map_erase task_type (mt_waits turns)\<rparr>
        else if now - tw_since wait \<ge> max_wait (mt_policy turns)
        then end_fruitless task_type wait now turns
        else turns)"

definition turns_expire :: "int \<Rightarrow> memory_turns \<Rightarrow> memory_turns" where
  "turns_expire now turns =
     (let turns' = expire_each now (mt_waits turns) turns
      in turns'\<lparr>mt_rests := filter (\<lambda>rest. \<not> snd rest \<le> now) (mt_rests turns')\<rparr>)"

fun first_waiting :: "string \<Rightarrow> (string \<times> turn_wait) list \<Rightarrow> string option \<Rightarrow> nat \<Rightarrow> string option" where
  "first_waiting task_type [] first first_ticket = first"
| "first_waiting task_type ((t, wait) # rest) first first_ticket =
     (if t \<noteq> task_type \<and> tw_ticket wait < first_ticket
      then first_waiting task_type rest (Some t) (tw_ticket wait)
      else first_waiting task_type rest first first_ticket)"

definition own_ticket :: "string \<Rightarrow> memory_turns \<Rightarrow> nat" where
  "own_ticket task_type turns =
     (case map_of (mt_waits turns) task_type of None \<Rightarrow> mt_next_ticket turns | Some w \<Rightarrow> tw_ticket w)"

definition yields_to :: "string \<Rightarrow> memory_turns \<Rightarrow> string option" where
  "yields_to task_type turns =
     first_waiting task_type (mt_waits turns) None (own_ticket task_type turns)"

definition turns_waiting :: "string \<Rightarrow> memory_turns \<Rightarrow> bool" where
  "turns_waiting task_type turns \<longleftrightarrow> map_of (mt_waits turns) task_type \<noteq> None"

definition turns_resting :: "string \<Rightarrow> int \<Rightarrow> memory_turns \<Rightarrow> bool" where
  "turns_resting task_type now turns \<longleftrightarrow>
     (case map_of (mt_rests turns) task_type of None \<Rightarrow> False | Some end_of_rest \<Rightarrow> end_of_rest > now)"

definition turns_refused :: "string \<Rightarrow> lease_key set \<Rightarrow> int \<Rightarrow> memory_turns \<Rightarrow> memory_turns" where
  "turns_refused task_type other_types_running now turns =
     (case map_of (mt_waits turns) task_type of
        Some wait \<Rightarrow>
          let asked = wait\<lparr>tw_last_asked := now\<rparr>;
              turns' = turns\<lparr>mt_waits := map_modify task_type (\<lambda>_. asked) (mt_waits turns)\<rparr>
          in if tw_waiting_for wait \<inter> other_types_running = {}
             then end_fruitless task_type asked now turns' else turns'
      | None \<Rightarrow>
          if other_types_running = {} \<or> turns_resting task_type now turns then turns
          else turns\<lparr>mt_waits := map_emplace task_type
                 \<lparr>tw_ticket = mt_next_ticket turns, tw_since = now, tw_last_asked = now,
                  tw_waiting_for = other_types_running\<rparr> (mt_waits turns),
               mt_next_ticket := mt_next_ticket turns + 1\<rparr>)"

definition turns_admitted :: "string \<Rightarrow> memory_turns \<Rightarrow> memory_turns" where
  "turns_admitted task_type turns = turns\<lparr>mt_waits := map_erase task_type (mt_waits turns)\<rparr>"

subsection \<open>Memory admission (admission.cpp)\<close>

datatype memory_pressure = pressure_normal | pressure_warning | pressure_critical

fun pressure_level :: "memory_pressure \<Rightarrow> int" where
  "pressure_level pressure_normal = 0"
| "pressure_level pressure_warning = 1"
| "pressure_level pressure_critical = 2"

record memory_snapshot =
  ms_available_bytes :: u64
  ms_pressure :: memory_pressure

record admission_policy =
  reserve_floor_bytes :: u64
  reserve_physical_divisor :: u64
  refuse_at :: memory_pressure

definition default_admission_policy :: admission_policy where
  "default_admission_policy =
     \<lparr>reserve_floor_bytes = 2 * 1024 * 1024 * 1024, reserve_physical_divisor = 8, refuse_at = pressure_warning\<rparr>"

definition kRejectInsufficientMemory :: string where
  "kRejectInsufficientMemory = ''insufficient_memory''"

definition kRejectMemoryPressure :: string where
  "kRejectMemoryPressure = ''memory_pressure''"

record admission_decision =
  ad_admitted :: bool
  ad_code :: string

definition admitted_decision :: admission_decision where
  "admitted_decision = \<lparr>ad_admitted = True, ad_code = []\<rparr>"

definition refused_decision :: "string \<Rightarrow> admission_decision" where
  "refused_decision code = \<lparr>ad_admitted = False, ad_code = code\<rparr>"

definition reserve_bytes :: "admission_policy \<Rightarrow> u64 \<Rightarrow> u64" where
  "reserve_bytes policy physical_memory_bytes =
     (let fraction = (if reserve_physical_divisor policy = 0 then 0
                      else physical_memory_bytes div reserve_physical_divisor policy)
      in max (reserve_floor_bytes policy) fraction)"

definition decide_admission ::
  "admission_policy \<Rightarrow> u64 \<Rightarrow> memory_snapshot \<Rightarrow> u64 \<Rightarrow> u64 \<Rightarrow> admission_decision" where
  "decide_admission policy physical_memory_bytes memory pending required_bytes =
     (if pressure_level (ms_pressure memory) \<ge> pressure_level (refuse_at policy)
      then refused_decision kRejectMemoryPressure
      else let reserve = reserve_bytes policy physical_memory_bytes;
               spoken_for = reserve + pending;
               free_for_task = (if ms_available_bytes memory > spoken_for
                                then ms_available_bytes memory - spoken_for else 0);
               fits = (if required_bytes = 0 then ms_available_bytes memory > spoken_for
                       else free_for_task \<ge> required_bytes)
           in if \<not> fits then refused_decision kRejectInsufficientMemory else admitted_decision)"

definition pending_bytes :: "u64 \<Rightarrow> u64 option \<Rightarrow> u64" where
  "pending_bytes estimated_bytes in_use =
     (case in_use of None \<Rightarrow> estimated_bytes
      | Some used \<Rightarrow> if estimated_bytes > used then estimated_bytes - used else 0)"

record lease_admission =
  la_session :: string
  la_lease_id :: string
  la_task_type :: string
  la_required_bytes :: u64

record admitted_lease =
  adm_task_type :: string
  adm_bytes :: u64

record admission_ledger =
  al_policy :: admission_policy
  al_physical_memory_bytes :: u64
  al_turns :: memory_turns
  al_admitted :: "(lease_key, admitted_lease) std_map"

text \<open>The estimates of each session's leases, summed as the loop over the ledger does.\<close>

fun estimated_by_session ::
  "(lease_key \<times> admitted_lease) list \<Rightarrow> (string, u64) std_map \<Rightarrow> (string, u64) std_map" where
  "estimated_by_session [] estimated = estimated"
| "estimated_by_session (((session, lease_id), a) # rest) estimated =
     estimated_by_session rest
       (map_assign session ((case map_of estimated session of None \<Rightarrow> 0 | Some b \<Rightarrow> b) + adm_bytes a) estimated)"

definition ledger_pending :: "(string \<Rightarrow> u64 option) \<Rightarrow> admission_ledger \<Rightarrow> u64" where
  "ledger_pending in_use ledger =
     sum_list (List.map (\<lambda>(session, estimated). pending_bytes estimated (in_use session))
       (estimated_by_session (al_admitted ledger) []))"

definition ledger_types_running :: "string \<Rightarrow> admission_ledger \<Rightarrow> bool" where
  "ledger_types_running task_type ledger \<longleftrightarrow> list_ex (\<lambda>(key, a). adm_task_type a = task_type) (al_admitted ledger)"

definition other_types_running :: "string \<Rightarrow> admission_ledger \<Rightarrow> lease_key set" where
  "other_types_running task_type ledger =
     fst ` set (filter (\<lambda>(key, a). adm_task_type a \<noteq> task_type) (al_admitted ledger))"

definition try_admit ::
  "lease_admission \<Rightarrow> memory_snapshot \<Rightarrow> (string \<Rightarrow> u64 option) \<Rightarrow> int \<Rightarrow> admission_ledger
     \<Rightarrow> admission_decision \<times> admission_ledger" where
  "try_admit l memory in_use now ledger0 =
     (let ledger = ledger0\<lparr>al_turns := turns_expire now (al_turns ledger0)\<rparr>
      in if ledger_types_running (la_task_type l) ledger
            \<and> yields_to (la_task_type l) (al_turns ledger) \<noteq> None
         then (refused_decision kRejectInsufficientMemory, ledger)
         else let decision = decide_admission (al_policy ledger) (al_physical_memory_bytes ledger) memory
                               (ledger_pending in_use ledger) (la_required_bytes l)
              in if ad_admitted decision
                 then (decision, ledger\<lparr>
                    al_admitted := map_assign (la_session l, la_lease_id l)
                      \<lparr>adm_task_type = la_task_type l, adm_bytes = la_required_bytes l\<rparr> (al_admitted ledger),
                    al_turns := turns_admitted (la_task_type l) (al_turns ledger)\<rparr>)
                 else if ad_code decision = kRejectInsufficientMemory
                 then (decision, ledger\<lparr>al_turns := turns_refused (la_task_type l)
                         (other_types_running (la_task_type l) ledger) now (al_turns ledger)\<rparr>)
                 else (decision, ledger))"

definition ledger_release :: "string \<Rightarrow> string \<Rightarrow> admission_ledger \<Rightarrow> admission_ledger" where
  "ledger_release session lease_id ledger =
     ledger\<lparr>al_admitted := map_erase (session, lease_id) (al_admitted ledger)\<rparr>"

definition ledger_release_session :: "string \<Rightarrow> admission_ledger \<Rightarrow> admission_ledger" where
  "ledger_release_session session ledger =
     ledger\<lparr>al_admitted := filter (\<lambda>entry. fst (fst entry) \<noteq> session) (al_admitted ledger)\<rparr>"

definition committed_bytes :: "admission_ledger \<Rightarrow> u64" where
  "committed_bytes ledger = sum_list (List.map (\<lambda>(key, a). adm_bytes a) (al_admitted ledger))"

subsection \<open>Slot sharing (slot\_sharing.cpp)\<close>

definition kRejectInsufficientSlots :: string where
  "kRejectInsufficientSlots = ''insufficient_slots''"

record slot_request =
  sq_coordinator :: string
  sq_session :: string
  sq_lease_id :: string
  sq_task_type :: string
  sq_declared_slots :: nat

record slot_holder =
  sh_coordinator :: string
  sh_task_type :: string

record slot_waiting =
  sw_ticket :: nat
  sw_last_asked :: int

record slot_sharing =
  ss_contention_window :: int
  ss_held :: "(lease_key, slot_holder) std_map"
  ss_waiting :: "(string, (string, slot_waiting) std_map) std_map"
  ss_next_ticket :: nat

definition held_by :: "string \<Rightarrow> string \<Rightarrow> slot_sharing \<Rightarrow> nat" where
  "held_by coordinator task_type s =
     length (filter (\<lambda>(key, h). sh_coordinator h = coordinator \<and> sh_task_type h = task_type) (ss_held s))"

definition slots_held :: "string \<Rightarrow> slot_sharing \<Rightarrow> nat" where
  "slots_held task_type s = length (filter (\<lambda>(key, h). sh_task_type h = task_type) (ss_held s))"

definition expire_waiting :: "int \<Rightarrow> slot_sharing \<Rightarrow> slot_sharing" where
  "expire_waiting now s = s\<lparr>ss_waiting :=
     filter (\<lambda>(t, coordinators). coordinators \<noteq> [])
       (List.map (\<lambda>(t, coordinators). (t, filter (\<lambda>(c, w). \<not> now - sw_last_asked w > ss_contention_window s) coordinators))
         (ss_waiting s))\<rparr>"

definition waiting_for_type :: "string \<Rightarrow> slot_sharing \<Rightarrow> (string, slot_waiting) std_map" where
  "waiting_for_type task_type s =
     (case map_of (ss_waiting s) task_type of None \<Rightarrow> [] | Some coordinators \<Rightarrow> coordinators)"

definition slot_wait :: "slot_request \<Rightarrow> int \<Rightarrow> slot_sharing \<Rightarrow> slot_sharing" where
  "slot_wait request now s =
     (let coordinators = waiting_for_type (sq_task_type request) s;
          inserted = (map_of coordinators (sq_coordinator request) = None);
          ticket = (case map_of coordinators (sq_coordinator request) of
                      None \<Rightarrow> ss_next_ticket s | Some w \<Rightarrow> sw_ticket w)
      in s\<lparr>ss_waiting := map_assign (sq_task_type request)
             (map_assign (sq_coordinator request) \<lparr>sw_ticket = ticket, sw_last_asked = now\<rparr> coordinators)
             (ss_waiting s),
           ss_next_ticket := (if inserted then ss_next_ticket s + 1 else ss_next_ticket s)\<rparr>)"

definition slot_record :: "slot_request \<Rightarrow> slot_sharing \<Rightarrow> slot_sharing" where
  "slot_record request s =
     (let left = map_erase (sq_coordinator request) (waiting_for_type (sq_task_type request) s)
      in s\<lparr>ss_held := map_assign (sq_session request, sq_lease_id request)
             \<lparr>sh_coordinator = sq_coordinator request, sh_task_type = sq_task_type request\<rparr> (ss_held s),
           ss_waiting := (if left = [] then map_erase (sq_task_type request) (ss_waiting s)
                          else map_modify (sq_task_type request) (\<lambda>_. left) (ss_waiting s))\<rparr>)"

text \<open>A waiting coordinator's place: the leases it holds, then its ticket.\<close>

definition own_place :: "slot_request \<Rightarrow> slot_sharing \<Rightarrow> nat \<times> nat" where
  "own_place request s =
     (held_by (sq_coordinator request) (sq_task_type request) s,
      (case map_of (waiting_for_type (sq_task_type request) s) (sq_coordinator request) of
         None \<Rightarrow> 18446744073709551615 | Some w \<Rightarrow> sw_ticket w))"

definition try_take ::
  "(string, nat) std_map \<Rightarrow> int \<Rightarrow> slot_request \<Rightarrow> slot_sharing \<Rightarrow> admission_decision \<times> slot_sharing" where
  "try_take local_load now request s0 =
     (let s = expire_waiting now s0;
          t = sq_task_type request;
          c = sq_coordinator request
      in if sq_declared_slots request = 0 then (admitted_decision, slot_record request s)
         else let running_locally = (case map_of local_load t of None \<Rightarrow> 0 | Some n \<Rightarrow> n);
                  held_by_requester = held_by c t s;
                  held_by_others = slots_held t s - held_by_requester;
                  others_waiting = list_ex (\<lambda>(c', w). c' \<noteq> c) (waiting_for_type t s)
              in if held_by_others = 0 \<and> running_locally = 0 \<and> \<not> others_waiting
                 then (admitted_decision, slot_record request s)
                 else if held_by_requester + held_by_others + running_locally \<ge> sq_declared_slots request
                 then (refused_decision kRejectInsufficientSlots, slot_wait request now s)
                 else if list_ex (\<lambda>(c', w). c' \<noteq> c \<and> (held_by c' t s, sw_ticket w) < own_place request s)
                           (waiting_for_type t s)
                 then (refused_decision kRejectInsufficientSlots, slot_wait request now s)
                 else (admitted_decision, slot_record request s))"

definition slots_release :: "string \<Rightarrow> string \<Rightarrow> slot_sharing \<Rightarrow> slot_sharing" where
  "slots_release session lease_id s = s\<lparr>ss_held := map_erase (session, lease_id) (ss_held s)\<rparr>"

definition slots_release_session :: "string \<Rightarrow> slot_sharing \<Rightarrow> slot_sharing" where
  "slots_release_session session s =
     s\<lparr>ss_held := filter (\<lambda>entry. fst (fst entry) \<noteq> session) (ss_held s)\<rparr>"

subsection \<open>An assigned lease (agent\_session.cpp)\<close>

definition kBytesPerMiB :: u64 where
  "kBytesPerMiB = 1024 * 1024"

text \<open>
  \<open>assign\<close> takes the slot first, then asks for memory; a lease refused for memory gives its slot back.
  Sessions run in parallel and each decides one lease at a time, so between the slot and the memory
  of one session's lease any step of another may fall. \<open>wk_deciding\<close> holds the leases that have
  their slot and not yet a memory decision. The coordinator never reuses a lease id within a session.
  A lease is over when its result is relayed or it is cancelled (its two releases are one step);
  a session closes after its last assignment was decided.
\<close>

record worker_room =
  wk_slots :: slot_sharing
  wk_ledger :: admission_ledger
  wk_deciding :: "string \<Rightarrow> (slot_request \<times> u64) option"

definition request_key :: "slot_request \<Rightarrow> lease_key" where
  "request_key request = (sq_session request, sq_lease_id request)"

definition admission_of :: "slot_request \<Rightarrow> u64 \<Rightarrow> lease_admission" where
  "admission_of request est_peak_rss_mb =
     \<lparr>la_session = sq_session request, la_lease_id = sq_lease_id request,
      la_task_type = sq_task_type request, la_required_bytes = est_peak_rss_mb * kBytesPerMiB\<rparr>"

definition assign_slot ::
  "(string, nat) std_map \<Rightarrow> int \<Rightarrow> slot_request \<Rightarrow> u64 \<Rightarrow> worker_room \<Rightarrow> worker_room" where
  "assign_slot local_load now request est w =
     (let (decision, slots) = try_take local_load now request (wk_slots w)
      in w\<lparr>wk_slots := slots,
           wk_deciding := (if ad_admitted decision then (wk_deciding w)(sq_session request \<mapsto> (request, est))
                           else wk_deciding w)\<rparr>)"

definition assign_memory ::
  "memory_snapshot \<Rightarrow> (string \<Rightarrow> u64 option) \<Rightarrow> int \<Rightarrow> slot_request \<Rightarrow> u64 \<Rightarrow> worker_room \<Rightarrow> worker_room" where
  "assign_memory memory in_use now request est w =
     (let (decision, ledger) = try_admit (admission_of request est) memory in_use now (wk_ledger w)
      in w\<lparr>wk_ledger := ledger,
           wk_slots := (if ad_admitted decision then wk_slots w
                        else slots_release (sq_session request) (sq_lease_id request) (wk_slots w)),
           wk_deciding := (wk_deciding w)(sq_session request := None)\<rparr>)"

definition lease_over :: "string \<Rightarrow> string \<Rightarrow> worker_room \<Rightarrow> worker_room" where
  "lease_over session lease_id w =
     w\<lparr>wk_ledger := ledger_release session lease_id (wk_ledger w),
       wk_slots := slots_release session lease_id (wk_slots w)\<rparr>"

definition session_over :: "string \<Rightarrow> worker_room \<Rightarrow> worker_room" where
  "session_over session w =
     w\<lparr>wk_ledger := ledger_release_session session (wk_ledger w),
       wk_slots := slots_release_session session (wk_slots w)\<rparr>"

inductive worker_step :: "worker_room \<Rightarrow> worker_room \<Rightarrow> bool" where
  slot: "wk_deciding w (sq_session request) = None \<Longrightarrow>
     map_of (ss_held (wk_slots w)) (request_key request) = None \<Longrightarrow>
     worker_step w (assign_slot local_load now request est w)"
| memory: "wk_deciding w session = Some (request, est) \<Longrightarrow>
     worker_step w (assign_memory memory in_use now request est w)"
| over: "(\<forall>request est. wk_deciding w session = Some (request, est) \<longrightarrow> sq_lease_id request \<noteq> lease_id) \<Longrightarrow>
     worker_step w (lease_over session lease_id w)"
| closed: "wk_deciding w session = None \<Longrightarrow> worker_step w (session_over session w)"

definition new_worker_room ::
  "int \<Rightarrow> memory_turn_policy \<Rightarrow> admission_policy \<Rightarrow> u64 \<Rightarrow> worker_room" where
  "new_worker_room window turns policy physical =
     \<lparr>wk_slots = \<lparr>ss_contention_window = window, ss_held = [], ss_waiting = [], ss_next_ticket = 0\<rparr>,
      wk_ledger = \<lparr>al_policy = policy, al_physical_memory_bytes = physical,
                   al_turns = new_memory_turns turns, al_admitted = []\<rparr>,
      wk_deciding = (\<lambda>_. None)\<rparr>"

definition worker_reachable :: "worker_room \<Rightarrow> bool" where
  "worker_reachable w \<longleftrightarrow>
     (\<exists>window turns policy physical. worker_step\<^sup>*\<^sup>* (new_worker_room window turns policy physical) w)"

end
