(* ===== verification/AdmissionFacts.thy ===== *)
theory AdmissionFacts
  imports Admission "HOL-Library.Multiset"
begin

text \<open>
  What admission promises: the memory turns stay well formed and have one owner, expiry is exact, a
  lease is admitted only where it fits, a free slot goes to one coordinator, and the slots and the
  ledger name the same leases.
\<close>

lemmas admission_unfold = decide_admission_def refused_decision_def admitted_decision_def Let_def

subsection \<open>Sums of estimates\<close>

lemma unat_sum_list_words:
  "sum_list (List.map unat xs) < 2 ^ 64 \<Longrightarrow> unat (sum_list xs :: u64) = sum_list (List.map unat xs)"
proof (induction xs)
  case (Cons x xs)
  then have "unat (sum_list xs) = sum_list (List.map unat xs)" by simp
  with Cons.prems show ?case by (simp add: unat_word_ariths)
qed simp

lemma unat_pending_bytes:
  "unat (pending_bytes estimated used) =
     unat estimated - (case used of None \<Rightarrow> 0 | Some u \<Rightarrow> unat u)"
  by (auto simp: pending_bytes_def word_less_nat_alt unat_sub_if_size word_le_nat_alt split: option.splits)

definition session_estimate :: "string \<Rightarrow> (lease_key \<times> admitted_lease) list \<Rightarrow> u64" where
  "session_estimate session entries =
     sum_list (List.map (\<lambda>(key, a). adm_bytes a) (filter (\<lambda>(key, a). fst key = session) entries))"

lemma estimated_by_session_wf: "map_wf m \<Longrightarrow> map_wf (estimated_by_session entries m)"
  by (induction entries m rule: estimated_by_session.induct) auto

lemma estimated_by_session_lookup:
  "map_wf m \<Longrightarrow> map_of (estimated_by_session entries m) s =
     (if s \<in> fst ` fst ` set entries \<or> map_of m s \<noteq> None
      then Some ((case map_of m s of None \<Rightarrow> 0 | Some b \<Rightarrow> b) + session_estimate s entries) else None)"
  by (induction entries m rule: estimated_by_session.induct)
    (auto simp: session_estimate_def add_ac split: option.splits)

definition ledger_sessions :: "admission_ledger \<Rightarrow> string set" where
  "ledger_sessions ledger = fst ` fst ` set (al_admitted ledger)"

definition ledger_estimate :: "admission_ledger \<Rightarrow> string \<Rightarrow> nat" where
  "ledger_estimate ledger session =
     sum_list (List.map (\<lambda>(key, a). unat (adm_bytes a))
       (filter (\<lambda>(key, a). fst key = session) (al_admitted ledger)))"

definition ledger_total :: "admission_ledger \<Rightarrow> nat" where
  "ledger_total ledger = sum_list (List.map (\<lambda>(key, a). unat (adm_bytes a)) (al_admitted ledger))"

definition measured :: "(string \<Rightarrow> u64 option) \<Rightarrow> string \<Rightarrow> nat" where
  "measured in_use session = (case in_use session of None \<Rightarrow> 0 | Some used \<Rightarrow> unat used)"

lemma sum_list_filter_le: "sum_list (List.map f (filter P xs)) \<le> (sum_list (List.map f xs) :: nat)"
  by (induction xs) auto

lemma sum_list_by_class:
  assumes "finite S" "g ` set xs \<subseteq> S"
  shows "(\<Sum>s\<in>S. sum_list (List.map f (filter (\<lambda>e. g e = s) xs))) = (sum_list (List.map f xs) :: nat)"
  using assms(2)
proof (induction xs)
  case (Cons x xs)
  have "(\<Sum>s\<in>S. sum_list (List.map f (filter (\<lambda>e. g e = s) (x # xs)))) =
        (\<Sum>s\<in>S. (if g x = s then f x else 0) + sum_list (List.map f (filter (\<lambda>e. g e = s) xs)))"
    by (rule sum.cong) auto
  also have "\<dots> = (\<Sum>s\<in>S. if g x = s then f x else 0)
        + (\<Sum>s\<in>S. sum_list (List.map f (filter (\<lambda>e. g e = s) xs)))"
    by (rule sum.distrib)
  also have "(\<Sum>s\<in>S. if g x = s then f x else 0) = f x" using Cons.prems assms(1) by simp
  finally show ?case using Cons by simp
qed simp

lemma sum_estimates: "(\<Sum>s\<in>ledger_sessions ledger. ledger_estimate ledger s) = ledger_total ledger"
  using sum_list_by_class [of "ledger_sessions ledger" "\<lambda>e. fst (fst e)" "al_admitted ledger"
      "\<lambda>(key, a). unat (adm_bytes a)"]
  by (simp add: ledger_sessions_def ledger_estimate_def ledger_total_def image_comp comp_def case_prod_unfold)

lemma unat_session_estimate:
  assumes "ledger_total ledger < 2 ^ 64"
  shows "unat (session_estimate s (al_admitted ledger)) = ledger_estimate ledger s"
proof -
  let ?xs = "List.map (\<lambda>(key, a). adm_bytes a) (filter (\<lambda>(key, a). fst key = s) (al_admitted ledger))"
  have eq: "sum_list (List.map unat ?xs) = ledger_estimate ledger s"
    by (simp add: ledger_estimate_def comp_def case_prod_unfold)
  have "ledger_estimate ledger s \<le> ledger_total ledger"
    unfolding ledger_estimate_def ledger_total_def by (rule sum_list_filter_le)
  then show ?thesis using assms eq unat_sum_list_words [of ?xs] by (simp add: session_estimate_def)
qed

lemma unat_ledger_pending:
  assumes total: "ledger_total ledger < 2 ^ 64"
  shows "unat (ledger_pending in_use ledger) =
     (\<Sum>s\<in>ledger_sessions ledger. ledger_estimate ledger s - measured in_use s)"
proof -
  let ?E = "estimated_by_session (al_admitted ledger) []"
  let ?f = "\<lambda>s. ledger_estimate ledger s - measured in_use s"
  have wf: "map_wf ?E" by (rule estimated_by_session_wf) simp
  have entry: "e = session_estimate s (al_admitted ledger) \<and> s \<in> ledger_sessions ledger"
    if "(s, e) \<in> set ?E" for s e
  proof -
    have "map_of ?E s = Some e" using that map_of_mem_iff [OF wf] by blast
    then show ?thesis by (auto simp: estimated_by_session_lookup ledger_sessions_def split: if_splits)
  qed
  have keys: "fst ` set ?E = ledger_sessions ledger"
  proof -
    have "fst ` set ?E = dom (map_of ?E)" by (rule dom_map_of_conv_image_fst [symmetric])
    also have "\<dots> = ledger_sessions ledger"
      by (auto simp: estimated_by_session_lookup ledger_sessions_def image_image dom_def split: if_splits)
    finally show ?thesis .
  qed
  let ?ws = "List.map (\<lambda>(session, estimated). pending_bytes estimated (in_use session)) ?E"
  have each: "unat (pending_bytes e (in_use s)) = ?f s" if "(s, e) \<in> set ?E" for s e
    using entry [OF that] unat_session_estimate [OF total, of s] by (simp add: unat_pending_bytes measured_def)
  have "List.map unat ?ws = List.map ?f (List.map fst ?E)"
    using each by (auto simp: case_prod_unfold comp_def)
  then have "sum_list (List.map unat ?ws) = sum_list (List.map ?f (List.map fst ?E))" by (rule arg_cong)
  also have "\<dots> = (\<Sum>s\<in>ledger_sessions ledger. ?f s)"
    using sum_list_distinct_conv_sum_set [OF map_wf_distinct [OF wf], of ?f] keys by simp
  finally have sums: "sum_list (List.map unat ?ws) = (\<Sum>s\<in>ledger_sessions ledger. ?f s)" .
  have "(\<Sum>s\<in>ledger_sessions ledger. ?f s) \<le> (\<Sum>s\<in>ledger_sessions ledger. ledger_estimate ledger s)"
    by (rule sum_mono) simp
  then have "sum_list (List.map unat ?ws) < 2 ^ 64" using sums total sum_estimates [of ledger] by simp
  then show ?thesis using unat_sum_list_words [of ?ws] sums by (simp add: ledger_pending_def)
qed

subsection \<open>The decision\<close>

lemma unat_spoken_for:
  "unat r + unat p < 2 ^ 64 \<Longrightarrow> unat (r + p :: u64) = unat r + unat p"
  by (simp add: unat_word_ariths)

lemma decide_admission_iff:
  assumes "unat (reserve_bytes policy physical) + unat pending < 2 ^ 64"
  shows "ad_admitted (decide_admission policy physical memory pending required) \<longleftrightarrow>
     pressure_level (ms_pressure memory) < pressure_level (refuse_at policy) \<and>
     (let spoken_for = unat (reserve_bytes policy physical) + unat pending
      in spoken_for + unat required \<le> unat (ms_available_bytes memory)
         \<and> spoken_for < unat (ms_available_bytes memory))"
proof -
  define spoken where "spoken = reserve_bytes policy physical + pending"
  have s: "unat spoken = unat (reserve_bytes policy physical) + unat pending"
    using unat_spoken_for [OF assms] by (simp add: spoken_def)
  have "unat (0 :: u64) = 0" by simp
  then show ?thesis
    unfolding decide_admission_def Let_def spoken_def [symmetric] s [symmetric]
    by (auto simp: refused_decision_def admitted_decision_def word_less_nat_alt word_le_nat_alt unat_sub_if_size
      unat_eq_zero not_le not_less split: if_splits)
qed

subsection \<open>Memory turns\<close>

definition turns_wf :: "memory_turns \<Rightarrow> bool" where
  "turns_wf turns \<longleftrightarrow> map_wf (mt_waits turns) \<and> map_wf (mt_rests turns) \<and>
     (\<forall>t w. map_of (mt_waits turns) t = Some w \<longrightarrow> tw_ticket w < mt_next_ticket turns) \<and>
     (\<forall>t w u v. map_of (mt_waits turns) t = Some w \<longrightarrow> map_of (mt_waits turns) u = Some v \<longrightarrow>
        tw_ticket w = tw_ticket v \<longrightarrow> t = u)"

lemma turns_wf_new [simp]: "turns_wf (new_memory_turns policy)"
  by (simp add: turns_wf_def new_memory_turns_def)

lemma turns_wf_maps: "turns_wf turns \<Longrightarrow> map_wf (mt_waits turns) \<and> map_wf (mt_rests turns)"
  by (simp add: turns_wf_def)

text \<open>Losing waits, or changing one without its ticket, keeps the turns well formed.\<close>

lemma turns_wf_shrink:
  assumes "turns_wf turns" "map_wf (mt_waits turns')" "map_wf (mt_rests turns')"
    "mt_next_ticket turns' = mt_next_ticket turns"
    "\<And>t w. map_of (mt_waits turns') t = Some w \<Longrightarrow>
       \<exists>w'. map_of (mt_waits turns) t = Some w' \<and> tw_ticket w' = tw_ticket w"
  shows "turns_wf turns'"
  using assms unfolding turns_wf_def by metis

lemma turns_wf_end_fruitless: "turns_wf turns \<Longrightarrow> turns_wf (end_fruitless t w now turns)"
  by (rule turns_wf_shrink [where turns = turns])
    (auto simp: end_fruitless_def turns_wf_maps split: if_splits)

lemma turns_wf_erase: "turns_wf turns \<Longrightarrow> turns_wf (turns\<lparr>mt_waits := map_erase t (mt_waits turns)\<rparr>)"
  by (rule turns_wf_shrink [where turns = turns]) (auto simp: turns_wf_maps split: if_splits)

lemma turns_wf_expire_each: "turns_wf turns \<Longrightarrow> turns_wf (expire_each now ws turns)"
  by (induction now ws turns rule: expire_each.induct) (simp_all add: turns_wf_end_fruitless turns_wf_erase)

lemma turns_wf_expire: "turns_wf turns \<Longrightarrow> turns_wf (turns_expire now turns)"
  using turns_wf_expire_each [of turns now "mt_waits turns"]
  by (simp add: turns_expire_def Let_def turns_wf_def map_wf_filter)

lemma turns_wf_refused:
  assumes wf: "turns_wf turns"
  shows "turns_wf (turns_refused t running now turns)"
proof (cases "map_of (mt_waits turns) t")
  case None
  have below: "tw_ticket w < mt_next_ticket turns" if "map_of (mt_waits turns) u = Some w" for u w
    using wf that unfolding turns_wf_def by metis
  have one: "u = v" if "map_of (mt_waits turns) u = Some w" "map_of (mt_waits turns) v = Some w'"
    "tw_ticket w = tw_ticket w'" for u v w w'
    using wf that unfolding turns_wf_def by metis
  show ?thesis
  proof (cases "running = {} \<or> turns_resting t now turns")
    case True
    then show ?thesis using wf None by (simp add: turns_refused_def)
  next
    case False
    let ?w = "\<lparr>tw_ticket = mt_next_ticket turns, tw_since = now, tw_last_asked = now, tw_waiting_for = running\<rparr>"
    have eq: "turns_refused t running now turns =
        turns\<lparr>mt_waits := map_emplace t ?w (mt_waits turns), mt_next_ticket := mt_next_ticket turns + 1\<rparr>"
      using None False by (simp add: turns_refused_def)
    have look: "map_of (map_emplace t ?w (mt_waits turns)) u =
        (if u = t then Some ?w else map_of (mt_waits turns) u)" for u
      using None turns_wf_maps [OF wf] by simp
    show ?thesis
      unfolding eq turns_wf_def
    proof (intro conjI allI impI)
      fix u v w w'
      assume "map_of (mt_waits (turns\<lparr>mt_waits := map_emplace t ?w (mt_waits turns),
          mt_next_ticket := mt_next_ticket turns + 1\<rparr>)) u = Some w"
        "map_of (mt_waits (turns\<lparr>mt_waits := map_emplace t ?w (mt_waits turns),
          mt_next_ticket := mt_next_ticket turns + 1\<rparr>)) v = Some w'" "tw_ticket w = tw_ticket w'"
      then show "u = v"
        by (cases "u = t"; cases "v = t") (use below [of u w] below [of v w'] one [of u w v w'] in \<open>auto simp: look\<close>)
    next
      fix u w
      assume "map_of (mt_waits (turns\<lparr>mt_waits := map_emplace t ?w (mt_waits turns),
          mt_next_ticket := mt_next_ticket turns + 1\<rparr>)) u = Some w"
      then show "tw_ticket w < mt_next_ticket (turns\<lparr>mt_waits := map_emplace t ?w (mt_waits turns),
          mt_next_ticket := mt_next_ticket turns + 1\<rparr>)"
        using below [of u w] by (auto simp: look split: if_splits)
    qed (use turns_wf_maps [OF wf] in simp_all)
  qed
next
  case (Some w)
  have "turns_wf (turns\<lparr>mt_waits := map_modify t (\<lambda>_. w\<lparr>tw_last_asked := now\<rparr>) (mt_waits turns)\<rparr>)"
    by (rule turns_wf_shrink [OF wf]) (use Some turns_wf_maps [OF wf] in \<open>auto split: if_splits\<close>)
  then show ?thesis using Some by (simp add: turns_refused_def Let_def turns_wf_end_fruitless)
qed

text \<open>Who is first in line.\<close>

definition least_other :: "string \<Rightarrow> (string \<times> turn_wait) list \<Rightarrow> nat \<Rightarrow> string \<Rightarrow> nat \<Rightarrow> bool" where
  "least_other x ws n t k \<longleftrightarrow> t \<noteq> x \<and> k < n \<and> (\<exists>w. (t, w) \<in> set ws \<and> tw_ticket w = k) \<and>
     (\<forall>t' w'. (t', w') \<in> set ws \<longrightarrow> t' \<noteq> x \<longrightarrow> k \<le> tw_ticket w')"

lemma first_waiting_cases:
  "(first_waiting x ws first n = first \<and> (\<forall>t w. (t, w) \<in> set ws \<longrightarrow> t \<noteq> x \<longrightarrow> n \<le> tw_ticket w)) \<or>
   (\<exists>t k. first_waiting x ws first n = Some t \<and> least_other x ws n t k)"
proof (induction x ws first n rule: first_waiting.induct)
  case (2 x t w rest first n)
  show ?case
  proof (cases "t \<noteq> x \<and> tw_ticket w < n")
    case True
    from "2.IH"(1) [OF True] show ?thesis
    proof (elim disjE exE conjE)
      assume "first_waiting x rest (Some t) (tw_ticket w) = Some t"
        and "\<forall>t' w'. (t', w') \<in> set rest \<longrightarrow> t' \<noteq> x \<longrightarrow> tw_ticket w \<le> tw_ticket w'"
      then have "least_other x ((t, w) # rest) n t (tw_ticket w)" using True by (auto simp: least_other_def)
      then show ?thesis using True \<open>first_waiting x rest (Some t) (tw_ticket w) = Some t\<close> by auto
    next
      fix u k
      assume u: "first_waiting x rest (Some t) (tw_ticket w) = Some u" "least_other x rest (tw_ticket w) u k"
      then have "least_other x ((t, w) # rest) n u k" using True by (auto simp: least_other_def)
      then show ?thesis using True u by auto
    qed
  next
    case False
    have "least_other x ((t, w) # rest) n u k" if "least_other x rest n u k" for u k
      using that False by (auto simp: least_other_def)
    then show ?thesis using "2.IH"(2) [OF False] False by auto
  qed
qed simp

lemma one_turn:
  assumes wf: "turns_wf turns" and waits: "mt_waits turns \<noteq> []"
  shows "\<exists>first. turns_waiting first turns \<and> yields_to first turns = None \<and>
     (\<forall>t. t \<noteq> first \<longrightarrow> yields_to t turns = Some first)"
proof -
  let ?ws = "mt_waits turns"
  have mem: "\<And>t w. map_of ?ws t = Some w \<longleftrightarrow> (t, w) \<in> set ?ws"
    using wf by (simp add: map_of_mem_iff turns_wf_def)
  obtain first w where first: "(first, w) \<in> set ?ws" and least: "\<And>t v. (t, v) \<in> set ?ws \<Longrightarrow> tw_ticket w \<le> tw_ticket v"
  proof -
    let ?e = "arg_min_on (\<lambda>e. tw_ticket (snd e)) (set ?ws)"
    have "?e \<in> set ?ws" using waits by (intro arg_min_if_finite) auto
    moreover have "\<And>e. e \<in> set ?ws \<Longrightarrow> tw_ticket (snd ?e) \<le> tw_ticket (snd e)"
      using waits arg_min_least [of "set ?ws" _ "\<lambda>e. tw_ticket (snd e)"] by auto
    ultimately show ?thesis using that [of "fst ?e" "snd ?e"] by force
  qed
  have own: "own_ticket first turns = tw_ticket w"
    using first mem [of first w] by (simp add: own_ticket_def)
  have none: "yields_to first turns = None"
    using first_waiting_cases [of first ?ws None "tw_ticket w"] least
    unfolding yields_to_def own least_other_def by (metis not_le)
  have some: "yields_to t turns = Some first" if t: "t \<noteq> first" for t
  proof -
    have later: "tw_ticket w < own_ticket t turns"
    proof (cases "map_of ?ws t")
      case None
      then show ?thesis using wf first mem by (simp add: own_ticket_def turns_wf_def)
    next
      case (Some v)
      then have "tw_ticket w \<noteq> tw_ticket v" using wf first mem t unfolding turns_wf_def by metis
      moreover have "tw_ticket w \<le> tw_ticket v" using Some least mem by blast
      moreover have "own_ticket t turns = tw_ticket v" using Some by (simp add: own_ticket_def)
      ultimately show ?thesis by simp
    qed
    then obtain t' w' where t': "(t', w') \<in> set ?ws" "yields_to t turns = Some t'"
      "tw_ticket w' \<le> tw_ticket w"
      using first_waiting_cases [of t ?ws None "own_ticket t turns"] first t
      unfolding yields_to_def least_other_def by (metis not_le)
    then have "tw_ticket w' = tw_ticket w" using least by (simp add: le_antisym)
    then have "t' = first" using wf t'(1) first mem unfolding turns_wf_def by metis
    then show ?thesis using t'(2) by simp
  qed
  have "turns_waiting first turns" using first mem [THEN iffD2] unfolding turns_waiting_def by blast
  then show ?thesis using none some by blast
qed

text \<open>Which waits and rests are left after the turns are expired.\<close>

definition wait_idle :: "memory_turn_policy \<Rightarrow> int \<Rightarrow> turn_wait \<Rightarrow> bool" where
  "wait_idle policy now w \<longleftrightarrow> now - tw_last_asked w > idle_window policy"

definition wait_fruitless :: "memory_turn_policy \<Rightarrow> int \<Rightarrow> turn_wait \<Rightarrow> bool" where
  "wait_fruitless policy now w \<longleftrightarrow> \<not> wait_idle policy now w \<and> now - tw_since w \<ge> max_wait policy"

lemma expire_each_policy [simp]: "mt_policy (expire_each now ws turns) = mt_policy turns"
  by (induction now ws turns rule: expire_each.induct) (simp_all add: end_fruitless_def)

lemma expire_each_waits:
  "distinct (List.map fst ws) \<Longrightarrow> map_of (mt_waits (expire_each now ws turns)) t =
     (case map_of ws t of None \<Rightarrow> map_of (mt_waits turns) t
      | Some w \<Rightarrow> if wait_idle (mt_policy turns) now w \<or> wait_fruitless (mt_policy turns) now w then None
                  else map_of (mt_waits turns) t)"
  by (induction now ws turns rule: expire_each.induct)
    (auto simp: end_fruitless_def wait_idle_def wait_fruitless_def image_iff split: option.splits dest: map_of_SomeD)

lemma expire_each_rests:
  "distinct (List.map fst ws) \<Longrightarrow> map_wf (mt_rests turns) \<Longrightarrow> map_of (mt_rests (expire_each now ws turns)) t =
     (case map_of ws t of None \<Rightarrow> map_of (mt_rests turns) t
      | Some w \<Rightarrow> if wait_fruitless (mt_policy turns) now w then Some (now + (now - tw_since w))
                  else map_of (mt_rests turns) t)"
  by (induction now ws turns rule: expire_each.induct)
    (auto simp: end_fruitless_def wait_idle_def wait_fruitless_def image_iff split: option.splits dest: map_of_SomeD)

lemma turns_expire_lookup:
  assumes "turns_wf turns"
  shows "map_of (mt_waits (turns_expire now turns)) t =
      (case map_of (mt_waits turns) t of None \<Rightarrow> None
       | Some w \<Rightarrow> if wait_idle (mt_policy turns) now w \<or> wait_fruitless (mt_policy turns) now w then None else Some w)"
    "map_of (mt_rests (turns_expire now turns)) t =
      (let rest = (case map_of (mt_waits turns) t of None \<Rightarrow> map_of (mt_rests turns) t
         | Some w \<Rightarrow> if wait_fruitless (mt_policy turns) now w then Some (now + (now - tw_since w))
                     else map_of (mt_rests turns) t)
       in case rest of None \<Rightarrow> None | Some e \<Rightarrow> if now < e then Some e else None)"
proof -
  have d: "distinct (List.map fst (mt_waits turns))"
    "distinct (List.map fst (mt_rests (expire_each now (mt_waits turns) turns)))"
    using assms turns_wf_expire_each [OF assms] by (auto simp: turns_wf_def map_wf_distinct)
  show "map_of (mt_waits (turns_expire now turns)) t =
      (case map_of (mt_waits turns) t of None \<Rightarrow> None
       | Some w \<Rightarrow> if wait_idle (mt_policy turns) now w \<or> wait_fruitless (mt_policy turns) now w then None else Some w)"
    using d by (auto simp: turns_expire_def Let_def expire_each_waits split: option.splits)
  have "map_of (mt_rests (turns_expire now turns)) t =
      (case map_of (mt_rests (expire_each now (mt_waits turns) turns)) t of
         None \<Rightarrow> None | Some e \<Rightarrow> if now < e then Some e else None)"
    using map_of_filter_snd [OF d(2), of "\<lambda>e. now < e"] by (simp add: turns_expire_def Let_def not_le)
  then show "map_of (mt_rests (turns_expire now turns)) t =
      (let rest = (case map_of (mt_waits turns) t of None \<Rightarrow> map_of (mt_rests turns) t
         | Some w \<Rightarrow> if wait_fruitless (mt_policy turns) now w then Some (now + (now - tw_since w))
                     else map_of (mt_rests turns) t)
       in case rest of None \<Rightarrow> None | Some e \<Rightarrow> if now < e then Some e else None)"
    using expire_each_rests [OF d(1)] turns_wf_maps [OF assms] unfolding Let_def by simp
qed

subsection \<open>Slots\<close>

definition line_wf :: "nat \<Rightarrow> (string, slot_waiting) std_map \<Rightarrow> bool" where
  "line_wf n line \<longleftrightarrow> map_wf line \<and> (\<forall>c w. map_of line c = Some w \<longrightarrow> sw_ticket w < n) \<and>
     (\<forall>c w d v. map_of line c = Some w \<longrightarrow> map_of line d = Some v \<longrightarrow> sw_ticket w = sw_ticket v \<longrightarrow> c = d)"

definition slots_wf :: "slot_sharing \<Rightarrow> bool" where
  "slots_wf s \<longleftrightarrow> map_wf (ss_held s) \<and> map_wf (ss_waiting s) \<and>
     (\<forall>t. line_wf (ss_next_ticket s) (waiting_for_type t s))"

lemma line_wf_Nil [simp]: "line_wf n []"
  by (simp add: line_wf_def)

lemma line_wf_shrink:
  "line_wf n line \<Longrightarrow> map_wf line' \<Longrightarrow>
   (\<And>c w. map_of line' c = Some w \<Longrightarrow> \<exists>w'. map_of line c = Some w' \<and> sw_ticket w' = sw_ticket w) \<Longrightarrow> line_wf n line'"
  unfolding line_wf_def by metis

lemma line_wf_mono: "line_wf n line \<Longrightarrow> n \<le> n' \<Longrightarrow> line_wf n' line"
  unfolding line_wf_def using less_le_trans by metis

lemma waiting_expire:
  assumes "map_wf (ss_waiting s)"
  shows "waiting_for_type t (expire_waiting now s) =
     filter (\<lambda>e. \<not> now - sw_last_asked (snd e) > ss_contention_window s) (waiting_for_type t s)"
proof -
  let ?keep = "filter (\<lambda>e. \<not> now - sw_last_asked (snd e) > ss_contention_window s)"
  let ?m = "List.map (\<lambda>(t, line). (t, ?keep line)) (ss_waiting s)"
  have d: "distinct (List.map fst ?m)" using map_wf_distinct [OF assms] by (simp add: comp_def case_prod_unfold)
  have "map_of ?m t = map_option ?keep (map_of (ss_waiting s) t)"
    by (induction "ss_waiting s") (simp_all add: map_of_map)
  moreover have "ss_waiting (expire_waiting now s) = filter (\<lambda>e. snd e \<noteq> []) ?m"
    by (simp add: expire_waiting_def case_prod_unfold)
  ultimately show ?thesis
    using map_of_filter_snd [OF d, of "\<lambda>l. l \<noteq> []" t] by (auto simp: waiting_for_type_def split: option.splits)
qed

lemma slots_wf_expire:
  assumes wf: "slots_wf s"
  shows "slots_wf (expire_waiting now s)"
proof -
  have m: "map_wf (ss_waiting s)" using wf by (simp add: slots_wf_def)
  let ?f = "\<lambda>(t, line). (t, filter (\<lambda>(c, w). \<not> now - sw_last_asked w > ss_contention_window s) line)"
  have "List.map fst (List.map ?f (ss_waiting s)) = List.map fst (ss_waiting s)" by (simp add: case_prod_unfold)
  then have "map_wf (List.map ?f (ss_waiting s))" using m unfolding map_wf_def by (simp only:)
  then have w: "map_wf (ss_waiting (expire_waiting now s))" by (simp add: expire_waiting_def map_wf_filter)
  have l: "line_wf (ss_next_ticket s) (waiting_for_type t (expire_waiting now s))" for t
    unfolding waiting_expire [OF m]
  proof (rule line_wf_shrink)
    show line: "line_wf (ss_next_ticket s) (waiting_for_type t s)" using wf by (simp add: slots_wf_def)
    then have wfl: "map_wf (waiting_for_type t s)" by (simp add: line_wf_def)
    show "map_wf (filter (\<lambda>e. \<not> now - sw_last_asked (snd e) > ss_contention_window s) (waiting_for_type t s))"
      using wfl by (rule map_wf_filter)
    show "\<exists>w'. map_of (waiting_for_type t s) c = Some w' \<and> sw_ticket w' = sw_ticket w"
      if "map_of (filter (\<lambda>e. \<not> now - sw_last_asked (snd e) > ss_contention_window s) (waiting_for_type t s)) c = Some w"
      for c w
      using that map_of_filter_snd [OF map_wf_distinct [OF wfl], of "\<lambda>w. \<not> now - sw_last_asked w > ss_contention_window s"]
      by (auto split: option.splits if_splits)
  qed
  show ?thesis using wf w l by (simp add: slots_wf_def) (simp add: expire_waiting_def)
qed

lemma map_erase_Nil: "map_erase k [] = []"
  by (simp add: map_erase_def)

lemma waiting_for_type_held [simp]: "waiting_for_type t (s\<lparr>ss_held := held\<rparr>) = waiting_for_type t s"
  by (simp add: waiting_for_type_def)

lemma waiting_for_type_assign:
  "map_wf (ss_waiting s) \<Longrightarrow>
   waiting_for_type u (s\<lparr>ss_waiting := map_assign t line (ss_waiting s), ss_next_ticket := n\<rparr>) =
     (if u = t then line else waiting_for_type u s)"
  by (simp add: waiting_for_type_def)

lemma line_wf_assign_new:
  assumes "line_wf n line" "map_of line c = None"
  shows "line_wf (n + 1) (map_assign c \<lparr>sw_ticket = n, sw_last_asked = now\<rparr> line)"
proof -
  have wf: "map_wf line" using assms(1) by (simp add: line_wf_def)
  have below: "sw_ticket w < n" if "map_of line d = Some w" for d w
    using assms(1) that unfolding line_wf_def by metis
  have one: "d = e" if "map_of line d = Some w" "map_of line e = Some v" "sw_ticket w = sw_ticket v" for d e w v
    using assms(1) that unfolding line_wf_def by metis
  let ?l = "map_assign c \<lparr>sw_ticket = n, sw_last_asked = now\<rparr> line"
  have look: "map_of ?l d = (if d = c then Some \<lparr>sw_ticket = n, sw_last_asked = now\<rparr> else map_of line d)" for d
    using wf by simp
  have "d = e" if "map_of ?l d = Some w" "map_of ?l e = Some v" "sw_ticket w = sw_ticket v" for d e w v
    using that below [of d w] below [of e v] one [of d w e v]
    by (cases "d = c"; cases "e = c") (auto simp: look)
  moreover have "sw_ticket w < n + 1" if "map_of ?l d = Some w" for d w
    using that below [of d w] by (auto simp: look split: if_splits)
  ultimately show ?thesis using wf unfolding line_wf_def by (metis map_wf_assign)
qed

lemma slots_wf_wait:
  assumes wf: "slots_wf s"
  shows "slots_wf (slot_wait request now s)"
proof -
  let ?t = "sq_task_type request" and ?c = "sq_coordinator request"
  let ?line = "waiting_for_type ?t s"
  have m: "map_wf (ss_waiting s)" and lines: "\<And>t. line_wf (ss_next_ticket s) (waiting_for_type t s)"
    using wf by (simp_all add: slots_wf_def)
  have wfl: "map_wf ?line" using lines by (simp add: line_wf_def)
  show ?thesis
  proof (cases "map_of ?line ?c")
    case None
    let ?new = "map_assign ?c \<lparr>sw_ticket = ss_next_ticket s, sw_last_asked = now\<rparr> ?line"
    have eq: "slot_wait request now s =
        s\<lparr>ss_waiting := map_assign ?t ?new (ss_waiting s), ss_next_ticket := ss_next_ticket s + 1\<rparr>"
      using None by (simp add: slot_wait_def Let_def)
    have "line_wf (ss_next_ticket s + 1) (waiting_for_type u (slot_wait request now s))" for u
      unfolding eq waiting_for_type_assign [OF m]
      using line_wf_assign_new [OF lines None] line_wf_mono [OF lines [of u], of "ss_next_ticket s + 1"] by simp
    then show ?thesis using wf m unfolding slots_wf_def eq by simp
  next
    case (Some w)
    let ?new = "map_assign ?c \<lparr>sw_ticket = sw_ticket w, sw_last_asked = now\<rparr> ?line"
    have eq: "slot_wait request now s =
        s\<lparr>ss_waiting := map_assign ?t ?new (ss_waiting s), ss_next_ticket := ss_next_ticket s\<rparr>"
      using Some by (simp add: slot_wait_def Let_def)
    have "line_wf (ss_next_ticket s) ?new"
      by (rule line_wf_shrink [OF lines [of ?t]]) (use wfl Some in \<open>auto split: if_splits\<close>)
    then have "line_wf (ss_next_ticket s) (waiting_for_type u (slot_wait request now s))" for u
      unfolding eq waiting_for_type_assign [OF m] using lines by simp
    then show ?thesis using wf m unfolding slots_wf_def eq by simp
  qed
qed

lemma waiting_for_type_record:
  assumes "map_wf (ss_waiting s)"
  shows "waiting_for_type u (slot_record request s) =
     (if u = sq_task_type request then map_erase (sq_coordinator request) (waiting_for_type u s)
      else waiting_for_type u s)"
proof (cases "map_of (ss_waiting s) (sq_task_type request)")
  case None
  then have "waiting_for_type (sq_task_type request) s = []" by (simp add: waiting_for_type_def)
  then show ?thesis using None assms
    by (auto simp: slot_record_def Let_def waiting_for_type_def map_erase_Nil)
next
  case (Some line)
  then show ?thesis using assms by (auto simp: slot_record_def Let_def waiting_for_type_def)
qed

lemma slots_wf_record:
  assumes wf: "slots_wf s"
  shows "slots_wf (slot_record request s)"
proof -
  have m: "map_wf (ss_waiting s)" and lines: "\<And>t. line_wf (ss_next_ticket s) (waiting_for_type t s)"
    using wf by (simp_all add: slots_wf_def)
  have "line_wf (ss_next_ticket s) (waiting_for_type u (slot_record request s))" for u
    unfolding waiting_for_type_record [OF m]
    using lines [of u]
    by (auto intro!: line_wf_shrink [OF lines [of u]] simp: line_wf_def)
  then show ?thesis using wf by (simp add: slots_wf_def slot_record_def Let_def)
qed

lemma slots_wf_held:
  "slots_wf s \<Longrightarrow> map_wf held \<Longrightarrow> slots_wf (s\<lparr>ss_held := held\<rparr>)"
  by (simp add: slots_wf_def waiting_for_type_def)

lemma slots_wf_releases:
  assumes "slots_wf s"
  shows "slots_wf (slots_release session lease_id s)" "slots_wf (slots_release_session session s)"
  using assms by (simp_all add: slots_release_def slots_release_session_def slots_wf_def map_wf_filter)

lemma try_take_cases:
  "(ad_admitted (fst (try_take local_load now request s)) \<and>
    snd (try_take local_load now request s) = slot_record request (expire_waiting now s)) \<or>
   (\<not> ad_admitted (fst (try_take local_load now request s)) \<and>
    snd (try_take local_load now request s) = slot_wait request now (expire_waiting now s))"
  by (simp add: try_take_def admission_unfold)

lemma slots_wf_try_take: "slots_wf s \<Longrightarrow> slots_wf (snd (try_take local_load now request s))"
  using try_take_cases [of local_load now request s]
  by (auto simp: slots_wf_record slots_wf_wait slots_wf_expire)

lemma held_expire [simp]: "ss_held (expire_waiting now s) = ss_held s"
  by (simp add: expire_waiting_def)

lemma held_try_take:
  "ss_held (snd (try_take local_load now request s)) =
     (if ad_admitted (fst (try_take local_load now request s))
      then map_assign (request_key request)
        \<lparr>sh_coordinator = sq_coordinator request, sh_task_type = sq_task_type request\<rparr> (ss_held s)
      else ss_held s)"
  using try_take_cases [of local_load now request s]
  by (auto simp: slot_record_def slot_wait_def Let_def request_key_def)

subsection \<open>The ledger and the room\<close>

lemma try_admit_cases:
  "(ad_admitted (fst (try_admit l memory in_use now ledger)) \<and>
      snd (try_admit l memory in_use now ledger) =
        ledger\<lparr>al_admitted := map_assign (la_session l, la_lease_id l)
                 \<lparr>adm_task_type = la_task_type l, adm_bytes = la_required_bytes l\<rparr> (al_admitted ledger),
               al_turns := turns_admitted (la_task_type l) (turns_expire now (al_turns ledger))\<rparr>) \<or>
   (\<not> ad_admitted (fst (try_admit l memory in_use now ledger)) \<and>
      (\<exists>turns \<in> {turns_expire now (al_turns ledger),
                  turns_refused (la_task_type l)
                    (other_types_running (la_task_type l) ledger) now (turns_expire now (al_turns ledger))}.
        snd (try_admit l memory in_use now ledger) = ledger\<lparr>al_turns := turns\<rparr>))"
  by (auto simp: try_admit_def Let_def refused_decision_def other_types_running_def)

lemma turns_wf_try_admit:
  "turns_wf (al_turns ledger) \<Longrightarrow> turns_wf (al_turns (snd (try_admit l memory in_use now ledger)))"
  using try_admit_cases [of l memory in_use now ledger]
  by (auto simp: turns_wf_expire turns_wf_refused turns_admitted_def turns_wf_erase)

lemma admitted_try_admit:
  "al_admitted (snd (try_admit l memory in_use now ledger)) =
     (if ad_admitted (fst (try_admit l memory in_use now ledger))
      then map_assign (la_session l, la_lease_id l)
             \<lparr>adm_task_type = la_task_type l, adm_bytes = la_required_bytes l\<rparr> (al_admitted ledger)
      else al_admitted ledger)"
  using try_admit_cases [of l memory in_use now ledger] by auto

definition deciding_keys :: "worker_room \<Rightarrow> lease_key set" where
  "deciding_keys w = {request_key r | r est session. wk_deciding w session = Some (r, est)}"

lemma deciding_keys_mem:
  "k \<in> deciding_keys w \<longleftrightarrow> (\<exists>s r e. wk_deciding w s = Some (r, e) \<and> k = request_key r)"
  by (auto simp: deciding_keys_def)

lemma deciding_keys_update [simp]:
  "deciding_keys (w\<lparr>wk_ledger := ledger, wk_slots := slots\<rparr>) = deciding_keys w"
  by (simp add: deciding_keys_def)

definition room_inv :: "worker_room \<Rightarrow> bool" where
  "room_inv w \<longleftrightarrow> slots_wf (wk_slots w) \<and> turns_wf (al_turns (wk_ledger w)) \<and>
     map_wf (al_admitted (wk_ledger w)) \<and>
     (\<forall>session r est. wk_deciding w session = Some (r, est) \<longrightarrow> sq_session r = session) \<and>
     keys (ss_held (wk_slots w)) = keys (al_admitted (wk_ledger w)) \<union> deciding_keys w \<and>
     keys (al_admitted (wk_ledger w)) \<inter> deciding_keys w = {}"

lemma deciding_session:
  assumes "room_inv w" "k \<in> deciding_keys w"
  obtains r e where "wk_deciding w (fst k) = Some (r, e)" "k = request_key r"
proof -
  obtain s r e where r: "wk_deciding w s = Some (r, e)" "k = request_key r"
    using assms(2) by (auto simp: deciding_keys_mem)
  then have "s = fst k" using assms(1) by (auto simp: room_inv_def request_key_def)
  then show thesis using r that by blast
qed

lemma room_inv_new: "room_inv (new_worker_room window turns policy physical)"
  by (simp add: room_inv_def new_worker_room_def slots_wf_def waiting_for_type_def keys_def deciding_keys_def)

lemma map_of_keys: "map_of m k = None \<longleftrightarrow> k \<notin> keys m"
  by (simp add: keys_def map_of_eq_None_iff)

lemma room_inv_slot:
  assumes inv: "room_inv w" and idle: "wk_deciding w (sq_session request) = None"
    and fresh: "map_of (ss_held (wk_slots w)) (request_key request) = None"
  shows "room_inv (assign_slot local_load now request est w)"
proof -
  let ?r = "try_take local_load now request (wk_slots w)"
  have eq: "assign_slot local_load now request est w =
      w\<lparr>wk_slots := snd ?r,
        wk_deciding := (if ad_admitted (fst ?r) then (wk_deciding w)(sq_session request \<mapsto> (request, est))
                        else wk_deciding w)\<rparr>"
    by (simp add: assign_slot_def case_prod_unfold Let_def)
  have slots: "slots_wf (snd ?r)" and held: "map_wf (ss_held (wk_slots w))"
    using inv slots_wf_try_take by (simp_all add: room_inv_def slots_wf_def [of "wk_slots w"])
  show ?thesis
  proof (cases "ad_admitted (fst ?r)")
    case True
    have d: "deciding_keys (assign_slot local_load now request est w) = insert (request_key request) (deciding_keys w)"
    proof (rule set_eqI)
      fix k
      have "k \<in> deciding_keys (assign_slot local_load now request est w) \<longleftrightarrow>
          (\<exists>s r e. ((wk_deciding w)(sq_session request \<mapsto> (request, est))) s = Some (r, e) \<and> k = request_key r)"
        unfolding eq deciding_keys_def using True by auto
      also have "\<dots> \<longleftrightarrow> k = request_key request \<or> (\<exists>s r e. wk_deciding w s = Some (r, e) \<and> k = request_key r)"
        using idle by (simp, metis option.distinct(1))
      finally show "k \<in> deciding_keys (assign_slot local_load now request est w) \<longleftrightarrow>
          k \<in> insert (request_key request) (deciding_keys w)"
        by (simp add: deciding_keys_mem [of k w])
    qed
    have h: "keys (ss_held (snd ?r)) = insert (request_key request) (keys (ss_held (wk_slots w)))"
      using True held by (simp add: held_try_take)
    show ?thesis using inv slots True fresh h
      unfolding room_inv_def d by (auto simp: eq map_of_keys)
  next
    case False
    then show ?thesis using inv slots unfolding room_inv_def eq deciding_keys_def by (simp add: held_try_take)
  qed
qed

lemma room_inv_memory:
  assumes inv: "room_inv w" and deciding: "wk_deciding w session = Some (request, est)"
  shows "room_inv (assign_memory memory in_use now request est w)"
proof -
  let ?r = "try_admit (admission_of request est) memory in_use now (wk_ledger w)"
  have session: "sq_session request = session" using inv deciding by (auto simp: room_inv_def)
  have eq: "assign_memory memory in_use now request est w =
      w\<lparr>wk_ledger := snd ?r,
        wk_slots := (if ad_admitted (fst ?r) then wk_slots w
                     else slots_release (sq_session request) (sq_lease_id request) (wk_slots w)),
        wk_deciding := (wk_deciding w)(session := None)\<rparr>"
    by (simp add: assign_memory_def case_prod_unfold Let_def session)
  have other: "request_key r \<noteq> request_key request"
    if "wk_deciding w s = Some (r, e)" "s \<noteq> session" for s r e
    using inv that session unfolding room_inv_def request_key_def by auto
  have d: "deciding_keys (assign_memory memory in_use now request est w) = deciding_keys w - {request_key request}"
  proof (rule set_eqI)
    fix k
    have "k \<in> deciding_keys (assign_memory memory in_use now request est w) \<longleftrightarrow>
        (\<exists>s r e. s \<noteq> session \<and> wk_deciding w s = Some (r, e) \<and> k = request_key r)"
      unfolding eq deciding_keys_def by (simp, metis option.distinct(1))
    also have "\<dots> \<longleftrightarrow> (\<exists>s r e. wk_deciding w s = Some (r, e) \<and> k = request_key r) \<and> k \<noteq> request_key request"
      using other deciding by (metis option.inject prod.inject)
    finally show "k \<in> deciding_keys (assign_memory memory in_use now request est w) \<longleftrightarrow>
        k \<in> deciding_keys w - {request_key request}"
      by (simp add: deciding_keys_mem [of k w])
  qed
  have k: "request_key request \<in> deciding_keys w" using deciding unfolding deciding_keys_def by blast
  have wf: "slots_wf (wk_slots w)" "map_wf (al_admitted (wk_ledger w))" "turns_wf (al_turns (wk_ledger w))"
    using inv by (simp_all add: room_inv_def)
  have l: "(la_session (admission_of request est), la_lease_id (admission_of request est)) = request_key request"
    by (simp add: admission_of_def request_key_def)
  show ?thesis
  proof (cases "ad_admitted (fst ?r)")
    case True
    then show ?thesis using inv k wf unfolding room_inv_def d
      by (auto simp: eq admitted_try_admit l turns_wf_try_admit)
  next
    case False
    then show ?thesis using inv k wf unfolding room_inv_def d
      by (auto simp: eq admitted_try_admit turns_wf_try_admit slots_wf_releases)
         (auto simp: slots_release_def request_key_def)
  qed
qed

lemma room_inv_over:
  assumes inv: "room_inv w"
    and other: "\<forall>request est. wk_deciding w session = Some (request, est) \<longrightarrow> sq_lease_id request \<noteq> lease_id"
  shows "room_inv (lease_over session lease_id w)"
proof -
  have "(session, lease_id) \<notin> deciding_keys w"
    using other by (auto simp: request_key_def elim: deciding_session [OF inv])
  then show ?thesis using inv unfolding room_inv_def lease_over_def ledger_release_def
    by (auto simp: slots_wf_releases) (auto simp: slots_release_def)
qed

lemma room_inv_closed:
  assumes inv: "room_inv w" and idle: "wk_deciding w session = None"
  shows "room_inv (session_over session w)"
proof -
  have "fst k \<noteq> session" if "k \<in> deciding_keys w" for k
    using idle that by (auto elim: deciding_session [OF inv])
  then show ?thesis using inv unfolding room_inv_def session_over_def ledger_release_session_def
    by (auto simp: slots_wf_releases map_wf_filter)
      (auto simp: slots_release_session_def keys_filter_fst [where P = "\<lambda>k. fst k \<noteq> session"])
qed

lemma room_inv_step: "worker_step w w' \<Longrightarrow> room_inv w \<Longrightarrow> room_inv w'"
  by (induction rule: worker_step.induct)
    (blast intro: room_inv_slot room_inv_memory room_inv_over room_inv_closed)+

lemma room_inv_reachable: "worker_reachable w \<Longrightarrow> room_inv w"
proof -
  have "worker_step\<^sup>*\<^sup>* w0 w \<Longrightarrow> room_inv w0 \<Longrightarrow> room_inv w" for w0
    by (induction rule: rtranclp_induct) (auto intro: room_inv_step)
  then show "worker_reachable w \<Longrightarrow> room_inv w" using room_inv_new by (auto simp: worker_reachable_def)
qed

lemma reachable_step: "worker_reachable w \<Longrightarrow> worker_step w w' \<Longrightarrow> worker_reachable w'"
  unfolding worker_reachable_def by (meson rtranclp.rtrancl_into_rtrancl)

lemma reachable_new: "worker_reachable (new_worker_room window turns policy physical)"
  unfolding worker_reachable_def by blast

subsection \<open>Who gets a free slot\<close>

definition slot_place :: "slot_sharing \<Rightarrow> string \<Rightarrow> string \<times> slot_waiting \<Rightarrow> nat \<times> nat" where
  "slot_place s t e = (held_by (fst e) t s, sw_ticket (snd e))"

lemma held_by_le: "held_by c t s \<le> slots_held t s"
proof -
  have "length (filter (\<lambda>e. sh_coordinator (snd e) = c \<and> sh_task_type (snd e) = t) xs) \<le>
      length (filter (\<lambda>e. sh_task_type (snd e) = t) xs)" for xs :: "(lease_key \<times> slot_holder) list"
    by (induction xs) auto
  then show ?thesis by (simp add: held_by_def slots_held_def case_prod_unfold)
qed

lemma slots_held_expire [simp]: "slots_held t (expire_waiting now s) = slots_held t s"
  by (simp add: slots_held_def)

lemma held_by_expire [simp]: "held_by c t (expire_waiting now s) = held_by c t s"
  by (simp add: held_by_def)

lemma slots_held_take:
  assumes "map_wf (ss_held s)" "map_of (ss_held s) (request_key request) = None"
    "ad_admitted (fst (try_take local_load now request s))"
  shows "slots_held (sq_task_type request) (snd (try_take local_load now request s)) =
     slots_held (sq_task_type request) s + 1"
  unfolding slots_held_def using assms by (simp add: held_try_take map_assign_fresh length_filter_emplace)

text \<open>Among the coordinators in line, a free slot is given to the one with the least place.\<close>

lemma try_take_in_line:
  assumes wf: "slots_wf s" and c: "(c, w) \<in> set line"
    and line: "line = waiting_for_type t (expire_waiting now s)"
    and free: "slots_held t s + (case map_of local_load t of None \<Rightarrow> 0 | Some n \<Rightarrow> n) < declared"
  shows "ad_admitted (fst (try_take local_load now
      \<lparr>sq_coordinator = c, sq_session = session, sq_lease_id = lease_id, sq_task_type = t,
       sq_declared_slots = declared\<rparr> s)) \<longleftrightarrow>
    (\<forall>e \<in> set line. fst e \<noteq> c \<longrightarrow> \<not> slot_place s t e < slot_place s t (c, w))"
proof -
  let ?r = "\<lparr>sq_coordinator = c, sq_session = session, sq_lease_id = lease_id, sq_task_type = t,
       sq_declared_slots = declared\<rparr>"
  have "line_wf (ss_next_ticket (expire_waiting now s)) line"
    using slots_wf_expire [OF wf] line by (simp add: slots_wf_def)
  then have "map_of line c = Some w" using c by (simp add: line_wf_def map_of_mem_iff)
  then have own: "own_place ?r (expire_waiting now s) = slot_place s t (c, w)"
    by (simp add: own_place_def slot_place_def line)
  have total: "held_by c t s + (slots_held t s - held_by c t s) = slots_held t s"
    using held_by_le [of c t s] by simp
  show ?thesis
    using free total unfolding try_take_def Let_def own line [symmetric]
    by (auto simp: admission_unfold slot_place_def list_ex_iff case_prod_unfold line [symmetric] own
      split: option.splits)
qed

lemma least_place:
  assumes "line_wf n line" "line \<noteq> []"
  shows "\<exists>!c. \<exists>w. (c, w) \<in> set line \<and> (\<forall>e \<in> set line. fst e \<noteq> c \<longrightarrow> \<not> slot_place s t e < slot_place s t (c, w))"
proof -
  let ?f = "slot_place s t"
  have ticket: "fst e = fst e'" if "e \<in> set line" "e' \<in> set line" "?f e = ?f e'" for e e'
    using assms(1) that unfolding line_wf_def slot_place_def
    by (metis map_of_mem_iff prod.collapse snd_conv)
  have pair: "e = e'" if "e \<in> set line" "e' \<in> set line" "fst e = fst e'" for e e'
    using assms(1) that unfolding line_wf_def by (metis map_of_mem_iff option.inject prod.collapse)
  define e where "e = arg_min_on ?f (set line)"
  have e: "e \<in> set line" "\<And>e'. e' \<in> set line \<Longrightarrow> ?f e \<le> ?f e'"
    using assms(2) arg_min_if_finite(1) [of "set line" ?f] arg_min_least [of "set line" _ ?f] by (auto simp: e_def)
  show ?thesis
  proof (intro ex1I exI conjI ballI impI)
    show "(fst e, snd e) \<in> set line" using e by simp
    show "\<not> ?f e' < ?f (fst e, snd e)" if "e' \<in> set line" for e' using e(2) [OF that] by (simp add: not_less)
  next
    fix c assume "\<exists>w. (c, w) \<in> set line \<and> (\<forall>e \<in> set line. fst e \<noteq> c \<longrightarrow> \<not> ?f e < ?f (c, w))"
    then obtain w where w: "(c, w) \<in> set line" "\<And>e. e \<in> set line \<Longrightarrow> fst e \<noteq> c \<Longrightarrow> \<not> ?f e < ?f (c, w)" by blast
    show "c = fst e"
    proof (rule ccontr)
      assume "c \<noteq> fst e"
      then have "?f (c, w) \<le> ?f e" using w(2) [OF e(1)] by (simp add: not_less)
      then have "?f (c, w) = ?f e" using e(2) [OF w(1)] by simp
      then show False using ticket [OF w(1) e(1)] \<open>c \<noteq> fst e\<close> by simp
    qed
  qed
qed

end
