(* ===== verification/AdmissionProps.thy ===== *)
theory AdmissionProps
  imports AdmissionFacts
begin

text \<open>
  The properties of admission, each with a run of a small worker room where it applies.
\<close>

subsection \<open>A sample run\<close>

definition sample_request :: "string \<Rightarrow> string \<Rightarrow> string \<Rightarrow> string \<Rightarrow> slot_request" where
  "sample_request coordinator session lease_id task_type =
     \<lparr>sq_coordinator = coordinator, sq_session = session, sq_lease_id = lease_id,
      sq_task_type = task_type, sq_declared_slots = 1\<rparr>"

definition sample_memory :: "u64 \<Rightarrow> memory_snapshot" where
  "sample_memory available = \<lparr>ms_available_bytes = available, ms_pressure = pressure_normal\<rparr>"

definition sample_admission_policy :: admission_policy where
  "sample_admission_policy = \<lparr>reserve_floor_bytes = 8, reserve_physical_divisor = 0, refuse_at = pressure_warning\<rparr>"

definition sample_room :: worker_room where
  "sample_room = new_worker_room 10 \<lparr>idle_window = 60, max_wait = 600\<rparr> sample_admission_policy 0"

text \<open>Session s1 runs an ocr lease; session s2 of another coordinator is refused memory for an asr lease.\<close>

definition ocr_request :: slot_request where
  "ocr_request = sample_request ''c1'' ''s1'' ''lease_1'' ''ocr''"

definition asr_request :: slot_request where
  "asr_request = sample_request ''c2'' ''s2'' ''lease_1'' ''asr''"

definition room_one :: worker_room where
  "room_one = assign_slot [] 0 ocr_request 1 sample_room"

definition room_two :: worker_room where
  "room_two = assign_memory (sample_memory 2000000) (\<lambda>_. None) 0 ocr_request 1 room_one"

definition room_three :: worker_room where
  "room_three = assign_slot [] 1 asr_request 1 room_two"

definition room_four :: worker_room where
  "room_four = assign_memory (sample_memory 0) (\<lambda>_. None) 1 asr_request 1 room_three"

text \<open>Then c2 and c1 both ask for the one ocr slot while it is taken, and it is given back.\<close>

definition room_five :: worker_room where
  "room_five = assign_slot [] 2 (sample_request ''c2'' ''s2'' ''lease_2'' ''ocr'') 1 room_four"

definition room_six :: worker_room where
  "room_six = assign_slot [] 3 (sample_request ''c1'' ''s1'' ''lease_2'' ''ocr'') 1 room_five"

definition room_seven :: worker_room where
  "room_seven = lease_over ''s1'' ''lease_1'' room_six"

lemma room_one_reachable: "worker_reachable room_one"
  unfolding room_one_def sample_room_def
  by (rule reachable_step [OF reachable_new slot]) (code_simp+)

lemma room_two_reachable: "worker_reachable room_two"
  unfolding room_two_def
  by (rule reachable_step [OF room_one_reachable memory [where session = "''s1''"]]) code_simp

lemma room_three_reachable: "worker_reachable room_three"
  unfolding room_three_def
  by (rule reachable_step [OF room_two_reachable slot]) (code_simp+)

lemma room_four_reachable: "worker_reachable room_four"
  unfolding room_four_def
  by (rule reachable_step [OF room_three_reachable memory [where session = "''s2''"]]) code_simp

lemma room_five_reachable: "worker_reachable room_five"
  unfolding room_five_def
  by (rule reachable_step [OF room_four_reachable slot]) (code_simp+)

lemma room_six_reachable: "worker_reachable room_six"
  unfolding room_six_def
  by (rule reachable_step [OF room_five_reachable slot]) (code_simp+)

lemma room_seven_reachable: "worker_reachable room_seven"
proof -
  have "wk_deciding room_six ''s1'' = None" by code_simp
  then show ?thesis unfolding room_seven_def by (intro reachable_step [OF room_six_reachable over]) simp
qed

subsection \<open>Properties\<close>



text \<open>C24: Whenever task types wait for memory in a reachable worker, one of them yields to nobody and
  every other type yields to it, so waits never block each other and one type at a time has the turn.\<close>

theorem memory_turn_has_one_owner:
  assumes "worker_reachable w" "mt_waits (al_turns (wk_ledger w)) \<noteq> []"
  shows "\<exists>first. turns_waiting first (al_turns (wk_ledger w)) \<and> yields_to first (al_turns (wk_ledger w)) = None
     \<and> (\<forall>t. t \<noteq> first \<longrightarrow> yields_to t (al_turns (wk_ledger w)) = Some first)"
  using room_inv_reachable [OF assms(1)] assms(2) by (intro one_turn) (simp_all add: room_inv_def)

theorem memory_turn_has_one_owner_witness:
  "\<exists>first. turns_waiting first (al_turns (wk_ledger room_four)) \<and> yields_to first (al_turns (wk_ledger room_four)) = None
     \<and> (\<forall>t. t \<noteq> first \<longrightarrow> yields_to t (al_turns (wk_ledger room_four)) = Some first)"
proof (rule memory_turn_has_one_owner [OF room_four_reachable])
  show "mt_waits (al_turns (wk_ledger room_four)) \<noteq> []" by code_simp
qed

text \<open>Expiring the memory turns drops exactly the waits nobody asked for within the idle window and
  the waits that lasted max\_wait, and each of the latter rests for as long as it held others back;
  the rests left are exactly those that end later.\<close>

theorem turns_expire_exactly:
  assumes "worker_reachable w" "turns = al_turns (wk_ledger w)"
  shows "map_of (mt_waits (turns_expire now turns)) t =
      (case map_of (mt_waits turns) t of None \<Rightarrow> None
       | Some wait \<Rightarrow> if wait_idle (mt_policy turns) now wait \<or> wait_fruitless (mt_policy turns) now wait
                     then None else Some wait)
    \<and> map_of (mt_rests (turns_expire now turns)) t =
      (let rest = (case map_of (mt_waits turns) t of None \<Rightarrow> map_of (mt_rests turns) t
         | Some wait \<Rightarrow> if wait_fruitless (mt_policy turns) now wait then Some (now + (now - tw_since wait))
                        else map_of (mt_rests turns) t)
       in case rest of None \<Rightarrow> None | Some e \<Rightarrow> if now < e then Some e else None)"
  using turns_expire_lookup [of turns] room_inv_reachable [OF assms(1)] assms(2) by (simp add: room_inv_def)

theorem turns_expire_exactly_witness:
  "map_of (mt_waits (turns_expire 40 (al_turns (wk_ledger room_four)))) ''asr'' \<noteq> None
   \<and> map_of (mt_waits (turns_expire 62 (al_turns (wk_ledger room_four)))) ''asr'' = None"
  unfolding turns_expire_exactly [OF room_four_reachable refl, THEN conjunct1] by (rule conjI; code_simp)

text \<open>C25: When the reserve and the admitted estimates sum to a 64-bit number, a lease is admitted exactly
  when its type does not have to yield, the memory pressure is below the policy's limit, and
  available memory exceeds the reserve plus what each session is still expected to take, with
  the lease's own estimate fitting in the difference; nothing is rounded or wraps.\<close>

theorem admitted_leases_fit:
  assumes no_wrap: "unat (reserve_bytes (al_policy ledger) (al_physical_memory_bytes ledger)) + ledger_total ledger < 2 ^ 64"
    and spoken_for: "spoken_for = unat (reserve_bytes (al_policy ledger) (al_physical_memory_bytes ledger))
      + (\<Sum>session\<in>ledger_sessions ledger. ledger_estimate ledger session - measured in_use session)"
  shows "ad_admitted (fst (try_admit l memory in_use now ledger)) \<longleftrightarrow>
     \<not> (ledger_types_running (la_task_type l) ledger
        \<and> yields_to (la_task_type l) (turns_expire now (al_turns ledger)) \<noteq> None)
     \<and> pressure_level (ms_pressure memory) < pressure_level (refuse_at (al_policy ledger))
     \<and> spoken_for < unat (ms_available_bytes memory)
     \<and> spoken_for + unat (la_required_bytes l) \<le> unat (ms_available_bytes memory)"
proof -
  have pending: "unat (ledger_pending in_use ledger) =
      (\<Sum>session\<in>ledger_sessions ledger. ledger_estimate ledger session - measured in_use session)"
    using no_wrap by (intro unat_ledger_pending) simp
  also have "\<dots> \<le> (\<Sum>session\<in>ledger_sessions ledger. ledger_estimate ledger session)" by (rule sum_mono) simp
  finally have "unat (ledger_pending in_use ledger) \<le> ledger_total ledger" by (simp add: sum_estimates)
  then have d: "ad_admitted (decide_admission (al_policy ledger) (al_physical_memory_bytes ledger) memory
        (ledger_pending in_use ledger) (la_required_bytes l)) \<longleftrightarrow>
      pressure_level (ms_pressure memory) < pressure_level (refuse_at (al_policy ledger))
        \<and> spoken_for + unat (la_required_bytes l) \<le> unat (ms_available_bytes memory)
        \<and> spoken_for < unat (ms_available_bytes memory)"
    using no_wrap decide_admission_iff [of "al_policy ledger" "al_physical_memory_bytes ledger" "ledger_pending in_use ledger"]
    by (simp add: spoken_for pending Let_def)
  have l: "ledger_types_running t (ledger\<lparr>al_turns := turns\<rparr>) = ledger_types_running t ledger"
    "ledger_pending in_use (ledger\<lparr>al_turns := turns\<rparr>) = ledger_pending in_use ledger" for t turns
    by (simp_all add: ledger_types_running_def ledger_pending_def)
  show ?thesis
    using d by (auto simp: try_admit_def Let_def l refused_decision_def)
qed

theorem admitted_leases_fit_witness:
  "ad_admitted (fst (try_admit (admission_of asr_request 1) (sample_memory 2097160) (\<lambda>_. None) 1 (wk_ledger room_two)))
   \<and> \<not> ad_admitted (fst (try_admit (admission_of asr_request 1) (sample_memory 2097159) (\<lambda>_. None) 1 (wk_ledger room_two)))"
proof -
  have entries: "al_admitted (wk_ledger room_two) =
       [((''s1'', ''lease_1''), \<lparr>adm_task_type = ''ocr'', adm_bytes = 1048576\<rparr>)]"
    "reserve_bytes (al_policy (wk_ledger room_two)) (al_physical_memory_bytes (wk_ledger room_two)) = 8"
    by code_simp+
  have total: "unat (reserve_bytes (al_policy (wk_ledger room_two)) (al_physical_memory_bytes (wk_ledger room_two))) = 8"
    "ledger_total (wk_ledger room_two) = 1048576"
    by (simp_all add: entries ledger_total_def)
  have sum: "(\<Sum>session\<in>ledger_sessions (wk_ledger room_two).
      ledger_estimate (wk_ledger room_two) session - measured (\<lambda>_. None) session) = 1048576"
    by (simp add: entries ledger_sessions_def ledger_estimate_def measured_def)
  have fit: "ad_admitted (fst (try_admit (admission_of asr_request 1) (sample_memory available) (\<lambda>_. None) 1 (wk_ledger room_two)))
      \<longleftrightarrow> \<not> ledger_types_running ''asr'' (wk_ledger room_two) \<and> 2097160 \<le> unat available" for available
  proof -
    have req: "la_required_bytes (admission_of asr_request 1) = 1048576" by code_simp
    have r: "la_task_type (admission_of asr_request 1) = ''asr''" "unat (la_required_bytes (admission_of asr_request 1)) = 1048576"
      "pressure_level (ms_pressure (sample_memory available)) = 0" "refuse_at (al_policy (wk_ledger room_two)) = pressure_warning"
      "ms_available_bytes (sample_memory available) = available"
      by (code_simp, simp add: req, simp add: sample_memory_def, code_simp, simp add: sample_memory_def)
    have y: "\<not> ledger_types_running ''asr'' (wk_ledger room_two)" by code_simp
    note fit = admitted_leases_fit [of "wk_ledger room_two" 1048584 "\<lambda>_. None" "admission_of asr_request 1"
        "sample_memory available" 1, unfolded r total sum]
    have no_wrap: "8 + 1048576 < (2 :: nat) ^ 64" and spoken_for: "1048584 = 8 + (1048576 :: nat)" by simp_all
    have pressure: "0 < pressure_level pressure_warning" by simp
    have "1048584 + 1048576 \<le> n \<Longrightarrow> 1048584 < n" for n :: nat by arith
    then show ?thesis
      unfolding fit [OF no_wrap spoken_for] using y pressure by auto
  qed
  have "\<not> ledger_types_running ''asr'' (wk_ledger room_two)" by code_simp
  then show ?thesis unfolding fit by simp
qed

text \<open>The estimate is multiplied to bytes without a range check: a lease that declares 2\^44 MiB is
  read as one without an estimate and admitted where one of a single MiB is refused.\<close>

theorem memory_estimate_wraps:
  "ad_admitted (fst (try_admit (admission_of asr_request 17592186044416) (sample_memory 9) (\<lambda>_. None) 1 (wk_ledger sample_room)))
   \<and> \<not> ad_admitted (fst (try_admit (admission_of asr_request 1) (sample_memory 9) (\<lambda>_. None) 1 (wk_ledger sample_room)))"
  by (rule conjI; code_simp)

text \<open>When a slot of a type is free, exactly one of the coordinators in line for the type would be
  given it: they never all wait for each other, and never overtake.\<close>

theorem free_slot_has_one_taker:
  assumes "worker_reachable w"
    and "waiting_for_type t (expire_waiting now (wk_slots w)) \<noteq> []"
    and "slots_held t (wk_slots w) + (case map_of local_load t of None \<Rightarrow> 0 | Some n \<Rightarrow> n) < declared"
  shows "\<exists>!c. c \<in> keys (waiting_for_type t (expire_waiting now (wk_slots w))) \<and>
     ad_admitted (fst (try_take local_load now
       \<lparr>sq_coordinator = c, sq_session = session, sq_lease_id = lease_id, sq_task_type = t,
        sq_declared_slots = declared\<rparr> (wk_slots w)))"
proof -
  let ?line = "waiting_for_type t (expire_waiting now (wk_slots w))"
  let ?takes = "\<lambda>c. ad_admitted (fst (try_take local_load now
       \<lparr>sq_coordinator = c, sq_session = session, sq_lease_id = lease_id, sq_task_type = t,
        sq_declared_slots = declared\<rparr> (wk_slots w)))"
  have wf: "slots_wf (wk_slots w)" using room_inv_reachable [OF assms(1)] by (simp add: room_inv_def)
  then have line: "line_wf (ss_next_ticket (expire_waiting now (wk_slots w))) ?line"
    using slots_wf_expire [OF wf] by (simp add: slots_wf_def)
  have iff: "c \<in> keys ?line \<and> ?takes c \<longleftrightarrow> (\<exists>v. (c, v) \<in> set ?line \<and>
      (\<forall>e \<in> set ?line. fst e \<noteq> c \<longrightarrow> \<not> slot_place (wk_slots w) t e < slot_place (wk_slots w) t (c, v)))" for c
  proof -
    have "?takes c \<longleftrightarrow> (\<forall>e \<in> set ?line. fst e \<noteq> c \<longrightarrow> \<not> slot_place (wk_slots w) t e < slot_place (wk_slots w) t (c, v))"
      if "(c, v) \<in> set ?line" for v
      using try_take_in_line [OF wf that refl assms(3)] .
    moreover have "c \<in> keys ?line \<longleftrightarrow> (\<exists>v. (c, v) \<in> set ?line)" by (force simp: keys_def)
    ultimately show ?thesis by blast
  qed
  show ?thesis unfolding iff by (rule least_place [OF line assms(2)])
qed

theorem free_slot_has_one_taker_witness:
  "\<exists>!c. c \<in> keys (waiting_for_type ''ocr'' (expire_waiting 4 (wk_slots room_seven))) \<and>
     ad_admitted (fst (try_take [] 4
       \<lparr>sq_coordinator = c, sq_session = ''s3'', sq_lease_id = ''lease_3'', sq_task_type = ''ocr'',
        sq_declared_slots = 1\<rparr> (wk_slots room_seven)))"
proof (rule free_slot_has_one_taker [OF room_seven_reachable])
  show "waiting_for_type ''ocr'' (expire_waiting 4 (wk_slots room_seven)) \<noteq> []" by code_simp
  show "slots_held ''ocr'' (wk_slots room_seven) + (case map_of [] ''ocr'' of None \<Rightarrow> 0 | Some n \<Rightarrow> n) < 1" by code_simp
qed

text \<open>C26: A new lease that is given a slot keeps the type within the declared slots, counting what the
  machine's other processes run, unless no slots are declared or its coordinator has the type to itself.\<close>

theorem slots_stay_within_capacity:
  assumes "worker_reachable w"
    and "map_of (ss_held (wk_slots w)) (request_key request) = None"
    and "try_take local_load now request (wk_slots w) = (decision, slots)"
    and "ad_admitted decision"
    and "running_locally = (case map_of local_load (sq_task_type request) of None \<Rightarrow> 0 | Some n \<Rightarrow> n)"
  shows "slots_held (sq_task_type request) slots = slots_held (sq_task_type request) (wk_slots w) + 1 \<and>
     (slots_held (sq_task_type request) slots + running_locally \<le> sq_declared_slots request
      \<or> sq_declared_slots request = 0
      \<or> running_locally = 0 \<and> keys (waiting_for_type (sq_task_type request) slots) = {}
        \<and> held_by (sq_coordinator request) (sq_task_type request) (wk_slots w)
          = slots_held (sq_task_type request) (wk_slots w))"
proof -
  let ?s = "wk_slots w" and ?t = "sq_task_type request" and ?c = "sq_coordinator request"
  have wf: "slots_wf ?s" using room_inv_reachable [OF assms(1)] by (simp add: room_inv_def)
  have adm: "ad_admitted (fst (try_take local_load now request ?s))" and slots: "slots = snd (try_take local_load now request ?s)"
    using assms(3,4) by simp_all
  have count: "slots_held ?t slots = slots_held ?t ?s + 1"
    using slots_held_take [OF _ assms(2) adm] wf unfolding slots by (simp add: slots_wf_def)
  have le: "held_by ?c ?t ?s \<le> slots_held ?t ?s" by (rule held_by_le)
  have "map_wf (ss_waiting (expire_waiting now ?s))" using slots_wf_expire [OF wf] by (simp add: slots_wf_def)
  moreover have "slots = slot_record request (expire_waiting now ?s)"
    using try_take_cases [of local_load now request ?s] adm slots by auto
  ultimately have line: "waiting_for_type ?t slots = map_erase ?c (waiting_for_type ?t (expire_waiting now ?s))"
    by (simp add: waiting_for_type_record)
  show ?thesis
    using adm count le unfolding line assms(5)
    by (auto simp: try_take_def Let_def admission_unfold list_ex_iff case_prod_unfold keys_def map_erase_def split: if_splits)
qed

theorem slots_stay_within_capacity_witness:
  "slots_held ''ocr'' (wk_slots room_one) = 1"
proof -
  obtain d s where t: "try_take [] 0 ocr_request (wk_slots sample_room) = (d, s)" by fastforce
  have "ad_admitted (fst (try_take [] 0 ocr_request (wk_slots sample_room)))" by code_simp
  then have d: "ad_admitted d" using t by simp
  have r: "worker_reachable sample_room" unfolding sample_room_def by (rule reachable_new)
  have f: "map_of (ss_held (wk_slots sample_room)) (request_key ocr_request) = None" by code_simp
  have "slots_held (sq_task_type ocr_request) (wk_slots sample_room) = 0" by code_simp
  then have "slots_held (sq_task_type ocr_request) s = 1"
    using slots_stay_within_capacity [OF r f t d refl] by simp
  moreover have "sq_task_type ocr_request = ''ocr''" by (simp add: ocr_request_def sample_request_def)
  ultimately show ?thesis unfolding room_one_def assign_slot_def t by simp
qed

end
