(* ===== verification/BlockFormat.thy ===== *)
theory BlockFormat
  imports Digests "HOL-Library.Sublist"
begin

text \<open>
  The SVPB block stream (packages/svp-blocks): the header layout, its writer (block\_writer.cpp),
  the strict parser with all its checks (block\_stream.cpp) and the payload decompression
  (block\_payload.cpp). BLAKE3 and Zstandard are parameters; issue messages are not modelled.
  Sizes and offsets are 64-bit words, microseconds the 64-bit two's-complement words of the header.
\<close>

type_synonym u16 = "16 word"

definition kBlockHeaderSize :: nat where
  "kBlockHeaderSize = 160"

definition kMaxBlockPayloadBytes :: u64 where
  "kMaxBlockPayloadBytes = 512 * 1024 * 1024"

definition kPayloadChunkSize :: nat where
  "kPayloadChunkSize = 64 * 1024"

definition kNonFrameStart :: u64 where
  "kNonFrameStart = - 1"

datatype block_type = block_depth | block_mask | block_embedding

fun block_type_code :: "block_type \<Rightarrow> byte" where
  "block_type_code block_depth = 1"
| "block_type_code block_mask = 2"
| "block_type_code block_embedding = 3"

datatype dtype = dt_uint8 | dt_uint16 | dt_float16 | dt_float32 | dt_bitpacked_lsb_first | dt_svp_rle_v1

fun dtype_code :: "dtype \<Rightarrow> u32" where
  "dtype_code dt_uint8 = 1"
| "dtype_code dt_uint16 = 2"
| "dtype_code dt_float16 = 3"
| "dtype_code dt_float32 = 4"
| "dtype_code dt_bitpacked_lsb_first = 5"
| "dtype_code dt_svp_rle_v1 = 6"

datatype issue_kind = invalid_header | invalid_hash | decompression_failed | forbidden_block_type
  | raster_extent_mismatch

record raster_extent =
  re_width :: u32
  re_height :: u32

record block_header =
  bh_offset :: u64
  bh_version :: u16
  bh_header_size :: u16
  bh_block_type :: byte
  bh_compression :: byte
  bh_endian :: byte
  bh_flags :: byte
  bh_uncompressed_size :: u64
  bh_compressed_size :: u64
  bh_extent_0 :: u32
  bh_extent_1 :: u32
  bh_extent_2 :: u32
  bh_dtype :: u32
  bh_start_frame :: u64
  bh_frame_count :: u64
  bh_start_us :: u64
  bh_end_us :: u64
  bh_payload_blake3 :: digest
  bh_header_blake3 :: digest

record block_issue =
  bi_kind :: issue_kind
  bi_offset :: u64

record parse_options =
  po_required_block_type :: "block_type option"
  po_required_raster_extent :: "raster_extent option"
  po_max_compressed_payload_bytes :: u64
  po_max_uncompressed_payload_bytes :: u64
  po_verify_hashes :: bool
  po_verify_zstd_decompression :: bool
  po_allow_empty :: bool

definition default_parse_options :: parse_options where
  "default_parse_options =
     \<lparr>po_required_block_type = None, po_required_raster_extent = None,
      po_max_compressed_payload_bytes = kMaxBlockPayloadBytes,
      po_max_uncompressed_payload_bytes = kMaxBlockPayloadBytes,
      po_verify_hashes = True, po_verify_zstd_decompression = True, po_allow_empty = False\<rparr>"

record parse_result =
  pr_blocks :: "block_header list"
  pr_issues :: "block_issue list"

subsection \<open>BLAKE3 and Zstandard\<close>

text \<open>
  A call of \<open>ZSTD_decompressStream\<close>: an error, or the next stream state, the bytes taken from the
  input, the bytes put out and the hint it returns.
\<close>

datatype 'z zstd_call = zstd_error | zstd_made 'z nat u64 nat

record 'z block_codec =
  bc_blake3 :: "byte list \<Rightarrow> digest"
  bc_compress :: "byte list \<Rightarrow> byte list option"
  bc_decompress :: "byte list \<Rightarrow> nat \<Rightarrow> byte list option"
  bc_stream :: "'z option"
  bc_step :: "'z \<Rightarrow> byte list \<Rightarrow> nat \<Rightarrow> 'z zstd_call"

subsection \<open>Reading a header\<close>

definition read_u16_le :: "byte list \<Rightarrow> nat \<Rightarrow> u16" where
  "read_u16_le bytes offset = ucast (bytes ! offset) OR push_bit 8 (ucast (bytes ! (offset + 1)))"

definition read_u32_le :: "byte list \<Rightarrow> nat \<Rightarrow> u32" where
  "read_u32_le bytes offset =
     fold (\<lambda>index v. v OR push_bit (8 * index) (ucast (bytes ! (offset + index)))) [0..<4] 0"

definition read_u64_le :: "byte list \<Rightarrow> nat \<Rightarrow> u64" where
  "read_u64_le bytes offset =
     fold (\<lambda>index v. v OR push_bit (8 * index) (ucast (bytes ! (offset + index)))) [0..<8] 0"

definition read_hash :: "byte list \<Rightarrow> nat \<Rightarrow> digest" where
  "read_hash bytes offset = List.map (\<lambda>index. bytes ! (offset + index)) [0..<32]"

definition parse_header :: "byte list \<Rightarrow> u64 \<Rightarrow> block_header" where
  "parse_header bytes offset =
     \<lparr>bh_offset = offset, bh_version = read_u16_le bytes 4, bh_header_size = read_u16_le bytes 6,
      bh_block_type = bytes ! 8, bh_compression = bytes ! 9, bh_endian = bytes ! 10, bh_flags = bytes ! 11,
      bh_uncompressed_size = read_u64_le bytes 12, bh_compressed_size = read_u64_le bytes 20,
      bh_extent_0 = read_u32_le bytes 28, bh_extent_1 = read_u32_le bytes 32, bh_extent_2 = read_u32_le bytes 36,
      bh_dtype = read_u32_le bytes 40, bh_start_frame = read_u64_le bytes 44, bh_frame_count = read_u64_le bytes 52,
      bh_start_us = read_u64_le bytes 60, bh_end_us = read_u64_le bytes 68,
      bh_payload_blake3 = read_hash bytes 76, bh_header_blake3 = read_hash bytes 108\<rparr>"

definition is_header_magic_valid :: "byte list \<Rightarrow> bool" where
  "is_header_magic_valid bytes \<longleftrightarrow>
     bytes ! 0 = of_char CHR ''S'' \<and> bytes ! 1 = of_char CHR ''V'' \<and> bytes ! 2 = of_char CHR ''P''
       \<and> bytes ! 3 = of_char CHR ''B''"

definition reserved_bytes_are_zero :: "byte list \<Rightarrow> bool" where
  "reserved_bytes_are_zero bytes \<longleftrightarrow> list_all (\<lambda>index. bytes ! index = 0) [140..<160]"

definition zero_header_hash :: "byte list \<Rightarrow> byte list" where
  "zero_header_hash bytes = fold (\<lambda>index bytes. bytes[index := 0]) [108..<140] bytes"

definition blake3_digest_for_header :: "'z block_codec \<Rightarrow> byte list \<Rightarrow> digest" where
  "blake3_digest_for_header codec bytes = bc_blake3 codec (zero_header_hash bytes)"

subsection \<open>Writing a header (block\_writer.cpp)\<close>

definition write_u16_le :: "byte list \<Rightarrow> nat \<Rightarrow> u16 \<Rightarrow> byte list" where
  "write_u16_le bytes offset v =
     bytes[offset := ucast (v AND 0xFF), offset + 1 := ucast (drop_bit 8 v AND 0xFF)]"

definition write_u32_le :: "byte list \<Rightarrow> nat \<Rightarrow> u32 \<Rightarrow> byte list" where
  "write_u32_le bytes offset v =
     fold (\<lambda>i bytes. bytes[offset + i := ucast (drop_bit (8 * i) v AND 0xFF)]) [0..<4] bytes"

definition write_u64_le :: "byte list \<Rightarrow> nat \<Rightarrow> u64 \<Rightarrow> byte list" where
  "write_u64_le bytes offset v =
     fold (\<lambda>i bytes. bytes[offset + i := ucast (drop_bit (8 * i) v AND 0xFF)]) [0..<8] bytes"

definition write_hash :: "byte list \<Rightarrow> nat \<Rightarrow> digest \<Rightarrow> byte list" where
  "write_hash bytes offset hash =
     fold (\<lambda>i bytes. bytes[offset + i := hash ! i]) [0..<length hash] bytes"

record block_write_spec =
  bw_block_type :: block_type
  bw_extent_0 :: u32
  bw_extent_1 :: u32
  bw_extent_2 :: u32
  bw_dtype :: dtype
  bw_start_frame :: u64
  bw_frame_count :: u64
  bw_start_us :: u64
  bw_end_us :: u64

record written_block_info =
  wb_block_offset :: u64
  wb_block_length :: u64
  wb_payload_offset :: u64
  wb_uncompressed_size :: u64
  wb_compressed_size :: u64
  wb_payload_blake3 :: digest
  wb_header_blake3 :: digest

text \<open>The header before its own hash is written, then with it.\<close>

definition unhashed_header :: "block_write_spec \<Rightarrow> u64 \<Rightarrow> u64 \<Rightarrow> digest \<Rightarrow> byte list" where
  "unhashed_header spec uncompressed_size compressed_size payload_hash =
     (let header = replicate kBlockHeaderSize 0;
          header = header[0 := of_char CHR ''S'', 1 := of_char CHR ''V'', 2 := of_char CHR ''P'', 3 := of_char CHR ''B''];
          header = write_u16_le header 4 1;
          header = write_u16_le header 6 (of_nat kBlockHeaderSize);
          header = header[8 := block_type_code (bw_block_type spec), 9 := 1, 10 := 1, 11 := 0];
          header = write_u64_le header 12 uncompressed_size;
          header = write_u64_le header 20 compressed_size;
          header = write_u32_le header 28 (bw_extent_0 spec);
          header = write_u32_le header 32 (bw_extent_1 spec);
          header = write_u32_le header 36 (bw_extent_2 spec);
          header = write_u32_le header 40 (dtype_code (bw_dtype spec));
          header = write_u64_le header 44 (bw_start_frame spec);
          header = write_u64_le header 52 (bw_frame_count spec);
          header = write_u64_le header 60 (bw_start_us spec);
          header = write_u64_le header 68 (bw_end_us spec)
      in write_hash header 76 payload_hash)"

definition make_block_header ::
  "'z block_codec \<Rightarrow> block_write_spec \<Rightarrow> u64 \<Rightarrow> u64 \<Rightarrow> digest \<Rightarrow> byte list \<times> digest" where
  "make_block_header codec spec uncompressed_size compressed_size payload_hash =
     (let header = unhashed_header spec uncompressed_size compressed_size payload_hash;
          header_hash = blake3_digest_for_header codec header
      in (write_hash header 108 header_hash, header_hash))"

definition make_block_info :: "u64 \<Rightarrow> u64 \<Rightarrow> u64 \<Rightarrow> digest \<Rightarrow> digest \<Rightarrow> written_block_info" where
  "make_block_info block_offset compressed_size uncompressed_size payload_hash header_hash =
     \<lparr>wb_block_offset = block_offset, wb_block_length = of_nat kBlockHeaderSize + compressed_size,
      wb_payload_offset = block_offset + of_nat kBlockHeaderSize, wb_uncompressed_size = uncompressed_size,
      wb_compressed_size = compressed_size, wb_payload_blake3 = payload_hash, wb_header_blake3 = header_hash\<rparr>"

text \<open>\<open>None\<close>: the writer throws. The result is the block's record and the stream with the block appended.\<close>

definition write_block ::
  "'z block_codec \<Rightarrow> byte list \<Rightarrow> block_write_spec \<Rightarrow> byte list \<Rightarrow> (written_block_info \<times> byte list) option" where
  "write_block codec output_stream spec payload =
     (if (of_nat (length payload) :: u64) = 0 then None
      else case bc_compress codec payload of
        None \<Rightarrow> None
      | Some compressed \<Rightarrow>
          if compressed = [] then None
          else let payload_hash = bc_blake3 codec compressed;
                   (header, header_hash) = make_block_header codec spec (of_nat (length payload))
                      (of_nat (length compressed)) payload_hash;
                   block_offset = of_nat (length output_stream)
               in Some (make_block_info block_offset (of_nat (length compressed)) (of_nat (length payload))
                          payload_hash header_hash,
                        output_stream @ header @ compressed))"

text \<open>\<open>position\<close> is what \<open>tellp\<close> gives; the bytes are what is written at it.\<close>

definition write_block_to_stream ::
  "'z block_codec \<Rightarrow> int \<Rightarrow> block_write_spec \<Rightarrow> byte list \<Rightarrow> (written_block_info \<times> byte list) option" where
  "write_block_to_stream codec position spec payload =
     (if (of_nat (length payload) :: u64) = 0 then None
      else if position < 0 then None
      else if (of_int position :: u64) > - 1 - of_nat kBlockHeaderSize then None
      else case bc_compress codec payload of
        None \<Rightarrow> None
      | Some compressed \<Rightarrow>
          if compressed = [] then None
          else let payload_hash = bc_blake3 codec compressed;
                   (header, header_hash) = make_block_header codec spec (of_nat (length payload))
                      (of_nat (length compressed)) payload_hash
               in Some (make_block_info (of_int position) (of_nat (length compressed)) (of_nat (length payload))
                          payload_hash header_hash,
                        header @ compressed))"

definition decompress_block_payload :: "'z block_codec \<Rightarrow> byte list \<Rightarrow> u64 \<Rightarrow> byte list option" where
  "decompress_block_payload codec compressed uncompressed_size =
     (if uncompressed_size > kMaxBlockPayloadBytes \<or> of_nat (length compressed) > kMaxBlockPayloadBytes then None
      else case bc_decompress codec compressed (unat uncompressed_size) of
        None \<Rightarrow> None
      | Some payload \<Rightarrow> if length payload \<noteq> unat uncompressed_size then None else Some payload)"

end
