(* ===== verification/BlockStream.thy ===== *)
theory BlockStream
  imports BlockFormat
begin

text \<open>
  The strict parser of a block stream (packages/svp-blocks/src/block\_stream.cpp): the checks of a
  header, the payload read in chunks and decompressed as a stream, and the loop over the blocks.
  \<open>read_exact\<close> is the caller's reader over a state of its own; \<open>None\<close> as a whole result means that
  a call does not return, which only a decompressor that makes no progress causes.
\<close>

definition checked_multiply :: "u64 \<Rightarrow> u64 \<Rightarrow> u64 option" where
  "checked_multiply lhs rhs = (if lhs \<noteq> 0 \<and> rhs > - 1 div lhs then None else Some (lhs * rhs))"

definition checked_add :: "u64 \<Rightarrow> u64 \<Rightarrow> u64 option" where
  "checked_add lhs rhs = (if rhs > - 1 - lhs then None else Some (lhs + rhs))"

definition is_strict_block_type :: "byte \<Rightarrow> bool" where
  "is_strict_block_type t \<longleftrightarrow>
     t = block_type_code block_depth \<or> t = block_type_code block_mask \<or> t = block_type_code block_embedding"

definition is_time_range_valid :: "block_header \<Rightarrow> bool" where
  "is_time_range_valid header \<longleftrightarrow>
     (if sint (bh_start_us header) = - 1 \<and> sint (bh_end_us header) = - 1 then True
      else sint (bh_start_us header) \<ge> 0 \<and> sint (bh_end_us header) > sint (bh_start_us header))"

definition validate_uncompressed_size :: "block_header \<Rightarrow> bool" where
  "validate_uncompressed_size header =
     (if bh_block_type header = block_type_code block_depth
      then case Option.bind (checked_multiply (ucast (bh_extent_0 header)) (ucast (bh_extent_1 header)))
             (\<lambda>pixels. Option.bind (checked_multiply pixels (bh_frame_count header))
               (\<lambda>samples. checked_multiply samples 2)) of
             None \<Rightarrow> False | Some expected \<Rightarrow> bh_uncompressed_size header = expected
      else if bh_block_type header = block_type_code block_embedding
      then case Option.bind (checked_multiply (ucast (bh_extent_0 header)) (ucast (bh_extent_1 header)))
             (\<lambda>samples. checked_multiply samples 4) of
             None \<Rightarrow> False | Some expected \<Rightarrow> bh_uncompressed_size header = expected
      else if bh_block_type header = block_type_code block_mask \<and> bh_dtype header = dtype_code dt_bitpacked_lsb_first
      then case Option.bind (checked_multiply (ucast (bh_extent_0 header)) (ucast (bh_extent_1 header)))
             (\<lambda>pixels. checked_multiply pixels (ucast (bh_extent_2 header))) of
             None \<Rightarrow> False | Some samples \<Rightarrow> bh_uncompressed_size header = (samples + 7) div 8
      else True)"

definition issue_when :: "bool \<Rightarrow> issue_kind \<Rightarrow> u64 \<Rightarrow> block_issue list" where
  "issue_when condition kind offset = (if condition then [\<lparr>bi_kind = kind, bi_offset = offset\<rparr>] else [])"

text \<open>The requirements on dimensions, element type and frame range of each block type.\<close>

definition dimension_issues :: "block_header \<Rightarrow> block_issue list" where
  "dimension_issues header =
     (if bh_block_type header = block_type_code block_depth
      then issue_when (bh_extent_0 header = 0 \<or> bh_extent_1 header = 0 \<or> bh_extent_2 header \<noteq> 1
             \<or> bh_dtype header \<noteq> dtype_code dt_uint16 \<or> bh_frame_count header = 0
             \<or> bh_start_frame header = kNonFrameStart) invalid_header (bh_offset header)
      else if bh_block_type header = block_type_code block_mask
      then issue_when (bh_extent_0 header = 0 \<or> bh_extent_1 header = 0 \<or> bh_extent_2 header = 0
             \<or> (bh_dtype header \<noteq> dtype_code dt_bitpacked_lsb_first \<and> bh_dtype header \<noteq> dtype_code dt_svp_rle_v1)
             \<or> bh_frame_count header = 0 \<or> bh_start_frame header = kNonFrameStart) invalid_header (bh_offset header)
      else if bh_block_type header = block_type_code block_embedding
      then issue_when (bh_extent_0 header = 0 \<or> bh_extent_1 header = 0 \<or> bh_extent_2 header \<noteq> 1
             \<or> bh_dtype header \<noteq> dtype_code dt_float32 \<or> bh_frame_count header \<noteq> 0
             \<or> bh_start_frame header \<noteq> kNonFrameStart) invalid_header (bh_offset header)
      else [])"

definition raster_issues :: "parse_options \<Rightarrow> block_header \<Rightarrow> block_issue list" where
  "raster_issues options header =
     (case po_required_raster_extent options of
        None \<Rightarrow> []
      | Some extent \<Rightarrow>
          issue_when ((bh_block_type header = block_type_code block_depth
                       \<or> bh_block_type header = block_type_code block_mask)
                      \<and> (bh_extent_0 header \<noteq> re_width extent \<or> bh_extent_1 header \<noteq> re_height extent))
            raster_extent_mismatch (bh_offset header))"

definition validate_header :: "byte list \<Rightarrow> block_header \<Rightarrow> parse_options \<Rightarrow> block_issue list" where
  "validate_header bytes header options =
     (let offset = bh_offset header
      in issue_when (\<not> is_header_magic_valid bytes) invalid_header offset
       @ issue_when (bh_version header \<noteq> 1) invalid_header offset
       @ issue_when (bh_header_size header \<noteq> of_nat kBlockHeaderSize) invalid_header offset
       @ issue_when (bh_compression header \<noteq> 1) invalid_header offset
       @ issue_when (bh_endian header \<noteq> 1) invalid_header offset
       @ issue_when (bh_flags header \<noteq> 0) invalid_header offset
       @ issue_when (\<not> reserved_bytes_are_zero bytes) invalid_header offset
       @ (if \<not> is_strict_block_type (bh_block_type header) then issue_when True forbidden_block_type offset
          else issue_when (case po_required_block_type options of None \<Rightarrow> False
                  | Some t \<Rightarrow> bh_block_type header \<noteq> block_type_code t) invalid_header offset
             @ issue_when (bh_compressed_size header = 0 \<or> bh_uncompressed_size header = 0) invalid_header offset
             @ issue_when (bh_compressed_size header > po_max_compressed_payload_bytes options) invalid_header offset
             @ issue_when (bh_uncompressed_size header > po_max_uncompressed_payload_bytes options) invalid_header offset
             @ issue_when (\<not> is_time_range_valid header) invalid_header offset
             @ issue_when (\<not> validate_uncompressed_size header) invalid_header offset
             @ dimension_issues header
             @ raster_issues options header))"

subsection \<open>The payload\<close>

text \<open>\<open>ReadExact\<close>: the bytes, or \<open>None\<close> when they cannot be read, and the reader's next state.\<close>

type_synonym 'r read_exact = "nat \<Rightarrow> 'r \<Rightarrow> byte list option \<times> 'r"

record 'z inflate =
  in_stream :: 'z
  in_failed :: bool
  in_complete :: bool
  in_size :: u64

text \<open>The inner loop, \<open>while (input.pos < input.size)\<close>, on the input not yet taken.\<close>

partial_function (option) inflate_chunk ::
  "'z block_codec \<Rightarrow> u64 \<Rightarrow> 'z inflate \<Rightarrow> byte list \<Rightarrow> 'z inflate option" where
  "inflate_chunk codec declared st input =
     (if input = [] then Some st
      else case bc_step codec (in_stream st) input kPayloadChunkSize of
        zstd_error \<Rightarrow> Some (st\<lparr>in_failed := True\<rparr>)
      | zstd_made z consumed produced hint \<Rightarrow>
          if produced > - 1 - in_size st then Some (st\<lparr>in_stream := z, in_failed := True\<rparr>)
          else if in_size st + produced > declared
          then Some (st\<lparr>in_stream := z, in_size := in_size st + produced, in_failed := True\<rparr>)
          else inflate_chunk codec declared
                 (st\<lparr>in_stream := z, in_size := in_size st + produced, in_complete := (hint = 0)\<rparr>)
                 (drop consumed input))"

definition inflate_input ::
  "'z block_codec \<Rightarrow> u64 \<Rightarrow> 'z inflate option \<Rightarrow> byte list \<Rightarrow> 'z inflate option option" where
  "inflate_input codec declared inflate input =
     (case inflate of
        None \<Rightarrow> Some None
      | Some st \<Rightarrow> if in_failed st then Some inflate
                  else map_option Some (inflate_chunk codec declared st input))"

text \<open>
  The loop over the compressed bytes: whether all could be read, the bytes hashed, the
  decompression (\<open>None\<close>: there is no stream), and the reader.
\<close>

definition chunk_of :: "u64 \<Rightarrow> u64" where
  "chunk_of remaining = min remaining (of_nat kPayloadChunkSize)"

lemma chunk_of_less: "remaining \<noteq> 0 \<Longrightarrow> unat (remaining - chunk_of remaining) < unat remaining"
  by (auto simp: chunk_of_def min_def kPayloadChunkSize_def unat_sub word_le_nat_alt word_less_nat_alt unat_gt_0)

function payload_chunks ::
  "'z block_codec \<Rightarrow> 'r read_exact \<Rightarrow> u64 \<Rightarrow> u64 \<Rightarrow> byte list \<Rightarrow> 'z inflate option \<Rightarrow> 'r
     \<Rightarrow> (bool \<times> byte list \<times> 'z inflate option \<times> 'r) option" where
  "payload_chunks codec read_exact declared remaining hashed inflate r =
     (if remaining = 0 then Some (True, hashed, inflate, r)
      else case read_exact (unat (chunk_of remaining)) r of
        (None, r') \<Rightarrow> Some (False, hashed, inflate, r')
      | (Some bytes, r') \<Rightarrow>
          (case inflate_input codec declared inflate bytes of
             None \<Rightarrow> None
           | Some inflate' \<Rightarrow>
               payload_chunks codec read_exact declared (remaining - chunk_of remaining) (hashed @ bytes) inflate' r'))"
  by pat_completeness auto

termination
  by (relation "measure (\<lambda>(codec, read_exact, declared, remaining, hashed, inflate, r). unat remaining)")
    (auto intro: chunk_of_less)

declare payload_chunks.simps [simp del]

definition inflate_failed :: "'z inflate option \<Rightarrow> bool" where
  "inflate_failed inflate = (case inflate of None \<Rightarrow> False | Some st \<Rightarrow> in_failed st)"

definition validate_payload ::
  "'z block_codec \<Rightarrow> 'r read_exact \<Rightarrow> block_header \<Rightarrow> parse_options \<Rightarrow> u64 \<Rightarrow> 'r
     \<Rightarrow> (bool \<times> block_issue list \<times> 'r) option" where
  "validate_payload codec read_exact header options payload_offset r =
     (let inflate = (if po_verify_zstd_decompression options
                     then map_option (\<lambda>z. \<lparr>in_stream = z, in_failed = False, in_complete = False, in_size = 0\<rparr>)
                            (bc_stream codec)
                     else None);
          no_stream = issue_when (po_verify_zstd_decompression options \<and> bc_stream codec = None)
                        decompression_failed payload_offset
      in case payload_chunks codec read_exact (bh_uncompressed_size header) (bh_compressed_size header) [] inflate r of
           None \<Rightarrow> None
         | Some (all_read, hashed, inflate', r') \<Rightarrow>
             let failed = issue_when (inflate_failed inflate') decompression_failed payload_offset
             in if \<not> all_read then Some (False, no_stream @ failed, r')
                else Some (True, no_stream @ failed
                  @ issue_when (po_verify_hashes options \<and> bc_blake3 codec hashed \<noteq> bh_payload_blake3 header)
                      invalid_hash payload_offset
                  @ (case inflate' of
                       None \<Rightarrow> []
                     | Some st \<Rightarrow>
                         if in_failed st then []
                         else issue_when (\<not> in_complete st) decompression_failed payload_offset
                            @ issue_when (in_size st \<noteq> bh_uncompressed_size header) decompression_failed payload_offset),
                  r'))"

subsection \<open>The stream\<close>

text \<open>One round of the loop: stop with a result, or go on at the next offset.\<close>

datatype 'r block_round = round_stops parse_result | round_continues u64 parse_result 'r

definition with_issues :: "parse_result \<Rightarrow> block_issue list \<Rightarrow> parse_result" where
  "with_issues result issues = result\<lparr>pr_issues := pr_issues result @ issues\<rparr>"

definition parse_block ::
  "'z block_codec \<Rightarrow> u64 \<Rightarrow> parse_options \<Rightarrow> 'r read_exact \<Rightarrow> u64 \<Rightarrow> parse_result \<Rightarrow> 'r \<Rightarrow> 'r block_round option" where
  "parse_block codec stream_size options read_exact offset result r =
     (if stream_size - offset < of_nat kBlockHeaderSize
      then Some (round_stops (with_issues result (issue_when True invalid_header offset)))
      else case read_exact kBlockHeaderSize r of
        (None, r') \<Rightarrow> Some (round_stops (with_issues result (issue_when True invalid_header offset)))
      | (Some header_bytes, r') \<Rightarrow>
        let header = parse_header header_bytes offset;
            checked = with_issues result (validate_header header_bytes header options
              @ issue_when (po_verify_hashes options
                  \<and> blake3_digest_for_header codec header_bytes \<noteq> bh_header_blake3 header) invalid_hash offset);
            result' = checked\<lparr>pr_blocks := pr_blocks checked @ [header]\<rparr>;
            stop = Some (round_stops (with_issues result' (issue_when True invalid_header offset)))
        in (case checked_add offset (of_nat kBlockHeaderSize) of
             None \<Rightarrow> stop
           | Some payload_start \<Rightarrow>
             (case checked_add payload_start (bh_compressed_size header) of
                None \<Rightarrow> stop
              | Some next_offset \<Rightarrow>
                if next_offset > stream_size then stop
                else if bh_compressed_size header > po_max_compressed_payload_bytes options
                        \<or> bh_uncompressed_size header > po_max_uncompressed_payload_bytes options
                then Some (round_stops result')
                else case validate_payload codec read_exact header options payload_start r' of
                       None \<Rightarrow> None
                     | Some (all_read, issues, r'') \<Rightarrow>
                         if all_read then Some (round_continues next_offset (with_issues result' issues) r'')
                         else Some (round_stops (with_issues result'
                                (issues @ issue_when True invalid_header payload_start))))))"

lemma unat_room: "unat (- 1 - a :: u64) = 2 ^ 64 - 1 - unat a"
proof -
  have "unat (- 1 :: u64) = 2 ^ 64 - 1" by (simp add: unsigned_minus_1_eq_mask mask_eq_exp_minus_1)
  then show ?thesis using unat_sub [of a "- 1"] word_n1_ge [of a] by simp
qed

lemma unat_checked_add: "checked_add a b = Some c \<Longrightarrow> unat c = unat a + unat b"
  using unat_room [of a] u64_unat_less [of a]
  by (auto simp: checked_add_def word_less_nat_alt not_less unat_word_ariths split: if_splits)

lemma parse_block_advances:
  assumes "parse_block codec stream_size options read_exact offset result r
      = Some (round_continues next_offset result' r')"
  shows "offset < next_offset \<and> next_offset \<le> stream_size"
proof -
  show ?thesis
    using assms unfolding parse_block_def Let_def
    by (auto simp: word_less_nat_alt word_le_nat_alt not_less kBlockHeaderSize_def
        split: if_splits option.splits prod.splits dest!: unat_checked_add)
qed

function parse_blocks ::
  "'z block_codec \<Rightarrow> u64 \<Rightarrow> parse_options \<Rightarrow> 'r read_exact \<Rightarrow> u64 \<Rightarrow> parse_result \<Rightarrow> 'r
     \<Rightarrow> parse_result option" where
  "parse_blocks codec stream_size options read_exact offset result r =
     (if \<not> offset < stream_size then Some result
      else case parse_block codec stream_size options read_exact offset result r of
        None \<Rightarrow> None
      | Some (round_stops result') \<Rightarrow> Some result'
      | Some (round_continues next_offset result' r') \<Rightarrow>
          parse_blocks codec stream_size options read_exact next_offset result' r')"
  by pat_completeness auto

termination
proof (relation "measure (\<lambda>(codec, stream_size, options, read_exact, offset, result, r). unat (stream_size - offset))")
  fix codec :: "'z block_codec" and stream_size offset next_offset :: u64 and options and read_exact :: "'r read_exact"
    and result result' r r' x x2
  assume "\<not> \<not> offset < stream_size" "parse_block codec stream_size options read_exact offset result r = Some x2"
    "x2 = round_continues next_offset result' r'"
  then have "offset < next_offset \<and> next_offset \<le> stream_size" by (intro parse_block_advances) simp
  then show "((codec, stream_size, options, read_exact, next_offset, result', r'),
      codec, stream_size, options, read_exact, offset, result, r)
      \<in> measure (\<lambda>(codec, stream_size, options, read_exact, offset, result, r). unat (stream_size - offset))"
    by (auto simp: unat_sub word_le_nat_alt word_less_nat_alt)
qed simp

declare parse_blocks.simps [simp del]

definition parse_block_stream ::
  "'z block_codec \<Rightarrow> u64 \<Rightarrow> parse_options \<Rightarrow> 'r read_exact \<Rightarrow> 'r \<Rightarrow> parse_result option" where
  "parse_block_stream codec stream_size options read_exact r =
     (let empty = \<lparr>pr_blocks = [], pr_issues = []\<rparr>
      in if stream_size = 0
         then Some (with_issues empty (issue_when (\<not> po_allow_empty options) invalid_header 0))
         else parse_blocks codec stream_size options read_exact 0 empty r)"

end
