(* ===== verification/BlockFacts.thy ===== *)
theory BlockFacts
  imports BlockStream
begin

text \<open>
  Facts on the block format: what the little-endian writers leave for the readers, that a header
  reads back, and when a header has no issue, in plain arithmetic.
\<close>

subsection \<open>Bytes\<close>

lemma length_fold_write [simp]: "length (fold (\<lambda>i bs. bs[off + i := f i]) is bs) = length bs"
  by (induction "is" arbitrary: bs) auto

lemma nth_fold_write:
  "off + n \<le> length bs \<Longrightarrow>
   fold (\<lambda>i bs. bs[off + i := f i]) [0..<n] bs ! j = (if off \<le> j \<and> j < off + n then f (j - off) else bs ! j)"
proof (induction n)
  case (Suc n)
  then show ?case by (auto simp: nth_list_update le_eq_less_or_eq)
qed auto

lemma length_writes [simp]:
  "length (write_u16_le bs off v) = length bs" "length (write_u32_le bs off w) = length bs"
  "length (write_u64_le bs off x) = length bs" "length (write_hash bs off h) = length bs"
  by (simp_all add: write_u16_le_def write_u32_le_def write_u64_le_def write_hash_def)

lemma nth_write_u16:
  "off + 2 \<le> length bs \<Longrightarrow> write_u16_le bs off v ! j =
     (if off \<le> j \<and> j < off + 2 then ucast (drop_bit (8 * (j - off)) v AND 0xFF) else bs ! j)"
  by (auto simp: write_u16_le_def nth_list_update less_Suc_eq numeral_2_eq_2)

lemma nth_write_u32:
  "off + 4 \<le> length bs \<Longrightarrow> write_u32_le bs off v ! j =
     (if off \<le> j \<and> j < off + 4 then ucast (drop_bit (8 * (j - off)) v AND 0xFF) else bs ! j)"
  unfolding write_u32_le_def by (rule nth_fold_write)

lemma nth_write_u64:
  "off + 8 \<le> length bs \<Longrightarrow> write_u64_le bs off v ! j =
     (if off \<le> j \<and> j < off + 8 then ucast (drop_bit (8 * (j - off)) v AND 0xFF) else bs ! j)"
  unfolding write_u64_le_def by (rule nth_fold_write)

lemma nth_write_hash:
  "off + length h \<le> length bs \<Longrightarrow> write_hash bs off h ! j =
     (if off \<le> j \<and> j < off + length h then h ! (j - off) else bs ! j)"
  unfolding write_hash_def by (rule nth_fold_write)

lemmas nth_writes = nth_write_u16 nth_write_u32 nth_write_u64 nth_write_hash

lemma bit_fold_bytes:
  fixes b :: "nat \<Rightarrow> byte"
  shows "bit (fold (\<lambda>i v. v OR push_bit (8 * i) (ucast (b i))) [0..<k] (0 :: 'a::len word)) n
     \<longleftrightarrow> n < LENGTH('a) \<and> n < 8 * k \<and> bit (b (n div 8)) (n mod 8)"
proof (induction k)
  case (Suc k)
  consider "n < 8 * k" | "8 * k \<le> n" "n < 8 * k + 8" | "8 * k + 8 \<le> n" by linarith
  then show ?case
  proof cases
    case 2
    then have "n div 8 = k" "n mod 8 = n - 8 * k" by (simp_all add: div_nat_eqI modulo_nat_def)
    then show ?thesis using 2 Suc by (auto simp: bit_or_iff bit_push_bit_iff bit_ucast_iff bit_imp_le_length)
  next
    case 3
    then have "\<not> bit (b k) (n - 8 * k)" using bit_imp_le_length [of "b k" "n - 8 * k"] by auto
    then show ?thesis using 3 Suc by (auto simp: bit_or_iff bit_push_bit_iff bit_ucast_iff)
  qed (use Suc in \<open>auto simp: bit_or_iff bit_push_bit_iff\<close>)
qed simp

lemma bit_low_byte: "bit (255 :: 'a::len word) i \<longleftrightarrow> i < LENGTH('a) \<and> i < 8"
proof -
  have "(255 :: 'a word) = mask 8" by (simp add: mask_eq_exp_minus_1)
  then show ?thesis by (simp only: bit_mask_iff) (auto simp: possible_bit_def)
qed

lemma fold_bytes_of:
  fixes w :: "'a::len word"
  assumes "LENGTH('a) \<le> 8 * k" and b: "\<And>i. i < k \<Longrightarrow> b i = (ucast (drop_bit (8 * i) w AND 0xFF) :: byte)"
  shows "fold (\<lambda>i v. v OR push_bit (8 * i) (ucast (b i))) [0..<k] 0 = w"
proof (rule bit_word_eqI)
  fix n assume n: "n < LENGTH('a)"
  have "n div 8 < k" using n assms(1) by auto
  moreover have "8 * (n div 8) + n mod 8 = n" by simp
  moreover have "n mod 8 < LENGTH('a)" using n by (meson le_less_trans mod_less_eq_dividend)
  ultimately have "bit (b (n div 8)) (n mod 8) \<longleftrightarrow> bit w n"
    using b [of "n div 8"] by (simp only: bit_ucast_iff bit_and_iff bit_drop_bit_eq comp_def bit_low_byte) auto
  then show "bit (fold (\<lambda>i v. v OR push_bit (8 * i) (ucast (b i))) [0..<k] (0 :: 'a word)) n \<longleftrightarrow> bit w n"
    using n assms(1) by (simp add: bit_fold_bytes)
qed

lemma read_u32_leI:
  "(\<And>i. i < 4 \<Longrightarrow> bs ! (off + i) = ucast (drop_bit (8 * i) w AND 0xFF)) \<Longrightarrow> read_u32_le bs off = w"
  unfolding read_u32_le_def by (rule fold_bytes_of) simp_all

lemma read_u64_leI:
  "(\<And>i. i < 8 \<Longrightarrow> bs ! (off + i) = ucast (drop_bit (8 * i) w AND 0xFF)) \<Longrightarrow> read_u64_le bs off = w"
  unfolding read_u64_le_def by (rule fold_bytes_of) simp_all

lemma read_u16_leI:
  assumes "\<And>i. i < 2 \<Longrightarrow> bs ! (off + i) = ucast (drop_bit (8 * i) w AND 0xFF)"
  shows "read_u16_le bs off = w"
proof -
  have "fold (\<lambda>i v. v OR push_bit (8 * i) (ucast (bs ! (off + i)))) [0..<2] 0 = w"
    using assms by (intro fold_bytes_of) simp_all
  then show ?thesis by (simp add: read_u16_le_def upt_rec)
qed

lemma read_hashI: "length h = 32 \<Longrightarrow> (\<And>i. i < 32 \<Longrightarrow> bs ! (off + i) = h ! i) \<Longrightarrow> read_hash bs off = h"
  by (rule nth_equalityI) (simp_all add: read_hash_def)

subsection \<open>A written header\<close>

lemma length_unhashed [simp]: "length (unhashed_header spec u c h) = 160"
  by (simp add: unhashed_header_def Let_def kBlockHeaderSize_def)

lemma length_made_header [simp]: "length (fst (make_block_header codec spec u c h)) = 160"
  by (simp add: make_block_header_def Let_def)

lemma unhashed_reserved:
  "length h = 32 \<Longrightarrow> 108 \<le> j \<Longrightarrow> j < 160 \<Longrightarrow> unhashed_header spec u c h ! j = 0"
  by (simp add: unhashed_header_def Let_def kBlockHeaderSize_def nth_writes nth_list_update)

definition header_of :: "block_write_spec \<Rightarrow> u64 \<Rightarrow> u64 \<Rightarrow> u64 \<Rightarrow> digest \<Rightarrow> digest \<Rightarrow> block_header" where
  "header_of spec offset uncompressed_size compressed_size payload_hash header_hash =
     \<lparr>bh_offset = offset, bh_version = 1, bh_header_size = 160,
      bh_block_type = block_type_code (bw_block_type spec), bh_compression = 1, bh_endian = 1, bh_flags = 0,
      bh_uncompressed_size = uncompressed_size, bh_compressed_size = compressed_size,
      bh_extent_0 = bw_extent_0 spec, bh_extent_1 = bw_extent_1 spec, bh_extent_2 = bw_extent_2 spec,
      bh_dtype = dtype_code (bw_dtype spec), bh_start_frame = bw_start_frame spec,
      bh_frame_count = bw_frame_count spec, bh_start_us = bw_start_us spec, bh_end_us = bw_end_us spec,
      bh_payload_blake3 = payload_hash, bh_header_blake3 = header_hash\<rparr>"

lemma snd_made_header:
  "snd (make_block_header codec spec u c h) = blake3_digest_for_header codec (unhashed_header spec u c h)"
  by (simp add: make_block_header_def Let_def)

lemma parse_made_header:
  assumes h: "length h = 32" and b: "length (snd (make_block_header codec spec u c h)) = 32"
  shows "parse_header (fst (make_block_header codec spec u c h)) offset =
     header_of spec offset u c h (snd (make_block_header codec spec u c h))"
proof -
  define hh where "hh = snd (make_block_header codec spec u c h)"
  have hh: "length hh = 32" using b by (simp add: hh_def)
  have nth: "fst (make_block_header codec spec u c h) ! j =
      (if 108 \<le> j \<and> j < 140 then hh ! (j - 108) else unhashed_header spec u c h ! j)" for j
    using hh unfolding hh_def snd_made_header by (simp add: make_block_header_def Let_def nth_write_hash)
  note hdr = unhashed_header_def Let_def kBlockHeaderSize_def nth_writes nth_list_update h
  show ?thesis
    unfolding parse_header_def header_of_def hh_def [symmetric]
    by (intro block_header.equality; simp; ((intro read_u16_leI read_u32_leI read_u64_leI read_hashI)?; (simp add: nth hdr h hh)?))
qed

lemma nth_zero_header_hash:
  "length bs = 160 \<Longrightarrow> zero_header_hash bs ! j = (if 108 \<le> j \<and> j < 140 then 0 else bs ! j)"
proof -
  have "zero_header_hash bs = fold (\<lambda>i bs. bs[108 + i := 0]) [0..<32] bs"
    by (simp add: zero_header_hash_def upt_rec)
  then show "length bs = 160 \<Longrightarrow> ?thesis" using nth_fold_write [of 108 32 bs "\<lambda>_. 0" j] by simp
qed

lemma length_zero_header_hash [simp]: "length (zero_header_hash bs) = length bs"
  using length_fold_write [of 0 "\<lambda>_. 0" "[108..<140]"] by (simp add: zero_header_hash_def)

lemma zero_unhashed: "length h = 32 \<Longrightarrow> zero_header_hash (unhashed_header spec u c h) = unhashed_header spec u c h"
  by (rule nth_equalityI) (simp_all add: nth_zero_header_hash unhashed_reserved)

lemma nth_made_header:
  "length (snd (make_block_header codec spec u c h)) = 32 \<Longrightarrow> fst (make_block_header codec spec u c h) ! j =
     (if 108 \<le> j \<and> j < 140 then snd (make_block_header codec spec u c h) ! (j - 108)
      else unhashed_header spec u c h ! j)"
  unfolding snd_made_header by (simp add: make_block_header_def Let_def nth_write_hash)

lemma unhashed_of_made:
  assumes h: "length h = 32" and b: "length (snd (make_block_header codec spec u c h)) = 32"
  shows "zero_header_hash (fst (make_block_header codec spec u c h)) = unhashed_header spec u c h"
proof (rule nth_equalityI)
  fix j
  show "zero_header_hash (fst (make_block_header codec spec u c h)) ! j = unhashed_header spec u c h ! j"
    using unhashed_reserved [OF h, of j] by (simp add: nth_zero_header_hash nth_made_header [OF b])
qed simp

lemma made_header_hash:
  assumes "length h = 32" "length (snd (make_block_header codec spec u c h)) = 32"
  shows "blake3_digest_for_header codec (fst (make_block_header codec spec u c h))
     = snd (make_block_header codec spec u c h)"
  unfolding blake3_digest_for_header_def [of codec "fst _"] unhashed_of_made [OF assms]
  by (simp add: snd_made_header blake3_digest_for_header_def zero_unhashed assms)

lemma made_header_magic:
  assumes h: "length h = 32" and b: "length (snd (make_block_header codec spec u c h)) = 32"
  shows "is_header_magic_valid (fst (make_block_header codec spec u c h))
     \<and> reserved_bytes_are_zero (fst (make_block_header codec spec u c h))"
proof -
  note nth = nth_made_header [OF b]
  have "reserved_bytes_are_zero (fst (make_block_header codec spec u c h))"
    using unhashed_reserved [OF h] by (simp add: reserved_bytes_are_zero_def list_all_iff nth)
  moreover have "is_header_magic_valid (fst (make_block_header codec spec u c h))"
    by (simp add: is_header_magic_valid_def nth)
      (simp add: unhashed_header_def Let_def kBlockHeaderSize_def nth_writes nth_list_update h)
  ultimately show ?thesis by blast
qed

subsection \<open>Headers without issues\<close>

lemma unat_checked_multiply: "checked_multiply a b = Some c \<Longrightarrow> unat c = unat a * unat b"
proof -
  assume c: "checked_multiply a b = Some c"
  show ?thesis
  proof (cases "a = 0")
    case False
    then have "unat b \<le> (2 ^ 64 - 1) div unat a"
      using c by (auto simp: checked_multiply_def not_less word_le_nat_alt unat_div unsigned_minus_1_eq_mask
          mask_eq_exp_minus_1 split: if_splits)
    then have "unat a * unat b \<le> 2 ^ 64 - 1"
      using False by (simp add: less_eq_div_iff_mult_less_eq unat_gt_0 mult.commute)
    then have "unat a * unat b < 2 ^ 64" by simp
    then show ?thesis using c False by (auto simp: checked_multiply_def unat_word_ariths split: if_splits)
  qed (use c in \<open>auto simp: checked_multiply_def split: if_splits\<close>)
qed

lemma checked_multiply_fits:
  assumes "unat a * unat b < 2 ^ 64"
  shows "checked_multiply a b = Some (a * b)"
proof (cases "a = 0")
  case False
  have "unat b \<le> (2 ^ 64 - 1) div unat a"
    using assms False by (simp add: less_eq_div_iff_mult_less_eq unat_gt_0 mult.commute)
  then have "\<not> - 1 div a < b"
    by (simp add: not_less word_le_nat_alt unat_div unsigned_minus_1_eq_mask mask_eq_exp_minus_1)
  then show ?thesis by (simp add: checked_multiply_def)
qed (simp add: checked_multiply_def)

lemma unat_ucast_32: "unat (ucast (e :: u32) :: u64) = unat e"
  by (simp add: unsigned_ucast_eq take_bit_nat_eq_self_iff) (rule less_trans [OF unsigned_less]; simp)

text \<open>The payload size the dimensions ask for, in plain arithmetic.\<close>

definition payload_size_matches :: "block_header \<Rightarrow> bool" where
  "payload_size_matches h \<longleftrightarrow>
     (let pixels = unat (bh_extent_0 h) * unat (bh_extent_1 h)
      in if bh_block_type h = block_type_code block_depth
         then unat (bh_uncompressed_size h) = 2 * (pixels * unat (bh_frame_count h))
         else if bh_block_type h = block_type_code block_embedding
         then unat (bh_uncompressed_size h) = 4 * pixels
         else if bh_block_type h = block_type_code block_mask \<and> bh_dtype h = dtype_code dt_bitpacked_lsb_first
         then unat (bh_uncompressed_size h) = (pixels * unat (bh_extent_2 h) + 7) div 8
         else True)"

lemma validate_uncompressed_size_sound:
  assumes v: "validate_uncompressed_size h" and nonzero: "bh_uncompressed_size h \<noteq> 0"
  shows "payload_size_matches h"
proof -
  consider (depth) "bh_block_type h = 1" | (embedding) "bh_block_type h = 3"
    | (mask) "bh_block_type h = 2" "bh_dtype h = 5" | (other) "bh_block_type h \<noteq> 1" "bh_block_type h \<noteq> 3"
      "\<not> (bh_block_type h = 2 \<and> bh_dtype h = 5)" by blast
  then show ?thesis
  proof cases
    case mask
    then obtain pixels samples where
      p: "checked_multiply (ucast (bh_extent_0 h)) (ucast (bh_extent_1 h)) = Some pixels"
      and s: "checked_multiply pixels (ucast (bh_extent_2 h)) = Some samples"
      and e: "bh_uncompressed_size h = (samples + 7) div 8"
      using v by (auto simp: validate_uncompressed_size_def bind_eq_Some_conv split: option.splits)
    have n: "unat samples = unat (bh_extent_0 h) * unat (bh_extent_1 h) * unat (bh_extent_2 h)"
      using unat_checked_multiply [OF p] unat_checked_multiply [OF s] by (simp add: unat_ucast_32)
    have "unat samples + 7 < 2 ^ 64"
    proof (rule ccontr)
      assume "\<not> unat samples + 7 < 2 ^ 64"
      then have "unat (samples + 7) < 8" using u64_unat_less [of samples] by (simp add: unat_word_ariths le_mod_geq)
      then have "unat ((samples + 7) div 8) = 0" by (simp add: unat_div)
      then show False using e nonzero by (simp add: unat_eq_0)
    qed
    then have "unat ((samples + 7) div 8) = (unat samples + 7) div 8" by (simp add: unat_div unat_word_ariths)
    then show ?thesis using mask e n by (simp add: payload_size_matches_def)
  qed (use v in \<open>auto simp: validate_uncompressed_size_def payload_size_matches_def bind_eq_Some_conv unat_ucast_32
      dest!: unat_checked_multiply split: option.splits\<close>)
qed

lemma validate_uncompressed_size_complete:
  assumes m: "payload_size_matches h" and small: "unat (bh_uncompressed_size h) < 2 ^ 60"
    and nonzero: "bh_extent_0 h \<noteq> 0" "bh_extent_1 h \<noteq> 0"
  shows "validate_uncompressed_size h"
proof -
  let ?a = "ucast (bh_extent_0 h) :: u64" and ?b = "ucast (bh_extent_1 h) :: u64"
  have fits: "unat (bh_extent_0 h) * unat (bh_extent_1 h) < 2 ^ 64"
  proof -
    have "unat (bh_extent_0 h) < 2 ^ 32" "unat (bh_extent_1 h) < 2 ^ 32"
      using unsigned_less [of "bh_extent_0 h"] unsigned_less [of "bh_extent_1 h"] by (simp_all add: unsigned_less)
    then have "unat (bh_extent_0 h) * unat (bh_extent_1 h) < 2 ^ 32 * 2 ^ 32" by (intro mult_strict_mono) simp_all
    then show ?thesis by simp
  qed
  then have ab: "checked_multiply ?a ?b = Some (?a * ?b)" by (intro checked_multiply_fits) (simp add: unat_ucast_32)
  have pix: "unat (?a * ?b) = unat (bh_extent_0 h) * unat (bh_extent_1 h)"
    using unat_checked_multiply [OF ab] by (simp add: unat_ucast_32)
  consider (depth) "bh_block_type h = 1" | (embedding) "bh_block_type h = 3"
    | (mask) "bh_block_type h = 2" "bh_dtype h = 5" | (other) "bh_block_type h \<noteq> 1" "bh_block_type h \<noteq> 3"
      "\<not> (bh_block_type h = 2 \<and> bh_dtype h = 5)" by blast
  then show ?thesis
  proof cases
    case depth
    then have u: "unat (bh_uncompressed_size h) = 2 * (unat (?a * ?b) * unat (bh_frame_count h))"
      using m by (simp add: payload_size_matches_def Let_def pix)
    have f: "checked_multiply (?a * ?b) (bh_frame_count h) = Some (?a * ?b * bh_frame_count h)"
    proof (rule checked_multiply_fits)
      have "n < 2 ^ 64" if "k = 2 * n" "k < 2 ^ 60" for k n :: nat using that by simp
      from this [OF u small] show "unat (?a * ?b) * unat (bh_frame_count h) < 2 ^ 64" .
    qed
    have s: "unat (?a * ?b * bh_frame_count h) = unat (?a * ?b) * unat (bh_frame_count h)"
      by (rule unat_checked_multiply [OF f])
    have two: "checked_multiply (?a * ?b * bh_frame_count h) 2 = Some (?a * ?b * bh_frame_count h * 2)"
      using u small s by (intro checked_multiply_fits) simp
    have "unat (?a * ?b * bh_frame_count h * 2) = unat (bh_uncompressed_size h)"
      using unat_checked_multiply [OF two] u s by simp
    then have "bh_uncompressed_size h = ?a * ?b * bh_frame_count h * 2" by (simp add: word_unat_eq_iff)
    then show ?thesis using depth by (simp add: validate_uncompressed_size_def ab f two)
  next
    case embedding
    then have u: "unat (bh_uncompressed_size h) = 4 * unat (?a * ?b)"
      using m by (simp add: payload_size_matches_def Let_def pix)
    have four: "checked_multiply (?a * ?b) 4 = Some (?a * ?b * 4)"
      using u small by (intro checked_multiply_fits) simp
    have "unat (?a * ?b * 4) = unat (bh_uncompressed_size h)" using unat_checked_multiply [OF four] u by simp
    then have "bh_uncompressed_size h = ?a * ?b * 4" by (simp add: word_unat_eq_iff)
    then show ?thesis using embedding by (simp add: validate_uncompressed_size_def ab four)
  next
    case mask
    then have u: "unat (bh_uncompressed_size h) = (unat (?a * ?b) * unat (bh_extent_2 h) + 7) div 8"
      using m by (simp add: payload_size_matches_def Let_def pix)
    have less: "unat (?a * ?b) * unat (bh_extent_2 h) + 7 < 2 ^ 64"
    proof -
      have "(unat (?a * ?b) * unat (bh_extent_2 h) + 7) div 8 < 2 ^ 60" using u small by simp
      then show ?thesis by simp
    qed
    have d: "checked_multiply (?a * ?b) (ucast (bh_extent_2 h)) = Some (?a * ?b * ucast (bh_extent_2 h))"
      using less by (intro checked_multiply_fits) (simp add: unat_ucast_32)
    have s: "unat (?a * ?b * ucast (bh_extent_2 h)) = unat (?a * ?b) * unat (bh_extent_2 h)"
      using unat_checked_multiply [OF d] by (simp add: unat_ucast_32)
    have "unat ((?a * ?b * ucast (bh_extent_2 h) + 7) div 8) = unat (bh_uncompressed_size h)"
      unfolding u unat_div s [symmetric] using less s by (simp add: unat_word_ariths)
    then have "bh_uncompressed_size h = (?a * ?b * ucast (bh_extent_2 h) + 7) div 8" by (simp add: word_unat_eq_iff)
    then show ?thesis using mask by (simp add: validate_uncompressed_size_def ab d)
  qed (auto simp: validate_uncompressed_size_def)
qed

definition dimensions_conform :: "block_header \<Rightarrow> bool" where
  "dimensions_conform h \<longleftrightarrow> bh_extent_0 h \<noteq> 0 \<and> bh_extent_1 h \<noteq> 0 \<and>
     (if bh_block_type h = block_type_code block_depth
      then bh_extent_2 h = 1 \<and> bh_dtype h = dtype_code dt_uint16 \<and> bh_frame_count h \<noteq> 0 \<and> bh_start_frame h \<noteq> kNonFrameStart
      else if bh_block_type h = block_type_code block_mask
      then bh_extent_2 h \<noteq> 0 \<and> bh_dtype h \<in> {dtype_code dt_bitpacked_lsb_first, dtype_code dt_svp_rle_v1}
        \<and> bh_frame_count h \<noteq> 0 \<and> bh_start_frame h \<noteq> kNonFrameStart
      else bh_extent_2 h = 1 \<and> bh_dtype h = dtype_code dt_float32 \<and> bh_frame_count h = 0 \<and> bh_start_frame h = kNonFrameStart)"

definition block_conforms :: "parse_options \<Rightarrow> block_header \<Rightarrow> bool" where
  "block_conforms options h \<longleftrightarrow>
     bh_version h = 1 \<and> bh_header_size h = 160 \<and> bh_compression h = 1 \<and> bh_endian h = 1 \<and> bh_flags h = 0 \<and>
     bh_block_type h \<in> range block_type_code \<and>
     (\<forall>t. po_required_block_type options = Some t \<longrightarrow> bh_block_type h = block_type_code t) \<and>
     bh_compressed_size h \<noteq> 0 \<and> bh_uncompressed_size h \<noteq> 0 \<and>
     bh_compressed_size h \<le> po_max_compressed_payload_bytes options \<and>
     bh_uncompressed_size h \<le> po_max_uncompressed_payload_bytes options \<and>
     is_time_range_valid h \<and> dimensions_conform h \<and> payload_size_matches h \<and>
     (\<forall>extent. po_required_raster_extent options = Some extent \<longrightarrow> bh_block_type h \<noteq> block_type_code block_embedding \<longrightarrow>
        bh_extent_0 h = re_width extent \<and> bh_extent_1 h = re_height extent)"

lemma issue_when_Nil [simp]: "issue_when c k off = [] \<longleftrightarrow> \<not> c"
  by (simp add: issue_when_def)

lemma strict_type_range: "is_strict_block_type t \<longleftrightarrow> t \<in> range block_type_code"
proof -
  have "UNIV = {block_depth, block_mask, block_embedding}" using block_type.exhaust by blast
  then have "range block_type_code = block_type_code ` {block_depth, block_mask, block_embedding}" by (rule arg_cong)
  then show ?thesis by (simp add: is_strict_block_type_def)
qed

lemma no_issues_sound:
  assumes "validate_header bytes h options = []"
  shows "is_header_magic_valid bytes \<and> reserved_bytes_are_zero bytes \<and> block_conforms options h"
proof -
  have strict: "is_strict_block_type (bh_block_type h)"
    using assms by (auto simp: validate_header_def Let_def split: if_splits)
  note all = assms [unfolded validate_header_def Let_def append_is_Nil_conv, simplified strict, simplified]
  have dims: "dimensions_conform h"
    using all strict by (auto simp: dimension_issues_def dimensions_conform_def is_strict_block_type_def split: if_splits)
  have size: "payload_size_matches h"
    using all by (intro validate_uncompressed_size_sound) simp_all
  show ?thesis
    using all strict dims size
    by (auto simp: block_conforms_def raster_issues_def kBlockHeaderSize_def strict_type_range [symmetric] not_less
        is_strict_block_type_def split: option.splits)
qed

lemma no_issues_complete:
  assumes magic: "is_header_magic_valid bytes" "reserved_bytes_are_zero bytes" and c: "block_conforms options h"
    and small: "unat (bh_uncompressed_size h) < 2 ^ 60"
  shows "validate_header bytes h options = []"
proof -
  have strict: "is_strict_block_type (bh_block_type h)" using c by (simp add: block_conforms_def strict_type_range)
  have "validate_uncompressed_size h"
    using c small by (intro validate_uncompressed_size_complete) (simp_all add: block_conforms_def dimensions_conform_def)
  moreover have "dimension_issues h = []"
    using c strict by (auto simp: block_conforms_def dimensions_conform_def dimension_issues_def is_strict_block_type_def)
  moreover have "raster_issues options h = []"
    using c by (auto simp: block_conforms_def raster_issues_def split: option.splits)
  ultimately show ?thesis
    using magic c strict by (auto simp: validate_header_def Let_def block_conforms_def kBlockHeaderSize_def split: option.splits)
qed

end
