(* ===== verification/BlockRuns.thy ===== *)
theory BlockRuns
  imports BlockFacts
begin

text \<open>
  Runs of the block parser: what the decompressor is relied on for (\<open>zstd_streams\<close>), and what the
  loops over chunks, payloads and blocks do on written bytes and on any bytes.
\<close>

subsection \<open>Decompressing in chunks\<close>

text \<open>
  \<open>good z input left\<close>: in state z a stream is still to be given the bytes \<open>input\<close> of its frame and
  will put out \<open>left\<close> more bytes. The last byte of a frame is not taken before the output is flushed.
\<close>

definition zstd_streams :: "'z block_codec \<Rightarrow> ('z \<Rightarrow> byte list \<Rightarrow> nat \<Rightarrow> bool) \<Rightarrow> bool" where
  "zstd_streams codec good \<longleftrightarrow>
     (\<forall>payload frame. bc_compress codec payload = Some frame \<longrightarrow>
        (\<exists>z. bc_stream codec = Some z \<and> good z frame (length payload))) \<and>
     (\<forall>z left. good z [] left \<longrightarrow> left = 0) \<and>
     (\<forall>z input rest left. good z (input @ rest) left \<longrightarrow> input \<noteq> [] \<longrightarrow>
        (\<exists>z' consumed produced hint.
           bc_step codec z input kPayloadChunkSize = zstd_made z' consumed (of_nat produced) hint \<and>
           consumed \<le> length input \<and> produced \<le> left \<and> 0 < consumed + produced \<and>
           good z' (drop consumed input @ rest) (left - produced) \<and>
           (hint = 0 \<longleftrightarrow> drop consumed input @ rest = [])))"

lemma zstd_step:
  assumes "zstd_streams codec good" "good z (input @ rest) left" "input \<noteq> []"
  obtains z' consumed produced hint where
    "bc_step codec z input kPayloadChunkSize = zstd_made z' consumed (of_nat produced) hint"
    "consumed \<le> length input" "produced \<le> left" "0 < consumed + produced"
    "good z' (drop consumed input @ rest) (left - produced)" "hint = 0 \<longleftrightarrow> drop consumed input @ rest = []"
proof -
  have "\<exists>z' consumed produced hint.
           bc_step codec z input kPayloadChunkSize = zstd_made z' consumed (of_nat produced) hint \<and>
           consumed \<le> length input \<and> produced \<le> left \<and> 0 < consumed + produced \<and>
           good z' (drop consumed input @ rest) (left - produced) \<and>
           (hint = 0 \<longleftrightarrow> drop consumed input @ rest = [])"
    using assms unfolding zstd_streams_def by blast
  then show thesis using that by blast
qed

text \<open>\<open>inflating codec good declared st rest\<close>: the decompression is on its way to \<open>declared\<close> bytes.\<close>

definition inflating :: "('z \<Rightarrow> byte list \<Rightarrow> nat \<Rightarrow> bool) \<Rightarrow> u64 \<Rightarrow> 'z inflate \<Rightarrow> byte list \<Rightarrow> bool" where
  "inflating good declared st rest \<longleftrightarrow> \<not> in_failed st \<and>
     (\<exists>left. good (in_stream st) rest left \<and> unat (in_size st) + left = unat declared)"

lemma inflate_chunk_works:
  assumes z: "zstd_streams codec good"
  shows "inflating good declared st (input @ rest) \<Longrightarrow>
     \<exists>st'. inflate_chunk codec declared st input = Some st' \<and> inflating good declared st' rest \<and>
       (input \<noteq> [] \<longrightarrow> in_complete st' = (rest = [])) \<and> (input = [] \<longrightarrow> st' = st)"
proof (induction "length input + (unat declared - unat (in_size st))" arbitrary: st input rule: less_induct)
  case less
  show ?case
  proof (cases "input = []")
    case True
    then show ?thesis using less.prems by (subst inflate_chunk.simps) simp
  next
    case False
    from less.prems obtain left where g: "good (in_stream st) (input @ rest) left"
      and size: "unat (in_size st) + left = unat declared" and ok: "\<not> in_failed st"
      by (auto simp: inflating_def)
    from zstd_step [OF z g False] obtain z' consumed produced hint where
      step: "bc_step codec (in_stream st) input kPayloadChunkSize = zstd_made z' consumed (of_nat produced) hint"
      and c: "consumed \<le> length input" "produced \<le> left" "0 < consumed + produced"
      and g': "good z' (drop consumed input @ rest) (left - produced)"
      and hint: "hint = 0 \<longleftrightarrow> drop consumed input @ rest = []" .
    let ?st = "st\<lparr>in_stream := z', in_size := in_size st + of_nat produced, in_complete := (hint = 0)\<rparr>"
    have p: "unat (of_nat produced :: u64) = produced"
      using c(2) size u64_unat_less [of declared] by (intro unat_of_nat_u64) simp
    have sum: "unat (in_size st + of_nat produced) = unat (in_size st) + produced"
      using c(2) size u64_unat_less [of declared] p by (simp add: unat_word_ariths)
    have room: "\<not> of_nat produced > - 1 - in_size st" "\<not> in_size st + of_nat produced > declared"
      using c(2) size u64_unat_less [of declared] p sum
      by (simp_all add: word_less_nat_alt unat_room)
    have eq: "inflate_chunk codec declared st input = inflate_chunk codec declared ?st (drop consumed input)"
      using False step room by (subst inflate_chunk.simps) simp
    have "inflating good declared ?st (drop consumed input @ rest)"
      using g' ok sum size c(2) unfolding inflating_def by (auto intro!: exI [of _ "left - produced"])
    moreover have "length (drop consumed input) + (unat declared - unat (in_size ?st))
        < length input + (unat declared - unat (in_size st))"
    proof -
      have s: "unat (in_size ?st) = unat (in_size st) + produced" using sum by simp
      have "length input - consumed + (unat declared - (unat (in_size st) + produced))
          < length input + (unat declared - unat (in_size st))" using c size by arith
      then show ?thesis unfolding s length_drop .
    qed
    ultimately obtain st' where st': "inflate_chunk codec declared ?st (drop consumed input) = Some st'"
      "inflating good declared st' rest" "drop consumed input \<noteq> [] \<longrightarrow> in_complete st' = (rest = [])"
      "drop consumed input = [] \<longrightarrow> st' = ?st"
      using less.hyps [of "drop consumed input" ?st] by blast
    have "in_complete st' = (rest = [])" using st'(3,4) hint by (cases "drop consumed input = []") auto
    then show ?thesis using eq st' False by auto
  qed
qed

subsection \<open>A reader over bytes in memory\<close>

definition list_reader :: "byte list read_exact" where
  "list_reader n r = (if n \<le> length r then (Some (take n r), drop n r) else (None, r))"

lemma payload_chunks_work:
  assumes z: "zstd_streams codec good"
  shows "remaining = of_nat (length input) \<Longrightarrow> length input < 2 ^ 64 \<Longrightarrow>
     (case inflate of None \<Rightarrow> True | Some st \<Rightarrow> inflating good declared st input) \<Longrightarrow>
     \<exists>inflate'. payload_chunks codec list_reader declared remaining hashed inflate (input @ rest)
         = Some (True, hashed @ input, inflate', rest) \<and>
       (case inflate of None \<Rightarrow> inflate' = None
        | Some st \<Rightarrow> \<exists>st'. inflate' = Some st' \<and> inflating good declared st' []
            \<and> (input \<noteq> [] \<longrightarrow> in_complete st'))"
proof (induction "length input" arbitrary: remaining input hashed inflate rule: less_induct)
  case less
  have rem: "unat remaining = length input" using less.prems(1,2) by (simp add: unat_of_nat_u64)
  show ?case
  proof (cases "input = []")
    case True
    then show ?thesis using less.prems by (subst payload_chunks.simps) (auto split: option.splits)
  next
    case False
    then have nz: "remaining \<noteq> 0" using rem by auto
    define n where "n = unat (chunk_of remaining)"
    have n: "0 < n" "n \<le> length input"
      using nz rem by (auto simp: n_def chunk_of_def min_def unat_gt_0 kPayloadChunkSize_def word_le_nat_alt)
    have chunk: "chunk_of remaining = of_nat n" by (simp add: n_def)
    let ?in = "take n input" and ?left = "drop n input"
    have read: "list_reader n (input @ rest) = (Some ?in, ?left @ rest)" using n by (simp add: list_reader_def)
    have left: "remaining - chunk_of remaining = of_nat (length ?left)"
      unfolding chunk using less.prems(1) n by (simp add: of_nat_diff)
    have "\<exists>inflate1. inflate_input codec declared inflate ?in = Some inflate1 \<and>
        (case inflate of None \<Rightarrow> inflate1 = None
         | Some st \<Rightarrow> \<exists>st1. inflate1 = Some st1 \<and> inflating good declared st1 ?left \<and> in_complete st1 = (?left = []))"
    proof (cases inflate)
      case (Some st)
      then have i: "inflating good declared st (?in @ ?left)" using less.prems(3) by simp
      have "?in \<noteq> []" using n by auto
      then show ?thesis
        using inflate_chunk_works [OF z i] Some i by (auto simp: inflate_input_def inflating_def)
    qed (simp add: inflate_input_def)
    then obtain inflate1 where i1: "inflate_input codec declared inflate ?in = Some inflate1"
      and i1': "case inflate of None \<Rightarrow> inflate1 = None
         | Some st \<Rightarrow> \<exists>st1. inflate1 = Some st1 \<and> inflating good declared st1 ?left \<and> in_complete st1 = (?left = [])"
      by blast
    have eq: "payload_chunks codec list_reader declared remaining hashed inflate (input @ rest) =
        payload_chunks codec list_reader declared (of_nat (length ?left)) (hashed @ ?in) inflate1 (?left @ rest)"
      using nz read i1 left by (subst payload_chunks.simps) (simp add: n_def [symmetric])
    have "\<exists>inflate'. payload_chunks codec list_reader declared (of_nat (length ?left)) (hashed @ ?in) inflate1 (?left @ rest)
         = Some (True, (hashed @ ?in) @ ?left, inflate', rest) \<and>
       (case inflate1 of None \<Rightarrow> inflate' = None
        | Some st \<Rightarrow> \<exists>st'. inflate' = Some st' \<and> inflating good declared st' []
            \<and> (?left \<noteq> [] \<longrightarrow> in_complete st'))"
      by (rule less.hyps) (use n less.prems(2) i1' in \<open>auto split: option.splits\<close>)
    then obtain inflate' where done': "payload_chunks codec list_reader declared (of_nat (length ?left)) (hashed @ ?in) inflate1 (?left @ rest)
         = Some (True, hashed @ input, inflate', rest)"
      and last: "case inflate1 of None \<Rightarrow> inflate' = None
        | Some st \<Rightarrow> \<exists>st'. inflate' = Some st' \<and> inflating good declared st' []
            \<and> (?left \<noteq> [] \<longrightarrow> in_complete st')"
      by auto
    have complete: "case inflate of None \<Rightarrow> inflate' = None
        | Some st \<Rightarrow> \<exists>st'. inflate' = Some st' \<and> inflating good declared st' [] \<and> in_complete st'"
    proof (cases inflate)
      case (Some st)
      with i1' obtain st1 where st1: "inflate1 = Some st1" "in_complete st1 = (?left = [])" by auto
      show ?thesis
      proof (cases "?left = []")
        case True
        then have "inflate' = Some st1"
          using done' st1 by (subst (asm) payload_chunks.simps) simp
        then show ?thesis using Some st1 True last by simp
      qed (use Some st1 last in auto)
    qed (use i1' last in auto)
    show ?thesis using eq done' complete False by (auto split: option.splits)
  qed
qed

subsection \<open>A block that was written\<close>

lemma validate_payload_works:
  assumes z: "zstd_streams codec good" and frame: "bc_compress codec payload = Some frame"
    and sizes: "bh_compressed_size h = of_nat (length frame)" "bh_uncompressed_size h = of_nat (length payload)"
    "length frame < 2 ^ 64" "length payload < 2 ^ 64" "frame \<noteq> []"
    and hash: "bc_blake3 codec frame = bh_payload_blake3 h"
  shows "validate_payload codec list_reader h options offset (frame @ rest) = Some (True, [], rest)"
proof -
  obtain zs where zs: "bc_stream codec = Some zs" "good zs frame (length payload)"
    using z frame unfolding zstd_streams_def by blast
  let ?start = "\<lparr>in_stream = zs, in_failed = False, in_complete = False, in_size = 0\<rparr>"
  let ?inflate = "if po_verify_zstd_decompression options then Some ?start else None"
  have start: "inflating good (bh_uncompressed_size h) ?start frame"
    using zs(2) sizes(2,4) by (simp add: inflating_def unat_of_nat_u64)
  have ended: "in_size st = bh_uncompressed_size h \<and> \<not> in_failed st" if "inflating good (bh_uncompressed_size h) st []" for st
    using that z unfolding inflating_def zstd_streams_def by (metis add.right_neutral word_unat_eq_iff)
  have "case ?inflate of None \<Rightarrow> True | Some st \<Rightarrow> inflating good (bh_uncompressed_size h) st frame"
    using start by simp
  from payload_chunks_work [OF z sizes(1,3) this, of "[]" rest]
  obtain inflate' where chunks: "payload_chunks codec list_reader (bh_uncompressed_size h) (bh_compressed_size h) [] ?inflate
      (frame @ rest) = Some (True, frame, inflate', rest)"
    and i: "case ?inflate of None \<Rightarrow> inflate' = None
      | Some st \<Rightarrow> \<exists>st'. inflate' = Some st' \<and> inflating good (bh_uncompressed_size h) st' []
          \<and> (frame \<noteq> [] \<longrightarrow> in_complete st')"
    by auto
  have inflate: "(if po_verify_zstd_decompression options
      then map_option (\<lambda>z. \<lparr>in_stream = z, in_failed = False, in_complete = False, in_size = 0\<rparr>) (bc_stream codec)
      else None) = ?inflate"
    using zs(1) by simp
  show ?thesis
  proof (cases "po_verify_zstd_decompression options")
    case True
    then obtain st where st: "inflate' = Some st" "inflating good (bh_uncompressed_size h) st []" "in_complete st"
      using i sizes(5) by auto
    show ?thesis
      unfolding validate_payload_def inflate Let_def
      using chunks st ended [OF st(2)] hash zs(1) by (simp add: inflate_failed_def issue_when_def)
  next
    case False
    then have "inflate' = None" using i by simp
    then show ?thesis
      unfolding validate_payload_def inflate Let_def
      using chunks hash zs(1) False by (simp add: inflate_failed_def issue_when_def)
  qed
qed

lemma issue_when_False [simp]: "issue_when False k off = []"
  by (simp add: issue_when_def)

lemma with_issues_Nil [simp]: "with_issues result [] = result"
  by (simp add: with_issues_def)

definition written_header :: "block_write_spec \<Rightarrow> written_block_info \<Rightarrow> block_header" where
  "written_header spec info = header_of spec (wb_block_offset info) (wb_uncompressed_size info)
     (wb_compressed_size info) (wb_payload_blake3 info) (wb_header_blake3 info)"

lemma parse_written_block:
  assumes z: "zstd_streams codec good" and blake3: "\<And>bs. length (bc_blake3 codec bs) = 32"
    and w: "write_block codec out spec payload = Some (info, out @ block)"
    and len: "length out + length block + length rest < 2 ^ 64" "length payload < 2 ^ 60"
    and conforms: "block_conforms options (written_header spec info)"
    and stream_size: "stream_size = of_nat (length out + length block + length rest)"
  shows "parse_block codec stream_size options list_reader (of_nat (length out)) result (block @ rest) =
     Some (round_continues (of_nat (length out + length block))
       (result\<lparr>pr_blocks := pr_blocks result @ [written_header spec info]\<rparr>) rest)"
proof -
  obtain frame where frame: "bc_compress codec payload = Some frame" "frame \<noteq> []"
    using w by (auto simp: write_block_def Let_def split: if_splits option.splits prod.splits)
  let ?h = "bc_blake3 codec frame" and ?u = "of_nat (length payload) :: u64" and ?c = "of_nat (length frame) :: u64"
  let ?header = "fst (make_block_header codec spec ?u ?c ?h)" and ?hash = "snd (make_block_header codec spec ?u ?c ?h)"
  have parts: "block = ?header @ frame"
    "info = make_block_info (of_nat (length out)) ?c ?u ?h ?hash"
    using w frame by (auto simp: write_block_def Let_def split: if_splits prod.splits)
  have b: "length ?hash = 32" by (simp add: snd_made_header blake3_digest_for_header_def blake3)
  have h: "parse_header ?header (of_nat (length out)) = written_header spec info"
    using parse_made_header [OF blake3 b] by (simp add: written_header_def parts(2) make_block_info_def)
  have sizes: "unat ?c = length frame" "unat ?u = length payload" "unat (of_nat (length out) :: u64) = length out"
    using len parts(1) by (simp_all add: unat_of_nat_u64)
  have size: "unat stream_size = length out + length block + length rest"
    unfolding stream_size by (rule unat_of_nat_u64 [OF len(1)])
  have hw: "bh_compressed_size (written_header spec info) = ?c" "bh_uncompressed_size (written_header spec info) = ?u"
    "bh_payload_blake3 (written_header spec info) = ?h" "bh_header_blake3 (written_header spec info) = ?hash"
    by (simp_all add: written_header_def parts(2) make_block_info_def header_of_def)
  have issues: "validate_header ?header (written_header spec info) options = []"
    using made_header_magic [OF blake3 b] conforms sizes(2) len(2) by (intro no_issues_complete) (simp_all add: hw)
  have read: "list_reader kBlockHeaderSize (block @ rest) = (Some ?header, frame @ rest)"
    by (simp add: list_reader_def parts(1) kBlockHeaderSize_def)
  have n: "unat (of_nat kBlockHeaderSize :: u64) = 160" by (simp add: kBlockHeaderSize_def)
  have room: "\<not> stream_size - of_nat (length out) < of_nat kBlockHeaderSize"
  proof -
    have "stream_size - of_nat (length out) = of_nat (length block + length rest)" by (simp add: stream_size)
    moreover have "unat (of_nat (length block + length rest) :: u64) = length block + length rest"
      using len(1) by (intro unat_of_nat_u64) simp
    ultimately show ?thesis by (simp add: word_less_nat_alt n parts(1))
  qed
  have fits: "checked_add a b = Some (a + b)" if "unat a + unat b < 2 ^ 64" for a b :: u64
    using that by (auto simp: checked_add_def word_less_nat_alt unat_room)
  have add1: "checked_add (of_nat (length out)) (of_nat kBlockHeaderSize) = Some (of_nat (length out + 160))"
    using fits [of "of_nat (length out)" "of_nat kBlockHeaderSize"] len(1) sizes(3) n parts(1)
    by (simp add: kBlockHeaderSize_def)
  have s1: "unat (of_nat (length out + 160) :: u64) = length out + 160" "length block = 160 + length frame"
    using len(1) parts(1) by (simp_all add: unat_of_nat_u64 del: of_nat_add)
  have add2: "checked_add (of_nat (length out + 160)) ?c = Some (of_nat (length out + length block))"
    using fits [of "of_nat (length out + 160)" ?c] len(1) sizes(1) s1 by (simp add: add.assoc)
  have next_offset: "\<not> of_nat (length out + length block) > stream_size"
    using unat_of_nat_u64 [of "length out + length block"] len(1) size by (simp add: word_less_nat_alt del: of_nat_add)
  have limits: "\<not> (?c > po_max_compressed_payload_bytes options \<or> ?u > po_max_uncompressed_payload_bytes options)"
    using conforms by (simp add: block_conforms_def hw not_less)
  have payload: "validate_payload codec list_reader (written_header spec info) options (of_nat (length out + 160)) (frame @ rest)
      = Some (True, [], rest)"
    using len s1(2) by (intro validate_payload_works [OF z frame(1)]) (simp_all add: hw frame)
  show ?thesis
    unfolding parse_block_def
    using room limits next_offset
    by (simp add: read h issues hw add1 add2 payload made_header_hash [OF blake3 b] Let_def del: of_nat_add)
qed

text \<open>Writing block after block, and reading them back.\<close>

fun write_blocks ::
  "'z block_codec \<Rightarrow> byte list \<Rightarrow> (block_write_spec \<times> byte list) list \<Rightarrow> (written_block_info list \<times> byte list) option" where
  "write_blocks codec out [] = Some ([], out)"
| "write_blocks codec out ((spec, payload) # items) =
     (case write_block codec out spec payload of
        None \<Rightarrow> None
      | Some (info, out') \<Rightarrow> map_option (\<lambda>(infos, end_of). (info # infos, end_of)) (write_blocks codec out' items))"

lemma write_block_appends:
  assumes "write_block codec out spec payload = Some (info, out')"
  obtains block where "out' = out @ block" "length block \<ge> 160"
  using assms by (auto simp: write_block_def Let_def case_prod_unfold split: if_splits option.splits)

lemma write_blocks_appends:
  "write_blocks codec out items = Some (infos, out') \<Longrightarrow> \<exists>rest. out' = out @ rest \<and> (rest = [] \<longrightarrow> items = [])"
proof (induction codec out items arbitrary: infos rule: write_blocks.induct)
  case (2 codec out spec payload items)
  from "2.prems" obtain info out1 infos1 where w: "write_block codec out spec payload = Some (info, out1)"
    and ws: "write_blocks codec out1 items = Some (infos1, out')"
    by (auto split: option.splits prod.splits)
  from write_block_appends [OF w] obtain block where "out1 = out @ block" "length block \<ge> 160" .
  moreover obtain rest where "out' = out1 @ rest" using "2.IH" [OF w refl ws] by blast
  ultimately show ?case by auto
qed simp

lemma parse_written_blocks:
  assumes z: "zstd_streams codec good" and blake3: "\<And>bs. length (bc_blake3 codec bs) = 32"
    and len: "length stream < 2 ^ 64"
  shows "write_blocks codec out items = Some (infos, stream) \<Longrightarrow> stream = out @ rest \<Longrightarrow>
     list_all (\<lambda>(spec, payload). length payload < 2 ^ 60) items \<Longrightarrow>
     list_all2 (\<lambda>(spec, payload) info. block_conforms options (written_header spec info)) items infos \<Longrightarrow>
     parse_blocks codec (of_nat (length stream)) options list_reader (of_nat (length out)) result rest =
       Some (result\<lparr>pr_blocks := pr_blocks result
         @ List.map (\<lambda>((spec, payload), info). written_header spec info) (zip items infos)\<rparr>)"
proof (induction items arbitrary: out infos rest result)
  case Nil
  then show ?case by (subst parse_blocks.simps) simp
next
  case (Cons item items)
  obtain spec payload where item: "item = (spec, payload)" by fastforce
  from Cons.prems(1) obtain info out1 infos1 where w: "write_block codec out spec payload = Some (info, out1)"
    and ws: "write_blocks codec out1 items = Some (infos1, stream)" and infos: "infos = info # infos1"
    by (auto simp: item split: option.splits)
  from write_block_appends [OF w] obtain block where block: "out1 = out @ block" "length block \<ge> 160" .
  from write_blocks_appends [OF ws] obtain rest1 where rest1: "stream = out1 @ rest1" by blast
  then have rest: "rest = block @ rest1" using Cons.prems(2) block by simp
  have total: "length stream = length out + length block + length rest1" using rest1 block by simp
  have go: "(of_nat (length out) :: u64) < of_nat (length stream)"
    using unat_of_nat_u64 [OF len] unat_of_nat_u64 [of "length out"] len total block(2)
    by (auto simp: word_less_nat_alt simp del: of_nat_add)
  have round: "parse_block codec (of_nat (length stream)) options list_reader (of_nat (length out)) result rest =
      Some (round_continues (of_nat (length out1))
        (result\<lparr>pr_blocks := pr_blocks result @ [written_header spec info]\<rparr>) rest1)"
    unfolding rest block(1) length_append
    using Cons.prems(3,4) w len block total
    by (intro parse_written_block [OF z blake3]) (auto simp: item infos simp del: of_nat_add)
  have "parse_blocks codec (of_nat (length stream)) options list_reader (of_nat (length out1))
      (result\<lparr>pr_blocks := pr_blocks result @ [written_header spec info]\<rparr>) rest1 =
    Some (result\<lparr>pr_blocks := (pr_blocks result @ [written_header spec info])
         @ List.map (\<lambda>((spec, payload), info). written_header spec info) (zip items infos1)\<rparr>)"
    using Cons.IH [OF ws rest1, of "result\<lparr>pr_blocks := pr_blocks result @ [written_header spec info]\<rparr>"]
      Cons.prems(3,4) by (simp add: item infos)
  then show ?case
    using go by (subst parse_blocks.simps) (simp add: round item infos)
qed

subsection \<open>Any stream\<close>

text \<open>A round that stops has found an issue; one that goes on has kept those there were.\<close>

lemma with_issues_simps [simp]:
  "pr_issues (with_issues result issues) = pr_issues result @ issues"
  "pr_blocks (with_issues result issues) = pr_blocks result"
  by (simp_all add: with_issues_def)

lemma issue_when_True [simp]: "issue_when True k off \<noteq> []"
  by (simp add: issue_when_def)

lemma oversized_has_issue:
  assumes "bh_compressed_size h > po_max_compressed_payload_bytes options
      \<or> bh_uncompressed_size h > po_max_uncompressed_payload_bytes options"
  shows "validate_header bytes h options \<noteq> []"
proof
  assume "validate_header bytes h options = []"
  then have "block_conforms options h" using no_issues_sound by blast
  then show False using assms by (auto simp: block_conforms_def not_less [symmetric])
qed

lemma stopping_round_has_issue:
  "parse_block codec stream_size options read_exact offset result r = Some (round_stops result') \<Longrightarrow>
     pr_issues result' \<noteq> []"
  unfolding parse_block_def Let_def
  by (auto simp: oversized_has_issue issue_when_def split: if_splits option.splits prod.splits)

lemma continuing_round:
  assumes "parse_block codec stream_size options read_exact offset result r
      = Some (round_continues next_offset result' r')" "pr_issues result' = []"
  obtains bytes r1 payload_start h where
    "read_exact kBlockHeaderSize r = (Some bytes, r1)" "h = parse_header bytes offset" "pr_issues result = []"
    "pr_blocks result' = pr_blocks result @ [h]" "validate_header bytes h options = []"
    "po_verify_hashes options \<longrightarrow> blake3_digest_for_header codec bytes = bh_header_blake3 h"
    "checked_add offset (of_nat kBlockHeaderSize) = Some payload_start"
    "checked_add payload_start (bh_compressed_size h) = Some next_offset" "next_offset \<le> stream_size"
    "validate_payload codec read_exact h options payload_start r1 = Some (True, [], r')"
  using assms unfolding parse_block_def Let_def
  by (auto simp: not_less split: if_splits option.splits prod.splits)

lemma payload_chunks_read:
  "payload_chunks codec list_reader declared remaining hashed inflate r = Some (True, hashed', inflate', r') \<Longrightarrow>
     unat remaining \<le> length r \<and> hashed' = hashed @ take (unat remaining) r \<and> r' = drop (unat remaining) r"
proof (induction "unat remaining" arbitrary: remaining hashed inflate r rule: less_induct)
  case less
  show ?case
  proof (cases "remaining = 0")
    case True
    then show ?thesis using less.prems by (subst (asm) payload_chunks.simps) simp
  next
    case False
    define n where "n = unat (chunk_of remaining)"
    obtain inflate1 where n: "n \<le> length r"
      and rest: "payload_chunks codec list_reader declared (remaining - chunk_of remaining) (hashed @ take n r) inflate1
        (drop n r) = Some (True, hashed', inflate', r')"
      using less.prems False by (subst (asm) payload_chunks.simps)
        (auto simp: list_reader_def n_def split: option.splits if_splits prod.splits)
    have sub: "unat (remaining - chunk_of remaining) = unat remaining - n" and le: "n \<le> unat remaining"
      by (simp_all add: n_def unat_sub chunk_of_def word_le_nat_alt [symmetric])
    from less.hyps [OF chunk_of_less [OF False] rest] n le
    show ?thesis unfolding sub by (auto simp: take_add [symmetric] min_def)
  qed
qed

lemma validate_payload_reads:
  assumes "validate_payload codec list_reader h options offset r = Some (True, [], r')" "po_verify_hashes options"
  shows "unat (bh_compressed_size h) \<le> length r \<and> r' = drop (unat (bh_compressed_size h)) r
     \<and> bc_blake3 codec (take (unat (bh_compressed_size h)) r) = bh_payload_blake3 h"
  using assms unfolding validate_payload_def Let_def
  by (auto split: option.splits prod.splits if_splits dest!: payload_chunks_read)

fun tiled :: "'z block_codec \<Rightarrow> parse_options \<Rightarrow> byte list \<Rightarrow> nat \<Rightarrow> block_header list \<Rightarrow> bool" where
  "tiled codec options stream offset [] \<longleftrightarrow> offset = length stream"
| "tiled codec options stream offset (h # hs) \<longleftrightarrow>
     (let header = take 160 (drop offset stream);
          size = unat (bh_compressed_size h);
          payload = take size (drop (offset + 160) stream)
      in offset + 160 + size \<le> length stream \<and> h = parse_header header (of_nat offset) \<and>
         is_header_magic_valid header \<and> reserved_bytes_are_zero header \<and> block_conforms options h \<and>
         blake3_digest_for_header codec header = bh_header_blake3 h \<and>
         bc_blake3 codec payload = bh_payload_blake3 h \<and>
         tiled codec options stream (offset + 160 + size) hs)"

lemma continuing_round_keeps:
  "parse_block codec stream_size options read_exact offset result r = Some (round_continues next_offset result' r') \<Longrightarrow>
     pr_issues result' = [] \<Longrightarrow> pr_issues result = []"
  by (erule continuing_round)

lemma parse_blocks_keeps:
  "parse_blocks codec stream_size options read_exact offset result r = Some res \<Longrightarrow> pr_issues res = [] \<Longrightarrow>
     pr_issues result = []"
proof (induction "unat (stream_size - offset)" arbitrary: offset result r rule: less_induct)
  case less
  show ?case
  proof (cases "offset < stream_size")
    case True
    from less.prems(1) True obtain round where round:
      "parse_block codec stream_size options read_exact offset result r = Some round"
      by (subst (asm) parse_blocks.simps) (auto split: option.splits)
    show ?thesis
    proof (cases round)
      case (round_stops result')
      then have "res = result'" using less.prems(1) True round by (subst (asm) parse_blocks.simps) simp
      moreover have "pr_issues result' \<noteq> []"
        using round unfolding round_stops by (rule stopping_round_has_issue)
      ultimately show ?thesis using less.prems(2) by simp
    next
      case (round_continues next_offset result' r1)
      have go: "parse_blocks codec stream_size options read_exact next_offset result' r1 = Some res"
        using less.prems(1) True round round_continues by (subst (asm) parse_blocks.simps) simp
      have "offset < next_offset \<and> next_offset \<le> stream_size"
        using round unfolding round_continues by (rule parse_block_advances)
      then have "unat (stream_size - next_offset) < unat (stream_size - offset)"
        by (auto simp: unat_sub word_le_nat_alt word_less_nat_alt)
      then have "pr_issues result' = []" using less.hyps go less.prems(2) by blast
      then show ?thesis by (rule continuing_round_keeps [OF round [unfolded round_continues]])
    qed
  qed (use less.prems in \<open>subst (asm) parse_blocks.simps, simp\<close>)
qed

lemma parse_blocks_tiles:
  assumes len: "length stream < 2 ^ 64" and hashes: "po_verify_hashes options"
    and size: "unat stream_size = length stream"
  shows "parse_blocks codec stream_size options list_reader offset result r = Some res \<Longrightarrow>
     unat offset \<le> length stream \<Longrightarrow> r = drop (unat offset) stream \<Longrightarrow> pr_issues res = [] \<Longrightarrow>
     \<exists>hs. pr_blocks res = pr_blocks result @ hs \<and> tiled codec options stream (unat offset) hs"
proof (induction "length stream - unat offset" arbitrary: offset result r rule: less_induct)
  case less
  show ?case
  proof (cases "offset < stream_size")
    case False
    then have "unat offset = length stream" using less.prems(2) size by (simp add: word_less_nat_alt)
    then show ?thesis using less.prems(1) False by (subst (asm) parse_blocks.simps) simp
  next
    case True
    from less.prems(1) True obtain round where round:
      "parse_block codec stream_size options list_reader offset result r = Some round"
      by (subst (asm) parse_blocks.simps) (auto split: option.splits)
    show ?thesis
    proof (cases round)
      case (round_stops result')
      then have "res = result'" using less.prems(1) True round by (subst (asm) parse_blocks.simps) simp
      moreover have "pr_issues result' \<noteq> []"
        using round unfolding round_stops by (rule stopping_round_has_issue)
      ultimately show ?thesis using less.prems(4) by simp
    next
      case (round_continues next_offset result' r1)
      have go: "parse_blocks codec stream_size options list_reader next_offset result' r1 = Some res"
        using less.prems(1) True round round_continues by (subst (asm) parse_blocks.simps) simp
      have clean: "pr_issues result' = []" using parse_blocks_keeps [OF go less.prems(4)] .
      from continuing_round [OF round [unfolded round_continues] clean]
      obtain bytes r2 payload_start h where
        read: "list_reader kBlockHeaderSize r = (Some bytes, r2)" and h: "h = parse_header bytes offset"
        and facts: "pr_blocks result' = pr_blocks result @ [h]" "validate_header bytes h options = []"
          "po_verify_hashes options \<longrightarrow> blake3_digest_for_header codec bytes = bh_header_blake3 h"
        and adds: "checked_add offset (of_nat kBlockHeaderSize) = Some payload_start"
          "checked_add payload_start (bh_compressed_size h) = Some next_offset" "next_offset \<le> stream_size"
        and payload: "validate_payload codec list_reader h options payload_start r2 = Some (True, [], r1)" .
      have bytes: "bytes = take 160 (drop (unat offset) stream)" "r2 = drop (unat offset + 160) stream"
        using read less.prems(3) by (auto simp: list_reader_def kBlockHeaderSize_def add.commute split: if_splits)
      have n: "unat next_offset = unat offset + 160 + unat (bh_compressed_size h)"
        using unat_checked_add [OF adds(1)] unat_checked_add [OF adds(2)] by (simp add: kBlockHeaderSize_def)
      have le: "unat next_offset \<le> length stream" using adds(3) size by (simp add: word_le_nat_alt)
      have closer: "length stream - unat next_offset < length stream - unat offset" using n le by arith
      have r1: "r1 = drop (unat next_offset) stream"
        using validate_payload_reads [OF payload hashes] bytes(2) n by (simp add: add.commute add.left_commute)
      obtain hs where hs: "pr_blocks res = pr_blocks result' @ hs" "tiled codec options stream (unat next_offset) hs"
        using less.hyps [OF closer go le r1 less.prems(4)] by blast
      have "tiled codec options stream (unat offset) (h # hs)"
        using no_issues_sound [OF facts(2)] facts(3) hashes validate_payload_reads [OF payload hashes] hs(2) h le n
        by (simp add: Let_def bytes)
      then show ?thesis using facts(1) hs(1) by auto
    qed
  qed
qed

subsection \<open>Returning\<close>

text \<open>A decompressor that takes or puts out something in each call.\<close>

definition zstd_progresses :: "'z block_codec \<Rightarrow> bool" where
  "zstd_progresses codec \<longleftrightarrow>
     (\<forall>z input z' consumed produced hint. input \<noteq> [] \<longrightarrow>
        bc_step codec z input kPayloadChunkSize = zstd_made z' consumed produced hint \<longrightarrow>
        0 < consumed \<or> produced \<noteq> 0)"

lemma inflate_chunk_returns:
  assumes "zstd_progresses codec"
  shows "unat (in_size st) \<le> unat declared \<Longrightarrow> \<exists>st'. inflate_chunk codec declared st input = Some st' \<and>
     (in_failed st' \<or> unat (in_size st') \<le> unat declared)"
proof (induction "length input + (unat declared - unat (in_size st))" arbitrary: st input rule: less_induct)
  case less
  show ?case
  proof (cases "input = [] \<or> bc_step codec (in_stream st) input kPayloadChunkSize = zstd_error")
    case True
    then show ?thesis using less.prems by (subst inflate_chunk.simps) auto
  next
    case False
    then obtain z consumed produced hint where
      step: "bc_step codec (in_stream st) input kPayloadChunkSize = zstd_made z consumed produced hint"
      by (cases "bc_step codec (in_stream st) input kPayloadChunkSize") auto
    let ?st = "st\<lparr>in_stream := z, in_size := in_size st + produced, in_complete := (hint = 0)\<rparr>"
    show ?thesis
    proof (cases "produced > - 1 - in_size st \<or> in_size st + produced > declared")
      case True
      then show ?thesis using False step by (subst inflate_chunk.simps) auto
    next
      case no: False
      have sum: "unat (in_size st + produced) = unat (in_size st) + unat produced"
        using no u64_unat_less [of "in_size st"] by (auto simp: not_less word_le_nat_alt unat_room unat_word_ariths)
      have le: "unat (in_size ?st) \<le> unat declared" using no by (simp add: not_less word_le_nat_alt)
      have "0 < consumed \<or> produced \<noteq> 0"
        using assms False step unfolding zstd_progresses_def by blast
      then have progress: "0 < consumed \<or> 0 < unat produced" by (simp add: unat_gt_0)
      have "length (drop consumed input) + (unat declared - unat (in_size ?st))
          < length input + (unat declared - unat (in_size st))"
      proof -
        have i: "unat (in_size ?st) = unat (in_size st) + unat produced" using sum by simp
        have "0 < length input" using False by simp
        then have "length input - consumed + (unat declared - (unat (in_size st) + unat produced))
            < length input + (unat declared - unat (in_size st))"
          using progress le less.prems unfolding i by arith
        then show ?thesis unfolding i length_drop .
      qed
      from less.hyps [OF this le] show ?thesis using False step no by (subst inflate_chunk.simps) simp
    qed
  qed
qed

lemma payload_chunks_returns:
  assumes "zstd_progresses codec"
  shows "(case inflate of None \<Rightarrow> True | Some st \<Rightarrow> in_failed st \<or> unat (in_size st) \<le> unat declared) \<Longrightarrow>
     payload_chunks codec read_exact declared remaining hashed inflate r \<noteq> None"
proof (induction "unat remaining" arbitrary: remaining hashed inflate r rule: less_induct)
  case less
  show ?case
  proof (cases "remaining = 0 \<or> fst (read_exact (unat (chunk_of remaining)) r) = None")
    case True
    then show ?thesis
      by (subst payload_chunks.simps) (cases "read_exact (unat (chunk_of remaining)) r"; auto)
  next
    case False
    then obtain bytes r' where read: "read_exact (unat (chunk_of remaining)) r = (Some bytes, r')"
      by (cases "read_exact (unat (chunk_of remaining)) r") auto
    have "\<exists>inflate'. inflate_input codec declared inflate bytes = Some inflate' \<and>
        (case inflate' of None \<Rightarrow> True | Some st \<Rightarrow> in_failed st \<or> unat (in_size st) \<le> unat declared)"
    proof (cases inflate)
      case (Some st)
      then show ?thesis
        using inflate_chunk_returns [OF assms, of st declared bytes] less.prems
        by (cases "in_failed st") (auto simp: inflate_input_def)
    qed (simp add: inflate_input_def)
    then obtain inflate' where i: "inflate_input codec declared inflate bytes = Some inflate'"
      "case inflate' of None \<Rightarrow> True | Some st \<Rightarrow> in_failed st \<or> unat (in_size st) \<le> unat declared" by blast
    have "payload_chunks codec read_exact declared (remaining - chunk_of remaining) (hashed @ bytes) inflate' r' \<noteq> None"
      using less.hyps [OF chunk_of_less i(2)] False by blast
    then show ?thesis using False read i(1) by (subst payload_chunks.simps) simp
  qed
qed

lemma parse_block_returns:
  assumes "zstd_progresses codec"
  shows "parse_block codec stream_size options read_exact offset result r \<noteq> None"
proof -
  have returns: "validate_payload codec read_exact h options payload_offset r' \<noteq> None" for h payload_offset r'
  proof -
    let ?inflate = "if po_verify_zstd_decompression options
        then map_option (\<lambda>z. \<lparr>in_stream = z, in_failed = False, in_complete = False, in_size = 0\<rparr>) (bc_stream codec)
        else None"
    have "payload_chunks codec read_exact (bh_uncompressed_size h) (bh_compressed_size h) [] ?inflate r' \<noteq> None"
      by (rule payload_chunks_returns [OF assms]) (auto split: option.splits)
    then obtain all_read hashed inflate' r'' where
      "payload_chunks codec read_exact (bh_uncompressed_size h) (bh_compressed_size h) [] ?inflate r' =
         Some (all_read, hashed, inflate', r'')" by auto
    then show ?thesis unfolding validate_payload_def Let_def by (cases all_read) (simp_all split del: if_split)
  qed
  show ?thesis unfolding parse_block_def Let_def
    by (auto split: option.splits prod.splits elim!: notE [OF returns])
qed

lemma parse_blocks_returns:
  assumes "zstd_progresses codec"
  shows "parse_blocks codec stream_size options read_exact offset result r \<noteq> None"
proof (induction "unat (stream_size - offset)" arbitrary: offset result r rule: less_induct)
  case less
  obtain round where round: "parse_block codec stream_size options read_exact offset result r = Some round"
    using parse_block_returns [OF assms, of stream_size options read_exact offset result r] by auto
  show ?case
  proof (cases round)
    case (round_stops result')
    then show ?thesis using round by (subst parse_blocks.simps) simp
  next
    case (round_continues next_offset result' r1)
    have "offset < next_offset \<and> next_offset \<le> stream_size"
      using round unfolding round_continues by (rule parse_block_advances)
    then have "unat (stream_size - next_offset) < unat (stream_size - offset)"
      by (auto simp: unat_sub word_le_nat_alt word_less_nat_alt)
    from less.hyps [OF this] show ?thesis using round round_continues by (subst parse_blocks.simps) simp
  qed
qed

subsection \<open>Whole streams\<close>

lemma written_stream_parses:
  assumes z: "zstd_streams codec good" and blake3: "\<And>bs. length (bc_blake3 codec bs) = 32"
    and written: "write_blocks codec [] items = Some (infos, stream)"
    and len: "length stream < 2 ^ 64" "list_all (\<lambda>(spec, payload). length payload < 2 ^ 60) items" "items \<noteq> []"
    and conforms: "list_all2 (\<lambda>(spec, payload) info. block_conforms options (written_header spec info)) items infos"
  shows "parse_block_stream codec (of_nat (length stream)) options list_reader stream =
     Some \<lparr>pr_blocks = List.map (\<lambda>((spec, payload), info). written_header spec info) (zip items infos), pr_issues = []\<rparr>"
proof -
  obtain rest where "stream = [] @ rest" "rest = [] \<longrightarrow> items = []" using write_blocks_appends [OF written] by blast
  then have "length stream \<noteq> 0" using len(3) by auto
  then have "(of_nat (length stream) :: u64) \<noteq> 0"
    using unat_of_nat_u64 [OF len(1)] by (metis unat_0)
  then show ?thesis
    using parse_written_blocks [OF z blake3 len(1) written _ len(2) conforms, of stream "\<lparr>pr_blocks = [], pr_issues = []\<rparr>"]
    by (simp add: parse_block_stream_def Let_def)
qed

end
