(* ===== verification/BlockProps.thy ===== *)
theory BlockProps
  imports BlockRuns
begin

text \<open>
  What the block stream promises: written blocks are read back without an issue, a stream read
  without an issue is an exact tiling by well-formed blocks, and parsing ends. The hypotheses on
  Zstandard are met by a small codec that stores each byte behind a marker.
\<close>

subsection \<open>A sample codec and stream\<close>

fun store :: "byte list \<Rightarrow> byte list" where
  "store [] = [0]"
| "store (b # bs) = 1 # b # store bs"

fun unstore :: "byte list \<Rightarrow> byte list option" where
  "unstore (m # rest) =
     (if m = 0 then (if rest = [] then Some [] else None)
      else case rest of b # bs \<Rightarrow> map_option ((#) b) (unstore bs) | [] \<Rightarrow> None)"
| "unstore [] = None"

datatype store_state = at_marker | at_byte | at_end

fun store_step :: "store_state \<Rightarrow> byte list \<Rightarrow> nat \<Rightarrow> store_state zstd_call" where
  "store_step at_marker (m # rest) capacity = (if m = 0 then zstd_made at_end 1 0 0 else zstd_made at_byte 1 0 1)"
| "store_step at_byte (b # rest) capacity = zstd_made at_marker 1 1 1"
| "store_step z input capacity = zstd_error"

definition store_codec :: "store_state block_codec" where
  "store_codec = \<lparr>bc_blake3 = (\<lambda>bs. replicate 31 0 @ [of_nat (length bs)]), bc_compress = (\<lambda>bs. Some (store bs)),
     bc_decompress = (\<lambda>bs n. unstore bs), bc_stream = Some at_marker, bc_step = store_step\<rparr>"

fun store_good :: "store_state \<Rightarrow> byte list \<Rightarrow> nat \<Rightarrow> bool" where
  "store_good at_marker input left \<longleftrightarrow> (\<exists>p. input = store p \<and> left = length p)"
| "store_good at_byte input left \<longleftrightarrow> (\<exists>b p. input = b # store p \<and> left = Suc (length p))"
| "store_good at_end input left \<longleftrightarrow> input = [] \<and> left = 0"

lemma store_not_Nil [simp]: "store p \<noteq> []"
  by (cases p) auto

lemma store_Cons: "store p = m # rest \<longleftrightarrow> (p = [] \<and> m = 0 \<and> rest = []) \<or> (\<exists>b p'. p = b # p' \<and> m = 1 \<and> rest = b # store p')"
  by (cases p) auto

lemma store_streams: "zstd_streams store_codec store_good"
  unfolding zstd_streams_def
proof (intro conjI allI impI)
  fix z input rest left
  assume g: "store_good z (input @ rest) left" and "input \<noteq> []"
  then obtain b input' where input: "input = b # input'" by (cases input) auto
  show "\<exists>z' consumed produced hint.
       bc_step store_codec z input kPayloadChunkSize = zstd_made z' consumed (of_nat produced) hint \<and>
       consumed \<le> length input \<and> produced \<le> left \<and> 0 < consumed + produced \<and>
       store_good z' (drop consumed input @ rest) (left - produced) \<and> (hint = 0) = (drop consumed input @ rest = [])"
  proof (cases z)
    case at_marker
    then obtain p where p: "store p = b # input' @ rest" "left = length p" using g input by auto
    show ?thesis
    proof (cases p)
      case Nil
      then show ?thesis using p at_marker input
        by (intro exI [of _ at_end] exI [of _ 1] exI [of _ 0]) (simp add: store_codec_def)
    next
      case (Cons c p')
      then have "b = 1" "input' @ rest = c # store p'" using p by auto
      then show ?thesis using p Cons at_marker input
        by (intro exI [of _ at_byte] exI [of _ 1] exI [of _ 0]) (auto simp: store_codec_def)
    qed
  next
    case at_byte
    then obtain p where "input' @ rest = store p" "left = Suc (length p)" using g input by auto
    then show ?thesis using at_byte input
      by (intro exI [of _ at_marker] exI [of _ 1]) (auto simp: store_codec_def intro!: exI [of _ 1])
  next
    case at_end
    then show ?thesis using g input by simp
  qed
next
  fix z left
  show "store_good z [] left \<Longrightarrow> left = 0" by (cases z) (auto simp: eq_commute [of "[]"])
qed (auto simp: store_codec_def)

lemma store_progresses: "zstd_progresses store_codec"
  unfolding zstd_progresses_def
proof (intro allI impI)
  fix z input z' consumed produced hint
  show "input \<noteq> [] \<Longrightarrow> bc_step store_codec z input kPayloadChunkSize = zstd_made z' consumed produced hint \<Longrightarrow>
      0 < consumed \<or> produced \<noteq> 0"
    by (cases z; cases input) (auto simp: store_codec_def split: if_splits)
qed

lemma store_blake3: "length (bc_blake3 store_codec bs) = 32"
  by (simp add: store_codec_def)

definition vector_spec :: block_write_spec where
  "vector_spec = \<lparr>bw_block_type = block_embedding, bw_extent_0 = 1, bw_extent_1 = 1, bw_extent_2 = 1,
     bw_dtype = dt_float32, bw_start_frame = kNonFrameStart, bw_frame_count = 0, bw_start_us = - 1, bw_end_us = - 1\<rparr>"

definition sample_items :: "(block_write_spec \<times> byte list) list" where
  "sample_items = [(vector_spec, [1, 2, 3, 4]), (vector_spec, [5, 6, 7, 8])]"

definition sample_written :: "written_block_info list \<times> byte list" where
  "sample_written = the (write_blocks store_codec [] sample_items)"

lemma sample_written: "write_blocks store_codec [] sample_items = Some (fst sample_written, snd sample_written)"
proof -
  have "write_blocks store_codec [] sample_items \<noteq> None"
    by (simp add: sample_items_def write_block_def store_codec_def Let_def case_prod_unfold)
  then show ?thesis by (auto simp: sample_written_def)
qed

lemma sample_length: "length (snd sample_written) = 338"
  by (simp add: sample_written_def sample_items_def write_block_def store_codec_def Let_def case_prod_unfold)

lemma sample_conforms:
  "list_all2 (\<lambda>(spec, payload) info. block_conforms default_parse_options (written_header spec info))
     sample_items (fst sample_written)"
  by (simp add: sample_written_def sample_items_def write_block_def store_codec_def Let_def case_prod_unfold
      make_block_info_def written_header_def header_of_def block_conforms_def default_parse_options_def vector_spec_def
      kMaxBlockPayloadBytes_def is_time_range_valid_def dimensions_conform_def payload_size_matches_def
      image_iff) (metis block_type_code.simps(3))

lemma sample_parses:
  "parse_block_stream store_codec (of_nat (length (snd sample_written))) default_parse_options list_reader
     (snd sample_written) =
   Some \<lparr>pr_blocks = List.map (\<lambda>((spec, payload), info). written_header spec info) (zip sample_items (fst sample_written)),
         pr_issues = []\<rparr>"
  by (rule written_stream_parses [OF store_streams store_blake3 sample_written _ _ _ sample_conforms])
    (simp_all add: sample_length, simp_all add: sample_items_def)

subsection \<open>Properties\<close>

text \<open>C27: Blocks that were written one after another, and whose headers keep to the format, are parsed
  back as exactly those headers, in order and without an issue: header fields, both hashes, the
  offsets and the decompressed sizes all agree, whatever checks the options ask for.\<close>

theorem written_blocks_read_back:
  assumes "zstd_streams codec good" and "\<And>bs. length (bc_blake3 codec bs) = 32"
    and "write_blocks codec [] items = Some (infos, stream)"
    and "length stream < 2 ^ 64" "list_all (\<lambda>(spec, payload). length payload < 2 ^ 60) items" "items \<noteq> []"
    and "list_all2 (\<lambda>(spec, payload) info. block_conforms options (written_header spec info)) items infos"
  shows "parse_block_stream codec (of_nat (length stream)) options list_reader stream =
     Some \<lparr>pr_blocks = List.map (\<lambda>((spec, payload), info). written_header spec info) (zip items infos), pr_issues = []\<rparr>"
  by (rule written_stream_parses [OF assms])

theorem written_blocks_read_back_witness:
  "parse_block_stream store_codec 338 default_parse_options list_reader (snd sample_written) =
   Some \<lparr>pr_blocks = List.map (\<lambda>((spec, payload), info). written_header spec info) (zip sample_items (fst sample_written)),
         pr_issues = []\<rparr>"
  using written_blocks_read_back [OF store_streams store_blake3 sample_written _ _ _ sample_conforms]
  by (simp add: sample_length) (simp add: sample_items_def)

text \<open>C28: A stream that is parsed without an issue, with hashes verified, is tiled by its blocks from the
  first byte to the last: each header lies where the one before ended, keeps to the format (version,
  type, sizes that match its dimensions in plain arithmetic, time range, limits), and its own hash and
  that of its payload are those of the bytes there.\<close>

theorem accepted_streams_are_tiled:
  assumes "length stream < 2 ^ 64" "po_verify_hashes options"
    and "parse_block_stream codec (of_nat (length stream)) options list_reader stream = Some res"
    and "pr_issues res = []"
  shows "tiled codec options stream 0 (pr_blocks res)"
proof (cases "(of_nat (length stream) :: u64) = 0")
  case True
  then have "length stream = 0" using unat_of_nat_u64 [OF assms(1)] by (metis unat_0)
  then show ?thesis using assms(3) True by (auto simp: parse_block_stream_def Let_def with_issues_def)
next
  case False
  then have "parse_blocks codec (of_nat (length stream)) options list_reader 0 \<lparr>pr_blocks = [], pr_issues = []\<rparr> stream = Some res"
    using assms(3) by (simp add: parse_block_stream_def Let_def)
  from parse_blocks_tiles [OF assms(1,2) unat_of_nat_u64 [OF assms(1)] this _ _ assms(4)]
  show ?thesis by simp
qed

theorem accepted_streams_are_tiled_witness:
  "tiled store_codec default_parse_options (snd sample_written) 0
     (List.map (\<lambda>((spec, payload), info). written_header spec info) (zip sample_items (fst sample_written)))"
  using accepted_streams_are_tiled [OF _ _ sample_parses]
  by (simp add: sample_length default_parse_options_def)

text \<open>C29: Parsing ends with a result on every input, whatever the reader does, as long as each call of the
  decompressor takes or puts out at least a byte or fails.\<close>

theorem parsing_ends:
  assumes "zstd_progresses codec"
  shows "\<exists>res. parse_block_stream codec stream_size options read_exact r = Some res"
  using parse_blocks_returns [OF assms] by (auto simp: parse_block_stream_def Let_def)

theorem parsing_ends_witness:
  "\<exists>res. parse_block_stream store_codec 338 default_parse_options list_reader [83, 86, 80, 66] = Some res"
  by (rule parsing_ends [OF store_progresses])

end
