(* ===== verification/Transcript.thy ===== *)
theory Transcript
  imports Json "HOL-Library.Signed_Division"
begin

text \<open>
  The transcript of a long recording from overlapping chunks (packages/svp-audio): the plan of the
  chunks (asr\_chunk\_planner.cpp), the decoder's context and the words kept of a chunk
  (asr\_chunk\_context.cpp), and the reconciliation of the chunks' words
  (asr\_chunk\_reconciliation.cpp). Times are integers of microseconds (recordings are far shorter
  than the range of the code's 64-bit times); the confidence of a word is an opaque value.
\<close>

subsection \<open>Chunks\<close>

record asr_chunk_plan =
  ac_chunk_id :: string
  ac_source_start_us :: int
  ac_source_end_us :: int
  ac_overlap_before_us :: int
  ac_overlap_after_us :: int
  ac_input_ref :: string
  ac_output_ref :: string
  ac_model_id :: string
  ac_runtime :: string
  ac_asr_status :: string

record asr_chunk_plan_result =
  ap_chunks :: "asr_chunk_plan list"
  ap_chunk_duration_us :: int
  ap_overlap_us :: int
  ap_total_duration_us :: int
  ap_blockers :: "string list"

definition kDefaultAsrChunkDurationUs :: int where
  "kDefaultAsrChunkDurationUs = 15000000"

definition kDefaultAsrChunkOverlapUs :: int where
  "kDefaultAsrChunkOverlapUs = 2000000"

text \<open>\<open>std::setw(6)\<close> with \<open>std::setfill('0')\<close>.\<close>

definition zero_padded :: "nat \<Rightarrow> string" where
  "zero_padded n = replicate (6 - length (to_string n)) CHR ''0'' @ to_string n"

definition chunk_id_for_ordinal :: "nat \<Rightarrow> string" where
  "chunk_id_for_ordinal ordinal = ''asr_chunk_'' @ zero_padded ordinal"

definition chunk_output_ref :: "nat \<Rightarrow> string" where
  "chunk_output_ref ordinal = ''transcript/words.chunk_'' @ zero_padded ordinal @ ''.jsonl''"

record asr_plan_request =
  ar_total_duration_us :: int
  ar_chunk_duration_us :: int
  ar_overlap_us :: int
  ar_input_ref :: string
  ar_model_id :: string
  ar_runtime :: string

definition asr_step :: "asr_plan_request \<Rightarrow> int" where
  "asr_step q = ar_chunk_duration_us q - ar_overlap_us q"

definition asr_chunk_at :: "asr_plan_request \<Rightarrow> int \<Rightarrow> nat \<Rightarrow> asr_chunk_plan" where
  "asr_chunk_at q cursor ordinal =
     \<lparr>ac_chunk_id = chunk_id_for_ordinal ordinal,
      ac_source_start_us = cursor,
      ac_source_end_us = min (cursor + ar_chunk_duration_us q) (ar_total_duration_us q),
      ac_overlap_before_us = (if ordinal = 0 then 0 else min (ar_overlap_us q) cursor),
      ac_overlap_after_us =
        (if cursor + asr_step q < ar_total_duration_us q
         then min (ar_overlap_us q) (ar_total_duration_us q - (cursor + asr_step q)) else 0),
      ac_input_ref = ar_input_ref q, ac_output_ref = chunk_output_ref ordinal,
      ac_model_id = ar_model_id q, ac_runtime = ar_runtime q, ac_asr_status = ''planned''\<rparr>"

text \<open>The loop of the planner, which has checked that the step is positive.\<close>

function asr_chunks_from :: "asr_plan_request \<Rightarrow> int \<Rightarrow> nat \<Rightarrow> asr_chunk_plan list" where
  "asr_chunks_from q cursor ordinal =
     (if cursor < ar_total_duration_us q \<and> 0 < asr_step q
      then asr_chunk_at q cursor ordinal # asr_chunks_from q (cursor + asr_step q) (Suc ordinal) else [])"
  by pat_completeness auto
termination
  by (relation "measure (\<lambda>(q, cursor, ordinal). nat (ar_total_duration_us q - cursor))") auto

declare asr_chunks_from.simps [simp del]

text \<open>\<open>None\<close>: an \<open>invalid_argument\<close> is thrown.\<close>

definition build_asr_chunk_plan :: "asr_plan_request \<Rightarrow> asr_chunk_plan_result option" where
  "build_asr_chunk_plan q =
     (if ar_total_duration_us q < 0 then None
      else if ar_chunk_duration_us q \<le> 0 then None
      else if ar_overlap_us q < 0 then None
      else if ar_overlap_us q \<ge> ar_chunk_duration_us q then None
      else let empty = \<lparr>ap_chunks = [], ap_chunk_duration_us = ar_chunk_duration_us q,
                        ap_overlap_us = ar_overlap_us q, ap_total_duration_us = ar_total_duration_us q,
                        ap_blockers = []\<rparr>
           in if ar_total_duration_us q = 0 then Some empty
              else if asr_step q \<le> 0 then None
              else Some (empty\<lparr>ap_chunks := asr_chunks_from q 0 0\<rparr>))"

definition asr_chunk_to_json :: "asr_chunk_plan \<Rightarrow> json" where
  "asr_chunk_to_json chunk = json_object
     [(''chunk_id'', JString (ac_chunk_id chunk)),
      (''source_start_us'', JInteger (ac_source_start_us chunk)),
      (''source_end_us'', JInteger (ac_source_end_us chunk)),
      (''overlap_before_us'', JInteger (ac_overlap_before_us chunk)),
      (''overlap_after_us'', JInteger (ac_overlap_after_us chunk)),
      (''decoder_context_before_us'', JInteger (ac_overlap_before_us chunk)),
      (''input_ref'', JString (ac_input_ref chunk)),
      (''output_ref'', JString (ac_output_ref chunk)),
      (''model_id'', JString (ac_model_id chunk)),
      (''runtime'', JString (ac_runtime chunk)),
      (''asr_status'', JString (ac_asr_status chunk))]"

definition asr_chunk_plan_to_json :: "asr_chunk_plan_result \<Rightarrow> json" where
  "asr_chunk_plan_to_json plan = json_object
     [(''chunks'', JArray (List.map asr_chunk_to_json (ap_chunks plan))),
      (''chunk_count'', JUnsigned (of_nat (length (ap_chunks plan)))),
      (''chunk_duration_us'', JInteger (ap_chunk_duration_us plan)),
      (''overlap_us'', JInteger (ap_overlap_us plan)),
      (''total_duration_us'', JInteger (ap_total_duration_us plan)),
      (''blockers'', JArray (List.map JString (ap_blockers plan)))]"

subsection \<open>Words\<close>

record 'c asr_word =
  aw_text :: string
  aw_start_us :: int
  aw_end_us :: int
  aw_confidence :: 'c
  aw_chunk_ordinal :: int
  aw_timing_source :: string

record asr_chunk_context_plan =
  cx_slice_start_us :: int
  cx_slice_end_us :: int
  cx_nominal_start_offset_us :: int

definition plan_asr_chunk_context :: "asr_chunk_plan \<Rightarrow> asr_chunk_context_plan" where
  "plan_asr_chunk_context chunk =
     (let context_before_us = min (ac_overlap_before_us chunk) (ac_source_start_us chunk)
      in \<lparr>cx_slice_start_us = ac_source_start_us chunk - context_before_us,
          cx_slice_end_us = ac_source_end_us chunk,
          cx_nominal_start_offset_us = context_before_us\<rparr>)"

definition retain_nominal_chunk_words ::
  "'c asr_word list \<Rightarrow> asr_chunk_context_plan \<Rightarrow> asr_chunk_plan \<Rightarrow> int \<Rightarrow> 'c asr_word list" where
  "retain_nominal_chunk_words decoded_words context chunk chunk_ordinal =
     (let nominal_duration_us = ac_source_end_us chunk - ac_source_start_us chunk;
          offset = cx_nominal_start_offset_us context;
          nominal_end_us = offset + nominal_duration_us
      in List.concat (List.map (\<lambda>word.
           let center_us = aw_start_us word + (aw_end_us word - aw_start_us word) sdiv 2
           in if center_us < offset \<or> center_us \<ge> nominal_end_us then []
              else let adjusted = word\<lparr>aw_start_us := max 0 (aw_start_us word - offset),
                         aw_end_us := min nominal_duration_us (aw_end_us word - offset),
                         aw_chunk_ordinal := chunk_ordinal\<rparr>
                   in if aw_end_us adjusted > aw_start_us adjusted then [adjusted] else [])
         decoded_words))"

subsection \<open>Reconciliation\<close>

definition kMinimumAlignedOverlapTokens :: nat where
  "kMinimumAlignedOverlapTokens = 4"

definition std_isalnum :: "char \<Rightarrow> bool" where
  "std_isalnum c \<longleftrightarrow> (let n = of_char c :: nat in (48 \<le> n \<and> n \<le> 57) \<or> (65 \<le> n \<and> n \<le> 90) \<or> (97 \<le> n \<and> n \<le> 122))"

definition std_tolower :: "char \<Rightarrow> char" where
  "std_tolower c = (let n = of_char c :: nat in if 65 \<le> n \<and> n \<le> 90 then char_of (n + 32) else c)"

definition normalized_token :: "string \<Rightarrow> string" where
  "normalized_token text = List.map std_tolower (filter std_isalnum text)"

record contiguous_match =
  cm_prior_start :: nat
  cm_current_start :: nat
  cm_length :: nat

definition no_match :: contiguous_match where
  "no_match = \<lparr>cm_prior_start = 0, cm_current_start = 0, cm_length = 0\<rparr>"

definition better_match :: "contiguous_match \<Rightarrow> contiguous_match \<Rightarrow> contiguous_match" where
  "better_match candidate best =
     (if cm_length candidate > cm_length best \<or>
         (cm_length candidate = cm_length best
          \<and> cm_current_start candidate + cm_length candidate > cm_current_start best + cm_length best)
      then candidate else best)"

text \<open>
  The inner loop, from column j on: the tokens left of the current chunk, and the previous row from
  column j - 1 on. It gives the row from column j on and the best match so far.
\<close>

fun match_row ::
  "string \<Rightarrow> nat \<Rightarrow> nat \<Rightarrow> string list \<Rightarrow> nat list \<Rightarrow> contiguous_match \<Rightarrow> nat list \<times> contiguous_match" where
  "match_row prior_token i j (token # tokens) (p # previous) best =
     (if prior_token \<noteq> token
      then let (row, best') = match_row prior_token i (Suc j) tokens previous best in (0 # row, best')
      else let r = p + 1;
               best1 = better_match \<lparr>cm_prior_start = i - r, cm_current_start = j - r, cm_length = r\<rparr> best;
               (row, best') = match_row prior_token i (Suc j) tokens previous best1
           in (r # row, best'))"
| "match_row prior_token i j tokens previous best = ([], best)"

fun match_rows :: "nat \<Rightarrow> string list \<Rightarrow> string list \<Rightarrow> nat list \<Rightarrow> contiguous_match \<Rightarrow> contiguous_match" where
  "match_rows i [] current previous best = best"
| "match_rows i (prior_token # prior) current previous best =
     (if prior_token = [] then match_rows (Suc i) prior current (replicate (length current + 1) 0) best
      else let (row, best') = match_row prior_token i 1 current previous best
           in match_rows (Suc i) prior current (0 # row) best')"

definition longest_contiguous_match :: "'c asr_word list \<Rightarrow> 'c asr_word list \<Rightarrow> contiguous_match" where
  "longest_contiguous_match prior current =
     match_rows 1 (List.map (normalized_token \<circ> aw_text) prior) (List.map (normalized_token \<circ> aw_text) current)
       (replicate (length current + 1) 0) no_match"

definition globally_timed_words :: "'c asr_word list \<Rightarrow> asr_chunk_plan \<Rightarrow> 'c asr_word list" where
  "globally_timed_words words chunk =
     List.map (\<lambda>word. word\<lparr>aw_start_us := aw_start_us word + ac_source_start_us chunk,
                          aw_end_us := aw_end_us word + ac_source_start_us chunk\<rparr>)
       (filter (\<lambda>word. \<not> aw_end_us word \<le> aw_start_us word) words)"

definition pop_from_seam :: "int \<Rightarrow> 'c asr_word list \<Rightarrow> 'c asr_word list" where
  "pop_from_seam seam words = rev (dropWhile (\<lambda>word. aw_start_us word \<ge> seam) (rev words))"

definition trim_at_seam :: "int \<Rightarrow> 'c asr_word list \<Rightarrow> 'c asr_word list" where
  "trim_at_seam seam words =
     (if words \<noteq> [] \<and> aw_end_us (last words) > seam
      then butlast words @ [(last words)\<lparr>aw_end_us := seam\<rparr>] else words)"

text \<open>The seam: from which word on the current chunk is appended, and how many words so far are kept.\<close>

definition seam_of ::
  "nat \<Rightarrow> asr_chunk_plan \<Rightarrow> 'c asr_word list \<Rightarrow> 'c asr_word list \<Rightarrow> nat \<times> nat" where
  "seam_of chunk_index chunk current words =
     (let adjacent = chunk_index > 0 \<and> aw_chunk_ordinal (last words) = int chunk_index - 1;
          prior_begin = (if adjacent
             then length words - length (takeWhile (\<lambda>w. aw_chunk_ordinal w = int chunk_index - 1) (rev words))
             else length words);
          overlap_end_us = ac_source_start_us chunk + ac_overlap_before_us chunk;
          found = (if adjacent
             then longest_contiguous_match (drop prior_begin words)
                    (filter (\<lambda>w. aw_start_us w < overlap_end_us) current)
             else no_match)
      in if cm_length found \<ge> kMinimumAlignedOverlapTokens
         then let append_from = cm_current_start found + cm_length found;
                  prior_anchor_begin = prior_begin + cm_prior_start found;
                  prior_anchor_end = prior_anchor_begin + cm_length found
              in (append_from,
                  if aw_end_us (words ! (prior_anchor_end - 1)) > aw_start_us (current ! cm_current_start found)
                     \<and> aw_end_us (current ! (append_from - 1)) > aw_start_us (words ! prior_anchor_begin)
                  then prior_anchor_end else length words)
         else (length (takeWhile (\<lambda>w. aw_start_us w < aw_end_us (last words)) current), length words))"

definition reconcile_chunk ::
  "nat \<Rightarrow> asr_chunk_plan \<Rightarrow> 'c asr_word list \<Rightarrow> 'c asr_word list \<Rightarrow> 'c asr_word list" where
  "reconcile_chunk chunk_index chunk chunk_words result =
     (let current = globally_timed_words chunk_words chunk
      in if current = [] then result
         else if result = [] then current
         else let (append_from, kept_prior_end) = seam_of chunk_index chunk current result
              in if append_from \<ge> length current then result
                 else let seam_start = aw_start_us (current ! append_from)
                      in trim_at_seam seam_start (pop_from_seam seam_start (take kept_prior_end result))
                           @ drop append_from current)"

fun reconcile_from ::
  "nat \<Rightarrow> 'c asr_word list list \<Rightarrow> asr_chunk_plan list \<Rightarrow> 'c asr_word list \<Rightarrow> 'c asr_word list" where
  "reconcile_from chunk_index (words # chunk_words) (chunk # chunks) result =
     reconcile_from (Suc chunk_index) chunk_words chunks (reconcile_chunk chunk_index chunk words result)"
| "reconcile_from chunk_index chunk_words chunks result = result"

definition reconcile_overlapping_chunks ::
  "'c asr_word list list \<Rightarrow> asr_chunk_plan list \<Rightarrow> 'c asr_word list option" where
  "reconcile_overlapping_chunks chunk_words chunks =
     (if length chunk_words \<noteq> length chunks then None else Some (reconcile_from 0 chunk_words chunks []))"

end
