(* ===== verification/TranscriptFacts.thy ===== *)
theory TranscriptFacts
  imports Transcript
begin

text \<open>
  What the anchor search and the seam do. A common run is a stretch of equal, nonempty normalized
  tokens of both chunks; the dynamic program finds the longest, ending last in the current chunk
  and first in the prior one. A list of words is in order when every word has a positive length
  and ends before the next begins.
\<close>

subsection \<open>Common runs\<close>

definition common_run :: "string list \<Rightarrow> string list \<Rightarrow> nat \<Rightarrow> nat \<Rightarrow> nat \<Rightarrow> bool" where
  "common_run xs ys a b k \<longleftrightarrow> a + k \<le> length xs \<and> b + k \<le> length ys
     \<and> (\<forall>d<k. xs ! (a + d) = ys ! (b + d) \<and> ys ! (b + d) \<noteq> [])"

text \<open>The length of the longest common run that ends before prior i and current j.\<close>

fun run_ending :: "string list \<Rightarrow> string list \<Rightarrow> nat \<Rightarrow> nat \<Rightarrow> nat" where
  "run_ending xs ys (Suc i) (Suc j) =
     (if xs ! i \<noteq> [] \<and> xs ! i = ys ! j then Suc (run_ending xs ys i j) else 0)"
| "run_ending xs ys i j = 0"

lemma run_ending_zero [simp]: "run_ending xs ys 0 j = 0" "run_ending xs ys i 0 = 0"
  by (cases j; simp) (cases i; simp)

lemma run_ending_le: "run_ending xs ys i j \<le> i \<and> run_ending xs ys i j \<le> j"
  by (induction xs ys i j rule: run_ending.induct) auto

lemma run_ending_is_run:
  "i \<le> length xs \<Longrightarrow> j \<le> length ys \<Longrightarrow>
   common_run xs ys (i - run_ending xs ys i j) (j - run_ending xs ys i j) (run_ending xs ys i j)"
proof (induction xs ys i j rule: run_ending.induct)
  case (1 xs ys i j)
  let ?r = "run_ending xs ys i j"
  have le: "?r \<le> i" "?r \<le> j" using run_ending_le by auto
  show ?case
  proof (cases "xs ! i \<noteq> [] \<and> xs ! i = ys ! j")
    case True
    have ih: "common_run xs ys (i - ?r) (j - ?r) ?r"
      using 1(1)[OF True] 1(2,3) by simp
    have "xs ! (i - ?r + d) = ys ! (j - ?r + d) \<and> ys ! (j - ?r + d) \<noteq> []" if "d < Suc ?r" for d
      using ih that True le by (cases "d = ?r") (auto simp: common_run_def)
    then show ?thesis using True le 1 by (simp add: common_run_def)
  qed (use 1 in \<open>auto simp: common_run_def\<close>)
qed (auto simp: common_run_def)

lemma common_run_ending: "common_run xs ys a b k \<Longrightarrow> k \<le> run_ending xs ys (a + k) (b + k)"
proof (induction k)
  case (Suc k)
  have "common_run xs ys a b k" using Suc.prems by (auto simp: common_run_def)
  moreover have "ys ! (b + k) \<noteq> [] \<and> xs ! (a + k) = ys ! (b + k)"
    using Suc.prems by (simp add: common_run_def)
  ultimately show ?case using Suc.IH by simp
qed simp

subsection \<open>The anchor search\<close>

definition run_beaten :: "contiguous_match \<Rightarrow> nat \<Rightarrow> nat \<Rightarrow> nat \<Rightarrow> bool" where
  "run_beaten m r i j \<longleftrightarrow> r < cm_length m
     \<or> r = cm_length m \<and> j < cm_current_start m + cm_length m
     \<or> r = cm_length m \<and> j = cm_current_start m + cm_length m \<and> cm_prior_start m + cm_length m \<le> i"

definition best_of :: "string list \<Rightarrow> string list \<Rightarrow> (nat \<times> nat) set \<Rightarrow> nat \<Rightarrow> contiguous_match \<Rightarrow> bool" where
  "best_of xs ys S i m \<longleftrightarrow>
     common_run xs ys (cm_prior_start m) (cm_current_start m) (cm_length m)
     \<and> cm_prior_start m + cm_length m \<le> i
     \<and> (\<forall>(i', j') \<in> S. 0 < run_ending xs ys i' j' \<longrightarrow> run_beaten m (run_ending xs ys i' j') i' j')"

lemma best_of_mono: "best_of xs ys S i m \<Longrightarrow> i \<le> i' \<Longrightarrow> best_of xs ys S i' m"
  by (auto simp: best_of_def)

lemma best_of_skip:
  "best_of xs ys S i m \<Longrightarrow> (\<And>j. j \<in> J \<Longrightarrow> run_ending xs ys i' j = 0) \<Longrightarrow> best_of xs ys (S \<union> {i'} \<times> J) i m"
  by (auto simp: best_of_def)

lemma best_of_candidate:
  assumes "best_of xs ys S i m" "i \<le> length xs" "j \<le> length ys" "r = run_ending xs ys i j"
  shows "best_of xs ys (insert (i, j) S) i
    (better_match \<lparr>cm_prior_start = i - r, cm_current_start = j - r, cm_length = r\<rparr> m)"
proof -
  let ?c = "\<lparr>cm_prior_start = i - r, cm_current_start = j - r, cm_length = r\<rparr>"
  have run: "common_run xs ys (i - r) (j - r) r" "r \<le> i" "r \<le> j"
    using run_ending_is_run[OF assms(2,3)] run_ending_le[of xs ys i j] assms(4) by auto
  show ?thesis
  proof (cases "better_match ?c m = ?c \<and> ?c \<noteq> m")
    case True
    then have win: "r > cm_length m \<or> r = cm_length m \<and> j > cm_current_start m + cm_length m"
      using run by (auto simp: better_match_def split: if_splits)
    have "run_beaten ?c r' i' j'" if "run_beaten m r' i' j'" for r' i' j'
      using that win run by (auto simp: run_beaten_def)
    then show ?thesis using True assms(1,4) run
      by (auto simp: best_of_def) (auto simp: run_beaten_def)
  next
    case False
    then have keep: "better_match ?c m = m" by (auto simp: better_match_def)
    then have lose: "\<not> (r > cm_length m \<or> r = cm_length m \<and> j > cm_current_start m + cm_length m) \<or> ?c = m"
      using run by (auto simp: better_match_def split: if_splits)
    have "run_beaten m r i j" using lose assms(1) run by (auto simp: run_beaten_def best_of_def)
    then show ?thesis using keep assms(1,4) by (auto simp: best_of_def)
  qed
qed

lemma match_row_spec:
  assumes "tokens = drop j ys" "length previous = Suc (length tokens)" "j \<le> length ys"
    "\<And>d. d < length previous \<Longrightarrow> previous ! d = run_ending xs ys i (j + d)"
    "i < length xs" "xs ! i \<noteq> []" "best_of xs ys S (Suc i) best"
    "match_row (xs ! i) (Suc i) (Suc j) tokens previous best = (row, best')"
  shows "row = List.map (run_ending xs ys (Suc i)) [Suc j..<Suc (length ys)]
    \<and> best_of xs ys (S \<union> {Suc i} \<times> {Suc j..length ys}) (Suc i) best'"
  using assms
proof (induction tokens arbitrary: j previous best S row best')
  case Nil
  then show ?case by (auto simp: best_of_def)
next
  case (Cons token tokens)
  obtain p previous' where prev: "previous = p # previous'" using Cons.prems(2) by (cases previous) auto
  have j: "j < length ys" "token = ys ! j" "tokens = drop (Suc j) ys"
  proof -
    have "drop j ys \<noteq> []" using Cons.prems(1) by auto
    then show "j < length ys" by simp
    then show "token = ys ! j" "tokens = drop (Suc j) ys"
      using Cons.prems(1) by (simp_all flip: Cons_nth_drop_Suc)
  qed
  have p: "p = run_ending xs ys i j" using Cons.prems(4)[of 0] prev by simp
  let ?r = "run_ending xs ys (Suc i) (Suc j)"
  let ?best = "if xs ! i \<noteq> token then best else better_match
    \<lparr>cm_prior_start = Suc i - ?r, cm_current_start = Suc j - ?r, cm_length = ?r\<rparr> best"
  obtain row1 best1 where step: "match_row (xs ! i) (Suc i) (Suc (Suc j)) tokens previous' ?best = (row1, best1)"
    by fastforce
  have out: "row = ?r # row1 \<and> best' = best1"
    using Cons.prems(8) step Cons.prems(6) unfolding prev by (auto simp: j p Let_def split: if_splits)
  have "best_of xs ys (insert (Suc i, Suc j) S) (Suc i) ?best"
  proof (cases "xs ! i = token")
    case True
    then show ?thesis using best_of_candidate[OF Cons.prems(7) _ _ refl, of "Suc j"] j Cons.prems(5) by simp
  next
    case False
    then show ?thesis using Cons.prems(7) j by (auto simp: best_of_def)
  qed
  then have "row1 = List.map (run_ending xs ys (Suc i)) [Suc (Suc j)..<Suc (length ys)]
    \<and> best_of xs ys (insert (Suc i, Suc j) S \<union> {Suc i} \<times> {Suc (Suc j)..length ys}) (Suc i) best1"
    using Cons.IH[OF j(3) _ _ _ Cons.prems(5,6) _ step, of "insert (Suc i, Suc j) S"]
      Cons.prems(2) Cons.prems(4)[of "Suc _"] j prev by simp
  moreover have "insert (Suc i, Suc j) S \<union> {Suc i} \<times> {Suc (Suc j)..length ys} = S \<union> {Suc i} \<times> {Suc j..length ys}"
    using j by (auto simp: Suc_le_eq le_less)
  moreover have "[Suc j..<Suc (length ys)] = Suc j # [Suc (Suc j)..<Suc (length ys)]"
    using j by (simp only: upt_conv_Cons Suc_less_eq)
  ultimately show ?case using out by (simp del: run_ending.simps upt_Suc)
qed

lemma match_rows_spec:
  assumes "prior = drop i xs" "i \<le> length xs"
    "previous = List.map (run_ending xs ys i) [0..<Suc (length ys)]"
    "best_of xs ys ({0..i} \<times> {0..length ys}) i best"
  shows "best_of xs ys ({0..length xs} \<times> {0..length ys}) (length xs)
           (match_rows (Suc i) prior ys previous best)"
  using assms
proof (induction prior arbitrary: i previous best)
  case Nil
  then have "i = length xs" by simp
  then show ?case using Nil by simp
next
  case (Cons token prior)
  have i: "i < length xs" "token = xs ! i" "prior = drop (Suc i) xs"
  proof -
    have "drop i xs \<noteq> []" using Cons.prems(1) by auto
    then show "i < length xs" by simp
    then show "token = xs ! i" "prior = drop (Suc i) xs"
      using Cons.prems(1) by (simp_all flip: Cons_nth_drop_Suc)
  qed
  have cells: "{0..i} \<times> {0..length ys} \<union> {Suc i} \<times> {0..length ys} = {0..Suc i} \<times> {0..length ys}"
    by auto
  have best: "best_of xs ys ({0..i} \<times> {0..length ys}) (Suc i) best"
    using best_of_mono[OF Cons.prems(4)] by simp
  show ?case
  proof (cases "token = []")
    case True
    have zero: "run_ending xs ys (Suc i) j = 0" for j using True i by (cases j) simp_all
    have "best_of xs ys ({0..Suc i} \<times> {0..length ys}) (Suc i) best"
      using best_of_skip[OF best zero, of "{0..length ys}"] unfolding cells .
    moreover have "replicate (length ys + 1) 0 = List.map (run_ending xs ys (Suc i)) [0..<Suc (length ys)]"
      by (rule nth_equalityI) (simp_all add: zero del: upt_Suc run_ending.simps replicate.simps)
    ultimately show ?thesis using Cons.IH[OF i(3), of _ best] i True by simp
  next
    case False
    obtain row best' where row: "match_row token (Suc i) 1 ys previous best = (row, best')" by fastforce
    have "row = List.map (run_ending xs ys (Suc i)) [Suc 0..<Suc (length ys)]
      \<and> best_of xs ys ({0..i} \<times> {0..length ys} \<union> {Suc i} \<times> {Suc 0..length ys}) (Suc i) best'"
      using match_row_spec[OF _ _ _ _ _ _ best, of ys 0 previous] row i False Cons.prems(3)
      by (simp del: upt_Suc run_ending.simps)
    moreover have "[0..<Suc (length ys)] = 0 # [Suc 0..<Suc (length ys)]" by (rule upt_conv_Cons) simp
    moreover from calculation
    have "best_of xs ys ({0..i} \<times> {0..length ys} \<union> {Suc i} \<times> {Suc 0..length ys} \<union> {Suc i} \<times> {0}) (Suc i) best'"
      using best_of_skip[of xs ys "{0..i} \<times> {0..length ys} \<union> {Suc i} \<times> {Suc 0..length ys}"
        "Suc i" best' "{0}" "Suc i"] by simp
    moreover have "{0..i} \<times> {0..length ys} \<union> {Suc i} \<times> {Suc 0..length ys} \<union> {Suc i} \<times> {0}
      = {0..Suc i} \<times> {0..length ys}"
      by (auto simp: le_Suc_eq not_less_eq_eq) 
    ultimately show ?thesis using Cons.IH[OF i(3), of "0 # row" best'] i row False by simp
  qed
qed

lemma longest_contiguous_match_best:
  fixes prior current :: "'c asr_word list"
  defines "xs \<equiv> List.map (normalized_token \<circ> aw_text) prior"
    and "ys \<equiv> List.map (normalized_token \<circ> aw_text) current"
  shows "best_of xs ys ({0..length xs} \<times> {0..length ys}) (length xs) (longest_contiguous_match prior current)"
proof -
  have "replicate (length current + 1) 0 = List.map (run_ending xs ys 0) [0..<Suc (length ys)]"
    by (rule nth_equalityI) (simp_all add: ys_def del: upt_Suc replicate.simps)
  moreover have "best_of xs ys ({0..0} \<times> {0..length ys}) 0 no_match"
    by (auto simp: best_of_def no_match_def common_run_def)
  ultimately have "best_of xs ys ({0..length xs} \<times> {0..length ys}) (length xs)
    (match_rows (Suc 0) xs ys (replicate (length current + 1) 0) no_match)"
    by (intro match_rows_spec) simp_all
  then show ?thesis
    by (simp add: longest_contiguous_match_def xs_def ys_def del: replicate.simps)
qed

subsection \<open>Words in order\<close>

definition positive :: "'c asr_word \<Rightarrow> bool" where
  "positive w \<longleftrightarrow> aw_start_us w < aw_end_us w"

definition in_order :: "'c asr_word list \<Rightarrow> bool" where
  "in_order ws \<longleftrightarrow> sorted_wrt (\<lambda>a b. aw_end_us a \<le> aw_start_us b) ws"

text \<open>The word of the source timeline, and a copy of it whose end may have been trimmed.\<close>

definition on_source :: "asr_chunk_plan \<Rightarrow> 'c asr_word \<Rightarrow> 'c asr_word" where
  "on_source chunk w = w\<lparr>aw_start_us := aw_start_us w + ac_source_start_us chunk,
                          aw_end_us := aw_end_us w + ac_source_start_us chunk\<rparr>"

definition trimmed_copy :: "'c asr_word \<Rightarrow> 'c asr_word \<Rightarrow> bool" where
  "trimmed_copy v w \<longleftrightarrow> w = v\<lparr>aw_end_us := aw_end_us w\<rparr> \<and> aw_end_us w \<le> aw_end_us v"

lemma trimmed_copy_refl [simp]: "trimmed_copy w w"
  by (simp add: trimmed_copy_def)

lemma trimmed_copy_again:
  "trimmed_copy v w \<Longrightarrow> seam \<le> aw_end_us w \<Longrightarrow> trimmed_copy v (w\<lparr>aw_end_us := seam\<rparr>)"
  by (auto simp: trimmed_copy_def) (metis asr_word.update_convs(3) asr_word.surjective)

lemma trimmed_copy_trans: "trimmed_copy u v \<Longrightarrow> trimmed_copy v w \<Longrightarrow> trimmed_copy u w"
  by (cases u; cases v; cases w) (auto simp: trimmed_copy_def)

lemma positive_on_source [simp]: "positive (on_source chunk w) = positive w"
  by (simp add: positive_def on_source_def)

lemma globally_timed_words_def':
  fixes words :: "'c asr_word list"
  shows "globally_timed_words words chunk = List.map (on_source chunk) (filter positive words)"
proof -
  have "(\<lambda>w :: 'c asr_word. \<not> aw_end_us w \<le> aw_start_us w) = positive"
    by (auto simp: positive_def fun_eq_iff)
  then show ?thesis by (simp only: globally_timed_words_def on_source_def [abs_def])
qed

lemma globally_timed_words_in_order:
  "in_order (filter positive words) \<Longrightarrow> in_order (globally_timed_words words chunk)"
  by (simp add: globally_timed_words_def' in_order_def sorted_wrt_map on_source_def)

lemma pop_from_seam_prefix: "\<exists>k. pop_from_seam seam words = take k words"
  unfolding pop_from_seam_def dropWhile_eq_drop
  by (auto simp: rev_drop intro: exI)

lemma pop_from_seam_last: "pop_from_seam seam words \<noteq> [] \<Longrightarrow> aw_start_us (last (pop_from_seam seam words)) < seam"
  using hd_dropWhile[of "\<lambda>w. aw_start_us w \<ge> seam" "rev words"]
  by (auto simp: pop_from_seam_def last_rev)

lemma in_order_take: "in_order ws \<Longrightarrow> in_order (take k ws)"
  by (simp add: in_order_def sorted_wrt_take)

lemma in_order_drop: "in_order ws \<Longrightarrow> in_order (drop k ws)"
  by (simp add: in_order_def sorted_wrt_drop)

text \<open>What is left before the seam: an initial stretch of the words, its last one trimmed at most.\<close>

lemma before_seam_cases:
  obtains (all) k where "trim_at_seam seam (pop_from_seam seam words) = take k words"
      "take k words = [] \<or> aw_end_us (last (take k words)) \<le> seam"
  | (trimmed) k front w where
      "trim_at_seam seam (pop_from_seam seam words) = front @ [w\<lparr>aw_end_us := seam\<rparr>]"
      "front @ [w] = take k words" "aw_start_us w < seam" "seam < aw_end_us w"
proof -
  obtain k where k: "pop_from_seam seam words = take k words" using pop_from_seam_prefix by blast
  show ?thesis
  proof (cases "take k words \<noteq> [] \<and> aw_end_us (last (take k words)) > seam")
    case True
    then show ?thesis
      using trimmed[of "butlast (take k words)" "last (take k words)" k]
        pop_from_seam_last[of seam words] k by (simp add: trim_at_seam_def)
  next
    case False
    then have "take k words = [] \<or> aw_end_us (last (take k words)) \<le> seam" by linarith
    moreover have "trim_at_seam seam (pop_from_seam seam words) = take k words"
      unfolding trim_at_seam_def k using False by (rule if_not_P)
    ultimately show ?thesis by (rule all[rotated])
  qed
qed

lemma reconcile_chunk_cases:
  obtains (kept) "reconcile_chunk i chunk words result = result"
  | (first) "reconcile_chunk i chunk words result = globally_timed_words words chunk"
  | (joined) k a where "a < length (globally_timed_words words chunk)"
      "reconcile_chunk i chunk words result =
         trim_at_seam (aw_start_us (globally_timed_words words chunk ! a))
           (pop_from_seam (aw_start_us (globally_timed_words words chunk ! a)) (take k result))
         @ drop a (globally_timed_words words chunk)"
proof -
  obtain a k where seam: "seam_of i chunk (globally_timed_words words chunk) result = (a, k)" by fastforce
  have "reconcile_chunk i chunk words result =
    (let current = globally_timed_words words chunk
     in if current = [] then result else if result = [] then current
        else if a \<ge> length current then result
        else trim_at_seam (aw_start_us (current ! a)) (pop_from_seam (aw_start_us (current ! a)) (take k result))
               @ drop a current)"
    unfolding reconcile_chunk_def by (simp add: seam Let_def)
  then show ?thesis using kept first joined[of a k] by (auto simp: Let_def not_le split: if_splits)
qed

lemma reconcile_chunk_words:
  assumes "list_all positive result"
  shows "\<forall>w \<in> set (reconcile_chunk i chunk words result). positive w
    \<and> ((\<exists>v \<in> set result. trimmed_copy v w) \<or> w \<in> set (globally_timed_words words chunk))"
  using reconcile_chunk_cases[of i chunk words result]
proof cases
  case kept
  then show ?thesis using assms by (auto simp: list_all_iff intro: trimmed_copy_refl)
next
  case first
  then show ?thesis by (auto simp: globally_timed_words_def')
next
  case (joined k a)
  let ?cur = "globally_timed_words words chunk"
  let ?kept = "trim_at_seam (aw_start_us (?cur ! a)) (pop_from_seam (aw_start_us (?cur ! a)) (take k result))"
  have pos: "list_all positive (take k result)" using assms by (auto simp: list_all_iff dest: in_set_takeD)
  have "\<forall>w \<in> set ?kept. positive w \<and> (\<exists>v \<in> set result. trimmed_copy v w)"
    using before_seam_cases[of "aw_start_us (?cur ! a)" "take k result"]
  proof cases
    case (all n)
    then show ?thesis using assms by (force simp: list_all_iff intro: trimmed_copy_refl dest: in_set_takeD)
  next
    case (trimmed n front w)
    have "positive w' \<and> w' \<in> set result" if "w' \<in> set (front @ [w])" for w'
      using that assms unfolding trimmed(2) by (auto simp: list_all_iff dest!: in_set_takeD)
    moreover have "trimmed_copy w (w\<lparr>aw_end_us := aw_start_us (?cur ! a)\<rparr>)"
      using trimmed(4) by (intro trimmed_copy_again) auto
    ultimately show ?thesis unfolding trimmed(1) using trimmed(3)
      by (auto simp: positive_def intro: trimmed_copy_refl)
  qed
  moreover have "\<forall>w \<in> set (drop a ?cur). positive w \<and> w \<in> set ?cur"
    by (auto simp: globally_timed_words_def' dest!: in_set_dropD)
  ultimately show ?thesis unfolding joined(2) by auto
qed

text \<open>All of a list in order ends by the time its last word ends.\<close>

lemma in_order_append_last:
  "in_order (front @ [w]) \<longleftrightarrow> in_order front \<and> (\<forall>v \<in> set front. aw_end_us v \<le> aw_start_us w)"
  by (auto simp: in_order_def sorted_wrt_append)

lemma in_order_ends_by:
  assumes "in_order ws" "list_all positive ws" "ws = [] \<or> aw_end_us (last ws) \<le> seam"
  shows "\<forall>v \<in> set ws. aw_end_us v \<le> seam"
proof (cases ws rule: rev_cases)
  case (snoc front w)
  then have "\<forall>v \<in> set front. aw_end_us v \<le> aw_start_us w" "aw_start_us w < aw_end_us w"
    using assms in_order_append_last[of front w] by (auto simp: positive_def)
  then show ?thesis using assms(3) snoc by force
qed simp

lemma before_seam_in_order:
  assumes "in_order words" "list_all positive words"
  shows "in_order (trim_at_seam seam (pop_from_seam seam words))
    \<and> (\<forall>v \<in> set (trim_at_seam seam (pop_from_seam seam words)). aw_end_us v \<le> seam)"
  using before_seam_cases[of seam words]
proof cases
  case (all k)
  have "list_all positive (take k words)" using assms(2) by (auto simp: list_all_iff dest: in_set_takeD)
  then show ?thesis
    using in_order_ends_by[of "take k words"] in_order_take[OF assms(1)] all by metis
next
  case (trimmed n front w)
  have "in_order (front @ [w])" unfolding trimmed(2) by (rule in_order_take[OF assms(1)])
  then have *: "in_order front" "\<forall>v \<in> set front. aw_end_us v \<le> aw_start_us w"
    by (simp_all add: in_order_append_last)
  then show ?thesis unfolding trimmed(1) using trimmed(3)
    by (force simp: in_order_append_last)
qed

lemma reconcile_chunk_in_order:
  assumes "in_order result" "list_all positive result" "in_order (filter positive words)"
  shows "in_order (reconcile_chunk i chunk words result)"
  using reconcile_chunk_cases[of i chunk words result]
proof cases
  case (joined k a)
  let ?cur = "globally_timed_words words chunk"
  let ?seam = "aw_start_us (?cur ! a)"
  have cur: "in_order ?cur" "list_all positive ?cur"
    using globally_timed_words_in_order[OF assms(3)] by (auto simp: globally_timed_words_def' list_all_iff)
  have drop: "drop a ?cur = ?cur ! a # drop (Suc a) ?cur" using joined(1) by (simp add: Cons_nth_drop_Suc)
  have "positive (?cur ! a)" using cur(2) joined(1) by (simp add: list_all_iff)
  moreover have "\<forall>v \<in> set (drop (Suc a) ?cur). aw_end_us (?cur ! a) \<le> aw_start_us v"
    using in_order_drop[OF cur(1), of a] unfolding drop in_order_def by simp
  ultimately have after: "\<forall>v \<in> set (drop a ?cur). ?seam \<le> aw_start_us v"
    unfolding drop by (force simp: positive_def)
  have "list_all positive (take k result)" using assms(2) by (auto simp: list_all_iff dest: in_set_takeD)
  then show ?thesis
    using before_seam_in_order[OF in_order_take[OF assms(1)], of k ?seam] after in_order_drop[OF cur(1), of a]
    unfolding joined(2) in_order_def sorted_wrt_append by force
qed (use assms globally_timed_words_in_order in auto)

end
