(* ===== verification/TranscriptProps.thy ===== *)
theory TranscriptProps
  imports TranscriptFacts
begin

text \<open>
  The properties of the transcript: the plan covers the recording, the anchor of a seam is the
  longest common run, and the reconciled words are those of the chunks, in order.
\<close>

subsection \<open>The plan\<close>

lemma zero_padded_inject [simp]: "zero_padded m = zero_padded n \<longleftrightarrow> m = n"
proof -
  have pad: "decimal_value (replicate k CHR ''0'' @ s) = decimal_value s" for k s
    by (induction k) simp_all
  have "decimal_value (zero_padded k) = k" for k
    by (simp only: zero_padded_def pad decimal_value_to_string)
  then show ?thesis by metis
qed

lemma asr_chunks_from_nth:
  "k < length (asr_chunks_from q c n) \<Longrightarrow>
   asr_chunks_from q c n ! k = asr_chunk_at q (c + int k * asr_step q) (n + k)
   \<and> c + int k * asr_step q < ar_total_duration_us q"
proof (induction q c n arbitrary: k rule: asr_chunks_from.induct)
  case (1 q c n)
  show ?case
  proof (cases "c < ar_total_duration_us q \<and> 0 < asr_step q")
    case True
    then show ?thesis
      using 1 by (cases k) (auto simp: asr_chunks_from.simps [of q c n] algebra_simps)
  next
    case False
    then have "asr_chunks_from q c n = []" by (simp add: asr_chunks_from.simps [of q c n])
    then show ?thesis using 1(2) by simp
  qed
qed

lemma asr_chunks_from_stop:
  "0 < asr_step q \<Longrightarrow> ar_total_duration_us q \<le> c + int (length (asr_chunks_from q c n)) * asr_step q"
proof (induction q c n rule: asr_chunks_from.induct)
  case (1 q c n)
  then show ?case by (cases "c < ar_total_duration_us q")
      (auto simp: asr_chunks_from.simps [of q c n] algebra_simps)
qed

lemma build_asr_chunk_plan_nth:
  assumes "build_asr_chunk_plan q = Some r" "k < length (ap_chunks r)"
  shows "ap_chunks r ! k = asr_chunk_at q (int k * asr_step q) k"
    "int k * asr_step q < ar_total_duration_us q"
  using assms asr_chunks_from_nth[of k q 0 0]
  by (auto simp: build_asr_chunk_plan_def Let_def split: if_splits)

lemma build_asr_chunk_plan_stop:
  assumes "build_asr_chunk_plan q = Some r"
  shows "0 < asr_step q" "0 \<le> ar_overlap_us q"
    "ar_total_duration_us q \<le> int (length (ap_chunks r)) * asr_step q"
  using assms asr_chunks_from_stop[of q 0 0]
  by (auto simp: build_asr_chunk_plan_def Let_def asr_step_def split: if_splits)

text \<open>A chunk plan covers the recording. Chunk k starts k steps in, chunks are named by their
  ordinal and no two share an id or an output file; every instant of the recording lies in a chunk,
  no chunk reaches past its end, and a chunk overlaps its successor by exactly the overlap it
  declares after itself.\<close>

theorem chunk_plan_covers_recording:
  assumes "build_asr_chunk_plan q = Some r"
  shows "(\<forall>k<length (ap_chunks r). ap_chunks r ! k = asr_chunk_at q (int k * asr_step q) k)
    \<and> distinct (List.map ac_chunk_id (ap_chunks r)) \<and> distinct (List.map ac_output_ref (ap_chunks r))
    \<and> (\<forall>t. 0 \<le> t \<and> t < ar_total_duration_us q
         \<longrightarrow> (\<exists>chunk \<in> set (ap_chunks r). ac_source_start_us chunk \<le> t \<and> t < ac_source_end_us chunk))
    \<and> (\<forall>chunk \<in> set (ap_chunks r). 0 \<le> ac_source_start_us chunk
         \<and> ac_source_start_us chunk < ac_source_end_us chunk \<and> ac_source_end_us chunk \<le> ar_total_duration_us q)
    \<and> (\<forall>k. Suc k < length (ap_chunks r) \<longrightarrow>
         ac_source_end_us (ap_chunks r ! k) - ac_source_start_us (ap_chunks r ! Suc k)
           = ac_overlap_after_us (ap_chunks r ! k))"
proof -
  note nth = build_asr_chunk_plan_nth[OF assms] and stop = build_asr_chunk_plan_stop[OF assms]
  have step: "asr_step q \<le> ar_chunk_duration_us q" using stop(2) by (simp add: asr_step_def)
  have covered: "\<exists>chunk \<in> set (ap_chunks r). ac_source_start_us chunk \<le> t \<and> t < ac_source_end_us chunk"
    if "0 \<le> t" "t < ar_total_duration_us q" for t
  proof -
    define k where "k = nat (t div asr_step q)"
    have k: "int k * asr_step q \<le> t" "t < int k * asr_step q + asr_step q"
    proof -
      have "int k = t div asr_step q" using that stop(1) by (simp add: k_def pos_imp_zdiv_nonneg_iff)
      then have "int k * asr_step q = t - t mod asr_step q" by (simp add: minus_mod_eq_div_mult)
      with pos_mod_bound[OF stop(1), of t] pos_mod_sign[OF stop(1), of t]
      show "int k * asr_step q \<le> t" "t < int k * asr_step q + asr_step q" by linarith+
    qed
    have "int k * asr_step q < int (length (ap_chunks r)) * asr_step q" using k(1) stop(3) that by linarith
    then have in_plan: "k < length (ap_chunks r)" using stop(1) by simp
    have "ac_source_start_us (ap_chunks r ! k) \<le> t \<and> t < ac_source_end_us (ap_chunks r ! k)"
      unfolding nth(1)[OF in_plan] using k step that by (auto simp: asr_chunk_at_def)
    then show ?thesis using nth_mem[OF in_plan] by blast
  qed
  have inside: "0 \<le> ac_source_start_us chunk \<and> ac_source_start_us chunk < ac_source_end_us chunk
      \<and> ac_source_end_us chunk \<le> ar_total_duration_us q" if "chunk \<in> set (ap_chunks r)" for chunk
    using that nth step stop(1) by (auto simp: in_set_conv_nth asr_chunk_at_def)
  have "ac_source_end_us (ap_chunks r ! k) - ac_source_start_us (ap_chunks r ! Suc k)
      = ac_overlap_after_us (ap_chunks r ! k)" if "Suc k < length (ap_chunks r)" for k
    using that nth(1)[of k] nth(1)[of "Suc k"] nth(2)[of "Suc k"] stop
    by (auto simp: asr_chunk_at_def asr_step_def algebra_simps)
  moreover have "distinct (List.map ac_chunk_id (ap_chunks r)) \<and> distinct (List.map ac_output_ref (ap_chunks r))"
    using nth(1) by (auto simp: distinct_conv_nth asr_chunk_at_def chunk_id_for_ordinal_def chunk_output_ref_def)
  ultimately show ?thesis using nth(1) covered inside by blast
qed

theorem chunk_plan_covers_recording_witness:
  "\<exists>r. build_asr_chunk_plan \<lparr>ar_total_duration_us = 30000000, ar_chunk_duration_us = kDefaultAsrChunkDurationUs,
      ar_overlap_us = kDefaultAsrChunkOverlapUs, ar_input_ref = ''a.wav'', ar_model_id = ''m'', ar_runtime = ''r''\<rparr>
     = Some r \<and> length (ap_chunks r) = 3 \<and> distinct (List.map ac_chunk_id (ap_chunks r))"
proof -
  let ?q = "\<lparr>ar_total_duration_us = 30000000, ar_chunk_duration_us = kDefaultAsrChunkDurationUs,
      ar_overlap_us = kDefaultAsrChunkOverlapUs, ar_input_ref = ''a.wav'', ar_model_id = ''m'', ar_runtime = ''r''\<rparr>"
  obtain r where r: "build_asr_chunk_plan ?q = Some r" "ap_chunks r = asr_chunks_from ?q 0 0"
    by (simp add: build_asr_chunk_plan_def Let_def asr_step_def kDefaultAsrChunkDurationUs_def
        kDefaultAsrChunkOverlapUs_def)
  have "length (asr_chunks_from ?q 0 0) = 3"
    by (simp add: asr_chunks_from.simps asr_step_def kDefaultAsrChunkDurationUs_def
        kDefaultAsrChunkOverlapUs_def)
  then show ?thesis using chunk_plan_covers_recording[OF r(1)] r by auto
qed

subsection \<open>The anchor\<close>

text \<open>C31: The anchor search of two chunks finds their longest run of consecutive equal normalized
  tokens, none of them empty: its match is such a run (of length 0 when there is none), no run is
  longer, and of the longest it is the one that ends last in the current chunk, then the one that
  starts first in the prior chunk.\<close>

theorem anchor_is_longest_common_run:
  fixes prior current :: "'c asr_word list"
  assumes "xs = List.map (\<lambda>w. normalized_token (aw_text w)) prior"
    and "ys = List.map (\<lambda>w. normalized_token (aw_text w)) current"
    and "m = longest_contiguous_match prior current"
  shows "common_run xs ys (cm_prior_start m) (cm_current_start m) (cm_length m)
    \<and> (\<forall>a b k. common_run xs ys a b k \<and> 0 < k \<longrightarrow>
         k < cm_length m
         \<or> k = cm_length m \<and> b < cm_current_start m
         \<or> k = cm_length m \<and> b = cm_current_start m \<and> cm_prior_start m \<le> a)"
proof -
  have best: "best_of xs ys ({0..length xs} \<times> {0..length ys}) (length xs) m"
    using longest_contiguous_match_best[of prior current] unfolding assms comp_def .
  have "k < cm_length m \<or> k = cm_length m \<and> b < cm_current_start m
      \<or> k = cm_length m \<and> b = cm_current_start m \<and> cm_prior_start m \<le> a"
    if run: "common_run xs ys a b k" "0 < k" for a b k
  proof -
    have "k \<le> run_ending xs ys (a + k) (b + k)" by (rule common_run_ending[OF run(1)])
    moreover have "a + k \<le> length xs" "b + k \<le> length ys" using run by (auto simp: common_run_def)
    ultimately have "k \<le> run_ending xs ys (a + k) (b + k)"
      "run_beaten m (run_ending xs ys (a + k) (b + k)) (a + k) (b + k)"
      using best run(2) unfolding best_of_def by (auto dest!: bspec[where x = "(a + k, b + k)"])
    then show ?thesis by (auto simp: run_beaten_def)
  qed
  then show ?thesis using best unfolding best_of_def by blast
qed

definition sample_word :: "string \<Rightarrow> int \<Rightarrow> int \<Rightarrow> int \<Rightarrow> unit asr_word" where
  "sample_word s start_us end_us ordinal = \<lparr>aw_text = s, aw_start_us = start_us, aw_end_us = end_us,
     aw_confidence = (), aw_chunk_ordinal = ordinal, aw_timing_source = ''whisper_cpp_dtw''\<rparr>"

theorem anchor_is_longest_common_run_witness:
  "let prior = List.map (\<lambda>s. sample_word s 0 1 0) [''a'', ''B,'', ''c''];
       current = List.map (\<lambda>s. sample_word s 0 1 1) [''b'', ''C!'', ''-''];
       m = longest_contiguous_match prior current
   in m = \<lparr>cm_prior_start = 1, cm_current_start = 0, cm_length = 2\<rparr>
      \<and> common_run [''a'', ''b'', ''c''] [''b'', ''c'', ''''] (cm_prior_start m) (cm_current_start m) (cm_length m)"
proof -
  let ?p = "List.map (\<lambda>s. sample_word s 0 1 0) [''a'', ''B,'', ''c'']"
  let ?c = "List.map (\<lambda>s. sample_word s 0 1 1) [''b'', ''C!'', ''-'']"
  have "longest_contiguous_match ?p ?c = \<lparr>cm_prior_start = 1, cm_current_start = 0, cm_length = 2\<rparr>"
    by code_simp
  moreover have "[''a'', ''b'', ''c''] = List.map (\<lambda>w. normalized_token (aw_text w)) ?p"
    "[''b'', ''c'', ''''] = List.map (\<lambda>w. normalized_token (aw_text w)) ?c"
    by code_simp+
  moreover note anchor_is_longest_common_run[OF calculation(2,3) refl]
  ultimately show ?thesis unfolding Let_def by blast
qed

subsection \<open>The reconciled words\<close>

lemma reconcile_from_words:
  "length chunk_words = length chunks \<Longrightarrow> list_all positive result \<Longrightarrow>
   \<forall>w \<in> set (reconcile_from n chunk_words chunks result). positive w
     \<and> ((\<exists>v \<in> set result. trimmed_copy v w)
        \<or> (\<exists>(words, chunk) \<in> set (zip chunk_words chunks). \<exists>v \<in> set words. positive v
             \<and> trimmed_copy (on_source chunk v) w))"
proof (induction n chunk_words chunks result rule: reconcile_from.induct)
  case (1 n words chunk_words chunk chunks result)
  let ?next = "reconcile_chunk n chunk words result"
  note step = reconcile_chunk_words[OF 1(3), of n chunk words]
  have pos: "list_all positive ?next" using step by (auto simp: list_all_iff)
  have old: "(\<exists>v \<in> set result. trimmed_copy v w) \<or> (\<exists>v \<in> set words. positive v \<and> trimmed_copy (on_source chunk v) w)"
    if "u \<in> set ?next" "trimmed_copy u w" for u w
    using that step trimmed_copy_trans by (fastforce simp: globally_timed_words_def')
  show ?case using 1(1)[OF _ pos] 1(2) old by simp blast
qed (use trimmed_copy_refl in \<open>force simp: list_all_iff\<close>)+

lemma reconcile_from_in_order:
  "in_order result \<Longrightarrow> list_all positive result \<Longrightarrow> \<forall>words \<in> set chunk_words. in_order (filter positive words) \<Longrightarrow>
   in_order (reconcile_from n chunk_words chunks result)"
proof (induction n chunk_words chunks result rule: reconcile_from.induct)
  case (1 n words chunk_words chunk chunks result)
  have "list_all positive (reconcile_chunk n chunk words result)"
    using reconcile_chunk_words[OF 1(3), of n chunk words] by (auto simp: list_all_iff)
  then show ?case using 1 reconcile_chunk_in_order[OF 1(2,3), of words n chunk] by simp
qed auto

definition sample_chunk :: "int \<Rightarrow> int \<Rightarrow> int \<Rightarrow> asr_chunk_plan" where
  "sample_chunk start_us end_us before_us = \<lparr>ac_chunk_id = ''c'', ac_source_start_us = start_us,
     ac_source_end_us = end_us, ac_overlap_before_us = before_us, ac_overlap_after_us = 0, ac_input_ref = '''',
     ac_output_ref = '''', ac_model_id = '''', ac_runtime = '''', ac_asr_status = ''planned''\<rparr>"

text \<open>Two chunks that share four words; the first has cut off the word after them.\<close>

definition sample_chunks :: "asr_chunk_plan list" where
  "sample_chunks = [sample_chunk 0 55 0, sample_chunk 10 90 45]"

definition sample_chunk_words :: "unit asr_word list list" where
  "sample_chunk_words =
     [[sample_word ''A'' 0 10 0, sample_word ''b'' 10 20 0, sample_word ''c'' 20 30 0, sample_word ''d'' 30 40 0,
       sample_word ''e'' 40 50 0, sample_word ''fu'' 50 55 0],
      [sample_word ''b,'' 0 10 1, sample_word ''c'' 10 20 1, sample_word ''d'' 20 30 1, sample_word ''e'' 30 38 1,
       sample_word ''full'' 38 60 1, sample_word ''x'' 60 60 1]]"

lemma sample_transcript:
  "\<exists>ws. reconcile_overlapping_chunks sample_chunk_words sample_chunks = Some ws
     \<and> List.map (\<lambda>w. (aw_text w, aw_start_us w, aw_end_us w)) ws
       = [(''A'', 0, 10), (''b'', 10, 20), (''c'', 20, 30), (''d'', 30, 40), (''e'', 40, 48), (''full'', 48, 70)]"
proof -
  have "map_option (List.map (\<lambda>w. (aw_text w, aw_start_us w, aw_end_us w)))
      (reconcile_overlapping_chunks sample_chunk_words sample_chunks)
    = Some [(''A'', 0, 10), (''b'', 10, 20), (''c'', 20, 30), (''d'', 30, 40), (''e'', 40, 48), (''full'', 48, 70)]"
    by code_simp
  then show ?thesis by auto
qed

text \<open>Every word of the transcript is a word of some chunk, moved to the source timeline with
  everything but its end as the recogniser gave it; only the end may have been trimmed. None has zero
  or negative length, whatever the chunks hold.\<close>

theorem transcript_words_come_from_chunks:
  assumes "reconcile_overlapping_chunks chunk_words chunks = Some ws" "w \<in> set ws"
  shows "aw_start_us w < aw_end_us w
    \<and> (\<exists>(words, chunk) \<in> set (zip chunk_words chunks). \<exists>v \<in> set words.
         w = (on_source chunk v)\<lparr>aw_end_us := aw_end_us w\<rparr> \<and> aw_end_us w \<le> aw_end_us (on_source chunk v))"
  using assms reconcile_from_words[of chunk_words chunks "[]" 0]
  unfolding reconcile_overlapping_chunks_def positive_def trimmed_copy_def
  by (auto split: if_splits) (fastforce+)

theorem transcript_words_come_from_chunks_witness:
  "\<exists>ws w. reconcile_overlapping_chunks sample_chunk_words sample_chunks = Some ws \<and> w \<in> set ws
     \<and> aw_text w = ''e'' \<and> aw_end_us w = 48
     \<and> (\<exists>(words, chunk) \<in> set (zip sample_chunk_words sample_chunks). \<exists>v \<in> set words.
         w = (on_source chunk v)\<lparr>aw_end_us := aw_end_us w\<rparr> \<and> aw_end_us w \<le> aw_end_us (on_source chunk v))"
proof -
  obtain ws where ws: "reconcile_overlapping_chunks sample_chunk_words sample_chunks = Some ws"
    "List.map (\<lambda>w. (aw_text w, aw_start_us w, aw_end_us w)) ws
       = [(''A'', 0, 10), (''b'', 10, 20), (''c'', 20, 30), (''d'', 30, 40), (''e'', 40, 48), (''full'', 48, 70)]"
    using sample_transcript by (elim exE conjE)
  then have "(''e'', 40, 48) \<in> set (List.map (\<lambda>w. (aw_text w, aw_start_us w, aw_end_us w)) ws)" by simp
  then obtain w where "w \<in> set ws" "aw_text w = ''e''" "aw_end_us w = 48" by auto
  then show ?thesis using transcript_words_come_from_chunks[OF ws(1)] ws(1) by blast
qed

text \<open>C30: When the words of each chunk that have a positive length are in order and do not overlap,
  neither do the words of the transcript: each ends before the next begins, whether a seam was found by
  its anchor or by the timestamps, over any plan of chunks.\<close>

theorem transcript_is_in_order:
  assumes "reconcile_overlapping_chunks chunk_words chunks = Some ws"
    and "\<forall>words \<in> set chunk_words. sorted_wrt (\<lambda>a b. aw_end_us a \<le> aw_start_us b)
           (filter (\<lambda>w. aw_start_us w < aw_end_us w) words)"
  shows "sorted_wrt (\<lambda>a b. aw_end_us a \<le> aw_start_us b) ws"
proof -
  have pos: "filter (\<lambda>w. aw_start_us w < aw_end_us w) words = filter positive words" for words :: "'a asr_word list"
    by (simp add: positive_def [abs_def])
  show ?thesis
    using reconcile_from_in_order[of "[]" chunk_words 0 chunks] assms
    unfolding reconcile_overlapping_chunks_def in_order_def pos by (auto split: if_splits)
qed

theorem transcript_is_in_order_witness:
  "\<exists>ws. reconcile_overlapping_chunks sample_chunk_words sample_chunks = Some ws \<and> length ws = 6
     \<and> sorted_wrt (\<lambda>a b. aw_end_us a \<le> aw_start_us b) ws"
proof -
  obtain ws where ws: "reconcile_overlapping_chunks sample_chunk_words sample_chunks = Some ws"
    "List.map (\<lambda>w. (aw_text w, aw_start_us w, aw_end_us w)) ws
       = [(''A'', 0, 10), (''b'', 10, 20), (''c'', 20, 30), (''d'', 30, 40), (''e'', 40, 48), (''full'', 48, 70)]"
    using sample_transcript by (elim exE conjE)
  have "length ws = 6" using arg_cong[OF ws(2), of length] by simp
  have "\<forall>words \<in> set sample_chunk_words. sorted_wrt (\<lambda>a b. aw_end_us a \<le> aw_start_us b)
           (filter (\<lambda>w. aw_start_us w < aw_end_us w) words)"
    by code_simp
  then show ?thesis using transcript_is_in_order[OF ws(1)] ws(1) \<open>length ws = 6\<close> by blast
qed

end
