(* ===== verification/Journal.thy ===== *)
theory Journal
  imports TaskJson "HOL-Library.Product_Lexorder"
begin

text \<open>
  The recovery journal of a build (packages/svp-exec/src: task\_state.cpp, journal\_records.cpp,
  recovery\_journal.cpp, journal\_tasks.cpp, journal\_artifact\_store.cpp, verified\_blob.cpp,
  journal\_distributed\_records.cpp, journal\_cleanup.cpp).

  The database is SQLite: a table is the map of its rows by primary key, in key order, with the
  columns as the code stores them (states and digests as text, so that whatever an edited file
  holds can be read back); a constraint that fails is \<open>duplicate_record\<close>, an operation that throws
  inside a transaction leaves the database as it was. The directories blobs/pending and
  blobs/completed are the names in the first and the files in the second. What the disk does when it
  is written and read is the record \<open>journal_env\<close>, an argument of the operations that touch it.
\<close>

subsection \<open>Errors (journal\_error.hpp)\<close>

datatype journal_error_code =
    already_exists | not_found | locked | incompatible | io_error | database_error
  | duplicate_record | source_mismatch | unknown_task | invalid_transition | invalid_argument
  | artifact_mismatch | closed

text \<open>What a function of the journal may throw: its own errors, and those of the JSON encoders.\<close>

datatype journal_fault = JournalError journal_error_code | ExecError exec_error_code

definition as_exec_error :: "exec_error_code + 'a \<Rightarrow> journal_fault + 'a" where
  "as_exec_error r = (case r of Inl e \<Rightarrow> Inl (ExecError e) | Inr x \<Rightarrow> Inr x)"

subsection \<open>Task states (task\_state.cpp)\<close>

datatype task_state =
    Planned | Ready | Leased | Running | ResultReceived | Committed | FailedRetryable | FailedPermanent

definition kTaskStateNames :: "(task_state \<times> string) list" where
  "kTaskStateNames =
     [(Planned, ''planned''), (Ready, ''ready''), (Leased, ''leased''), (Running, ''running''),
      (ResultReceived, ''result_received''), (Committed, ''committed''),
      (FailedRetryable, ''failed_retryable''), (FailedPermanent, ''failed_permanent'')]"

definition kAllowedTransitions :: "(task_state \<times> task_state) list" where
  "kAllowedTransitions =
     [(Planned, Ready),
      (Ready, Leased),
      (Ready, Running),
      (Ready, ResultReceived),
      (Leased, Running),
      (Leased, Ready),
      (Leased, FailedRetryable),
      (Running, ResultReceived),
      (Running, Ready),
      (Running, FailedRetryable),
      (Running, FailedPermanent),
      (ResultReceived, Committed),
      (ResultReceived, FailedRetryable),
      (ResultReceived, FailedPermanent),
      (FailedRetryable, Ready),
      (FailedRetryable, FailedPermanent)]"

definition task_state_name :: "task_state \<Rightarrow> string" where
  "task_state_name state =
     (case map_of kTaskStateNames state of Some name \<Rightarrow> name | None \<Rightarrow> ''unknown'')"

definition parse_task_state :: "string \<Rightarrow> task_state option" where
  "parse_task_state name =
     map_option fst (List.find (\<lambda>(_, known). known = name) kTaskStateNames)"

definition is_task_transition_allowed :: "task_state \<Rightarrow> task_state \<Rightarrow> bool" where
  "is_task_transition_allowed from to \<longleftrightarrow> (from, to) \<in> set kAllowedTransitions"

lemma parse_task_state_name [simp]: "parse_task_state (task_state_name st) = Some st"
  by (cases st) (simp_all add: parse_task_state_def task_state_name_def kTaskStateNames_def)

lemma task_state_name_inject [simp]: "task_state_name a = task_state_name b \<longleftrightarrow> a = b"
  by (metis parse_task_state_name option.inject)

lemma parse_task_state_Some: "parse_task_state name = Some st \<longleftrightarrow> name = task_state_name st"
proof
  assume "parse_task_state name = Some st"
  then have "(st, name) \<in> set kTaskStateNames"
    by (auto simp: parse_task_state_def kTaskStateNames_def split: if_splits)
  then show "name = task_state_name st" by (auto simp: kTaskStateNames_def task_state_name_def)
qed simp

subsection \<open>Records (journal\_records.hpp, journal\_records.cpp)\<close>

datatype build_session_status =
    BuildSessionActive | BuildSessionSucceeded | BuildSessionFailed | BuildSessionInterrupted

fun build_session_status_name :: "build_session_status \<Rightarrow> string" where
  "build_session_status_name BuildSessionActive = ''active''"
| "build_session_status_name BuildSessionSucceeded = ''succeeded''"
| "build_session_status_name BuildSessionFailed = ''failed''"
| "build_session_status_name BuildSessionInterrupted = ''interrupted''"

datatype worker_session_status =
    WorkerSessionActive | WorkerSessionEnded | WorkerSessionLost | WorkerSessionQuarantined

fun worker_session_status_name :: "worker_session_status \<Rightarrow> string" where
  "worker_session_status_name WorkerSessionActive = ''active''"
| "worker_session_status_name WorkerSessionEnded = ''ended''"
| "worker_session_status_name WorkerSessionLost = ''lost''"
| "worker_session_status_name WorkerSessionQuarantined = ''quarantined''"

datatype attempt_outcome =
    AttemptLeased | AttemptRunning | AttemptSucceeded | AttemptFailed | AttemptLost
  | AttemptAbandoned | AttemptDuplicate

fun attempt_outcome_name :: "attempt_outcome \<Rightarrow> string" where
  "attempt_outcome_name AttemptLeased = ''leased''"
| "attempt_outcome_name AttemptRunning = ''running''"
| "attempt_outcome_name AttemptSucceeded = ''succeeded''"
| "attempt_outcome_name AttemptFailed = ''failed''"
| "attempt_outcome_name AttemptLost = ''lost''"
| "attempt_outcome_name AttemptAbandoned = ''abandoned''"
| "attempt_outcome_name AttemptDuplicate = ''duplicate''"

record build_session_record =
  bs_id :: string
  bs_started_utc :: string
  bs_svp_version :: string
  bs_builder_version :: string
  bs_status :: build_session_status

record source_fingerprint =
  sf_source_id :: string
  sf_path :: string
  sf_size_bytes :: u64
  sf_mtime_ns :: "int option"
  sf_blake3 :: digest

record journal_task =
  jt_task_id :: string
  jt_task_type :: string
  jt_cache_key :: "digest option"
  jt_depends_on :: "string list"

record artifact_provenance =
  pv_processor_id :: string
  pv_parameters_blake3 :: digest
  pv_model_refs :: "string list"

datatype artifact_content = InMemory "byte list" | FromFile string

record artifact_input =
  ai_artifact_id :: string
  ai_blake3 :: digest
  ai_content :: artifact_content
  ai_provenance :: artifact_provenance

record cache_hit =
  ch_cache_key :: digest
  ch_artifact_id :: string
  ch_verified :: bool

record task_commit =
  tm_task_id :: string
  tm_output_blake3 :: digest
  tm_artifacts :: "artifact_input list"
  tm_cache_hit :: "cache_hit option"

record journal_artifact =
  jf_artifact_id :: string
  jf_blake3 :: digest
  jf_byte_length :: u64
  jf_path :: string

record committed_task =
  ct_task_id :: string
  ct_output_blake3 :: digest
  ct_artifacts :: "journal_artifact list"

record worker_session_record =
  ws_worker_session_id :: string
  ws_worker_id :: string
  ws_runtime_id :: "digest option"
  ws_started_utc :: string
  ws_ended_utc :: "string option"
  ws_status :: worker_session_status

record task_attempt =
  at_task_id :: string
  at_attempt :: u32
  at_worker_session_id :: "string option"
  at_lease_id :: "string option"
  at_leased_utc :: "string option"
  at_started_utc :: "string option"
  at_completed_utc :: "string option"
  at_queue_ms :: "u64 option"
  at_transfer_ms :: "u64 option"
  at_compute_ms :: "u64 option"
  at_cpu_ms :: "u64 option"
  at_peak_rss_bytes :: "u64 option"
  at_outcome :: attempt_outcome
  at_error :: "string option"

definition kJournalBlobLocation :: string where
  "kJournalBlobLocation = ''journal''"

record blob_location =
  bl_blake3 :: digest
  bl_location :: string
  bl_byte_length :: u64

subsection \<open>The tables (journal\_schema.cpp)\<close>

record build_session_row =
  br_started_utc :: string
  br_svp_version :: string
  br_builder_version :: string
  br_status :: string

record source_row =
  sw_path :: string
  sw_size_bytes :: int
  sw_mtime_ns :: "int option"
  sw_blake3 :: string

record task_row =
  tw_task_type :: string
  tw_status :: string
  tw_cache_key :: "string option"
  tw_started_utc :: "string option"
  tw_completed_utc :: "string option"
  tw_output_blake3 :: "string option"

record artifact_row =
  aw_task_id :: string
  aw_relative_path :: string
  aw_blake3 :: string
  aw_byte_length :: int

record provenance_row =
  pw_processor_id :: string
  pw_parameters_blake3 :: string
  pw_model_refs_json :: string

record cache_hit_row =
  hw_cache_key :: string
  hw_artifact_id :: string
  hw_verified :: int

record failure_row =
  fw_task_id :: "string option"
  fw_occurred_utc :: string
  fw_reason :: string

record worker_session_row =
  ww_worker_id :: string
  ww_runtime_id :: "string option"
  ww_started_utc :: string
  ww_ended_utc :: "string option"
  ww_status :: string

record task_attempt_row =
  rw_worker_session_id :: "string option"
  rw_lease_id :: "string option"
  rw_leased_utc :: "string option"
  rw_started_utc :: "string option"
  rw_completed_utc :: "string option"
  rw_queue_ms :: "int option"
  rw_transfer_ms :: "int option"
  rw_compute_ms :: "int option"
  rw_cpu_ms :: "int option"
  rw_peak_rss_bytes :: "int option"
  rw_outcome :: string
  rw_error :: "string option"

record blob_location_row =
  lw_byte_length :: int
  lw_recorded_utc :: string

record journal_db =
  db_build_session :: "(string, build_session_row) std_map"
  db_source_fingerprint :: "(string, source_row) std_map"
  db_task :: "(string, task_row) std_map"
  db_task_dependency :: "(string \<times> string, unit) std_map"
  db_artifact :: "(string, artifact_row) std_map"
  db_artifact_provenance :: "(string, provenance_row) std_map"
  db_cache_hit :: "(string, cache_hit_row) std_map"
  db_failure :: "failure_row list"
  db_worker_session :: "(string, worker_session_row) std_map"
  db_task_attempt :: "(string \<times> int, task_attempt_row) std_map"
  db_blob_location :: "(string \<times> string, blob_location_row) std_map"

definition apply_journal_schema :: journal_db where
  "apply_journal_schema =
     \<lparr>db_build_session = [], db_source_fingerprint = [], db_task = [], db_task_dependency = [],
      db_artifact = [], db_artifact_provenance = [], db_cache_hit = [], db_failure = [],
      db_worker_session = [], db_task_attempt = [], db_blob_location = []\<rparr>"

text \<open>\<open>INSERT\<close>: a row with the key of another fails the primary key constraint.\<close>

definition insert_row :: "'k::linorder \<Rightarrow> 'v \<Rightarrow> ('k, 'v) std_map \<Rightarrow> journal_fault + ('k, 'v) std_map" where
  "insert_row k row table =
     (if map_of table k \<noteq> None then Inl (JournalError duplicate_record) else Inr (map_emplace k row table))"

definition bind_unsigned :: "u64 \<Rightarrow> journal_fault + int" where
  "bind_unsigned v =
     (if v > 0x7FFFFFFFFFFFFFFF then Inl (JournalError invalid_argument) else Inr (uint v))"

definition bind_unsigned_option :: "u64 option \<Rightarrow> journal_fault + int option" where
  "bind_unsigned_option v =
     (case v of None \<Rightarrow> Inr None | Some x \<Rightarrow> and_then (bind_unsigned x) (\<lambda>i. Inr (Some i)))"

subsection \<open>The journal and the disk\<close>

text \<open>
  A symlink or a directory in the place of a file is \<open>NotRegular\<close>, with the bytes of the file a
  symlink leads to.
\<close>

datatype file_node = RegularFile "byte list" | NotRegular "byte list option"

fun bytes_read :: "file_node \<Rightarrow> byte list option" where
  "bytes_read (RegularFile content) = Some content"
| "bytes_read (NotRegular target) = target"

record journal =
  jn_open :: bool
  jn_build_session_id :: string
  jn_db :: journal_db
  jn_pending :: "string list"
  jn_completed :: "(string, file_node) std_map"

text \<open>
  The disk during one operation: the clock's text, the JSON and hash libraries, the bytes of a source
  file, the name and the bytes read back of the i-th file staged (none: an I/O error), what
  publishing the i-th does, and the names that cannot be read or removed. A failing publication may
  have renamed the file already (the directory could not be synced).
\<close>

datatype publish_outcome = PublishDone | PublishFailed | PublishUnsynced

record journal_env =
  je_codec :: json_codec
  je_now :: string
  je_source_file :: "string \<Rightarrow> byte list option"
  je_pending_name :: "nat \<Rightarrow> string"
  je_read_back :: "nat \<Rightarrow> byte list \<Rightarrow> byte list option"
  je_publish :: "nat \<Rightarrow> publish_outcome"
  je_unreadable :: "string \<Rightarrow> bool"
  je_unremovable :: "string \<Rightarrow> bool"
  je_pending_unlisted :: bool
  je_completed_unlisted :: bool

definition journal_completed_relative_path :: "string \<Rightarrow> string" where
  "journal_completed_relative_path hex = ''blobs/completed/'' @ hex"

text \<open>A function of the journal gives what it returns or throws, and the journal after it.\<close>

definition with_state :: "journal \<Rightarrow> (journal \<Rightarrow> (journal_fault + 'a) \<times> journal) \<Rightarrow> (journal_fault + 'a) \<times> journal" where
  "with_state j f = (if \<not> jn_open j then (Inl (JournalError closed), j) else f j)"

text \<open>A transaction, or a single statement: its effect is all or nothing.\<close>

definition transact :: "(journal_db \<Rightarrow> journal_fault + journal_db) \<Rightarrow> journal \<Rightarrow> (journal_fault + unit) \<times> journal" where
  "transact f j =
     with_state j (\<lambda>j. case f (jn_db j) of Inl e \<Rightarrow> (Inl e, j) | Inr db \<Rightarrow> (Inr (), j\<lparr>jn_db := db\<rparr>))"

definition require_record_identifier :: "string \<Rightarrow> journal_fault option" where
  "require_record_identifier v = guard_error (\<not> is_record_identifier v) (JournalError invalid_argument)"

subsection \<open>Sessions and sources (recovery\_journal.cpp)\<close>

definition insert_build_session :: "build_session_record \<Rightarrow> journal_db \<Rightarrow> journal_fault + journal_db" where
  "insert_build_session session db =
     and_then (checked (require_record_identifier (bs_id session)) ()) (\<lambda>_.
     and_then (insert_row (bs_id session)
         \<lparr>br_started_utc = bs_started_utc session, br_svp_version = bs_svp_version session,
          br_builder_version = bs_builder_version session,
          br_status = build_session_status_name (bs_status session)\<rparr> (db_build_session db)) (\<lambda>table.
     Inr (db\<lparr>db_build_session := table\<rparr>)))"

definition insert_source :: "source_fingerprint \<Rightarrow> journal_db \<Rightarrow> journal_fault + journal_db" where
  "insert_source source db =
     and_then (checked (require_record_identifier (sf_source_id source)) ()) (\<lambda>_.
     and_then (bind_unsigned (sf_size_bytes source)) (\<lambda>size_bytes.
     and_then (insert_row (sf_source_id source)
         \<lparr>sw_path = sf_path source, sw_size_bytes = size_bytes, sw_mtime_ns = sf_mtime_ns source,
          sw_blake3 = blake3_hex (sf_blake3 source)\<rparr> (db_source_fingerprint db)) (\<lambda>table.
     Inr (db\<lparr>db_source_fingerprint := table\<rparr>))))"

fun each_insert :: "('a \<Rightarrow> 'd \<Rightarrow> 'e + 'd) \<Rightarrow> 'a list \<Rightarrow> 'd \<Rightarrow> 'e + 'd" where
  "each_insert f [] db = Inr db"
| "each_insert f (x # xs) db = and_then (f x db) (each_insert f xs)"

text \<open>\<open>create\<close>, given whether the journal's directory exists; what it made is removed when it throws.\<close>

definition create_journal ::
  "bool \<Rightarrow> build_session_record \<Rightarrow> source_fingerprint list \<Rightarrow> journal_fault + journal" where
  "create_journal root_exists session sources =
     (if root_exists then Inl (JournalError already_exists)
      else and_then (insert_build_session session apply_journal_schema) (\<lambda>db.
           and_then (each_insert insert_source sources db) (\<lambda>db'.
           Inr \<lparr>jn_open = True, jn_build_session_id = bs_id session, jn_db = db', jn_pending = [],
                jn_completed = []\<rparr>)))"

definition record_build_session :: "build_session_record \<Rightarrow> journal \<Rightarrow> (journal_fault + unit) \<times> journal" where
  "record_build_session session = transact (insert_build_session session)"

definition update_build_session_status :: "string \<Rightarrow> build_session_status \<Rightarrow> journal_db \<Rightarrow> journal_db" where
  "update_build_session_status session_id status db =
     db\<lparr>db_build_session := map_modify session_id (\<lambda>row. row\<lparr>br_status := build_session_status_name status\<rparr>)
          (db_build_session db)\<rparr>"

definition set_build_session_status ::
  "string \<Rightarrow> build_session_status \<Rightarrow> journal \<Rightarrow> (journal_fault + unit) \<times> journal" where
  "set_build_session_status session_id status =
     transact (\<lambda>db.
       if map_of (db_build_session db) session_id = None then Inl (JournalError invalid_argument)
       else Inr (update_build_session_status session_id status db))"

definition close_journal :: "journal \<Rightarrow> journal" where
  "close_journal j = j\<lparr>jn_open := False\<rparr>"

datatype journal_retention = DeleteOnSuccess | RetainForDiagnostics

text \<open>\<open>finish_success\<close>: the journal's directory is removed unless it is retained.\<close>

definition finish_success :: "journal_retention \<Rightarrow> journal \<Rightarrow> (journal_fault + bool) \<times> journal" where
  "finish_success retention j =
     (case set_build_session_status (jn_build_session_id j) BuildSessionSucceeded j of
        (Inl e, j1) \<Rightarrow> (Inl e, j1)
      | (Inr _, j1) \<Rightarrow>
          if retention = RetainForDiagnostics then (Inr True, close_journal j1)
          else (Inr False, (close_journal j1)\<lparr>jn_db := apply_journal_schema, jn_pending := [],
                                              jn_completed := []\<rparr>))"

subsection \<open>Tasks (journal\_tasks.cpp)\<close>

definition read_task_state :: "journal_db \<Rightarrow> string \<Rightarrow> journal_fault + task_state option" where
  "read_task_state db task_id =
     (case map_of (db_task db) task_id of
        None \<Rightarrow> Inr None
      | Some row \<Rightarrow> (case parse_task_state (tw_status row) of
            None \<Rightarrow> Inl (JournalError database_error)
          | Some st \<Rightarrow> Inr (Some st)))"

definition require_task_state :: "journal_db \<Rightarrow> string \<Rightarrow> journal_fault + task_state" where
  "require_task_state db task_id =
     and_then (read_task_state db task_id) (\<lambda>st.
       case st of None \<Rightarrow> Inl (JournalError unknown_task) | Some st \<Rightarrow> Inr st)"

definition update_task :: "string \<Rightarrow> (task_row \<Rightarrow> task_row) \<Rightarrow> journal_db \<Rightarrow> journal_db" where
  "update_task task_id f db = db\<lparr>db_task := map_modify task_id f (db_task db)\<rparr>"

definition insert_dependency :: "string \<Rightarrow> string \<Rightarrow> journal_db \<Rightarrow> journal_fault + journal_db" where
  "insert_dependency task_id dependency db =
     and_then (insert_row (task_id, dependency) () (db_task_dependency db)) (\<lambda>table.
     Inr (db\<lparr>db_task_dependency := table\<rparr>))"

definition record_task :: "journal_task \<Rightarrow> journal \<Rightarrow> (journal_fault + unit) \<times> journal" where
  "record_task task j =
     (case first_error
        ([require_record_identifier (jt_task_id task),
          guard_error (jt_task_type task = []) (JournalError invalid_argument)]
         @ List.map require_record_identifier (jt_depends_on task)) of
        Some e \<Rightarrow> (Inl e, j)
      | None \<Rightarrow> transact (\<lambda>db.
          and_then (insert_row (jt_task_id task)
            \<lparr>tw_task_type = jt_task_type task, tw_status = task_state_name Planned,
             tw_cache_key = map_option blake3_prefixed (jt_cache_key task),
             tw_started_utc = None, tw_completed_utc = None, tw_output_blake3 = None\<rparr> (db_task db)) (\<lambda>table.
          each_insert (insert_dependency (jt_task_id task)) (jt_depends_on task) (db\<lparr>db_task := table\<rparr>))) j)"

definition set_task_state ::
  "journal_env \<Rightarrow> string \<Rightarrow> task_state \<Rightarrow> journal \<Rightarrow> (journal_fault + unit) \<times> journal" where
  "set_task_state env task_id next_state =
     transact (\<lambda>db.
       and_then (require_task_state db task_id) (\<lambda>current.
       if next_state = Committed \<or> \<not> is_task_transition_allowed current next_state
       then Inl (JournalError invalid_transition)
       else Inr (update_task task_id (\<lambda>row.
              row\<lparr>tw_status := task_state_name next_state,
                  tw_started_utc := (if next_state = Running then Some (je_now env) else tw_started_utc row)\<rparr>) db)))"

definition recorded_tasks :: "journal \<Rightarrow> journal_fault + (string \<times> string) list" where
  "recorded_tasks j =
     (if \<not> jn_open j then Inl (JournalError closed)
      else Inr (List.map (\<lambda>(task_id, row). (task_id, tw_task_type row)) (db_task (jn_db j))))"

definition journal_task_state :: "journal \<Rightarrow> string \<Rightarrow> journal_fault + task_state option" where
  "journal_task_state j task_id =
     (if \<not> jn_open j then Inl (JournalError closed) else read_task_state (jn_db j) task_id)"

fun artifact_ids_error :: "string list \<Rightarrow> string list \<Rightarrow> journal_fault option" where
  "artifact_ids_error seen [] = None"
| "artifact_ids_error seen (artifact_id # ids) =
     first_error
       [require_record_identifier artifact_id,
        guard_error (artifact_id \<in> set seen) (JournalError invalid_argument),
        artifact_ids_error (artifact_id # seen) ids]"

definition validate_commit :: "task_commit \<Rightarrow> journal_fault option" where
  "validate_commit commit =
     (let ids = List.map ai_artifact_id (tm_artifacts commit)
      in first_error
        [artifact_ids_error [] ids,
         (case tm_cache_hit commit of
            None \<Rightarrow> None
          | Some hit \<Rightarrow> guard_error (ch_artifact_id hit \<notin> set ids) (JournalError invalid_argument))])"

subsection \<open>Blobs (verified\_blob.cpp, journal\_artifact\_store.cpp)\<close>

record staged_blob =
  sb_pending_name :: string
  sb_digest :: digest
  sb_bytes :: u64
  sb_content :: "byte list"

datatype blob_check =
    BlobValid | BlobMissing | BlobNotRegularFile | BlobSizeMismatch | BlobDigestMismatch | BlobIoError

definition check_blob ::
  "journal_env \<Rightarrow> (string, file_node) std_map \<Rightarrow> string \<Rightarrow> digest \<Rightarrow> u64 option \<Rightarrow> blob_check" where
  "check_blob env files name expected expected_bytes =
     (case map_of files name of
        None \<Rightarrow> BlobMissing
      | Some (NotRegular _) \<Rightarrow> if je_unreadable env name then BlobIoError else BlobNotRegularFile
      | Some (RegularFile content) \<Rightarrow>
          if je_unreadable env name then BlobIoError
          else if (case expected_bytes of None \<Rightarrow> False | Some bytes \<Rightarrow> length content \<noteq> unat bytes) then BlobSizeMismatch
          else if jc_blake3 (je_codec env) content = expected then BlobValid else BlobDigestMismatch)"

text \<open>
  Staging writes the bytes to a new pending file and hashes what it reads back: a mismatch when that
  differs from what was written, or this from the digest expected.
\<close>

datatype stage_result = Staged staged_blob | StageIoError | StageDigestMismatch

definition stage_blob :: "journal_env \<Rightarrow> nat \<Rightarrow> byte list \<Rightarrow> digest option \<Rightarrow> stage_result" where
  "stage_blob env i written expected =
     (let blake3 = jc_blake3 (je_codec env)
      in case je_read_back env i written of
        None \<Rightarrow> StageIoError
      | Some on_disk \<Rightarrow>
          if blake3 on_disk \<noteq> blake3 written \<or> length on_disk \<noteq> length written
             \<or> (case expected of None \<Rightarrow> False | Some d \<Rightarrow> d \<noteq> blake3 written)
          then StageDigestMismatch
          else Staged \<lparr>sb_pending_name = je_pending_name env i, sb_digest = blake3 written,
                       sb_bytes = of_nat (length written), sb_content = on_disk\<rparr>)"

definition stage_artifact ::
  "journal_env \<Rightarrow> nat \<Rightarrow> artifact_input \<Rightarrow> journal_fault + staged_blob" where
  "stage_artifact env i artifact =
     (case (case ai_content artifact of InMemory bytes \<Rightarrow> Some bytes | FromFile path \<Rightarrow> je_source_file env path) of
        None \<Rightarrow> Inl (JournalError io_error)
      | Some written \<Rightarrow> (case stage_blob env i written (Some (ai_blake3 artifact)) of
            StageIoError \<Rightarrow> Inl (JournalError io_error)
          | StageDigestMismatch \<Rightarrow> Inl (JournalError artifact_mismatch)
          | Staged blob \<Rightarrow> Inr blob))"

fun stage_artifacts ::
  "journal_env \<Rightarrow> nat \<Rightarrow> artifact_input list \<Rightarrow> journal_fault + staged_blob list" where
  "stage_artifacts env i [] = Inr []"
| "stage_artifacts env i (artifact # artifacts) =
     and_then (stage_artifact env i artifact) (\<lambda>blob.
     and_then (stage_artifacts env (Suc i) artifacts) (\<lambda>blobs. Inr (blob # blobs)))"

text \<open>One staged blob is published; the flag says that the code goes on.\<close>

definition publish_blob ::
  "journal_env \<Rightarrow> nat \<Rightarrow> staged_blob \<Rightarrow> (string, file_node) std_map \<Rightarrow> bool \<times> (string, file_node) std_map" where
  "publish_blob env i blob files =
     (let hex = blake3_hex (sb_digest blob);
          renamed = map_assign hex (RegularFile (sb_content blob)) files
      in if check_blob env files hex (sb_digest blob) (Some (sb_bytes blob)) = BlobValid then (True, files)
         else case je_publish env i of
                PublishDone \<Rightarrow> (True, renamed)
              | PublishFailed \<Rightarrow> (False, files)
              | PublishUnsynced \<Rightarrow> (False, renamed))"

fun publish_blobs ::
  "journal_env \<Rightarrow> nat \<Rightarrow> staged_blob list \<Rightarrow> (string, file_node) std_map \<Rightarrow> bool \<times> (string, file_node) std_map" where
  "publish_blobs env i [] files = (True, files)"
| "publish_blobs env i (blob # blobs) files =
     (case publish_blob env i blob files of
        (True, files') \<Rightarrow> publish_blobs env (Suc i) blobs files'
      | (False, files') \<Rightarrow> (False, files'))"

text \<open>\<open>store_task_artifacts\<close>: the staged blobs, all published, or the error; and the files after it.\<close>

definition store_task_artifacts ::
  "journal_env \<Rightarrow> artifact_input list \<Rightarrow> (string, file_node) std_map
     \<Rightarrow> (journal_fault + (string \<times> u64) list) \<times> (string, file_node) std_map" where
  "store_task_artifacts env artifacts files =
     (case stage_artifacts env 0 artifacts of
        Inl e \<Rightarrow> (Inl e, files)
      | Inr staged \<Rightarrow>
          let (done, files') = publish_blobs env 0 staged files
          in (if done
              then Inr (List.map (\<lambda>blob. (journal_completed_relative_path (blake3_hex (sb_digest blob)),
                                          sb_bytes blob)) staged)
              else Inl (JournalError io_error), files'))"

subsection \<open>Committing a task (journal\_tasks.cpp)\<close>

definition model_refs_json :: "json_codec \<Rightarrow> string list \<Rightarrow> journal_fault + string" where
  "model_refs_json codec refs = as_exec_error (encode_canonical_json codec (JArray (List.map JString refs)))"

definition insert_artifact ::
  "journal_env \<Rightarrow> string \<Rightarrow> artifact_input \<times> string \<times> u64 \<Rightarrow> journal_db \<Rightarrow> journal_fault + journal_db" where
  "insert_artifact env task_id = (\<lambda>(artifact, relative_path, size) db.
     and_then (bind_unsigned size) (\<lambda>byte_length.
     and_then (insert_row (ai_artifact_id artifact)
       \<lparr>aw_task_id = task_id, aw_relative_path = relative_path, aw_blake3 = blake3_hex (ai_blake3 artifact),
        aw_byte_length = byte_length\<rparr> (db_artifact db)) (\<lambda>artifacts.
     and_then (model_refs_json (je_codec env) (pv_model_refs (ai_provenance artifact))) (\<lambda>refs.
     and_then (insert_row (ai_artifact_id artifact)
       \<lparr>pw_processor_id = pv_processor_id (ai_provenance artifact),
        pw_parameters_blake3 = blake3_hex (pv_parameters_blake3 (ai_provenance artifact)),
        pw_model_refs_json = refs\<rparr> (db_artifact_provenance db)) (\<lambda>provenance.
     Inr (db\<lparr>db_artifact := artifacts, db_artifact_provenance := provenance\<rparr>))))))"

definition insert_cache_hit :: "string \<Rightarrow> cache_hit option \<Rightarrow> journal_db \<Rightarrow> journal_fault + journal_db" where
  "insert_cache_hit task_id hit db =
     (case hit of
        None \<Rightarrow> Inr db
      | Some h \<Rightarrow> and_then (insert_row task_id
            \<lparr>hw_cache_key = blake3_prefixed (ch_cache_key h), hw_artifact_id = ch_artifact_id h,
             hw_verified = (if ch_verified h then 1 else 0)\<rparr> (db_cache_hit db)) (\<lambda>table.
          Inr (db\<lparr>db_cache_hit := table\<rparr>)))"

text \<open>The transaction of a commit.\<close>

definition commit_rows ::
  "journal_env \<Rightarrow> task_commit \<Rightarrow> (string \<times> u64) list \<Rightarrow> journal_db \<Rightarrow> journal_fault + journal_db" where
  "commit_rows env commit blobs db =
     and_then (each_insert (insert_artifact env (tm_task_id commit)) (zip (tm_artifacts commit) blobs) db) (\<lambda>db1.
     and_then (insert_cache_hit (tm_task_id commit) (tm_cache_hit commit) db1) (\<lambda>db2.
     Inr (update_task (tm_task_id commit) (\<lambda>row.
       row\<lparr>tw_status := task_state_name Committed, tw_output_blake3 := Some (blake3_hex (tm_output_blake3 commit)),
           tw_completed_utc := Some (je_now env)\<rparr>) db2)))"

definition commit_checks :: "task_commit \<Rightarrow> journal_db \<Rightarrow> journal_fault option" where
  "commit_checks commit db = first_error
     [validate_commit commit,
      (case require_task_state db (tm_task_id commit) of
         Inl e \<Rightarrow> Some e
       | Inr current \<Rightarrow> guard_error (current \<noteq> ResultReceived) (JournalError invalid_transition))]"

definition commit_task :: "journal_env \<Rightarrow> task_commit \<Rightarrow> journal \<Rightarrow> (journal_fault + unit) \<times> journal" where
  "commit_task env commit j =
     with_state j (\<lambda>j.
       case commit_checks commit (jn_db j) of
         Some e \<Rightarrow> (Inl e, j)
       | None \<Rightarrow>
           let (stored, files) = store_task_artifacts env (tm_artifacts commit) (jn_completed j)
           in (case stored of
                 Inl e \<Rightarrow> (Inl e, j\<lparr>jn_completed := files\<rparr>)
               | Inr blobs \<Rightarrow> transact (commit_rows env commit blobs) (j\<lparr>jn_completed := files\<rparr>)))"

text \<open>
  What a crash during a commit can leave on the disk: any of the pending files still there, after
  any of the publications, with the database as before; or the outcome of the commit.
\<close>

fun publish_states ::
  "journal_env \<Rightarrow> nat \<Rightarrow> staged_blob list \<Rightarrow> (string, file_node) std_map \<Rightarrow> (string, file_node) std_map list" where
  "publish_states env i [] files = [files]"
| "publish_states env i (blob # blobs) files =
     files # (case publish_blob env i blob files of
                (True, files') \<Rightarrow> publish_states env (Suc i) blobs files'
              | (False, files') \<Rightarrow> [files'])"

definition commit_crash_states :: "journal_env \<Rightarrow> task_commit \<Rightarrow> journal \<Rightarrow> journal list" where
  "commit_crash_states env commit j =
     snd (commit_task env commit j)
     # (if jn_open j \<and> commit_checks commit (jn_db j) = None
        then let names = List.map (je_pending_name env) [0..<length (tm_artifacts commit)]
             in List.map (\<lambda>n. j\<lparr>jn_pending := jn_pending j @ take n names\<rparr>) [0..<Suc (length names)]
                @ (case stage_artifacts env 0 (tm_artifacts commit) of
                     Inl _ \<Rightarrow> []
                   | Inr staged \<Rightarrow> List.map (\<lambda>files. j\<lparr>jn_pending := jn_pending j @ names, jn_completed := files\<rparr>)
                       (publish_states env 0 staged (jn_completed j)))
        else [])"

definition committed_artifact :: "string \<times> artifact_row \<Rightarrow> journal_fault + journal_artifact" where
  "committed_artifact = (\<lambda>(artifact_id, row).
     (case parse_blake3_hex (aw_blake3 row) of
        None \<Rightarrow> Inl (JournalError database_error)
      | Some blake3 \<Rightarrow>
          if aw_byte_length row < 0 \<or> aw_relative_path row \<noteq> journal_completed_relative_path (aw_blake3 row)
          then Inl (JournalError database_error)
          else Inr \<lparr>jf_artifact_id = artifact_id, jf_blake3 = blake3,
                    jf_byte_length = word_of_int (aw_byte_length row), jf_path = aw_blake3 row\<rparr>))"

text \<open>\<open>SELECT ... FROM artifact WHERE task_id = ?1 ORDER BY artifact_id\<close>\<close>

definition artifacts_of :: "journal_db \<Rightarrow> string \<Rightarrow> (string \<times> artifact_row) list" where
  "artifacts_of db task_id = filter (\<lambda>(_, row). aw_task_id row = task_id) (db_artifact db)"

text \<open>The path of a well-formed record is that of a file in blobs/completed: its name is kept here.\<close>

definition read_committed_task :: "journal \<Rightarrow> string \<Rightarrow> journal_fault + committed_task option" where
  "read_committed_task j task_id =
     (if \<not> jn_open j then Inl (JournalError closed)
      else and_then (require_task_state (jn_db j) task_id) (\<lambda>st.
        if st \<noteq> Committed then Inr None
        else
          case Option.bind (map_of (db_task (jn_db j)) task_id)
                 (\<lambda>row. Option.bind (tw_output_blake3 row) parse_blake3_hex) of
            None \<Rightarrow> Inl (JournalError database_error)
          | Some output \<Rightarrow>
              and_then (each_or_error committed_artifact (artifacts_of (jn_db j) task_id)) (\<lambda>artifacts.
              Inr (Some \<lparr>ct_task_id = task_id, ct_output_blake3 = output, ct_artifacts = artifacts\<rparr>))))"

subsection \<open>Other rows (journal\_distributed\_records.cpp)\<close>

definition record_failure ::
  "journal_env \<Rightarrow> string option \<Rightarrow> string \<Rightarrow> journal \<Rightarrow> (journal_fault + unit) \<times> journal" where
  "record_failure env task_id reason =
     transact (\<lambda>db. Inr (db\<lparr>db_failure := db_failure db
       @ [\<lparr>fw_task_id = task_id, fw_occurred_utc = je_now env, fw_reason = reason\<rparr>]\<rparr>))"

definition record_worker_session :: "worker_session_record \<Rightarrow> journal \<Rightarrow> (journal_fault + unit) \<times> journal" where
  "record_worker_session session j =
     (case require_record_identifier (ws_worker_session_id session) of
        Some e \<Rightarrow> (Inl e, j)
      | None \<Rightarrow> transact (\<lambda>db. Inr (db\<lparr>db_worker_session := map_assign (ws_worker_session_id session)
          \<lparr>ww_worker_id = ws_worker_id session, ww_runtime_id = map_option blake3_prefixed (ws_runtime_id session),
           ww_started_utc = ws_started_utc session, ww_ended_utc = ws_ended_utc session,
           ww_status = worker_session_status_name (ws_status session)\<rparr> (db_worker_session db)\<rparr>)) j)"

definition record_task_attempt :: "task_attempt \<Rightarrow> journal \<Rightarrow> (journal_fault + unit) \<times> journal" where
  "record_task_attempt a j =
     (case require_record_identifier (at_task_id a) of
        Some e \<Rightarrow> (Inl e, j)
      | None \<Rightarrow> transact (\<lambda>db.
          and_then (bind_unsigned_option (at_queue_ms a)) (\<lambda>queue.
          and_then (bind_unsigned_option (at_transfer_ms a)) (\<lambda>transfer.
          and_then (bind_unsigned_option (at_compute_ms a)) (\<lambda>compute.
          and_then (bind_unsigned_option (at_cpu_ms a)) (\<lambda>cpu.
          and_then (bind_unsigned_option (at_peak_rss_bytes a)) (\<lambda>peak.
          Inr (db\<lparr>db_task_attempt := map_assign (at_task_id a, uint (at_attempt a))
            \<lparr>rw_worker_session_id = at_worker_session_id a, rw_lease_id = at_lease_id a,
             rw_leased_utc = at_leased_utc a, rw_started_utc = at_started_utc a,
             rw_completed_utc = at_completed_utc a, rw_queue_ms = queue, rw_transfer_ms = transfer,
             rw_compute_ms = compute, rw_cpu_ms = cpu, rw_peak_rss_bytes = peak,
             rw_outcome = attempt_outcome_name (at_outcome a), rw_error = at_error a\<rparr> (db_task_attempt db)\<rparr>))))))) j)"

definition record_blob_location :: "journal_env \<Rightarrow> blob_location \<Rightarrow> journal \<Rightarrow> (journal_fault + unit) \<times> journal" where
  "record_blob_location env location j =
     (if bl_location location = [] then (Inl (JournalError invalid_argument), j)
      else transact (\<lambda>db.
        and_then (bind_unsigned (bl_byte_length location)) (\<lambda>byte_length.
        Inr (db\<lparr>db_blob_location := map_assign (blake3_hex (bl_blake3 location), bl_location location)
          \<lparr>lw_byte_length = byte_length, lw_recorded_utc = je_now env\<rparr> (db_blob_location db)\<rparr>))) j)"

end
