(* ===== verification/JournalResume.thy ===== *)
theory JournalResume
  imports Journal
begin

text \<open>
  Resuming a build from its journal (packages/svp-exec/src: journal\_resume.cpp,
  journal\_scheduler\_resume.cpp, journal\_committed\_results.cpp, committed\_result\_record.cpp), and
  the sink that commits the scheduler's results to it (journal\_result\_commit\_sink.cpp).
\<close>

subsection \<open>The report (journal\_resume.hpp)\<close>

record resumed_task =
  rt_task_id :: string
  rt_task_type :: string
  rt_state :: task_state
  rt_cache_key :: "digest option"
  rt_depends_on :: "string list"

datatype demotion_reason =
    ArtifactMissing | ArtifactNotRegularFile | ArtifactSizeMismatch | ArtifactHashMismatch
  | ArtifactRecordInvalid | OutputDigestMissing

fun demotion_reason_name :: "demotion_reason \<Rightarrow> string" where
  "demotion_reason_name ArtifactMissing = ''artifact_missing''"
| "demotion_reason_name ArtifactNotRegularFile = ''artifact_not_regular_file''"
| "demotion_reason_name ArtifactSizeMismatch = ''artifact_size_mismatch''"
| "demotion_reason_name ArtifactHashMismatch = ''artifact_hash_mismatch''"
| "demotion_reason_name ArtifactRecordInvalid = ''artifact_record_invalid''"
| "demotion_reason_name OutputDigestMissing = ''output_digest_missing''"

record demoted_task =
  dt_task_id :: string
  dt_artifact_id :: string
  dt_reason :: demotion_reason

record resume_report =
  rr_tasks :: "resumed_task list"
  rr_demoted :: "demoted_task list"
  rr_discarded_pending_blobs :: nat
  rr_discarded_completed_blobs :: nat
  rr_abandoned_attempts :: nat

subsection \<open>The steps of a resume (journal\_resume.cpp)\<close>

fun verify_each_source ::
  "(string, source_row) std_map \<Rightarrow> source_fingerprint list \<Rightarrow> journal_fault option" where
  "verify_each_source recorded [] = None"
| "verify_each_source recorded (source # sources) =
     (case map_of recorded (sf_source_id source) of
        None \<Rightarrow> Some (JournalError source_mismatch)
      | Some row \<Rightarrow>
          if (word_of_int (sw_size_bytes row) :: u64) \<noteq> sf_size_bytes source
             \<or> sw_blake3 row \<noteq> blake3_hex (sf_blake3 source)
          then Some (JournalError source_mismatch) else verify_each_source recorded sources)"

definition verify_sources :: "journal_db \<Rightarrow> source_fingerprint list \<Rightarrow> journal_fault option" where
  "verify_sources db current_sources = first_error
     [verify_each_source (db_source_fingerprint db) current_sources,
      guard_error (\<exists>source_id \<in> fst ` set (db_source_fingerprint db).
                     source_id \<notin> sf_source_id ` set current_sources) (JournalError source_mismatch)]"

definition discard_pending :: "journal_env \<Rightarrow> string list \<Rightarrow> journal_fault + nat \<times> string list" where
  "discard_pending env pending =
     (if je_pending_unlisted env then Inl (JournalError io_error)
      else Inr (length (filter (\<lambda>name. \<not> je_unremovable env name) pending),
                filter (je_unremovable env) pending))"

fun demotion_for :: "blob_check \<Rightarrow> demotion_reason option" where
  "demotion_for BlobValid = None"
| "demotion_for BlobMissing = Some ArtifactMissing"
| "demotion_for BlobNotRegularFile = Some ArtifactNotRegularFile"
| "demotion_for BlobSizeMismatch = Some ArtifactSizeMismatch"
| "demotion_for BlobDigestMismatch = Some ArtifactHashMismatch"
| "demotion_for BlobIoError = Some ArtifactMissing"

text \<open>The results of the verifier so far, by relative path.\<close>

type_synonym verifier = "(string, demotion_reason option) std_map"

definition verifier_check ::
  "journal_env \<Rightarrow> (string, file_node) std_map \<Rightarrow> artifact_row \<Rightarrow> verifier
     \<Rightarrow> journal_fault + demotion_reason option \<times> verifier" where
  "verifier_check env files row results =
     (case parse_blake3_hex (aw_blake3 row) of
        None \<Rightarrow> Inr (Some ArtifactRecordInvalid, results)
      | Some blake3 \<Rightarrow>
          if aw_byte_length row < 0 \<or> aw_relative_path row \<noteq> journal_completed_relative_path (aw_blake3 row)
          then Inr (Some ArtifactRecordInvalid, results)
          else case map_of results (aw_relative_path row) of
            Some cached \<Rightarrow> Inr (cached, results)
          | None \<Rightarrow>
              let result = check_blob env files (aw_blake3 row) blake3 (Some (word_of_int (aw_byte_length row)))
              in if result = BlobIoError then Inl (JournalError io_error)
                 else Inr (demotion_for result, map_assign (aw_relative_path row) (demotion_for result) results))"

text \<open>The first of a task's artifacts that fails.\<close>

fun verify_artifacts ::
  "journal_env \<Rightarrow> (string, file_node) std_map \<Rightarrow> (string \<times> artifact_row) list \<Rightarrow> verifier
     \<Rightarrow> journal_fault + (string \<times> demotion_reason) option \<times> verifier" where
  "verify_artifacts env files [] results = Inr (None, results)"
| "verify_artifacts env files ((artifact_id, row) # rows) results =
     and_then (verifier_check env files row results) (\<lambda>(reason, results').
       case reason of
         Some r \<Rightarrow> Inr (Some (artifact_id, r), results')
       | None \<Rightarrow> verify_artifacts env files rows results')"

definition demote_task :: "string \<Rightarrow> journal_db \<Rightarrow> journal_db" where
  "demote_task task_id db =
     (let ids = List.map fst (artifacts_of db task_id)
      in update_task task_id (\<lambda>row. row\<lparr>tw_status := task_state_name Planned, tw_output_blake3 := None,
                                        tw_completed_utc := None\<rparr>)
           (db\<lparr>db_artifact_provenance := filter (\<lambda>(id, _). id \<notin> set ids) (db_artifact_provenance db),
               db_artifact := filter (\<lambda>(_, row). aw_task_id row \<noteq> task_id) (db_artifact db),
               db_cache_hit := map_erase task_id (db_cache_hit db)\<rparr>))"

definition verify_task ::
  "journal_env \<Rightarrow> (string, file_node) std_map \<Rightarrow> journal_db \<Rightarrow> string \<Rightarrow> bool \<Rightarrow> verifier
     \<Rightarrow> journal_fault + demoted_task option \<times> verifier" where
  "verify_task env files db task_id has_output results =
     (if \<not> has_output
      then Inr (Some \<lparr>dt_task_id = task_id, dt_artifact_id = [], dt_reason = OutputDigestMissing\<rparr>, results)
      else and_then (verify_artifacts env files (artifacts_of db task_id) results) (\<lambda>(failure, results').
             Inr (map_option (\<lambda>(artifact_id, reason).
               \<lparr>dt_task_id = task_id, dt_artifact_id = artifact_id, dt_reason = reason\<rparr>) failure, results')))"

fun verify_tasks ::
  "journal_env \<Rightarrow> (string, file_node) std_map \<Rightarrow> (string \<times> bool) list \<Rightarrow> verifier \<Rightarrow> journal_db
     \<Rightarrow> journal_fault + demoted_task list \<times> journal_db" where
  "verify_tasks env files [] results db = Inr ([], db)"
| "verify_tasks env files ((task_id, has_output) # tasks) results db =
     and_then (verify_task env files db task_id has_output results) (\<lambda>(failure, results').
       case failure of
         None \<Rightarrow> verify_tasks env files tasks results' db
       | Some d \<Rightarrow> and_then (verify_tasks env files tasks results' (demote_task task_id db)) (\<lambda>(demoted, db').
           Inr (d # demoted, db')))"

definition verify_committed_tasks ::
  "journal_env \<Rightarrow> (string, file_node) std_map \<Rightarrow> journal_db \<Rightarrow> journal_fault + demoted_task list \<times> journal_db" where
  "verify_committed_tasks env files db =
     verify_tasks env files
       (List.map (\<lambda>(task_id, row). (task_id, tw_output_blake3 row \<noteq> None))
         (filter (\<lambda>(_, row). tw_status row = task_state_name Committed) (db_task db)))
       [] db"

definition discard_unreferenced_completed ::
  "journal_env \<Rightarrow> journal_db \<Rightarrow> (string, file_node) std_map \<Rightarrow> journal_fault + nat \<times> (string, file_node) std_map" where
  "discard_unreferenced_completed env db files =
     (if je_completed_unlisted env then Inl (JournalError io_error)
      else
        let referenced = List.map (\<lambda>(_, row). aw_relative_path row) (db_artifact db);
            kept = (\<lambda>(name, _). journal_completed_relative_path name \<in> set referenced \<or> je_unremovable env name)
        in Inr (length files - length (filter kept files), filter kept files))"

text \<open>The dependencies of a task, in order.\<close>

definition dependencies_of :: "journal_db \<Rightarrow> string \<Rightarrow> string list" where
  "dependencies_of db task_id =
     List.map (\<lambda>((_, dependency), _). dependency) (filter (\<lambda>((t, _), _). t = task_id) (db_task_dependency db))"

definition read_resumed_task :: "journal_db \<Rightarrow> string \<times> task_row \<Rightarrow> journal_fault + resumed_task" where
  "read_resumed_task db = (\<lambda>(task_id, row).
     and_then (case tw_cache_key row of
         None \<Rightarrow> Inr None
       | Some text \<Rightarrow> (case parse_blake3_prefixed text of
             None \<Rightarrow> Inl (JournalError database_error) | Some key \<Rightarrow> Inr (Some key))) (\<lambda>cache_key.
     Inr \<lparr>rt_task_id = task_id, rt_task_type = tw_task_type row,
          rt_state = (case parse_task_state (tw_status row) of None \<Rightarrow> Planned | Some st \<Rightarrow> st),
          rt_cache_key = cache_key, rt_depends_on = dependencies_of db task_id\<rparr>))"

definition resume_state :: "resumed_task list \<Rightarrow> resumed_task \<Rightarrow> resumed_task" where
  "resume_state tasks task =
     (if rt_state task = Committed then task
      else task\<lparr>rt_state :=
        (if list_all (\<lambda>d. \<exists>t \<in> set tasks. rt_task_id t = d \<and> rt_state t = Committed) (rt_depends_on task)
         then Ready else Planned)\<rparr>)"

definition write_resumed_state :: "resumed_task \<Rightarrow> journal_db \<Rightarrow> journal_db" where
  "write_resumed_state task db =
     (if rt_state task = Committed then db
      else update_task (rt_task_id task) (\<lambda>row. row\<lparr>tw_status := task_state_name (rt_state task)\<rparr>) db)"

definition reset_incomplete_tasks :: "journal_db \<Rightarrow> journal_fault + resumed_task list \<times> journal_db" where
  "reset_incomplete_tasks db =
     and_then (each_or_error (read_resumed_task db) (db_task db)) (\<lambda>tasks.
       let resumed = List.map (resume_state tasks) tasks
       in Inr (resumed, fold write_resumed_state resumed db))"

definition abandon_open_attempts :: "journal_db \<Rightarrow> nat \<times> journal_db" where
  "abandon_open_attempts db =
     (let is_open = (\<lambda>row. rw_outcome row \<in> {attempt_outcome_name AttemptLeased, attempt_outcome_name AttemptRunning})
      in (length (filter (\<lambda>(_, row). is_open row) (db_task_attempt db)),
          db\<lparr>db_task_attempt := List.map (\<lambda>(key, row).
               (key, if is_open row then row\<lparr>rw_outcome := attempt_outcome_name AttemptAbandoned\<rparr> else row))
                 (db_task_attempt db),
             db_worker_session := List.map (\<lambda>(key, row).
               (key, if ww_status row = worker_session_status_name WorkerSessionActive
                     then row\<lparr>ww_status := worker_session_status_name WorkerSessionLost\<rparr> else row))
                 (db_worker_session db)\<rparr>))"

text \<open>The transaction of a resume.\<close>

definition resume_rows ::
  "journal_env \<Rightarrow> string \<Rightarrow> (string, file_node) std_map \<Rightarrow> journal_db
     \<Rightarrow> journal_fault + (demoted_task list \<times> resumed_task list \<times> nat) \<times> journal_db" where
  "resume_rows env session_id files db =
     and_then (verify_committed_tasks env files db) (\<lambda>(demoted, db1).
     and_then (reset_incomplete_tasks db1) (\<lambda>(tasks, db2).
       let (abandoned, db3) = abandon_open_attempts db2
       in Inr ((demoted, tasks, abandoned), update_build_session_status session_id BuildSessionActive db3)))"

definition journal_resume ::
  "journal_env \<Rightarrow> source_fingerprint list \<Rightarrow> journal \<Rightarrow> (journal_fault + resume_report) \<times> journal" where
  "journal_resume env current_sources j =
     with_state j (\<lambda>j.
       case verify_sources (jn_db j) current_sources of
         Some e \<Rightarrow> (Inl e, j)
       | None \<Rightarrow> (case discard_pending env (jn_pending j) of
           Inl e \<Rightarrow> (Inl e, j)
         | Inr (discarded_pending, pending) \<Rightarrow>
             let j1 = j\<lparr>jn_pending := pending\<rparr>
             in (case resume_rows env (jn_build_session_id j) (jn_completed j) (jn_db j) of
                   Inl e \<Rightarrow> (Inl e, j1)
                 | Inr ((demoted, tasks, abandoned), db) \<Rightarrow>
                     let j2 = j1\<lparr>jn_db := db\<rparr>
                     in (case discard_unreferenced_completed env db (jn_completed j) of
                           Inl e \<Rightarrow> (Inl e, j2)
                         | Inr (discarded, files) \<Rightarrow>
                             (Inr \<lparr>rr_tasks = tasks, rr_demoted = demoted,
                                   rr_discarded_pending_blobs = discarded_pending,
                                   rr_discarded_completed_blobs = discarded, rr_abandoned_attempts = abandoned\<rparr>,
                              j2\<lparr>jn_completed := files\<rparr>)))))"

end
