(* ===== verification/JournalSink.thy ===== *)
theory JournalSink
  imports JournalResume Results
begin

text \<open>
  The journal as the scheduler uses it (packages/svp-exec/src): the sink its results are committed to
  (journal\_result\_commit\_sink.cpp, committed\_result\_record.cpp), recording a task graph and resuming
  it (journal\_scheduler\_resume.cpp), and reading the committed results back
  (journal\_committed\_results.cpp). One environment serves all the calls of an operation.
\<close>

subsection \<open>The record of a committed result (committed\_result\_record.cpp)\<close>

definition kCommittedResultRecordSchema :: string where
  "kCommittedResultRecordSchema = ''svp-journal-committed-result-v1''"

definition encode_committed_result_record ::
  "json_codec \<Rightarrow> json task_result \<Rightarrow> string \<Rightarrow> exec_error_code + string" where
  "encode_committed_result_record codec result executor_id =
     and_then (task_result_to_json codec result) (\<lambda>task_result.
     encode_canonical_json codec (json_object
       [(''executor_id'', JString executor_id),
        (''schema'', JString kCommittedResultRecordSchema),
        (''task_result'', task_result)]))"

definition decode_committed_result_record ::
  "json_codec \<Rightarrow> string \<Rightarrow> exec_error_code + json task_result \<times> string" where
  "decode_committed_result_record codec bytes =
     and_then (decode_canonical_json codec bytes) (\<lambda>v.
     and_then (checked (require_object v) ()) (\<lambda>_.
     and_then (checked (reject_unknown_fields [''executor_id'', ''schema'', ''task_result''] v) ()) (\<lambda>_.
     and_then (required_string v ''schema'') (\<lambda>schema.
     if schema \<noteq> kCommittedResultRecordSchema then Inl invalid_value else
     and_then (and_then (required_object v ''task_result'') (task_result_from_json codec)) (\<lambda>result.
     and_then (required_string v ''executor_id'') (\<lambda>executor_id.
     Inr (result, executor_id)))))))"

subsection \<open>The sink (journal\_result\_commit\_sink.cpp)\<close>

fun next_toward_result :: "task_state \<Rightarrow> task_state option" where
  "next_toward_result Planned = Some Ready"
| "next_toward_result FailedRetryable = Some Ready"
| "next_toward_result Ready = Some Running"
| "next_toward_result Leased = Some Running"
| "next_toward_result Running = Some ResultReceived"
| "next_toward_result ResultReceived = None"
| "next_toward_result Committed = None"
| "next_toward_result FailedPermanent = None"

text \<open>How many edges a state is away from \<open>ResultReceived\<close>: the loop goes on at most that often.\<close>

fun result_distance :: "task_state \<Rightarrow> nat" where
  "result_distance Planned = 3"
| "result_distance FailedRetryable = 3"
| "result_distance Ready = 2"
| "result_distance Leased = 2"
| "result_distance Running = 1"
| "result_distance _ = 0"

lemma next_toward_result_closer: "next_toward_result st = Some n \<Longrightarrow> result_distance n < result_distance st"
  by (cases st) auto

function advance_from ::
  "journal_env \<Rightarrow> string \<Rightarrow> task_state \<Rightarrow> journal \<Rightarrow> (journal_fault + unit) \<times> journal" where
  "advance_from env task_id st j =
     (if st = ResultReceived then (Inr (), j)
      else case next_toward_result st of
        None \<Rightarrow> (Inl (ExecError invalid_value), j)
      | Some n \<Rightarrow> (case set_task_state env task_id n j of
            (Inl e, j') \<Rightarrow> (Inl e, j')
          | (Inr _, j') \<Rightarrow> advance_from env task_id n j'))"
  by pat_completeness auto
termination
  by (relation "measure (\<lambda>(env, task_id, st, j). result_distance st)") (auto dest: next_toward_result_closer)

declare advance_from.simps [simp del]

definition advance_to_result_received ::
  "journal_env \<Rightarrow> string \<Rightarrow> journal \<Rightarrow> (journal_fault + unit) \<times> journal" where
  "advance_to_result_received env task_id j =
     (case journal_task_state j task_id of
        Inl e \<Rightarrow> (Inl e, j)
      | Inr None \<Rightarrow> (Inl (ExecError invalid_value), j)
      | Inr (Some st) \<Rightarrow> advance_from env task_id st j)"

definition provenance_of :: "json task_spec \<Rightarrow> artifact_provenance" where
  "provenance_of spec =
     \<lparr>pv_processor_id = ts_task_type spec @ ''@'' @ to_string (unat (ts_task_type_version spec)),
      pv_parameters_blake3 = ts_parameters_blake3 spec,
      pv_model_refs = List.map mr_model_bundle_id (ts_model_refs spec)\<rparr>"

definition require_result_of :: "json task_spec \<Rightarrow> json committed_result \<Rightarrow> string \<Rightarrow> journal_fault option" where
  "require_result_of spec committed journal_session =
     (let result = cr_result committed
      in first_error
        [guard_error (ts_build_session_id spec \<noteq> journal_session) (ExecError invalid_value),
         guard_error (tr_task_id result \<noteq> ts_task_id spec \<or> tr_status result \<noteq> task_succeeded
                      \<or> length (cr_payloads committed) \<noteq> length (tr_outputs result)) (ExecError invalid_value),
         guard_error (tr_attempt result > 2 ^ 32 - 1) (ExecError invalid_value)])"

definition attempt_row :: "json task_result \<Rightarrow> task_attempt" where
  "attempt_row result =
     (let execution = tr_execution result
      in \<lparr>at_task_id = tr_task_id result, at_attempt = of_nat (tr_attempt result),
          at_worker_session_id = Some (tx_worker_session_id execution), at_lease_id = None,
          at_leased_utc = None, at_started_utc = None, at_completed_utc = None,
          at_queue_ms = Some (tm_queue (tx_timing_ms execution)), at_transfer_ms = None,
          at_compute_ms = Some (tm_compute (tx_timing_ms execution)),
          at_cpu_ms = Some (tc_user (tx_cpu_ms execution) + tc_system (tx_cpu_ms execution)),
          at_peak_rss_bytes = Some (tx_peak_rss_bytes execution),
          at_outcome = AttemptSucceeded, at_error = None\<rparr>)"

definition journal_result_artifact_id :: "string \<Rightarrow> string" where
  "journal_result_artifact_id task_id = task_id @ ''.result''"

definition journal_output_artifact_id :: "string \<Rightarrow> nat \<Rightarrow> string" where
  "journal_output_artifact_id task_id output_index = task_id @ ''.output.'' @ to_string output_index"

definition commit_of ::
  "journal_env \<Rightarrow> json task_spec \<Rightarrow> json committed_result \<Rightarrow> string \<Rightarrow> task_commit" where
  "commit_of env spec committed result_record =
     (let result = cr_result committed
      in \<lparr>tm_task_id = ts_task_id spec, tm_output_blake3 = tr_output_digest result,
          tm_artifacts =
            List.map (\<lambda>(index, ref, payload).
              \<lparr>ai_artifact_id = journal_output_artifact_id (ts_task_id spec) index,
               ai_blake3 = ar_blake3 ref, ai_content = InMemory payload, ai_provenance = provenance_of spec\<rparr>)
              (zip [0..<length (tr_outputs result)] (zip (tr_outputs result) (cr_payloads committed)))
            @ [\<lparr>ai_artifact_id = journal_result_artifact_id (ts_task_id spec),
                ai_blake3 = jc_blake3 (je_codec env) (string_bytes result_record),
                ai_content = InMemory (string_bytes result_record), ai_provenance = provenance_of spec\<rparr>],
          tm_cache_hit = None\<rparr>)"

text \<open>The calls a sink's commit makes, one after another; the first that throws ends it.\<close>

definition then_call ::
  "(journal_fault + 'a) \<times> journal \<Rightarrow> ('a \<Rightarrow> journal \<Rightarrow> (journal_fault + 'b) \<times> journal)
     \<Rightarrow> (journal_fault + 'b) \<times> journal" where
  "then_call r f = (case r of (Inl e, j) \<Rightarrow> (Inl e, j) | (Inr x, j) \<Rightarrow> f x j)"

definition journal_sink_commit ::
  "journal_env \<Rightarrow> json task_spec \<Rightarrow> json committed_result \<Rightarrow> journal \<Rightarrow> (journal_fault + unit) \<times> journal" where
  "journal_sink_commit env spec committed j =
     with_state j (\<lambda>j.
       case require_result_of spec committed (jn_build_session_id j) of
         Some e \<Rightarrow> (Inl e, j)
       | None \<Rightarrow>
           then_call (advance_to_result_received env (ts_task_id spec) j) (\<lambda>_ j1.
           then_call (as_exec_error (encode_committed_result_record (je_codec env) (cr_result committed)
                        (cr_executor_id committed)), j1) (\<lambda>result_record j1.
           then_call (commit_task env (commit_of env spec committed result_record) j1) (\<lambda>_ j2.
           record_task_attempt (attempt_row (cr_result committed)) j2))))"

subsection \<open>Reading committed results back (journal\_committed\_results.cpp)\<close>

definition find_artifact :: "committed_task \<Rightarrow> string \<Rightarrow> journal_fault + journal_artifact" where
  "find_artifact task artifact_id =
     (case List.find (\<lambda>a. jf_artifact_id a = artifact_id) (ct_artifacts task) of
        None \<Rightarrow> Inl (ExecError invalid_value) | Some a \<Rightarrow> Inr a)"

definition read_verified ::
  "journal_env \<Rightarrow> (string, file_node) std_map \<Rightarrow> journal_artifact \<Rightarrow> journal_fault + byte list" where
  "read_verified env files artifact =
     (case Option.bind (map_of files (jf_path artifact)) bytes_read of
        Some content \<Rightarrow>
          if je_unreadable env (jf_path artifact) \<or> length content \<noteq> unat (jf_byte_length artifact)
             \<or> jc_blake3 (je_codec env) content \<noteq> jf_blake3 artifact
          then Inl (ExecError digest_mismatch) else Inr content
      | None \<Rightarrow> Inl (ExecError digest_mismatch))"

definition read_output ::
  "journal_env \<Rightarrow> (string, file_node) std_map \<Rightarrow> committed_task \<Rightarrow> string \<Rightarrow> nat \<times> artifact_ref
     \<Rightarrow> journal_fault + byte list" where
  "read_output env files task task_id = (\<lambda>(index, ref).
     and_then (find_artifact task (journal_output_artifact_id task_id index)) (\<lambda>artifact.
     if jf_blake3 artifact \<noteq> ar_blake3 ref \<or> jf_byte_length artifact \<noteq> ar_bytes ref
     then Inl (ExecError invalid_value) else read_verified env files artifact))"

definition read_committed_result ::
  "journal_env \<Rightarrow> (string, file_node) std_map \<Rightarrow> committed_task \<Rightarrow> json task_spec
     \<Rightarrow> journal_fault + json committed_result" where
  "read_committed_result env files task spec =
     and_then (and_then (find_artifact task (journal_result_artifact_id (ts_task_id spec)))
                 (read_verified env files)) (\<lambda>record_bytes.
     and_then (as_exec_error (decode_committed_result_record (je_codec env) (bytes_string record_bytes)))
       (\<lambda>(result, executor_id).
     if tr_task_id result \<noteq> ts_task_id spec \<or> tr_status result \<noteq> task_succeeded
        \<or> tr_output_digest result \<noteq> ct_output_blake3 task
        \<or> length (ct_artifacts task) \<noteq> length (tr_outputs result) + 1
     then Inl (ExecError invalid_value)
     else and_then (each_or_error (read_output env files task (ts_task_id spec))
                      (zip [0..<length (tr_outputs result)] (tr_outputs result))) (\<lambda>payloads.
          Inr \<lparr>cr_result = result, cr_payloads = payloads, cr_executor_id = executor_id\<rparr>)))"

fun load_each ::
  "journal_env \<Rightarrow> journal \<Rightarrow> json task_node list \<Rightarrow> journal_fault + json committed_result list" where
  "load_each env j [] = Inr []"
| "load_each env j (node # nodes) =
     and_then (read_committed_task j (node_id node)) (\<lambda>task.
       case task of
         None \<Rightarrow> load_each env j nodes
       | Some t \<Rightarrow>
           and_then (read_committed_result env (jn_completed j) t (tn_spec node)) (\<lambda>result.
           and_then (load_each env j nodes) (\<lambda>results. Inr (result # results))))"

definition load_committed_results ::
  "journal_env \<Rightarrow> journal \<Rightarrow> json task_graph \<Rightarrow> journal_fault + json committed_result list" where
  "load_committed_results env j graph = load_each env j (tg_nodes graph)"

subsection \<open>The graph of a build (journal\_scheduler\_resume.cpp)\<close>

definition require_session :: "string \<Rightarrow> json task_spec \<Rightarrow> journal_fault option" where
  "require_session journal_session spec =
     guard_error (ts_build_session_id spec \<noteq> journal_session) (ExecError invalid_value)"

definition graph_task :: "json task_spec \<Rightarrow> journal_task" where
  "graph_task spec =
     \<lparr>jt_task_id = ts_task_id spec, jt_task_type = ts_task_type spec, jt_cache_key = Some (ts_cache_key spec),
      jt_depends_on = ts_depends_on spec\<rparr>"

fun record_each :: "json task_spec list \<Rightarrow> journal \<Rightarrow> (journal_fault + unit) \<times> journal" where
  "record_each [] j = (Inr (), j)"
| "record_each (spec # specs) j =
     (case record_task (graph_task spec) j of
        (Inl e, j') \<Rightarrow> (Inl e, j')
      | (Inr _, j') \<Rightarrow> record_each specs j')"

definition record_task_graph :: "json task_graph \<Rightarrow> journal \<Rightarrow> (journal_fault + unit) \<times> journal" where
  "record_task_graph graph j =
     with_state j (\<lambda>j.
       case first_error (List.map (\<lambda>node. require_session (jn_build_session_id j) (tn_spec node)) (tg_nodes graph)) of
         Some e \<Rightarrow> (Inl e, j)
       | None \<Rightarrow> record_each (List.map tn_spec (tg_nodes graph)) j)"

definition require_same_task :: "resumed_task \<Rightarrow> json task_spec \<Rightarrow> journal_fault option" where
  "require_same_task journaled spec = first_error
     [guard_error (rt_task_type journaled \<noteq> ts_task_type spec) (ExecError invalid_value),
      guard_error (rt_depends_on journaled \<noteq> ts_depends_on spec) (ExecError invalid_value),
      guard_error (rt_cache_key journaled \<noteq> Some (ts_cache_key spec)) (ExecError invalid_value)]"

definition require_planned_task :: "json task_graph \<Rightarrow> resumed_task \<Rightarrow> journal_fault option" where
  "require_planned_task graph task =
     (case tg_find graph (rt_task_id task) of
        None \<Rightarrow> Some (ExecError invalid_value)
      | Some index \<Rightarrow> require_same_task task (tn_spec (tg_nodes graph ! index)))"

record scheduler_resume_state =
  ss_report :: resume_report
  ss_committed :: "json committed_result list"

definition resume_scheduler_state ::
  "journal_env \<Rightarrow> json task_graph \<Rightarrow> source_fingerprint list \<Rightarrow> journal
     \<Rightarrow> (journal_fault + scheduler_resume_state) \<times> journal" where
  "resume_scheduler_state env graph current_sources j =
     with_state j (\<lambda>j.
       case first_error (List.map (\<lambda>node. require_session (jn_build_session_id j) (tn_spec node)) (tg_nodes graph)) of
         Some e \<Rightarrow> (Inl e, j)
       | None \<Rightarrow>
           then_call (journal_resume env current_sources j) (\<lambda>report j1.
             case first_error (List.map (require_planned_task graph) (rr_tasks report)) of
               Some e \<Rightarrow> (Inl e, j1)
             | None \<Rightarrow>
                 then_call (record_each (filter (\<lambda>spec. ts_task_id spec \<notin> rt_task_id ` set (rr_tasks report))
                              (List.map tn_spec (tg_nodes graph))) j1) (\<lambda>_ j2.
                 (and_then (load_committed_results env j2 graph) (\<lambda>results.
                    Inr \<lparr>ss_report = report, ss_committed = results\<rparr>), j2))))"

end
