(* ===== verification/JournalFacts.thy ===== *)
theory JournalFacts
  imports JournalSink
begin

text \<open>
  What the journal keeps: every artifact row names a file in blobs/completed with the row's digest and
  length, and belongs to a committed task. It survives every operation, and a crash at any point of a
  commit.
\<close>

subsection \<open>Sound journals\<close>

text \<open>The files of blobs/completed hold contents of a given set, each under the hex of its digest.\<close>

definition files_ok :: "json_codec \<Rightarrow> byte list set \<Rightarrow> (string, file_node) std_map \<Rightarrow> bool" where
  "files_ok codec S files \<longleftrightarrow> map_wf files \<and>
     (\<forall>(name, node) \<in> set files. \<exists>content \<in> S. node = RegularFile content \<and> name = blake3_hex (jc_blake3 codec content))"

definition row_sound :: "json_codec \<Rightarrow> (string, file_node) std_map \<Rightarrow> artifact_row \<Rightarrow> bool" where
  "row_sound codec files row \<longleftrightarrow>
     (\<exists>content. map_of files (aw_blake3 row) = Some (RegularFile content)
        \<and> aw_blake3 row = blake3_hex (jc_blake3 codec content)
        \<and> aw_byte_length row = int (length content) \<and> length content < 2 ^ 63)
     \<and> aw_relative_path row = journal_completed_relative_path (aw_blake3 row)"

definition is_committed :: "journal_db \<Rightarrow> string \<Rightarrow> bool" where
  "is_committed db task_id \<longleftrightarrow>
     (\<exists>row. map_of (db_task db) task_id = Some row \<and> tw_status row = task_state_name Committed)"

lemma is_committed_code [code]:
  "is_committed db task_id =
     (case map_of (db_task db) task_id of None \<Rightarrow> False | Some row \<Rightarrow> tw_status row = task_state_name Committed)"
  by (auto simp: is_committed_def split: option.splits)

lemma is_committed_update [simp]:
  "is_committed (db\<lparr>db_task_dependency := x1\<rparr>) = is_committed db"
  "is_committed (db\<lparr>db_artifact := x2\<rparr>) = is_committed db"
  "is_committed (db\<lparr>db_artifact_provenance := x3\<rparr>) = is_committed db"
  "is_committed (db\<lparr>db_cache_hit := x4\<rparr>) = is_committed db"
  by (simp_all add: is_committed_def fun_eq_iff)

definition task_row_ok :: "task_row \<Rightarrow> bool" where
  "task_row_ok row \<longleftrightarrow> parse_task_state (tw_status row) \<noteq> None
     \<and> (tw_status row = task_state_name Committed \<longrightarrow> (\<exists>d. is_digest d \<and> tw_output_blake3 row = Some (blake3_hex d)))
     \<and> (\<forall>text. tw_cache_key row = Some text \<longrightarrow> parse_blake3_prefixed text \<noteq> None)"

definition tables_wf :: "journal_db \<Rightarrow> bool" where
  "tables_wf db \<longleftrightarrow> map_wf (db_task db) \<and> map_wf (db_task_dependency db) \<and> map_wf (db_artifact db)
     \<and> map_wf (db_artifact_provenance db) \<and> map_wf (db_cache_hit db)"

definition db_sound :: "json_codec \<Rightarrow> (string, file_node) std_map \<Rightarrow> journal_db \<Rightarrow> bool" where
  "db_sound codec files db \<longleftrightarrow> tables_wf db
     \<and> (\<forall>row \<in> vals (db_artifact db). row_sound codec files row \<and> is_committed db (aw_task_id row))
     \<and> (\<forall>row \<in> vals (db_task db). task_row_ok row)
     \<and> keys (db_artifact_provenance db) = keys (db_artifact db)"

definition journal_ok :: "json_codec \<Rightarrow> byte list set \<Rightarrow> journal \<Rightarrow> bool" where
  "journal_ok codec S j \<longleftrightarrow> files_ok codec S (jn_completed j) \<and> db_sound codec (jn_completed j) (jn_db j)"

lemmas journal_ok_parts = journal_ok_def files_ok_def db_sound_def tables_wf_def

text \<open>Contents whose hashes do not collide, of a size the code can hold.\<close>

definition hashes_apart :: "json_codec \<Rightarrow> byte list set \<Rightarrow> bool" where
  "hashes_apart codec S \<longleftrightarrow> inj_on (jc_blake3 codec) S
     \<and> (\<forall>content \<in> S. is_digest (jc_blake3 codec content) \<and> length content < 2 ^ 64)"

lemma row_sound_more_files:
  "row_sound codec files row \<Longrightarrow> map_of files \<subseteq>\<^sub>m map_of files' \<Longrightarrow> row_sound codec files' row"
  unfolding row_sound_def map_le_def by (metis domI)

lemma db_sound_more_files:
  "db_sound codec files db \<Longrightarrow> map_of files \<subseteq>\<^sub>m map_of files' \<Longrightarrow> db_sound codec files' db"
  unfolding db_sound_def using row_sound_more_files by blast

subsection \<open>Staging and publishing\<close>

definition staged_contents :: "journal_env \<Rightarrow> artifact_input list \<Rightarrow> byte list set" where
  "staged_contents env artifacts =
     {content. \<exists>artifact \<in> set artifacts. \<exists>written.
        (case ai_content artifact of InMemory bytes \<Rightarrow> Some bytes | FromFile path \<Rightarrow> je_source_file env path) = Some written
        \<and> (content = written \<or> (\<exists>i. je_read_back env i written = Some content))}"

definition blob_ok :: "json_codec \<Rightarrow> byte list set \<Rightarrow> staged_blob \<Rightarrow> bool" where
  "blob_ok codec S blob \<longleftrightarrow> sb_content blob \<in> S \<and> sb_digest blob = jc_blake3 codec (sb_content blob)
     \<and> sb_bytes blob = of_nat (length (sb_content blob))"

lemma stage_artifact_ok:
  assumes "stage_artifact env i artifact = Inr blob" "staged_contents env [artifact] \<subseteq> S"
  shows "blob_ok (je_codec env) S blob \<and> sb_digest blob = ai_blake3 artifact"
proof -
  obtain written on_disk where *:
    "(case ai_content artifact of InMemory bytes \<Rightarrow> Some bytes | FromFile path \<Rightarrow> je_source_file env path) = Some written"
    "je_read_back env i written = Some on_disk" "jc_blake3 (je_codec env) on_disk = jc_blake3 (je_codec env) written"
    "length on_disk = length written" "ai_blake3 artifact = jc_blake3 (je_codec env) written"
    "blob = \<lparr>sb_pending_name = je_pending_name env i, sb_digest = jc_blake3 (je_codec env) written,
             sb_bytes = of_nat (length written), sb_content = on_disk\<rparr>"
    using assms(1) unfolding stage_artifact_def stage_blob_def Let_def
    by (auto split: option.splits if_splits artifact_content.splits stage_result.splits)
  then have "on_disk \<in> staged_contents env [artifact]" by (auto simp: staged_contents_def)
  then show ?thesis using * assms(2) by (auto simp: blob_ok_def)
qed

lemma stage_artifacts_ok:
  "stage_artifacts env i artifacts = Inr blobs \<Longrightarrow> staged_contents env artifacts \<subseteq> S \<Longrightarrow>
   list_all (blob_ok (je_codec env) S) blobs \<and> List.map sb_digest blobs = List.map ai_blake3 artifacts"
proof (induction artifacts arbitrary: i blobs)
  case (Cons artifact artifacts)
  then obtain blob blobs' where b: "stage_artifact env i artifact = Inr blob"
    "stage_artifacts env (Suc i) artifacts = Inr blobs'" "blobs = blob # blobs'"
    by (auto simp: and_then_Inr_iff)
  have "staged_contents env [artifact] \<subseteq> S" "staged_contents env artifacts \<subseteq> S"
    using Cons.prems(2) by (auto simp: staged_contents_def)
  then show ?case using Cons.IH[OF b(2)] stage_artifact_ok[OF b(1)] b(3) by simp
qed simp

text \<open>A file of blobs/completed with the name of a digest holds the content of that digest.\<close>

lemma files_ok_lookup:
  assumes "files_ok codec S files" "hashes_apart codec S" "content \<in> S"
    "map_of files (blake3_hex (jc_blake3 codec content)) = Some node"
  shows "node = RegularFile content"
proof -
  obtain c where c: "c \<in> S" "node = RegularFile c" "blake3_hex (jc_blake3 codec content) = blake3_hex (jc_blake3 codec c)"
    using assms(1) map_of_SomeD[OF assms(4)] unfolding files_ok_def by blast
  then have "jc_blake3 codec content = jc_blake3 codec c"
    using assms(2,3) by (simp add: hashes_apart_def blake3_hex_inject)
  then have "content = c" using assms(2,3) c(1) by (auto simp: hashes_apart_def inj_on_def)
  then show ?thesis using c(2) by simp
qed

lemma publish_blob_ok:
  assumes "files_ok codec S files" "hashes_apart codec S" "blob_ok codec S blob" "je_codec env = codec"
    "publish_blob env i blob files = (ended, files')"
  shows "files_ok codec S files' \<and> map_of files \<subseteq>\<^sub>m map_of files'
    \<and> (ended \<longrightarrow> map_of files' (blake3_hex (sb_digest blob)) = Some (RegularFile (sb_content blob)))"
proof -
  let ?hex = "blake3_hex (sb_digest blob)"
  have digest: "sb_digest blob = jc_blake3 codec (sb_content blob)" "sb_content blob \<in> S"
    using assms(3) by (simp_all add: blob_ok_def)
  have old: "node = RegularFile (sb_content blob)" if "map_of files ?hex = Some node" for node
    using files_ok_lookup[OF assms(1,2) digest(2)] that digest(1) by simp
  have wf: "map_wf files" using assms(1) by (simp add: files_ok_def)
  have renamed: "files_ok codec S (map_assign ?hex (RegularFile (sb_content blob)) files)"
  proof -
    have "\<forall>(name, node) \<in> insert (?hex, RegularFile (sb_content blob)) (set files).
        \<exists>content \<in> S. node = RegularFile content \<and> name = blake3_hex (jc_blake3 codec content)"
      using assms(1) digest by (auto simp: files_ok_def)
    then show ?thesis using set_map_assign[OF wf, of ?hex "RegularFile (sb_content blob)"] map_wf_assign[OF wf]
      unfolding files_ok_def by (meson subsetD)
  qed
  have more: "map_of files \<subseteq>\<^sub>m map_of (map_assign ?hex (RegularFile (sb_content blob)) files)"
    using old wf by (auto simp: map_le_def)
  have valid: "check_blob env files ?hex (sb_digest blob) (Some (sb_bytes blob)) = BlobValid \<Longrightarrow>
      map_of files ?hex = Some (RegularFile (sb_content blob))"
    using old by (auto simp: check_blob_def split: option.splits)
  have self: "map_of (map_assign ?hex (RegularFile (sb_content blob)) files) ?hex = Some (RegularFile (sb_content blob))"
    using wf by simp
  show ?thesis
    using assms(1,5) renamed more valid self unfolding publish_blob_def Let_def
    by (auto split: if_splits publish_outcome.splits)
qed

lemma publish_blobs_ok:
  assumes "hashes_apart codec S" "je_codec env = codec"
  shows "publish_blobs env i blobs files = (ended, files') \<Longrightarrow> files_ok codec S files \<Longrightarrow>
    list_all (blob_ok codec S) blobs \<Longrightarrow>
    files_ok codec S files' \<and> map_of files \<subseteq>\<^sub>m map_of files'
    \<and> (ended \<longrightarrow> list_all (\<lambda>blob. map_of files' (blake3_hex (sb_digest blob)) = Some (RegularFile (sb_content blob))) blobs)"
proof (induction blobs arbitrary: i files)
  case (Cons blob blobs)
  obtain ended1 files1 where p: "publish_blob env i blob files = (ended1, files1)" by fastforce
  note one = publish_blob_ok[OF Cons.prems(2) assms(1) _ assms(2) p]
  show ?case
  proof (cases ended1)
    case True
    then have "publish_blobs env (Suc i) blobs files1 = (ended, files')" using Cons.prems(1) p by simp
    note rest = Cons.IH[OF this]
    show ?thesis using True one rest Cons.prems(3)
      by (auto intro: map_le_trans) (auto simp: map_le_def dom_def)
  qed (use Cons.prems p one in auto)
qed auto

lemma publish_states_ok:
  assumes "hashes_apart codec S" "je_codec env = codec"
  shows "files' \<in> set (publish_states env i blobs files) \<Longrightarrow> files_ok codec S files \<Longrightarrow>
    list_all (blob_ok codec S) blobs \<Longrightarrow> files_ok codec S files' \<and> map_of files \<subseteq>\<^sub>m map_of files'"
proof (induction blobs arbitrary: i files)
  case (Cons blob blobs)
  obtain ended1 files1 where p: "publish_blob env i blob files = (ended1, files1)" by fastforce
  note one = publish_blob_ok[OF Cons.prems(2) assms(1) _ assms(2) p]
  consider "files' = files" | "\<not> ended1" "files' = files1" | "ended1" "files' \<in> set (publish_states env (Suc i) blobs files1)"
    using Cons.prems(1) p by (cases ended1) auto
  then show ?case
  proof cases
    case 3
    then show ?thesis using Cons.IH[OF 3(2)] one Cons.prems(3) by (auto intro: map_le_trans)
  qed (use one Cons.prems in auto)
qed auto

text \<open>What a commit gets back of the files it stored: a row for each, which will be sound.\<close>

definition stored_ok :: "json_codec \<Rightarrow> (string, file_node) std_map \<Rightarrow> artifact_input \<Rightarrow> string \<times> u64 \<Rightarrow> bool" where
  "stored_ok codec files artifact = (\<lambda>(relative_path, bytes). \<exists>content.
     map_of files (blake3_hex (ai_blake3 artifact)) = Some (RegularFile content)
     \<and> ai_blake3 artifact = jc_blake3 codec content \<and> bytes = of_nat (length content) \<and> length content < 2 ^ 64
     \<and> relative_path = journal_completed_relative_path (blake3_hex (ai_blake3 artifact)))"

lemma store_task_artifacts_ok:
  assumes "hashes_apart codec S" "je_codec env = codec" "files_ok codec S files"
    "staged_contents env artifacts \<subseteq> S" "store_task_artifacts env artifacts files = (stored, files')"
  shows "files_ok codec S files' \<and> map_of files \<subseteq>\<^sub>m map_of files'
    \<and> (\<forall>blobs. stored = Inr blobs \<longrightarrow> list_all2 (stored_ok codec files') artifacts blobs)"
proof (cases "stage_artifacts env 0 artifacts")
  case (Inl e)
  then show ?thesis using assms(3,5) by (auto simp: store_task_artifacts_def)
next
  case (Inr staged)
  obtain ended files1 where p: "publish_blobs env 0 staged files = (ended, files1)" by fastforce
  have ok: "list_all (blob_ok codec S) staged" "List.map sb_digest staged = List.map ai_blake3 artifacts"
    using stage_artifacts_ok[OF Inr assms(4)] assms(2) by auto
  have out: "files' = files1" "stored = (if ended then Inr (List.map (\<lambda>blob.
      (journal_completed_relative_path (blake3_hex (sb_digest blob)), sb_bytes blob)) staged)
      else Inl (JournalError io_error))"
    using assms(5) p Inr by (auto simp: store_task_artifacts_def)
  note pub = publish_blobs_ok[OF assms(1,2) p assms(3) ok(1)]
  have "list_all2 (stored_ok codec files') artifacts blobs" if "stored = Inr blobs" for blobs
  proof (rule list_all2_all_nthI)
    have blobs: "ended" "blobs = List.map (\<lambda>blob.
      (journal_completed_relative_path (blake3_hex (sb_digest blob)), sb_bytes blob)) staged"
      using that out(2) by (auto split: if_splits)
    have len: "length artifacts = length staged" using arg_cong[OF ok(2), of length] by simp
    then show "length artifacts = length blobs" using blobs by simp
    fix n assume "n < length artifacts"
    then have n: "n < length staged" "ai_blake3 (artifacts ! n) = sb_digest (staged ! n)"
      using len arg_cong[OF ok(2), of "\<lambda>l. l ! n"] by auto
    have "blob_ok codec S (staged ! n)" using ok(1) n(1) by (simp add: list_all_length)
    moreover have "map_of files' (blake3_hex (sb_digest (staged ! n))) = Some (RegularFile (sb_content (staged ! n)))"
      using pub blobs(1) n(1) out(1) by (simp add: list_all_length)
    ultimately show "stored_ok codec files' (artifacts ! n) (blobs ! n)"
      using n blobs(2) assms(1) by (auto simp: stored_ok_def blob_ok_def hashes_apart_def)
  qed
  then show ?thesis using pub out(1) by blast
qed

subsection \<open>The rows of a commit\<close>

lemma insert_row_Inr:
  "insert_row k row table = Inr table' \<longleftrightarrow> map_of table k = None \<and> table' = map_emplace k row table"
  by (auto simp: insert_row_def)

lemma bind_unsigned_Inr: "bind_unsigned v = Inr i \<longleftrightarrow> i = uint v \<and> uint v < 2 ^ 63"
  by (auto simp: bind_unsigned_def word_less_alt)

definition rows_sound :: "json_codec \<Rightarrow> (string, file_node) std_map \<Rightarrow> string \<Rightarrow> journal_db \<Rightarrow> bool" where
  "rows_sound codec files task_id db \<longleftrightarrow> tables_wf db
     \<and> (\<forall>row \<in> vals (db_artifact db). row_sound codec files row \<and> (aw_task_id row = task_id \<or> is_committed db (aw_task_id row)))
     \<and> (\<forall>row \<in> vals (db_task db). task_row_ok row)
     \<and> keys (db_artifact_provenance db) = keys (db_artifact db)"

lemma insert_artifact_ok:
  assumes "insert_artifact env task_id (artifact, blob) db = Inr db'" "rows_sound codec files task_id db"
    "stored_ok codec files artifact blob"
  shows "rows_sound codec files task_id db' \<and> db_task db' = db_task db"
proof -
  obtain path bytes where blob: "blob = (path, bytes)" by fastforce
  obtain artifacts refs provenance where *:
    "uint bytes < 2 ^ 63" "map_of (db_artifact db) (ai_artifact_id artifact) = None"
    "artifacts = map_emplace (ai_artifact_id artifact)
       \<lparr>aw_task_id = task_id, aw_relative_path = path, aw_blake3 = blake3_hex (ai_blake3 artifact),
        aw_byte_length = uint bytes\<rparr> (db_artifact db)"
    "map_of (db_artifact_provenance db) (ai_artifact_id artifact) = None"
    "provenance = map_emplace (ai_artifact_id artifact)
       \<lparr>pw_processor_id = pv_processor_id (ai_provenance artifact),
        pw_parameters_blake3 = blake3_hex (pv_parameters_blake3 (ai_provenance artifact)),
        pw_model_refs_json = refs\<rparr> (db_artifact_provenance db)"
    "db' = db\<lparr>db_artifact := artifacts, db_artifact_provenance := provenance\<rparr>"
    using assms(1) unfolding blob insert_artifact_def
    by (auto simp: and_then_Inr_iff insert_row_Inr bind_unsigned_Inr)
  have wf: "map_wf (db_artifact db)" "map_wf (db_artifact_provenance db)"
    using assms(2) by (simp_all add: rows_sound_def tables_wf_def)
  obtain content where c: "map_of files (blake3_hex (ai_blake3 artifact)) = Some (RegularFile content)"
    "ai_blake3 artifact = jc_blake3 codec content" "bytes = of_nat (length content)" "length content < 2 ^ 64"
    "path = journal_completed_relative_path (blake3_hex (ai_blake3 artifact))"
    using assms(3) unfolding blob stored_ok_def by auto
  have size: "uint bytes = int (length content)"
    using unat_of_nat_u64[OF c(4)] c(3) by (metis uint_nat)
  then have sound: "row_sound codec files \<lparr>aw_task_id = task_id, aw_relative_path = path,
      aw_blake3 = blake3_hex (ai_blake3 artifact), aw_byte_length = uint bytes\<rparr>"
    using c *(1) by (auto simp: row_sound_def)
  show ?thesis
    using assms(2) sound wf *(2,4)
    unfolding *(6,3,5) by (auto simp: rows_sound_def tables_wf_def)
qed

lemma insert_artifacts_ok:
  "each_insert (insert_artifact env task_id) (zip artifacts blobs) db = Inr db' \<Longrightarrow>
   rows_sound codec files task_id db \<Longrightarrow> list_all2 (stored_ok codec files) artifacts blobs \<Longrightarrow>
   rows_sound codec files task_id db' \<and> db_task db' = db_task db"
proof (induction artifacts arbitrary: blobs db)
  case (Cons artifact artifacts)
  then obtain blob blobs' where blobs: "blobs = blob # blobs'" "stored_ok codec files artifact blob"
    "list_all2 (stored_ok codec files) artifacts blobs'"
    by (auto simp: list_all2_Cons1)
  obtain db1 where "insert_artifact env task_id (artifact, blob) db = Inr db1"
    "each_insert (insert_artifact env task_id) (zip artifacts blobs') db1 = Inr db'"
    using Cons.prems(1) unfolding blobs by (auto simp: and_then_Inr_iff)
  then show ?case using Cons.IH[of blobs' db1] insert_artifact_ok Cons.prems(2) blobs by metis
qed auto

lemma commit_rows_ok:
  assumes "commit_rows env commit blobs db = Inr db'" "db_sound codec files db"
    "list_all2 (stored_ok codec files) (tm_artifacts commit) blobs" "is_digest (tm_output_blake3 commit)"
    "map_of (db_task db) (tm_task_id commit) \<noteq> None"
  shows "db_sound codec files db'"
proof -
  let ?t = "tm_task_id commit"
  obtain db1 db2 where steps: "each_insert (insert_artifact env ?t) (zip (tm_artifacts commit) blobs) db = Inr db1"
    "insert_cache_hit ?t (tm_cache_hit commit) db1 = Inr db2"
    "db' = update_task ?t (\<lambda>row. row\<lparr>tw_status := task_state_name Committed,
       tw_output_blake3 := Some (blake3_hex (tm_output_blake3 commit)), tw_completed_utc := Some (je_now env)\<rparr>) db2"
    using assms(1) by (auto simp: commit_rows_def and_then_Inr_iff)
  have "rows_sound codec files ?t db" using assms(2) by (auto simp: rows_sound_def db_sound_def)
  from insert_artifacts_ok[OF steps(1) this assms(3)]
  have 1: "rows_sound codec files ?t db1" "db_task db1 = db_task db" by auto
  have 2: "rows_sound codec files ?t db2" "db_task db2 = db_task db"
    using steps(2) 1 by (auto simp: insert_cache_hit_def rows_sound_def tables_wf_def is_committed_def
        and_then_Inr_iff insert_row_Inr split: option.splits)
  have "is_committed db' t" if "t = ?t \<or> is_committed db2 t" for t
    using that assms(5) 2(2) unfolding steps(3) by (auto simp: is_committed_def update_task_def)
  moreover have "task_row_ok row" if "row \<in> vals (db_task db')" for row
  proof -
    let ?f = "\<lambda>row. row\<lparr>tw_status := task_state_name Committed,
       tw_output_blake3 := Some (blake3_hex (tm_output_blake3 commit)), tw_completed_utc := Some (je_now env)\<rparr>"
    have "task_row_ok (?f u)" if "task_row_ok u" for u using assms(4) that by (auto simp: task_row_ok_def)
    then show ?thesis using vals_modify[of row ?t ?f "db_task db2"] that 2(1)
      unfolding steps(3) rows_sound_def by (auto simp: update_task_def)
  qed
  ultimately show ?thesis using 2(1) unfolding steps(3) rows_sound_def db_sound_def tables_wf_def
    by (auto simp: update_task_def)
qed

subsection \<open>A commit, and a crash during it\<close>

lemma with_state_open [simp]: "jn_open j \<Longrightarrow> with_state j f = f j"
  by (simp add: with_state_def)

lemma transact_cases:
  obtains (kept) e where "transact f j = (Inl e, j)"
  | (changed) db where "jn_open j" "f (jn_db j) = Inr db" "transact f j = (Inr (), j\<lparr>jn_db := db\<rparr>)"
  by (cases "jn_open j"; cases "f (jn_db j)") (auto simp: transact_def with_state_def)

lemma commit_checks_known:
  "commit_checks commit db = None \<Longrightarrow> require_task_state db (tm_task_id commit) = Inr ResultReceived"
  by (auto simp: commit_checks_def split: sum.splits)

lemma require_task_state_known: "require_task_state db t = Inr st \<Longrightarrow>
    \<exists>row. map_of (db_task db) t = Some row \<and> tw_status row = task_state_name st"
  by (auto simp: require_task_state_def read_task_state_def parse_task_state_Some and_then_Inr_iff
      split: option.splits)

lemma commit_task_ok:
  assumes ok: "journal_ok codec S j" and apart: "hashes_apart codec S" and env: "je_codec env = codec"
    and S: "staged_contents env (tm_artifacts commit) \<subseteq> S" and digest: "is_digest (tm_output_blake3 commit)"
  shows "journal_ok codec S (snd (commit_task env commit j))"
proof (cases "jn_open j \<and> commit_checks commit (jn_db j) = None")
  case True
  obtain stored files where st: "store_task_artifacts env (tm_artifacts commit) (jn_completed j) = (stored, files)"
    by fastforce
  have parts: "files_ok codec S (jn_completed j)" "db_sound codec (jn_completed j) (jn_db j)"
    using ok by (simp_all add: journal_ok_def)
  note stored = store_task_artifacts_ok[OF apart env parts(1) S st]
  have db: "db_sound codec files (jn_db j)" using db_sound_more_files[OF parts(2)] stored by blast
  show ?thesis
  proof (cases stored)
    case (Inl e)
    then show ?thesis using True st stored db by (simp add: commit_task_def journal_ok_def)
  next
    case (Inr blobs)
    have known: "map_of (db_task (jn_db j)) (tm_task_id commit) \<noteq> None"
      using require_task_state_known[OF commit_checks_known] True by auto
    show ?thesis
      using transact_cases[of "commit_rows env commit blobs" "j\<lparr>jn_completed := files\<rparr>"]
    proof cases
      case (kept e)
      then show ?thesis using True st stored db Inr by (simp add: commit_task_def journal_ok_def)
    next
      case (changed db')
      have "db_sound codec files db'"
        using commit_rows_ok[of env commit blobs "jn_db j" db' codec files] changed(2) db stored Inr digest known
        by simp
      then show ?thesis using True st stored Inr changed(3) by (simp add: commit_task_def journal_ok_def)
    qed
  qed
next
  case False
  then have "snd (commit_task env commit j) = j"
    by (auto simp: commit_task_def with_state_def split: option.splits)
  then show ?thesis using ok by simp
qed

lemma commit_crash_states_cases:
  assumes ok: "journal_ok codec S j" and apart: "hashes_apart codec S" and env: "je_codec env = codec"
    and S: "staged_contents env (tm_artifacts commit) \<subseteq> S"
    and crash: "j' \<in> set (commit_crash_states env commit j)"
  shows "j' = snd (commit_task env commit j)
    \<or> jn_db j' = jn_db j \<and> map_of (jn_completed j) \<subseteq>\<^sub>m map_of (jn_completed j') \<and> files_ok codec S (jn_completed j')"
proof -
  let ?names = "List.map (je_pending_name env) [0..<length (tm_artifacts commit)]"
  have "j' = snd (commit_task env commit j)
    \<or> j' \<in> set (List.map (\<lambda>n. j\<lparr>jn_pending := jn_pending j @ take n ?names\<rparr>) [0..<Suc (length ?names)])
    \<or> (\<exists>staged. stage_artifacts env 0 (tm_artifacts commit) = Inr staged
        \<and> j' \<in> set (List.map (\<lambda>files. j\<lparr>jn_pending := jn_pending j @ ?names, jn_completed := files\<rparr>)
                     (publish_states env 0 staged (jn_completed j))))"
    using crash unfolding commit_crash_states_def Let_def
    by (cases "stage_artifacts env 0 (tm_artifacts commit)") (auto simp del: set_map upt_Suc split: if_splits)
  then consider (ended) "j' = snd (commit_task env commit j)"
    | (staging) n where "j' = j\<lparr>jn_pending := jn_pending j @ take n ?names\<rparr>"
    | (publishing) staged files where "stage_artifacts env 0 (tm_artifacts commit) = Inr staged"
        "files \<in> set (publish_states env 0 staged (jn_completed j))"
        "j' = j\<lparr>jn_pending := jn_pending j @ ?names, jn_completed := files\<rparr>"
    by (elim disjE; (elim exE conjE)?; auto simp del: upt_Suc)
  then show ?thesis
  proof cases
    case (publishing staged files)
    have "list_all (blob_ok codec S) staged" using stage_artifacts_ok[OF publishing(1) S] env by simp
    then show ?thesis using publish_states_ok[OF apart env publishing(2)] ok publishing(3) by (simp add: journal_ok_def)
  qed (use ok in \<open>auto simp: journal_ok_def\<close>)
qed

lemma commit_crash_ok:
  assumes ok: "journal_ok codec S j" and apart: "hashes_apart codec S" and env: "je_codec env = codec"
    and S: "staged_contents env (tm_artifacts commit) \<subseteq> S" and digest: "is_digest (tm_output_blake3 commit)"
    and crash: "j' \<in> set (commit_crash_states env commit j)"
  shows "journal_ok codec S j'"
  using commit_crash_states_cases[OF ok apart env S crash]
proof
  assume "j' = snd (commit_task env commit j)"
  then show ?thesis using commit_task_ok[OF ok apart env S digest] by simp
next
  assume "jn_db j' = jn_db j \<and> map_of (jn_completed j) \<subseteq>\<^sub>m map_of (jn_completed j') \<and> files_ok codec S (jn_completed j')"
  then show ?thesis using ok db_sound_more_files by (auto simp: journal_ok_def)
qed

subsection \<open>The other operations\<close>

lemma update_task_ok:
  assumes "db_sound codec files db"
    "\<And>row. map_of (db_task db) t = Some row \<Longrightarrow> task_row_ok row \<Longrightarrow> task_row_ok (f row)
       \<and> (tw_status row = task_state_name Committed \<longrightarrow> tw_status (f row) = task_state_name Committed)"
  shows "db_sound codec files (update_task t f db)"
proof -
  have wf: "map_wf (db_task db)" using assms(1) by (simp add: db_sound_def tables_wf_def)
  have "is_committed (update_task t f db) u" if "is_committed db u" for u
    using that assms map_of_vals by (fastforce simp: is_committed_def update_task_def db_sound_def)
  moreover have "task_row_ok row" if "row \<in> vals (db_task (update_task t f db))" for row
    using that assms wf
    by (auto simp: update_task_def vals_map_of db_sound_def split: if_splits) (metis vals_map_of)+
  ultimately show ?thesis using assms(1) by (auto simp: db_sound_def tables_wf_def update_task_def)
qed

lemma db_sound_same_tables:
  assumes "db_task db' = db_task db" "db_task_dependency db' = db_task_dependency db" "db_artifact db' = db_artifact db"
    "db_artifact_provenance db' = db_artifact_provenance db" "db_cache_hit db' = db_cache_hit db"
  shows "db_sound codec files db' = db_sound codec files db"
  using assms by (simp add: db_sound_def tables_wf_def is_committed_def)

text \<open>An operation that is one transaction keeps the journal if the transaction keeps the database.\<close>

lemma transact_ok:
  assumes "journal_ok codec S j"
    "\<And>db. f (jn_db j) = Inr db \<Longrightarrow> db_sound codec (jn_completed j) (jn_db j) \<Longrightarrow> db_sound codec (jn_completed j) db"
  shows "journal_ok codec S (snd (transact f j))"
proof (rule transact_cases[of f j])
  fix db assume "f (jn_db j) = Inr db" "transact f j = (Inr (), j\<lparr>jn_db := db\<rparr>)"
  then show ?thesis using assms(2)[of db] assms(1) by (simp add: journal_ok_def)
qed (use assms(1) in simp)

lemma each_insert_keeps:
  assumes "\<And>x db db'. f x db = Inr db' \<Longrightarrow> P db \<Longrightarrow> P db'"
  shows "each_insert f xs db = Inr db' \<Longrightarrow> P db \<Longrightarrow> P db'"
proof (induction xs arbitrary: db)
  case (Cons x xs)
  obtain db1 where db1: "f x db = Inr db1" "each_insert f xs db1 = Inr db'"
    using Cons.prems(1) by (auto simp: and_then_Inr_iff)
  show ?case using Cons.IH[OF db1(2) assms[OF db1(1) Cons.prems(2)]] .
qed simp

lemma insert_dependency_ok:
  "insert_dependency t d db = Inr db' \<Longrightarrow> db_sound codec files db \<Longrightarrow> db_sound codec files db'"
  by (auto simp: insert_dependency_def and_then_Inr_iff insert_row_Inr db_sound_def tables_wf_def)

lemma insert_dependencies_ok:
  "each_insert (insert_dependency t) deps db = Inr db' \<Longrightarrow> db_sound codec files db \<Longrightarrow> db_sound codec files db'"
  using insert_dependency_ok by (rule each_insert_keeps)

lemma record_task_ok:
  assumes "journal_ok codec S j" "\<forall>key. jt_cache_key task = Some key \<longrightarrow> is_digest key" shows "journal_ok codec S (snd (record_task task j))"
proof (cases "first_error
        ([require_record_identifier (jt_task_id task),
          guard_error (jt_task_type task = []) (JournalError invalid_argument)]
         @ List.map require_record_identifier (jt_depends_on task))")
  case None
  show ?thesis unfolding record_task_def None option.case
  proof (rule transact_ok[OF assms(1)])
    fix db
    let ?db = "jn_db j"
    let ?row = "\<lparr>tw_task_type = jt_task_type task, tw_status = task_state_name Planned,
             tw_cache_key = map_option blake3_prefixed (jt_cache_key task),
             tw_started_utc = None, tw_completed_utc = None, tw_output_blake3 = None\<rparr>"
    assume "and_then (insert_row (jt_task_id task) ?row (db_task ?db)) (\<lambda>table.
          each_insert (insert_dependency (jt_task_id task)) (jt_depends_on task) (?db\<lparr>db_task := table\<rparr>)) = Inr db"
      and sound: "db_sound codec (jn_completed j) ?db"
    then have new: "map_of (db_task ?db) (jt_task_id task) = None"
      and rest: "each_insert (insert_dependency (jt_task_id task)) (jt_depends_on task)
        (?db\<lparr>db_task := map_emplace (jt_task_id task) ?row (db_task ?db)\<rparr>) = Inr db"
      by (auto simp: and_then_Inr_iff insert_row_Inr)
    have wf: "map_wf (db_task ?db)" using sound by (simp add: db_sound_def tables_wf_def)
    have "task_row_ok ?row" using assms(2) by (auto simp: task_row_ok_def)
    then have "db_sound codec (jn_completed j) (?db\<lparr>db_task := map_emplace (jt_task_id task) ?row (db_task ?db)\<rparr>)"
      using sound wf new by (auto simp: db_sound_def tables_wf_def is_committed_def)
    then show "db_sound codec (jn_completed j) db" by (rule insert_dependencies_ok[OF rest])
  qed
qed (use assms in \<open>simp add: record_task_def\<close>)

lemma set_task_state_ok:
  assumes "journal_ok codec S j" shows "journal_ok codec S (snd (set_task_state env t st j))"
  unfolding set_task_state_def
proof (rule transact_ok[OF assms])
  fix db
  let ?f = "\<lambda>row. row\<lparr>tw_status := task_state_name st,
                  tw_started_utc := (if st = Running then Some (je_now env) else tw_started_utc row)\<rparr>"
  assume "and_then (require_task_state (jn_db j) t) (\<lambda>current.
       if st = Committed \<or> \<not> is_task_transition_allowed current st then Inl (JournalError invalid_transition)
       else Inr (update_task t ?f (jn_db j))) = Inr db"
    and sound: "db_sound codec (jn_completed j) (jn_db j)"
  then obtain current where c: "require_task_state (jn_db j) t = Inr current" "st \<noteq> Committed"
    "is_task_transition_allowed current st" "db = update_task t ?f (jn_db j)"
    by (auto simp: and_then_Inr_iff split: if_splits)
  have "current \<noteq> Committed" using c(3) by (auto simp: is_task_transition_allowed_def kAllowedTransitions_def)
  then show "db_sound codec (jn_completed j) db" unfolding c(4)
    using require_task_state_known[OF c(1)] c(2) by (intro update_task_ok[OF sound]) (auto simp: task_row_ok_def)
qed

lemmas plain_rows = record_build_session_def insert_build_session_def set_build_session_status_def
  update_build_session_status_def record_failure_def record_worker_session_def record_task_attempt_def
  record_blob_location_def

lemma plain_transact_ok:
  assumes "journal_ok codec S j"
    "\<And>db db'. f db = Inr db' \<Longrightarrow> db_task db' = db_task db \<and> db_task_dependency db' = db_task_dependency db
       \<and> db_artifact db' = db_artifact db \<and> db_artifact_provenance db' = db_artifact_provenance db
       \<and> db_cache_hit db' = db_cache_hit db"
  shows "journal_ok codec S (snd (transact f j))"
proof (rule transact_ok[OF assms(1)])
  fix db assume "f (jn_db j) = Inr db" "db_sound codec (jn_completed j) (jn_db j)"
  then show "db_sound codec (jn_completed j) db" using assms(2)[of "jn_db j" db] db_sound_same_tables by metis
qed

lemma plain_rows_ok:
  assumes "journal_ok codec S j"
  shows "journal_ok codec S (snd (record_build_session session j))"
    "journal_ok codec S (snd (set_build_session_status sid status j))"
    "journal_ok codec S (snd (record_failure env t reason j))"
    "journal_ok codec S (snd (record_worker_session w j))"
    "journal_ok codec S (snd (record_task_attempt a j))"
    "journal_ok codec S (snd (record_blob_location env l j))"
  unfolding plain_rows using assms
  by (auto intro!: plain_transact_ok simp: and_then_Inr_iff split: option.splits if_splits)

lemma journal_ok_empty:
  "journal_ok codec S (j\<lparr>jn_db := apply_journal_schema, jn_pending := p, jn_completed := []\<rparr>)"
  by (simp add: journal_ok_parts apply_journal_schema_def keys_def)

lemma finish_success_ok:
  assumes "journal_ok codec S j" shows "journal_ok codec S (snd (finish_success retention j))"
proof -
  obtain r j1 where call: "set_build_session_status (jn_build_session_id j) BuildSessionSucceeded j = (r, j1)"
    by fastforce
  then have "journal_ok codec S j1"
    using plain_rows_ok(2)[OF assms, of "jn_build_session_id j" BuildSessionSucceeded] by simp
  then have "journal_ok codec S (close_journal j1)" by (simp add: close_journal_def journal_ok_def)
  then show ?thesis using \<open>journal_ok codec S j1\<close> journal_ok_empty
    unfolding finish_success_def call by (cases r) auto
qed

end
