(* ===== verification/JournalInv.thy ===== *)
theory JournalInv
  imports JournalFacts
begin

text \<open>
  Every journal that operations, crashes and resumes can lead to is sound: the steps, and the
  invariant by induction over them.
\<close>

subsection \<open>A resume keeps the journal\<close>

lemma demote_task_ok:
  assumes "db_sound codec files db" shows "db_sound codec files (demote_task t db)"
proof -
  let ?f = "\<lambda>row. row\<lparr>tw_status := task_state_name Planned, tw_output_blake3 := None, tw_completed_utc := None\<rparr>"
  have wf: "tables_wf db" using assms by (simp add: db_sound_def)
  then have wfs: "map_wf (db_artifact db)" "map_wf (db_artifact_provenance db)" "map_wf (db_task db)"
    by (simp_all add: tables_wf_def)
  have artifacts: "db_artifact (demote_task t db) = filter (\<lambda>(_, row). aw_task_id row \<noteq> t) (db_artifact db)"
    and provenance: "db_artifact_provenance (demote_task t db)
      = filter (\<lambda>(id, _). id \<notin> set (List.map fst (artifacts_of db t))) (db_artifact_provenance db)"
    and tasks: "db_task (demote_task t db) = map_modify t ?f (db_task db)"
    and same: "db_task_dependency (demote_task t db) = db_task_dependency db"
      "db_cache_hit (demote_task t db) = map_erase t (db_cache_hit db)"
    by (simp_all add: demote_task_def update_task_def Let_def)
  have "is_committed (demote_task t db) u" if "is_committed db u" "u \<noteq> t" for u
    using that by (auto simp: is_committed_def tasks)
  then have "\<forall>row \<in> vals (db_artifact (demote_task t db)). row_sound codec files row
      \<and> is_committed (demote_task t db) (aw_task_id row)"
    using assms unfolding artifacts by (fastforce simp: vals_def db_sound_def)
  moreover have "\<forall>row \<in> vals (db_task (demote_task t db)). task_row_ok row"
  proof
    fix row assume "row \<in> vals (db_task (demote_task t db))"
    then consider "row \<in> vals (db_task db)" | u where "row = ?f u" "u \<in> vals (db_task db)"
      unfolding tasks by (auto dest: vals_modify)
    then show "task_row_ok row" using assms by cases (auto simp: db_sound_def task_row_ok_def)
  qed
  moreover have "keys (db_artifact_provenance (demote_task t db)) = keys (db_artifact (demote_task t db))"
  proof -
    have "keys (db_artifact (demote_task t db)) = keys (db_artifact db) - fst ` set (artifacts_of db t)"
      using wfs(1) map_of_mem_iff[OF wfs(1)] unfolding artifacts
      by (auto simp: keys_def artifacts_of_def image_iff) (metis option.inject)
    moreover have "keys (db_artifact_provenance (demote_task t db))
        = keys (db_artifact_provenance db) - fst ` set (artifacts_of db t)"
      using keys_filter_fst[of "\<lambda>id. id \<notin> fst ` set (artifacts_of db t)" "db_artifact_provenance db"]
      unfolding provenance case_prod_unfold set_map by auto
    ultimately show ?thesis using assms by (simp add: db_sound_def)
  qed
  moreover have "tables_wf (demote_task t db)"
    using wf unfolding tables_wf_def artifacts provenance tasks same by (simp add: map_wf_filter)
  ultimately show ?thesis by (simp add: db_sound_def)
qed

lemma verify_tasks_ok:
  "verify_tasks env files tasks results db = Inr (demoted, db') \<Longrightarrow> db_sound codec files db \<Longrightarrow> db_sound codec files db'"
proof (induction tasks arbitrary: results db demoted)
  case (Cons task tasks)
  obtain t h where task: "task = (t, h)" by fastforce
  obtain failure results1 where f: "verify_task env files db t h results = Inr (failure, results1)"
    using Cons.prems(1) unfolding task by (auto simp: and_then_Inr_iff)
  show ?case
  proof (cases failure)
    case None
    then have "verify_tasks env files tasks results1 db = Inr (demoted, db')"
      using Cons.prems(1) f unfolding task by simp
    then show ?thesis using Cons.IH Cons.prems(2) by blast
  next
    case (Some d)
    then obtain demoted1 where "verify_tasks env files tasks results1 (demote_task t db) = Inr (demoted1, db')"
      using Cons.prems(1) f unfolding task by (auto simp: and_then_Inr_iff)
    then show ?thesis using Cons.IH demote_task_ok[OF Cons.prems(2)] by blast
  qed
qed simp

text \<open>What the states are after a reset: only tasks that are not committed change.\<close>

lemma resume_state_cases:
  "rt_state (resume_state tasks task) = Committed \<longleftrightarrow> rt_state task = Committed"
  "rt_task_id (resume_state tasks task) = rt_task_id task"
  by (simp_all add: resume_state_def)

lemma read_resumed_task_row:
  assumes "read_resumed_task db (t, row) = Inr task"
  shows "rt_task_id task = t" "rt_task_type task = tw_task_type row" "rt_depends_on task = dependencies_of db t"
    "rt_state task = (case parse_task_state (tw_status row) of None \<Rightarrow> Planned | Some st \<Rightarrow> st)"
  using assms by (auto simp: read_resumed_task_def and_then_Inr_iff)

lemma write_resumed_ok:
  assumes "db_sound codec files db" "rt_state task = Committed \<or> \<not> is_committed db (rt_task_id task)"
  shows "db_sound codec files (write_resumed_state task db)"
proof (cases "rt_state task = Committed")
  case False
  then show ?thesis unfolding write_resumed_state_def using assms
    by (auto intro!: update_task_ok simp: task_row_ok_def is_committed_def)
qed (simp add: write_resumed_state_def assms)

lemma write_resumed_committed:
  "is_committed (write_resumed_state task db) t \<longrightarrow> is_committed db t"
  by (auto simp: write_resumed_state_def is_committed_def update_task_def)

lemma write_all_ok:
  "db_sound codec files db \<Longrightarrow> \<forall>task \<in> set tasks. rt_state task = Committed \<or> \<not> is_committed db (rt_task_id task) \<Longrightarrow>
   db_sound codec files (fold write_resumed_state tasks db)"
proof (induction tasks arbitrary: db)
  case (Cons task tasks)
  then show ?case using write_resumed_ok[of codec files db task] write_resumed_committed[of task db] by force
qed simp

lemma reset_incomplete_tasks_ok:
  assumes "reset_incomplete_tasks db = Inr (tasks, db')" "db_sound codec files db"
  shows "db_sound codec files db'"
proof -
  obtain read where read: "each_or_error (read_resumed_task db) (db_task db) = Inr read"
    "tasks = List.map (resume_state read) read" "db' = fold write_resumed_state tasks db"
    using assms(1) by (auto simp: reset_incomplete_tasks_def and_then_Inr_iff Let_def)
  have wf: "map_wf (db_task db)" using assms(2) by (simp add: db_sound_def tables_wf_def)
  have "rt_state task = Committed \<or> \<not> is_committed db (rt_task_id task)" if given: "task \<in> set tasks" for task
  proof -
    obtain r where r: "r \<in> set read" "task = resume_state read r" using given read(2) by auto
    then obtain t row where row: "(t, row) \<in> set (db_task db)" "read_resumed_task db (t, row) = Inr r"
      using each_or_error_mem[OF read(1)] by fastforce
    then have "map_of (db_task db) t = Some row" using map_of_mem_iff[OF wf] by simp
    then show ?thesis using read_resumed_task_row[OF row(2)] r(2)
      by (auto simp: resume_state_cases is_committed_def)
  qed
  then show ?thesis using write_all_ok assms(2) read(3) by blast
qed

lemma resume_rows_ok:
  assumes "resume_rows env sid files db = Inr (out, db')" "db_sound codec files db"
  shows "db_sound codec files db'"
proof -
  obtain demoted db1 tasks db2 where steps: "verify_committed_tasks env files db = Inr (demoted, db1)"
    "reset_incomplete_tasks db1 = Inr (tasks, db2)"
    "db' = update_build_session_status sid BuildSessionActive (snd (abandon_open_attempts db2))"
    using assms(1) unfolding resume_rows_def and_then_Inr_iff Let_def case_prod_unfold
    by (metis prod.collapse sum.inject(2) prod.inject)
  have "db_sound codec files db2"
    using verify_tasks_ok reset_incomplete_tasks_ok steps(1,2) assms(2) unfolding verify_committed_tasks_def by blast
  then show ?thesis unfolding steps(3) abandon_open_attempts_def update_build_session_status_def Let_def
    by (subst db_sound_same_tables) simp_all
qed

lemma completed_path_inject [simp]:
  "journal_completed_relative_path a = journal_completed_relative_path b \<longleftrightarrow> a = b"
  by (simp add: journal_completed_relative_path_def)

lemma discard_unreferenced_ok:
  assumes "discard_unreferenced_completed env db files = Inr (n, files')" "db_sound codec files db" "files_ok codec S files"
  shows "db_sound codec files' db \<and> files_ok codec S files'"
proof -
  let ?kept = "\<lambda>(name, _). journal_completed_relative_path name \<in> aw_relative_path ` vals (db_artifact db) \<or> je_unremovable env name"
  have files': "files' = filter ?kept files"
    using assms(1) by (auto simp: discard_unreferenced_completed_def Let_def vals_def image_image case_prod_unfold
        split: if_splits)
  have wf: "map_wf files" using assms(3) by (simp add: files_ok_def)
  have ok: "files_ok codec S files'" using assms(3) map_wf_filter unfolding files' files_ok_def by auto
  have "row_sound codec files' row" if "row \<in> vals (db_artifact db)" for row
  proof -
    have "map_of files (aw_blake3 row) = Some node \<Longrightarrow> map_of files' (aw_blake3 row) = Some node" for node
      using that assms(2) map_of_mem_iff[OF wf] map_of_mem_iff[OF map_wf_filter[OF wf]]
      unfolding files' by (auto simp: db_sound_def row_sound_def)
    then show ?thesis using that assms(2) unfolding db_sound_def row_sound_def by blast
  qed
  then show ?thesis using ok assms(2) by (auto simp: db_sound_def)
qed

lemma journal_resume_ok:
  assumes "journal_ok codec S j" shows "journal_ok codec S (snd (journal_resume env sources j))"
proof (cases "jn_open j \<and> verify_sources (jn_db j) sources = None")
  case True
  show ?thesis
  proof (cases "discard_pending env (jn_pending j)")
    case (Inl e)
    then show ?thesis using True assms by (simp add: journal_resume_def)
  next
    case (Inr cleared)
    show ?thesis
    proof (cases "resume_rows env (jn_build_session_id j) (jn_completed j) (jn_db j)")
      case (Inl e)
      then show ?thesis using True assms Inr by (simp add: journal_resume_def journal_ok_def split: prod.splits)
    next
      case (Inr out)
      obtain demoted tasks abandoned db where o: "out = ((demoted, tasks, abandoned), db)" by (cases out) auto
      have db: "db_sound codec (jn_completed j) db"
        using resume_rows_ok Inr assms unfolding o journal_ok_def by blast
      show ?thesis
      proof (cases "discard_unreferenced_completed env db (jn_completed j)")
        case (Inl e)
        then show ?thesis using True assms \<open>discard_pending _ _ = _\<close> Inr db
          by (simp add: journal_resume_def journal_ok_def o split: prod.splits)
      next
        case (Inr discarded)
        obtain n files where d: "discarded = (n, files)" by fastforce
        show ?thesis
          using discard_unreferenced_ok[of env db "jn_completed j" n files codec S] Inr d db assms True
            \<open>discard_pending _ _ = _\<close> \<open>resume_rows _ _ _ _ = _\<close>
          by (simp add: journal_resume_def journal_ok_def o split: prod.splits)
      qed
    qed
  qed
next
  case False
  then have "snd (journal_resume env sources j) = j"
    by (auto simp: journal_resume_def with_state_def split: option.splits)
  then show ?thesis using assms by simp
qed

subsection \<open>Steps and reachable journals\<close>

text \<open>
  The operations of a journal with any arguments, a crash during a commit, closing and opening again.
  Deleting the journal is not among them: nothing is left of it then.
  The digests a caller hands in have 32 bytes (their C++ type); every content staged is of the set S.
\<close>

inductive journal_step :: "json_codec \<Rightarrow> byte list set \<Rightarrow> journal \<Rightarrow> journal \<Rightarrow> bool" for codec S where
  step_record_task: "\<forall>key. jt_cache_key task = Some key \<longrightarrow> is_digest key \<Longrightarrow> journal_step codec S j (snd (record_task task j))"
| step_set_task_state: "journal_step codec S j (snd (set_task_state env t st j))"
| step_commit: "je_codec env = codec \<Longrightarrow> staged_contents env (tm_artifacts commit) \<subseteq> S \<Longrightarrow>
    is_digest (tm_output_blake3 commit) \<Longrightarrow> j' \<in> set (commit_crash_states env commit j) \<Longrightarrow> journal_step codec S j j'"
| step_resume: "je_codec env = codec \<Longrightarrow> journal_step codec S j (snd (journal_resume env sources j))"
| step_build_session: "journal_step codec S j (snd (record_build_session session j))"
| step_build_status: "journal_step codec S j (snd (set_build_session_status sid status j))"
| step_failure: "journal_step codec S j (snd (record_failure env task_id reason j))"
| step_worker: "journal_step codec S j (snd (record_worker_session worker j))"
| step_attempt: "journal_step codec S j (snd (record_task_attempt attempt j))"
| step_location: "journal_step codec S j (snd (record_blob_location env location j))"
| step_retain: "journal_step codec S j (snd (finish_success RetainForDiagnostics j))"
| step_close: "journal_step codec S j (close_journal j)"
| step_open: "journal_step codec S j (j\<lparr>jn_open := True\<rparr>)"

inductive journal_reachable :: "json_codec \<Rightarrow> byte list set \<Rightarrow> journal \<Rightarrow> bool" for codec S where
  reach_create: "create_journal root_exists session sources = Inr j \<Longrightarrow> journal_reachable codec S j"
| reach_step: "journal_reachable codec S j \<Longrightarrow> journal_step codec S j j' \<Longrightarrow> journal_reachable codec S j'"

lemma journal_step_ok:
  assumes "journal_step codec S j j'" "journal_ok codec S j" "hashes_apart codec S"
  shows "journal_ok codec S j'"
  using assms(1)
proof cases
  case (step_commit env commit)
  then show ?thesis using commit_crash_ok[OF assms(2,3)] by blast
qed (use assms(2) in \<open>simp_all add: record_task_ok set_task_state_ok journal_resume_ok plain_rows_ok finish_success_ok\<close>,
     simp_all add: close_journal_def journal_ok_def)

lemma create_journal_ok:
  assumes "create_journal root_exists session sources = Inr j" shows "journal_ok codec S j"
proof -
  obtain db1 db2 where db: "insert_build_session session apply_journal_schema = Inr db1"
    "each_insert insert_source sources db1 = Inr db2" "jn_db j = db2" "jn_completed j = []"
    using assms by (auto simp: create_journal_def and_then_Inr_iff split: if_splits)
  let ?plain = "\<lambda>db. db_task db = [] \<and> db_task_dependency db = [] \<and> db_artifact db = []
    \<and> db_artifact_provenance db = [] \<and> db_cache_hit db = []"
  have "?plain db1" using db(1) by (auto simp: insert_build_session_def and_then_Inr_iff apply_journal_schema_def)
  moreover have "insert_source x d = Inr d' \<Longrightarrow> ?plain d \<Longrightarrow> ?plain d'" for x d d'
    by (auto simp: insert_source_def and_then_Inr_iff)
  ultimately have "?plain db2" using each_insert_keeps[of insert_source ?plain sources db1 db2] db(2) by blast
  then show ?thesis using db by (simp add: journal_ok_parts keys_def)
qed

lemma journal_reachable_ok:
  assumes "journal_reachable codec S j" "hashes_apart codec S" shows "journal_ok codec S j"
  using assms(1)
proof induction
  case (reach_create root_exists session sources j)
  then show ?case by (rule create_journal_ok)
next
  case (reach_step j j')
  then show ?case using journal_step_ok assms(2) by blast
qed

end
