(* ===== verification/JournalRuns.thy ===== *)
theory JournalRuns
  imports JournalInv
begin

text \<open>
  A resume of a sound journal, in closed form: nothing is demoted, a committed task stays committed and
  every other is ready or planned by its dependencies.
\<close>

subsection \<open>Verification of sound rows\<close>

definition all_verified :: "verifier \<Rightarrow> bool" where
  "all_verified results \<longleftrightarrow> map_wf results \<and> (\<forall>reason \<in> vals results. reason = None)"

lemma row_sound_content:
  assumes "files_ok codec S files" "hashes_apart codec S" "row_sound codec files row"
  obtains content where "content \<in> S" "map_of files (aw_blake3 row) = Some (RegularFile content)"
    "aw_blake3 row = blake3_hex (jc_blake3 codec content)" "is_digest (jc_blake3 codec content)"
    "aw_byte_length row = int (length content)" "length content < 2 ^ 63"
    "aw_relative_path row = journal_completed_relative_path (aw_blake3 row)"
proof -
  obtain content where c: "map_of files (aw_blake3 row) = Some (RegularFile content)"
    "aw_blake3 row = blake3_hex (jc_blake3 codec content)" "aw_byte_length row = int (length content)"
    "length content < 2 ^ 63" "aw_relative_path row = journal_completed_relative_path (aw_blake3 row)"
    using assms(3) by (auto simp: row_sound_def)
  obtain c' where "c' \<in> S" "RegularFile content = RegularFile c'"
    using assms(1) map_of_SomeD[OF c(1)] unfolding files_ok_def by blast
  then show ?thesis using that[of content] c assms(2) by (auto simp: hashes_apart_def)
qed

lemma word_of_length: "n < 2 ^ 63 \<Longrightarrow> unat (word_of_int (int n) :: u64) = n"
  using unat_of_nat_u64[of n] by simp

lemma verifier_check_sound:
  assumes "files_ok (je_codec env) S files" "hashes_apart (je_codec env) S" "row_sound (je_codec env) files row"
    "all_verified results"
  shows "verifier_check env files row results = Inl (JournalError io_error) \<and> je_unreadable env (aw_blake3 row)
    \<or> (\<exists>results'. verifier_check env files row results = Inr (None, results') \<and> all_verified results')"
proof -
  obtain content where c: "map_of files (aw_blake3 row) = Some (RegularFile content)"
    "aw_blake3 row = blake3_hex (jc_blake3 (je_codec env) content)" "is_digest (jc_blake3 (je_codec env) content)"
    "aw_byte_length row = int (length content)" "length content < 2 ^ 63"
    "aw_relative_path row = journal_completed_relative_path (aw_blake3 row)"
    using row_sound_content[OF assms(1-3)] by metis
  have parsed: "parse_blake3_hex (aw_blake3 row) = Some (jc_blake3 (je_codec env) content)" using c(2,3) by simp
  have blob: "check_blob env files (aw_blake3 row) (jc_blake3 (je_codec env) content)
      (Some (word_of_int (aw_byte_length row))) = (if je_unreadable env (aw_blake3 row) then BlobIoError else BlobValid)"
    using c(1,4) word_of_length[OF c(5)] by (simp add: check_blob_def)
  show ?thesis
  proof (cases "map_of results (aw_relative_path row)")
    case None
    have "all_verified (map_assign (aw_relative_path row) None results)"
      using assms(4) set_map_assign[of results "aw_relative_path row" None] by (auto simp: all_verified_def vals_def)
    then show ?thesis using None c(4,6) blob by (auto simp: verifier_check_def parsed Let_def)
  next
    case (Some cached)
    then have "cached = None" using assms(4) map_of_vals unfolding all_verified_def by metis
    then show ?thesis using Some c(4,6) assms(4) by (auto simp: verifier_check_def parsed)
  qed
qed

lemma verify_artifacts_sound:
  assumes "files_ok (je_codec env) S files" "hashes_apart (je_codec env) S"
  shows "\<forall>row \<in> vals rows. row_sound (je_codec env) files row \<Longrightarrow> all_verified results \<Longrightarrow>
    verify_artifacts env files rows results = Inl (JournalError io_error) \<and> (\<exists>name. je_unreadable env name)
    \<or> (\<exists>results'. verify_artifacts env files rows results = Inr (None, results') \<and> all_verified results')"
proof (induction rows arbitrary: results)
  case (Cons entry rows)
  obtain artifact_id row where e: "entry = (artifact_id, row)" by fastforce
  have row: "row_sound (je_codec env) files row" "\<forall>row \<in> vals rows. row_sound (je_codec env) files row"
    using Cons.prems(1) e by (auto simp: vals_def)
  show ?case
    using verifier_check_sound[OF assms row(1) Cons.prems(2)]
  proof (elim disjE exE conjE)
    fix results' assume "verifier_check env files row results = Inr (None, results')" "all_verified results'"
    then show ?thesis using Cons.IH[OF row(2)] unfolding e by simp
  qed (auto simp: e)
qed auto

lemma artifacts_of_vals: "vals (artifacts_of db t) \<subseteq> vals (db_artifact db)"
  by (auto simp: artifacts_of_def vals_def)

lemma verify_tasks_sound:
  assumes "files_ok (je_codec env) S files" "hashes_apart (je_codec env) S" "db_sound (je_codec env) files db"
  shows "\<forall>(t, has_output) \<in> set tasks. has_output \<Longrightarrow> all_verified results \<Longrightarrow>
    verify_tasks env files tasks results db = Inl (JournalError io_error) \<and> (\<exists>name. je_unreadable env name)
    \<or> verify_tasks env files tasks results db = Inr ([], db)"
proof (induction tasks arbitrary: results)
  case (Cons task tasks)
  obtain t h where t: "task = (t, h)" by fastforce
  have rows: "\<forall>row \<in> vals (artifacts_of db t). row_sound (je_codec env) files row"
    using artifacts_of_vals assms(3) unfolding db_sound_def by blast
  show ?case
    using verify_artifacts_sound[OF assms(1,2) rows Cons.prems(2)]
  proof (elim disjE exE conjE)
    fix results'
    assume "verify_artifacts env files (artifacts_of db t) results = Inr (None, results')" "all_verified results'"
    then show ?thesis using Cons.IH[of results'] Cons.prems(1) unfolding t by (simp add: verify_task_def)
  qed (use Cons.prems(1) in \<open>auto simp: t verify_task_def\<close>)
qed simp

lemma verify_committed_tasks_sound:
  assumes "files_ok (je_codec env) S files" "hashes_apart (je_codec env) S" "db_sound (je_codec env) files db"
  shows "verify_committed_tasks env files db = Inl (JournalError io_error) \<and> (\<exists>name. je_unreadable env name)
    \<or> verify_committed_tasks env files db = Inr ([], db)"
proof -
  have "\<forall>(t, has_output) \<in> set (List.map (\<lambda>(t, row). (t, tw_output_blake3 row \<noteq> None))
      (filter (\<lambda>(_, row). tw_status row = task_state_name Committed) (db_task db))). has_output"
    using assms(3) by (fastforce simp: db_sound_def task_row_ok_def vals_def)
  then show ?thesis unfolding verify_committed_tasks_def
    by (intro verify_tasks_sound[OF assms]) (simp_all add: all_verified_def)
qed

subsection \<open>The states after a resume\<close>

definition resumed_state :: "journal_db \<Rightarrow> string \<Rightarrow> task_state" where
  "resumed_state db t =
     (if is_committed db t then Committed
      else if list_all (is_committed db) (dependencies_of db t) then Ready else Planned)"

definition resumed_task_of :: "journal_db \<Rightarrow> string \<times> task_row \<Rightarrow> resumed_task" where
  "resumed_task_of db = (\<lambda>(t, row).
     \<lparr>rt_task_id = t, rt_task_type = tw_task_type row, rt_state = resumed_state db t,
      rt_cache_key = Option.bind (tw_cache_key row) parse_blake3_prefixed, rt_depends_on = dependencies_of db t\<rparr>)"

definition with_resumed_states :: "journal_db \<Rightarrow> journal_db" where
  "with_resumed_states db = db\<lparr>db_task := List.map (\<lambda>(t, row).
     (t, row\<lparr>tw_status := task_state_name (resumed_state db t)\<rparr>)) (db_task db)\<rparr>"

lemma fold_update_tasks:
  "fold (\<lambda>t. update_task t (f t)) ts db =
     db\<lparr>db_task := fold (\<lambda>t. map_modify t (f t)) ts (db_task db)\<rparr>"
  by (induction ts arbitrary: db) (simp_all add: update_task_def)

lemma fold_map_modify:
  "distinct ks \<Longrightarrow> fold (\<lambda>k. map_modify k (f k)) ks m = List.map (\<lambda>(k, v). (k, if k \<in> set ks then f k v else v)) m"
proof (induction ks arbitrary: m)
  case (Cons k ks)
  then have "fold (\<lambda>k. map_modify k (f k)) (k # ks) m
    = List.map (\<lambda>(k', v). (k', if k' \<in> set ks then f k' v else v)) (map_modify k (f k) m)" by simp
  also have "\<dots> = List.map (\<lambda>(k', v). (k', if k' \<in> set (k # ks) then f k' v else v)) m"
    using Cons.prems by (auto simp: map_modify_def)
  finally show ?case .
qed (simp add: case_prod_unfold)

lemma read_all_resumed:
  assumes "map_wf (db_task db)" "\<forall>row \<in> vals (db_task db). task_row_ok row"
  shows "each_or_error (read_resumed_task db) (db_task db) = Inr (List.map (\<lambda>(t, row).
    (resumed_task_of db (t, row))\<lparr>rt_state := the (parse_task_state (tw_status row))\<rparr>) (db_task db))"
proof -
  have "read_resumed_task db (t, row) = Inr ((resumed_task_of db (t, row))\<lparr>rt_state := the (parse_task_state (tw_status row))\<rparr>)"
    if "(t, row) \<in> set (db_task db)" for t row
  proof -
    have "row \<in> vals (db_task db)" using that by (force simp: vals_def)
    then have "task_row_ok row" using assms(2) by blast
    then show ?thesis by (auto simp: read_resumed_task_def resumed_task_of_def task_row_ok_def split: option.splits)
  qed
  then have "\<forall>entry \<in> set (db_task db). read_resumed_task db entry = Inr ((case entry of (t, row) \<Rightarrow>
      (resumed_task_of db (t, row))\<lparr>rt_state := the (parse_task_state (tw_status row))\<rparr>))" by auto
  then show ?thesis unfolding each_or_error_Inr_iff by (simp add: list_all2_conv_all_nth)
qed

lemma reset_sound:
  assumes "map_wf (db_task db)" "\<forall>row \<in> vals (db_task db). task_row_ok row"
  shows "reset_incomplete_tasks db = Inr (List.map (resumed_task_of db) (db_task db), with_resumed_states db)"
proof -
  let ?read = "List.map (\<lambda>(t, row).
    (resumed_task_of db (t, row))\<lparr>rt_state := the (parse_task_state (tw_status row))\<rparr>) (db_task db)"
  have lookup: "map_of (db_task db) t = Some row \<longleftrightarrow> (t, row) \<in> set (db_task db)" for t row
    by (rule map_of_mem_iff[OF assms(1)])
  have state: "the (parse_task_state (tw_status row)) = Committed \<longleftrightarrow> is_committed db t"
    if "(t, row) \<in> set (db_task db)" for t row
  proof -
    have "row \<in> vals (db_task db)" using that by (force simp: vals_def)
    then obtain st where "tw_status row = task_state_name st"
      using assms(2) by (auto simp: task_row_ok_def parse_task_state_Some)
    then show ?thesis using that lookup[of t row] by (auto simp: is_committed_def)
  qed
  have dep: "(\<exists>task \<in> set ?read. rt_task_id task = d \<and> rt_state task = Committed) \<longleftrightarrow> is_committed db d" for d
  proof
    assume "is_committed db d"
    then obtain row where "(d, row) \<in> set (db_task db)" using lookup by (auto simp: is_committed_def)
    then show "\<exists>task \<in> set ?read. rt_task_id task = d \<and> rt_state task = Committed"
      using state[of d row] \<open>is_committed db d\<close> by (force simp: resumed_task_of_def)
  qed (use state in \<open>force simp: resumed_task_of_def\<close>)
  have resumed: "List.map (resume_state ?read) ?read = List.map (resumed_task_of db) (db_task db)"
  proof -
    have "resume_state ?read ((resumed_task_of db (t, row))\<lparr>rt_state := the (parse_task_state (tw_status row))\<rparr>)
        = resumed_task_of db (t, row)" if "(t, row) \<in> set (db_task db)" for t row
      using state[OF that] unfolding resume_state_def dep
      by (auto simp: resumed_task_of_def resumed_state_def list_all_iff)
    then show ?thesis by auto
  qed
  let ?f = "\<lambda>t row. row\<lparr>tw_status := task_state_name (resumed_state db t)\<rparr>"
  have same: "?f t row = row" if "(t, row) \<in> set (db_task db)" "resumed_state db t = Committed" for t row
    using that lookup[of t row] by (auto simp: resumed_state_def is_committed_def split: if_splits)
  let ?ids = "filter (\<lambda>t. resumed_state db t \<noteq> Committed) (List.map fst (db_task db))"
  have "fold write_resumed_state (List.map (resumed_task_of db) entries) d
      = fold (\<lambda>t. update_task t (?f t)) (filter (\<lambda>t. resumed_state db t \<noteq> Committed) (List.map fst entries)) d" for entries d
    by (induction entries arbitrary: d) (auto simp: write_resumed_state_def resumed_task_of_def)
  then have "fold write_resumed_state (List.map (resumed_task_of db) (db_task db)) db
      = db\<lparr>db_task := List.map (\<lambda>(t, row). (t, if t \<in> set ?ids then ?f t row else row)) (db_task db)\<rparr>"
    using fold_map_modify[of ?ids ?f "db_task db"] map_wf_distinct[OF assms(1)] by (simp add: fold_update_tasks)
  also have "\<dots> = with_resumed_states db"
    unfolding with_resumed_states_def using same by (force intro!: arg_cong[where f = "\<lambda>t. db\<lparr>db_task := t\<rparr>"])
  finally show ?thesis
    unfolding reset_incomplete_tasks_def read_all_resumed[OF assms] by (simp only: and_then_simps Let_def resumed)
qed

subsection \<open>A resume in closed form\<close>

definition referenced_files ::
  "journal_env \<Rightarrow> journal_db \<Rightarrow> (string, file_node) std_map \<Rightarrow> (string, file_node) std_map" where
  "referenced_files env db files =
     filter (\<lambda>(name, _). journal_completed_relative_path name \<in> aw_relative_path ` vals (db_artifact db)
        \<or> je_unremovable env name) files"

text \<open>The files that rows name stay.\<close>

lemma referenced_files_keep:
  assumes "row \<in> vals (db_artifact db)" "aw_relative_path row = journal_completed_relative_path (aw_blake3 row)"
  shows "map_of (referenced_files env db files) (aw_blake3 row) = map_of files (aw_blake3 row)"
proof -
  have keep: "P k \<Longrightarrow> map_of (filter (\<lambda>(k', _). P k') m) k = map_of m k" for P k and m :: "(string, file_node) std_map"
    by (induction m) auto
  have "journal_completed_relative_path (aw_blake3 row) \<in> aw_relative_path ` vals (db_artifact db)"
    using assms by (metis imageI)
  then show ?thesis unfolding referenced_files_def by (intro keep) simp
qed

lemma discard_unreferenced_eq:
  "discard_unreferenced_completed env db files =
     (if je_completed_unlisted env then Inl (JournalError io_error)
      else Inr (length files - length (referenced_files env db files), referenced_files env db files))"
  by (simp add: discard_unreferenced_completed_def referenced_files_def vals_def image_image case_prod_unfold Let_def)

definition resumed_db :: "string \<Rightarrow> journal_db \<Rightarrow> journal_db" where
  "resumed_db sid db =
     update_build_session_status sid BuildSessionActive (snd (abandon_open_attempts (with_resumed_states db)))"

lemma resumed_db_tables:
  "db_task (resumed_db sid db) = db_task (with_resumed_states db)"
  "db_task_dependency (resumed_db sid db) = db_task_dependency db"
  "db_artifact (resumed_db sid db) = db_artifact db"
  by (simp_all add: resumed_db_def update_build_session_status_def abandon_open_attempts_def Let_def
      with_resumed_states_def)

lemma referenced_files_resumed [simp]: "referenced_files env (resumed_db sid db) files = referenced_files env db files"
  by (simp add: referenced_files_def resumed_db_tables)

lemma resume_rows_sound:
  assumes "files_ok (je_codec env) S files" "hashes_apart (je_codec env) S" "db_sound (je_codec env) files db"
  shows "resume_rows env sid files db = Inl (JournalError io_error) \<and> (\<exists>name. je_unreadable env name)
    \<or> resume_rows env sid files db = Inr (([], List.map (resumed_task_of db) (db_task db),
         fst (abandon_open_attempts db)), resumed_db sid db)"
proof -
  have "reset_incomplete_tasks db = Inr (List.map (resumed_task_of db) (db_task db), with_resumed_states db)"
    using assms(3) by (intro reset_sound) (simp_all add: db_sound_def tables_wf_def)
  moreover have "fst (abandon_open_attempts (with_resumed_states db)) = fst (abandon_open_attempts db)"
    by (simp add: abandon_open_attempts_def with_resumed_states_def Let_def)
  ultimately show ?thesis
    using verify_committed_tasks_sound[OF assms]
    by (auto simp: resume_rows_def resumed_db_def case_prod_unfold Let_def)
qed

definition disk_readable :: "journal_env \<Rightarrow> bool" where
  "disk_readable env \<longleftrightarrow> (\<forall>name. \<not> je_unreadable env name) \<and> \<not> je_pending_unlisted env \<and> \<not> je_completed_unlisted env"

definition resumed_journal :: "journal_env \<Rightarrow> journal \<Rightarrow> journal" where
  "resumed_journal env j = j\<lparr>jn_pending := filter (je_unremovable env) (jn_pending j),
     jn_db := resumed_db (jn_build_session_id j) (jn_db j),
     jn_completed := referenced_files env (jn_db j) (jn_completed j)\<rparr>"

lemma journal_resume_sound:
  assumes "journal_ok (je_codec env) S j" "hashes_apart (je_codec env) S" "jn_open j"
    "verify_sources (jn_db j) sources = None" "disk_readable env"
  shows "journal_resume env sources j =
    (Inr \<lparr>rr_tasks = List.map (resumed_task_of (jn_db j)) (db_task (jn_db j)), rr_demoted = [],
          rr_discarded_pending_blobs = length (filter (\<lambda>name. \<not> je_unremovable env name) (jn_pending j)),
          rr_discarded_completed_blobs =
            length (jn_completed j) - length (referenced_files env (jn_db j) (jn_completed j)),
          rr_abandoned_attempts = fst (abandon_open_attempts (jn_db j))\<rparr>,
     resumed_journal env j)"
  using resume_rows_sound[of env S "jn_completed j" "jn_db j" "jn_build_session_id j"] assms
    by (auto simp: journal_resume_def discard_pending_def disk_readable_def journal_ok_def discard_unreferenced_eq
        resumed_journal_def Let_def)

text \<open>Whatever the disk does, a resume leaves the database as it was or resumed, and the files of its rows.\<close>

lemma journal_resume_outcome:
  assumes "journal_ok (je_codec env) S j" "hashes_apart (je_codec env) S" "snd (journal_resume env sources j) = j'"
  shows "(jn_db j' = jn_db j \<or> jn_db j' = resumed_db (jn_build_session_id j) (jn_db j))
    \<and> (jn_completed j' = jn_completed j \<or> jn_completed j' = referenced_files env (jn_db j) (jn_completed j))"
  using resume_rows_sound[of env S "jn_completed j" "jn_db j" "jn_build_session_id j"] assms
    by (auto simp: journal_resume_def with_state_def journal_ok_def discard_unreferenced_eq Let_def
        split: option.splits sum.splits prod.splits if_splits)

subsection \<open>What a commit leaves, whatever follows\<close>

definition output_of :: "journal_db \<Rightarrow> string \<Rightarrow> string option" where
  "output_of db t = Option.bind (map_of (db_task db) t) tw_output_blake3"

text \<open>A committed task with its output digest, its artifact rows and their files, as they were.\<close>

definition commit_stays :: "journal \<Rightarrow> journal \<Rightarrow> string \<Rightarrow> bool" where
  "commit_stays j j' t \<longleftrightarrow> is_committed (jn_db j') t \<and> output_of (jn_db j') t = output_of (jn_db j) t
     \<and> artifacts_of (jn_db j') t = artifacts_of (jn_db j) t
     \<and> (\<forall>row \<in> vals (artifacts_of (jn_db j) t). map_of (jn_completed j') (aw_blake3 row) = map_of (jn_completed j) (aw_blake3 row))"

lemma commit_stays_trans: "commit_stays a b t \<Longrightarrow> commit_stays b c t \<Longrightarrow> commit_stays a c t"
  by (simp add: commit_stays_def)

lemma commit_stays_same:
  assumes "is_committed (jn_db j) t" "db_artifact (jn_db j') = db_artifact (jn_db j)"
    "map_of (db_task (jn_db j')) t = map_of (db_task (jn_db j)) t" "jn_completed j' = jn_completed j"
  shows "commit_stays j j' t"
  using assms by (simp add: commit_stays_def is_committed_def output_of_def artifacts_of_def)

lemma transact_stays:
  assumes "is_committed (jn_db j) t"
    "\<And>db. f (jn_db j) = Inr db \<Longrightarrow> db_artifact db = db_artifact (jn_db j)
       \<and> map_of (db_task db) t = map_of (db_task (jn_db j)) t"
  shows "commit_stays j (snd (transact f j)) t"
  by (rule transact_cases[of f j]) (use assms in \<open>auto intro!: commit_stays_same\<close>)

lemma filter_emplace:
  "map_of m k = None \<Longrightarrow> \<not> P (k, v) \<Longrightarrow> filter P (map_emplace k v m) = filter P m"
  by (induction k v m rule: map_emplace.induct) (auto split: if_splits)

lemma insert_artifacts_others:
  "each_insert (insert_artifact env u) entries db = Inr db' \<Longrightarrow> t \<noteq> u \<Longrightarrow>
   artifacts_of db' t = artifacts_of db t \<and> db_task db' = db_task db"
proof (induction entries arbitrary: db)
  case (Cons entry entries)
  obtain db1 where db1: "insert_artifact env u entry db = Inr db1" "each_insert (insert_artifact env u) entries db1 = Inr db'"
    using Cons.prems(1) by (auto simp: and_then_Inr_iff)
  then have "artifacts_of db1 t = artifacts_of db t \<and> db_task db1 = db_task db"
    using Cons.prems(2) by (auto simp: insert_artifact_def and_then_Inr_iff insert_row_Inr artifacts_of_def
        filter_emplace split: prod.splits)
  then show ?case using Cons.IH[OF db1(2) Cons.prems(2)] by simp
qed simp

lemma commit_rows_others:
  assumes "commit_rows env commit blobs db = Inr db'" "t \<noteq> tm_task_id commit"
  shows "artifacts_of db' t = artifacts_of db t" "map_of (db_task db') t = map_of (db_task db) t"
proof -
  obtain db1 db2 where "each_insert (insert_artifact env (tm_task_id commit)) (zip (tm_artifacts commit) blobs) db = Inr db1"
    "insert_cache_hit (tm_task_id commit) (tm_cache_hit commit) db1 = Inr db2"
    "db' = update_task (tm_task_id commit) (\<lambda>row. row\<lparr>tw_status := task_state_name Committed,
       tw_output_blake3 := Some (blake3_hex (tm_output_blake3 commit)), tw_completed_utc := Some (je_now env)\<rparr>) db2"
    using assms(1) by (auto simp: commit_rows_def and_then_Inr_iff)
  then show "artifacts_of db' t = artifacts_of db t" "map_of (db_task db') t = map_of (db_task db) t"
    using insert_artifacts_others assms(2)
    by (auto simp: insert_cache_hit_def and_then_Inr_iff artifacts_of_def update_task_def split: option.splits)
qed

text \<open>More files, and the same rows: the files of the rows are there as before.\<close>

lemma sound_files_stay:
  assumes "db_sound codec files db" "map_of files \<subseteq>\<^sub>m map_of files'" "row \<in> vals (artifacts_of db t)"
  shows "map_of files' (aw_blake3 row) = map_of files (aw_blake3 row)"
proof -
  have "row_sound codec files row" using assms(1,3) artifacts_of_vals unfolding db_sound_def by blast
  then obtain node where "map_of files (aw_blake3 row) = Some node" by (auto simp: row_sound_def)
  then show ?thesis using assms(2) by (metis domI map_le_def)
qed

lemma commit_task_stays:
  assumes ok: "journal_ok codec S j" and apart: "hashes_apart codec S" and env: "je_codec env = codec"
    and S: "staged_contents env (tm_artifacts commit) \<subseteq> S" and t: "is_committed (jn_db j) t"
  shows "commit_stays j (snd (commit_task env commit j)) t"
proof (cases "jn_open j \<and> commit_checks commit (jn_db j) = None")
  case True
  have other: "t \<noteq> tm_task_id commit"
  proof -
    obtain row where "map_of (db_task (jn_db j)) (tm_task_id commit) = Some row"
      "tw_status row = task_state_name ResultReceived"
      using require_task_state_known[OF commit_checks_known] True by blast
    then show ?thesis using t by (auto simp: is_committed_def)
  qed
  obtain stored files where st: "store_task_artifacts env (tm_artifacts commit) (jn_completed j) = (stored, files)"
    by fastforce
  have sound: "db_sound codec (jn_completed j) (jn_db j)" and le: "map_of (jn_completed j) \<subseteq>\<^sub>m map_of files"
    using ok store_task_artifacts_ok[OF apart env _ S st] by (auto simp: journal_ok_def)
  have "commit_stays j (j\<lparr>jn_completed := files\<rparr>) t"
    using t sound_files_stay[OF sound le] by (simp add: commit_stays_def)
  moreover have "commit_stays (j\<lparr>jn_completed := files\<rparr>) (snd (transact (commit_rows env commit blobs) (j\<lparr>jn_completed := files\<rparr>))) t" for blobs
    by (rule transact_cases[of "commit_rows env commit blobs" "j\<lparr>jn_completed := files\<rparr>"])
      (use t commit_rows_others[OF _ other] in \<open>auto simp: commit_stays_def is_committed_def output_of_def\<close>)
  ultimately show ?thesis using True st commit_stays_trans
    by (auto simp: commit_task_def split: sum.splits)
next
  case False
  then have "snd (commit_task env commit j) = j"
    by (auto simp: commit_task_def with_state_def split: option.splits)
  then show ?thesis using t by (simp add: commit_stays_def)
qed

lemma map_of_map_values: "map_of (List.map (\<lambda>(k, v). (k, f k v)) m) k = map_option (f k) (map_of m k)"
  by (induction m) auto

lemma resumed_row:
  "map_of (db_task (resumed_db sid db)) t
     = map_option (\<lambda>row. row\<lparr>tw_status := task_state_name (resumed_state db t)\<rparr>) (map_of (db_task db) t)"
  unfolding resumed_db_tables with_resumed_states_def by (simp add: map_of_map_values)

lemma resumed_committed: "is_committed (resumed_db sid db) t \<longleftrightarrow> is_committed db t"
  by (auto simp: is_committed_def resumed_row resumed_state_def split: if_splits)

lemma journal_resume_stays:
  assumes ok: "journal_ok (je_codec env) S j" and apart: "hashes_apart (je_codec env) S" and t: "is_committed (jn_db j) t"
  shows "commit_stays j (snd (journal_resume env sources j)) t"
proof -
  let ?j = "snd (journal_resume env sources j)"
  note outcome = journal_resume_outcome[OF ok apart refl, of sources]
  have "map_of (jn_completed ?j) (aw_blake3 row) = map_of (jn_completed j) (aw_blake3 row)"
    if row: "row \<in> vals (artifacts_of (jn_db j) t)" for row
  proof -
    have in_db: "row \<in> vals (db_artifact (jn_db j))" using row artifacts_of_vals by blast
    then have "row_sound (je_codec env) (jn_completed j) row" using ok by (simp add: journal_ok_def db_sound_def)
    then have "aw_relative_path row = journal_completed_relative_path (aw_blake3 row)" by (simp add: row_sound_def)
    note referenced_files_keep[OF in_db this, of env "jn_completed j"]
    then show ?thesis using outcome by metis
  qed
  moreover have "is_committed (jn_db ?j) t" "output_of (jn_db ?j) t = output_of (jn_db j) t"
    "artifacts_of (jn_db ?j) t = artifacts_of (jn_db j) t"
    using outcome t resumed_committed resumed_row[of _ "jn_db j" t] resumed_db_tables(3)
    by (auto simp: output_of_def artifacts_of_def bind_map_option comp_def)
  ultimately show ?thesis by (simp add: commit_stays_def)
qed

lemma insert_dependencies_others:
  "each_insert (insert_dependency u) deps db = Inr db' \<Longrightarrow> db_task db' = db_task db \<and> db_artifact db' = db_artifact db"
  by (rule each_insert_keeps[where P = "\<lambda>d. db_task d = db_task db \<and> db_artifact d = db_artifact db"])
    (auto simp: insert_dependency_def and_then_Inr_iff)

lemma record_task_stays:
  assumes "journal_ok codec S j" "is_committed (jn_db j) t"
  shows "commit_stays j (snd (record_task task j)) t"
proof -
  have wf: "map_wf (db_task (jn_db j))" using assms(1) by (simp add: journal_ok_parts)
  show ?thesis unfolding record_task_def
    using assms(2) wf insert_dependencies_others
    by (auto intro!: transact_stays commit_stays_same simp: and_then_Inr_iff insert_row_Inr is_committed_def
        split: option.splits)
qed

lemma set_task_state_stays:
  assumes "is_committed (jn_db j) t" shows "commit_stays j (snd (set_task_state env u st j)) t"
  unfolding set_task_state_def
proof (rule transact_stays[OF assms])
  fix db
  assume "and_then (require_task_state (jn_db j) u) (\<lambda>current.
      if st = Committed \<or> \<not> is_task_transition_allowed current st then Inl (JournalError invalid_transition)
      else Inr (update_task u (\<lambda>row. row\<lparr>tw_status := task_state_name st,
         tw_started_utc := (if st = Running then Some (je_now env) else tw_started_utc row)\<rparr>) (jn_db j))) = Inr db"
  then obtain current where c: "require_task_state (jn_db j) u = Inr current" "is_task_transition_allowed current st"
    "db = update_task u (\<lambda>row. row\<lparr>tw_status := task_state_name st,
         tw_started_utc := (if st = Running then Some (je_now env) else tw_started_utc row)\<rparr>) (jn_db j)"
    by (auto simp: and_then_Inr_iff split: if_splits)
  have "current \<noteq> Committed" using c(2) by (auto simp: is_task_transition_allowed_def kAllowedTransitions_def)
  then have "u \<noteq> t" using require_task_state_known[OF c(1)] assms by (auto simp: is_committed_def)
  then show "db_artifact db = db_artifact (jn_db j) \<and> map_of (db_task db) t = map_of (db_task (jn_db j)) t"
    unfolding c(3) by (simp add: update_task_def)
qed

lemma plain_rows_stay:
  assumes "is_committed (jn_db j) t"
  shows "commit_stays j (snd (record_build_session session j)) t"
    "commit_stays j (snd (set_build_session_status sid status j)) t"
    "commit_stays j (snd (record_failure env task_id reason j)) t"
    "commit_stays j (snd (record_worker_session w j)) t"
    "commit_stays j (snd (record_task_attempt a j)) t"
    "commit_stays j (snd (record_blob_location env l j)) t"
  unfolding plain_rows using assms
  by (auto intro!: transact_stays commit_stays_same simp: and_then_Inr_iff split: option.splits if_splits)

lemma finish_retained_stays:
  assumes "is_committed (jn_db j) t" shows "commit_stays j (snd (finish_success RetainForDiagnostics j)) t"
proof -
  obtain r j1 where call: "set_build_session_status (jn_build_session_id j) BuildSessionSucceeded j = (r, j1)" by fastforce
  then have "commit_stays j j1 t" using plain_rows_stay(2)[OF assms, of "jn_build_session_id j" BuildSessionSucceeded] by simp
  then show ?thesis unfolding finish_success_def call by (cases r) (auto simp: close_journal_def commit_stays_def)
qed

lemma journal_step_stays:
  assumes step: "journal_step codec S j j'" and ok: "journal_ok codec S j" and apart: "hashes_apart codec S"
    and t: "is_committed (jn_db j) t"
  shows "commit_stays j j' t"
  using step
proof cases
  case (step_commit env commit)
  have sound: "db_sound codec (jn_completed j) (jn_db j)" using ok by (simp add: journal_ok_def)
  from commit_crash_states_cases[OF ok apart step_commit(1,2,4)] show ?thesis
  proof
    assume "j' = snd (commit_task env commit j)"
    then show ?thesis using commit_task_stays[OF ok apart step_commit(1,2) t] by simp
  next
    assume same: "jn_db j' = jn_db j \<and> map_of (jn_completed j) \<subseteq>\<^sub>m map_of (jn_completed j') \<and> files_ok codec S (jn_completed j')"
    have "\<forall>row \<in> vals (artifacts_of (jn_db j) t). map_of (jn_completed j') (aw_blake3 row) = map_of (jn_completed j) (aw_blake3 row)"
      using sound_files_stay[OF sound, of "jn_completed j'"] same by blast
    then show ?thesis using same t by (simp add: commit_stays_def)
  qed
next
  case (step_resume env sources)
  then show ?thesis using journal_resume_stays[of env S j t sources] ok apart t by simp
qed (use t in \<open>simp_all add: record_task_stays[OF ok] set_task_state_stays plain_rows_stay finish_retained_stays\<close>,
     simp_all add: close_journal_def commit_stays_def)

end
