(* ===== verification/JournalSinkFacts.thy ===== *)
theory JournalSinkFacts
  imports JournalRuns JsonProps
begin

text \<open>
  What the sink stores of a result, and that reading it back gives the same result: in the journal
  right after the commit, and in every journal that later steps lead to.
\<close>

subsection \<open>The record of a result\<close>

lemma committed_result_record_roundtrip:
  assumes "encode_committed_result_record codec result executor_id = Inr text"
    and "validate_task_result (json_exec_lib codec) result = None" "result_types result"
    and "\<And>v. encode_canonical_json codec v = Inr text \<Longrightarrow> reads_back codec v"
  shows "decode_committed_result_record codec text = Inr (result, executor_id)"
proof -
  obtain v where v: "task_result_to_json codec result = Inr v" and enc: "encode_canonical_json codec
      (json_object [(''executor_id'', JString executor_id), (''schema'', JString kCommittedResultRecordSchema),
         (''task_result'', v)]) = Inr text"
    using assms(1) by (auto simp: encode_committed_result_record_def and_then_Inr_iff)
  have sorted: "json_object [(''executor_id'', JString executor_id), (''schema'', JString kCommittedResultRecordSchema),
      (''task_result'', v)] = JObject [(''executor_id'', JString executor_id),
      (''schema'', JString kCommittedResultRecordSchema), (''task_result'', v)]"
    by (rule json_object_sorted) (simp add: map_wf_def)
  have "task_result_from_json codec v = Inr result"
    using task_result_json_roundtrip[OF assms(2,3)] v by simp
  moreover have "is_object v" using v by (auto simp: task_result_to_json_def and_then_Inr_iff Let_def
        json_object_def json_assign_def split: option.splits json.splits)
  ultimately show ?thesis
    using decode_encoded[OF enc assms(4)[OF enc]] unfolding sorted
    by (simp add: decode_committed_result_record_def require_object_def reject_unknown_fields_def
        required_string_def required_object_def required_field_def)
qed

subsection \<open>The rows a commit writes\<close>

definition written_row :: "string \<Rightarrow> artifact_input \<times> string \<times> u64 \<Rightarrow> string \<times> artifact_row" where
  "written_row t = (\<lambda>(artifact, path, bytes).
     (ai_artifact_id artifact, \<lparr>aw_task_id = t, aw_relative_path = path, aw_blake3 = blake3_hex (ai_blake3 artifact),
        aw_byte_length = uint bytes\<rparr>))"

lemma insert_artifact_written:
  assumes "insert_artifact env t entry db = Inr db'" "map_wf (db_artifact db)"
  shows "map_wf (db_artifact db') \<and> set (artifacts_of db' t) = insert (written_row t entry) (set (artifacts_of db t))
    \<and> length (artifacts_of db' t) = Suc (length (artifacts_of db t))"
proof -
  obtain artifact path bytes where e: "entry = (artifact, path, bytes)" by (cases entry) auto
  let ?row = "snd (written_row t entry)"
  have row: "?row = \<lparr>aw_task_id = t, aw_relative_path = path, aw_blake3 = blake3_hex (ai_blake3 artifact),
      aw_byte_length = uint bytes\<rparr>" by (simp add: e written_row_def)
  have *: "map_of (db_artifact db) (ai_artifact_id artifact) = None"
    "db_artifact db' = map_emplace (ai_artifact_id artifact) ?row (db_artifact db)"
    using assms(1) row unfolding e insert_artifact_def
    by (auto simp: and_then_Inr_iff insert_row_Inr bind_unsigned_Inr)
  show ?thesis
    using assms(2) set_map_emplace[OF assms(2) *(1)]
      length_filter_emplace[OF assms(2) *(1), of "\<lambda>(_, row). aw_task_id row = t" ?row]
    unfolding artifacts_of_def *(2) by (auto simp: e written_row_def)
qed

lemma insert_artifacts_written:
  "each_insert (insert_artifact env t) entries db = Inr db' \<Longrightarrow> map_wf (db_artifact db) \<Longrightarrow>
   set (artifacts_of db' t) = written_row t ` set entries \<union> set (artifacts_of db t)
   \<and> length (artifacts_of db' t) = length entries + length (artifacts_of db t)"
proof (induction entries arbitrary: db)
  case (Cons entry entries)
  obtain db1 where db1: "insert_artifact env t entry db = Inr db1" "each_insert (insert_artifact env t) entries db1 = Inr db'"
    using Cons.prems(1) by (auto simp: and_then_Inr_iff)
  note one = insert_artifact_written[OF db1(1) Cons.prems(2)]
  show ?case using Cons.IH[OF db1(2)] one by auto
qed simp

lemma commit_rows_written:
  assumes "commit_rows env commit blobs db = Inr db'" "db_sound codec files db"
    "require_task_state db (tm_task_id commit) = Inr ResultReceived"
  shows "set (artifacts_of db' (tm_task_id commit)) = written_row (tm_task_id commit) ` set (zip (tm_artifacts commit) blobs)"
    "length (artifacts_of db' (tm_task_id commit)) = length (zip (tm_artifacts commit) blobs)"
    "is_committed db' (tm_task_id commit)"
    "output_of db' (tm_task_id commit) = Some (blake3_hex (tm_output_blake3 commit))"
proof -
  let ?t = "tm_task_id commit"
  obtain row where row: "map_of (db_task db) ?t = Some row" "tw_status row = task_state_name ResultReceived"
    using require_task_state_known[OF assms(3)] by blast
  then have "\<not> is_committed db ?t" by (simp add: is_committed_def)
  then have none: "artifacts_of db ?t = []"
    using assms(2) by (force simp: artifacts_of_def filter_empty_conv db_sound_def vals_def)
  obtain db1 db2 where steps: "each_insert (insert_artifact env ?t) (zip (tm_artifacts commit) blobs) db = Inr db1"
    "insert_cache_hit ?t (tm_cache_hit commit) db1 = Inr db2"
    "db' = update_task ?t (\<lambda>row. row\<lparr>tw_status := task_state_name Committed,
       tw_output_blake3 := Some (blake3_hex (tm_output_blake3 commit)), tw_completed_utc := Some (je_now env)\<rparr>) db2"
    using assms(1) by (auto simp: commit_rows_def and_then_Inr_iff)
  have artifacts: "artifacts_of db' u = artifacts_of db1 u" "db_task db2 = db_task db1" for u
    using steps(2) unfolding steps(3)
    by (auto simp: insert_cache_hit_def and_then_Inr_iff artifacts_of_def update_task_def split: option.splits)
  have tasks: "db_task db1 = db_task db"
  proof -
    have "insert_artifact env ?t x d = Inr d' \<Longrightarrow> db_task d = db_task db \<Longrightarrow> db_task d' = db_task db" for x d d'
      by (auto simp: insert_artifact_def and_then_Inr_iff split: prod.splits)
    then show ?thesis using each_insert_keeps[of "insert_artifact env ?t" "\<lambda>d. db_task d = db_task db"] steps(1) by blast
  qed
  have wf: "map_wf (db_artifact db)" using assms(2) by (simp add: db_sound_def tables_wf_def)
  show "set (artifacts_of db' ?t) = written_row ?t ` set (zip (tm_artifacts commit) blobs)"
    "length (artifacts_of db' ?t) = length (zip (tm_artifacts commit) blobs)"
    using insert_artifacts_written[OF steps(1) wf] none by (simp_all add: artifacts(1))
  show "is_committed db' ?t" "output_of db' ?t = Some (blake3_hex (tm_output_blake3 commit))"
    using row(1) artifacts(2) tasks unfolding steps(3) by (simp_all add: is_committed_def output_of_def update_task_def)
qed

text \<open>Staging succeeds only when the bytes hash to the digest declared.\<close>

lemma stage_declared:
  "stage_artifacts env i artifacts = Inr blobs \<Longrightarrow> artifact \<in> set artifacts \<Longrightarrow> ai_content artifact = InMemory bytes \<Longrightarrow>
   ai_blake3 artifact = jc_blake3 (je_codec env) bytes"
proof (induction artifacts arbitrary: i blobs)
  case (Cons a artifacts)
  then obtain blob blobs' where b: "stage_artifact env i a = Inr blob" "stage_artifacts env (Suc i) artifacts = Inr blobs'"
    by (auto simp: and_then_Inr_iff)
  then show ?case using Cons by (auto simp: stage_artifact_def stage_blob_def Let_def split: option.splits if_splits stage_result.splits)
qed simp

text \<open>A successful commit: every artifact has its row, whose file holds the artifact's bytes.\<close>

definition artifact_held :: "json_codec \<Rightarrow> journal \<Rightarrow> string \<Rightarrow> string \<Rightarrow> byte list \<Rightarrow> bool" where
  "artifact_held codec j t artifact_id content \<longleftrightarrow>
     (\<exists>row. (artifact_id, row) \<in> set (artifacts_of (jn_db j) t) \<and> aw_blake3 row = blake3_hex (jc_blake3 codec content)
        \<and> aw_relative_path row = journal_completed_relative_path (aw_blake3 row)
        \<and> aw_byte_length row = int (length content) \<and> length content < 2 ^ 63
        \<and> map_of (jn_completed j) (aw_blake3 row) = Some (RegularFile content))"

lemma commit_task_holds:
  assumes ok: "journal_ok codec S j" and apart: "hashes_apart codec S" and env: "je_codec env = codec"
    and S: "staged_contents env (tm_artifacts commit) \<subseteq> S" and digest: "is_digest (tm_output_blake3 commit)"
    and success: "commit_task env commit j = (Inr (), j')"
  shows "is_committed (jn_db j') (tm_task_id commit)"
    "output_of (jn_db j') (tm_task_id commit) = Some (blake3_hex (tm_output_blake3 commit))"
    "length (artifacts_of (jn_db j') (tm_task_id commit)) = length (tm_artifacts commit)"
    "\<forall>artifact \<in> set (tm_artifacts commit). \<forall>bytes. ai_content artifact = InMemory bytes
       \<longrightarrow> artifact_held codec j' (tm_task_id commit) (ai_artifact_id artifact) bytes"
    "jn_open j'"
proof -
  let ?t = "tm_task_id commit"
  have checks: "jn_open j" "commit_checks commit (jn_db j) = None"
    using success by (auto simp: commit_task_def with_state_def split: if_splits option.splits)
  obtain stored files where st: "store_task_artifacts env (tm_artifacts commit) (jn_completed j) = (stored, files)" by fastforce
  obtain blobs where blobs: "stored = Inr blobs"
    using success checks st by (cases stored) (auto simp: commit_task_def)
  have tr: "transact (commit_rows env commit blobs) (j\<lparr>jn_completed := files\<rparr>) = (Inr (), j')"
    using success checks st blobs by (simp add: commit_task_def)
  then obtain db where db: "commit_rows env commit blobs (jn_db j) = Inr db" "j' = j\<lparr>jn_completed := files, jn_db := db\<rparr>"
    by (cases rule: transact_cases[of "commit_rows env commit blobs" "j\<lparr>jn_completed := files\<rparr>"]) auto
  note stored = store_task_artifacts_ok[OF apart env _ S st]
  have two: "list_all2 (stored_ok codec files) (tm_artifacts commit) blobs" "files_ok codec S files"
    and sound: "db_sound codec files (jn_db j)"
    using stored ok blobs db_sound_more_files by (auto simp: journal_ok_def)
  note written = commit_rows_written[OF db(1) sound commit_checks_known[OF checks(2)]]
  show "is_committed (jn_db j') ?t" "output_of (jn_db j') ?t = Some (blake3_hex (tm_output_blake3 commit))" "jn_open j'"
    using written(3,4) checks(1) by (simp_all add: db(2))
  show "length (artifacts_of (jn_db j') ?t) = length (tm_artifacts commit)"
    using written(2) list_all2_lengthD[OF two(1)] by (simp add: db(2))
  show "\<forall>artifact \<in> set (tm_artifacts commit). \<forall>bytes. ai_content artifact = InMemory bytes
       \<longrightarrow> artifact_held codec j' ?t (ai_artifact_id artifact) bytes"
  proof (intro ballI allI impI)
    fix artifact bytes assume a: "artifact \<in> set (tm_artifacts commit)" "ai_content artifact = InMemory bytes"
    obtain i where i: "i < length (tm_artifacts commit)" "tm_artifacts commit ! i = artifact"
      using a(1) by (auto simp: in_set_conv_nth)
    obtain path n where blob: "blobs ! i = (path, n)" by fastforce
    have in_zip: "(artifact, path, n) \<in> set (zip (tm_artifacts commit) blobs)"
      using i blob list_all2_lengthD[OF two(1)] by (force simp: set_zip)
    have "stored_ok codec files artifact (path, n)" using two(1) i blob by (metis list_all2_nthD)
    then obtain content where c: "map_of files (blake3_hex (ai_blake3 artifact)) = Some (RegularFile content)"
      "ai_blake3 artifact = jc_blake3 codec content" "n = of_nat (length content)" "length content < 2 ^ 64"
      "path = journal_completed_relative_path (blake3_hex (ai_blake3 artifact))" by (auto simp: stored_ok_def)
    have row: "written_row ?t (artifact, path, n) \<in> set (artifacts_of db ?t)" using written(1) in_zip by simp
    have "row_sound codec files (snd (written_row ?t (artifact, path, n)))"
    proof -
      have "db_sound codec files db"
        using commit_rows_ok[OF db(1) sound two(1) digest] require_task_state_known[OF commit_checks_known[OF checks(2)]] by auto
      then show ?thesis using row artifacts_of_vals by (force simp: db_sound_def vals_def)
    qed
    then have size: "uint n = int (length content)" "length content < 2 ^ 63"
      using c(1) by (auto simp: row_sound_def written_row_def)
    have "bytes \<in> S" using S a by (force simp: staged_contents_def)
    have "content = bytes"
    proof -
      obtain c' where "c' \<in> S" "RegularFile content = RegularFile c'"
        using two(2) map_of_SomeD[OF c(1)] unfolding files_ok_def by blast
      moreover have "ai_blake3 artifact = jc_blake3 codec bytes"
        using stage_declared[OF _ a(1)] st blobs a(2) env by (auto simp: store_task_artifacts_def split: sum.splits)
      ultimately show ?thesis using apart \<open>bytes \<in> S\<close> c(2) by (auto simp: hashes_apart_def inj_on_def)
    qed
    then show "artifact_held codec j' ?t (ai_artifact_id artifact) bytes"
      using row c size unfolding artifact_held_def db(2) by (auto simp: written_row_def)
  qed
qed

subsection \<open>Reading back\<close>

definition entry_artifact :: "string \<times> artifact_row \<Rightarrow> journal_artifact" where
  "entry_artifact = (\<lambda>(artifact_id, row).
     \<lparr>jf_artifact_id = artifact_id, jf_blake3 = hex_pairs (aw_blake3 row),
      jf_byte_length = word_of_int (aw_byte_length row), jf_path = aw_blake3 row\<rparr>)"

lemma committed_artifact_sound:
  assumes "files_ok codec S files" "hashes_apart codec S" "row_sound codec files row"
  shows "committed_artifact (artifact_id, row) = Inr (entry_artifact (artifact_id, row))"
proof -
  obtain content where "aw_blake3 row = blake3_hex (jc_blake3 codec content)" "is_digest (jc_blake3 codec content)"
    "aw_byte_length row = int (length content)" "aw_relative_path row = journal_completed_relative_path (aw_blake3 row)"
    using row_sound_content[OF assms] by metis
  then show ?thesis by (simp add: committed_artifact_def entry_artifact_def)
qed

lemma read_committed_task_sound:
  assumes ok: "journal_ok codec S j" and apart: "hashes_apart codec S" and "jn_open j"
    and t: "is_committed (jn_db j) t" "output_of (jn_db j) t = Some (blake3_hex d)" "is_digest d"
  shows "read_committed_task j t = Inr (Some \<lparr>ct_task_id = t, ct_output_blake3 = d,
           ct_artifacts = List.map entry_artifact (artifacts_of (jn_db j) t)\<rparr>)"
proof -
  obtain row where row: "map_of (db_task (jn_db j)) t = Some row" "tw_status row = task_state_name Committed"
    using t(1) by (auto simp: is_committed_def)
  have "each_or_error committed_artifact (artifacts_of (jn_db j) t) = Inr (List.map entry_artifact (artifacts_of (jn_db j) t))"
  proof -
    have "committed_artifact entry = Inr (entry_artifact entry)" if "entry \<in> set (artifacts_of (jn_db j) t)" for entry
    proof -
      obtain id' r where e: "entry = (id', r)" by fastforce
      then have "r \<in> vals (db_artifact (jn_db j))" using that artifacts_of_vals by (force simp: vals_def)
      then have "row_sound codec (jn_completed j) r" using ok by (simp add: journal_ok_def db_sound_def)
      then show ?thesis unfolding e using committed_artifact_sound[OF _ apart] ok unfolding journal_ok_def by blast
    qed
    then show ?thesis unfolding each_or_error_Inr_iff by (simp add: list_all2_conv_all_nth)
  qed
  then show ?thesis using row t(2,3) assms(3)
    by (simp add: read_committed_task_def require_task_state_def read_task_state_def output_of_def)
qed

lemma find_entry:
  "distinct (List.map fst entries) \<Longrightarrow> (k, row) \<in> set entries \<Longrightarrow>
   List.find (\<lambda>a. jf_artifact_id a = k) (List.map entry_artifact entries) = Some (entry_artifact (k, row))"
  by (induction entries) (auto simp: entry_artifact_def image_iff)

lemma artifacts_of_distinct: "map_wf (db_artifact db) \<Longrightarrow> distinct (List.map fst (artifacts_of db t))"
  unfolding artifacts_of_def using map_wf_distinct map_wf_filter by blast

lemma read_held:
  assumes wf: "map_wf (db_artifact (jn_db j))" and held: "artifact_held codec j t artifact_id content"
    and codec: "je_codec env = codec" "is_digest (jc_blake3 codec content)" "disk_readable env"
    and task: "ct_artifacts task = List.map entry_artifact (artifacts_of (jn_db j) t)"
  obtains a where "find_artifact task artifact_id = Inr a" "read_verified env (jn_completed j) a = Inr content"
    "jf_blake3 a = jc_blake3 codec content" "jf_byte_length a = of_nat (length content)"
proof -
  obtain row where row: "(artifact_id, row) \<in> set (artifacts_of (jn_db j) t)"
    "aw_blake3 row = blake3_hex (jc_blake3 codec content)"
    "aw_byte_length row = int (length content)" "length content < 2 ^ 63"
    "map_of (jn_completed j) (aw_blake3 row) = Some (RegularFile content)"
    using held by (auto simp: artifact_held_def)
  let ?a = "entry_artifact (artifact_id, row)"
  have "find_artifact task artifact_id = Inr ?a"
    using find_entry[OF artifacts_of_distinct[OF wf] row(1)] task by (simp add: find_artifact_def)
  moreover have a: "jf_blake3 ?a = jc_blake3 codec content" "jf_byte_length ?a = of_nat (length content)"
    "jf_path ?a = aw_blake3 row"
    using row(2,3) codec(2) by (simp_all add: entry_artifact_def)
  moreover have "read_verified env (jn_completed j) ?a = Inr content"
    using row(4,5) codec(1,3) word_of_length[OF row(4)] a by (simp add: read_verified_def disk_readable_def)
  ultimately show ?thesis using that by blast
qed

text \<open>What a journal holds of a result: the committed task and all of its artifacts.\<close>

definition result_held :: "json_codec \<Rightarrow> journal \<Rightarrow> json task_spec \<Rightarrow> json committed_result \<Rightarrow> string \<Rightarrow> bool" where
  "result_held codec j spec committed result_record \<longleftrightarrow>
     (let t = ts_task_id spec; result = cr_result committed in
      is_committed (jn_db j) t \<and> output_of (jn_db j) t = Some (blake3_hex (tr_output_digest result))
      \<and> length (artifacts_of (jn_db j) t) = length (tr_outputs result) + 1
      \<and> (\<forall>i<length (tr_outputs result). artifact_held codec j t (journal_output_artifact_id t i) (cr_payloads committed ! i))
      \<and> artifact_held codec j t (journal_result_artifact_id t) (string_bytes result_record))"

lemma artifact_held_stays:
  "commit_stays j j' t \<Longrightarrow> artifact_held codec j t artifact_id content \<Longrightarrow> artifact_held codec j' t artifact_id content"
  by (force simp: artifact_held_def commit_stays_def vals_def)

lemma result_held_stays:
  "commit_stays j j' (ts_task_id spec) \<Longrightarrow> result_held codec j spec committed r \<Longrightarrow> result_held codec j' spec committed r"
  using artifact_held_stays[of j j' "ts_task_id spec"]
  by (auto simp: result_held_def Let_def commit_stays_def)

text \<open>A result the scheduler commits: verified, of fitting types, and encoded by a codec that reads back.\<close>

definition committable :: "json_codec \<Rightarrow> byte list set \<Rightarrow> json task_spec \<Rightarrow> json committed_result \<Rightarrow> string \<Rightarrow> bool" where
  "committable codec S spec committed result_record \<longleftrightarrow>
     verified_success (json_exec_lib codec) spec committed \<and> result_types (cr_result committed)
     \<and> encode_committed_result_record codec (cr_result committed) (cr_executor_id committed) = Inr result_record
     \<and> (\<forall>v. encode_canonical_json codec v = Inr result_record \<longrightarrow> reads_back codec v)
     \<and> set (cr_payloads committed) \<subseteq> S \<and> string_bytes result_record \<in> S"

lemma each_or_error_nth:
  "length ys = length xs \<Longrightarrow> (\<And>i. i < length xs \<Longrightarrow> f (xs ! i) = Inr (ys ! i)) \<Longrightarrow> each_or_error f xs = Inr ys"
  by (simp add: each_or_error_Inr_iff list_all2_conv_all_nth)

lemma read_committed_result_held:
  assumes ok: "journal_ok codec S j" and apart: "hashes_apart codec S" and "jn_open j"
    and good: "committable codec S spec committed result_record"
    and held: "result_held codec j spec committed result_record"
    and env: "je_codec env = codec" "disk_readable env"
  shows "\<exists>task. read_committed_task j (ts_task_id spec) = Inr (Some task)
    \<and> read_committed_result env (jn_completed j) task spec = Inr committed"
proof -
  let ?t = "ts_task_id spec" and ?r = "cr_result committed"
  let ?task = "\<lparr>ct_task_id = ?t, ct_output_blake3 = tr_output_digest ?r,
      ct_artifacts = List.map entry_artifact (artifacts_of (jn_db j) ?t)\<rparr>"
  have wf: "map_wf (db_artifact (jn_db j))" using ok by (simp add: journal_ok_parts)
  have types: "is_digest (tr_output_digest ?r)" using good by (simp add: committable_def result_types_def)
  have task: "read_committed_task j ?t = Inr (Some ?task)"
    using read_committed_task_sound[OF ok apart assms(3)] held types by (simp add: result_held_def Let_def)
  have verified: "validate_task_result (json_exec_lib codec) ?r = None" "tr_task_id ?r = ?t"
    "tr_status ?r = task_succeeded"
    "list_all2 (\<lambda>ref payload. length payload = unat (ar_bytes ref) \<and> jc_blake3 codec payload = ar_blake3 ref)
       (tr_outputs ?r) (cr_payloads committed)"
    using good by (auto simp: committable_def verified_success_def find_result_defect_None)
  have digests: "is_digest (jc_blake3 codec content)" if "content \<in> S" for content
    using apart that by (simp add: hashes_apart_def)
  obtain a where a: "find_artifact ?task (journal_result_artifact_id ?t) = Inr a"
    "read_verified env (jn_completed j) a = Inr (string_bytes result_record)"
    by (rule read_held[OF wf _ env(1) digests env(2), of ?t "journal_result_artifact_id ?t" "string_bytes result_record" ?task])
      (use good held in \<open>auto simp: result_held_def Let_def committable_def\<close>)
  have decoded: "decode_committed_result_record codec result_record = Inr (?r, cr_executor_id committed)"
    by (rule committed_result_record_roundtrip[OF _ verified(1)]) (use good in \<open>auto simp: committable_def\<close>)
  have len: "length (cr_payloads committed) = length (tr_outputs ?r)" using list_all2_lengthD[OF verified(4)] by simp
  have outputs: "each_or_error (read_output env (jn_completed j) ?task ?t)
      (zip [0..<length (tr_outputs ?r)] (tr_outputs ?r)) = Inr (cr_payloads committed)"
  proof (rule each_or_error_nth)
    fix i assume i: "i < length (zip [0..<length (tr_outputs ?r)] (tr_outputs ?r))"
    let ?p = "cr_payloads committed ! i"
    have p: "?p \<in> S" "length ?p = unat (ar_bytes (tr_outputs ?r ! i))" "jc_blake3 codec ?p = ar_blake3 (tr_outputs ?r ! i)"
      using good list_all2_nthD[OF verified(4)] i len by (auto simp: committable_def)
    obtain b where "find_artifact ?task (journal_output_artifact_id ?t i) = Inr b"
      "read_verified env (jn_completed j) b = Inr ?p" "jf_blake3 b = jc_blake3 codec ?p"
      "jf_byte_length b = of_nat (length ?p)"
      by (rule read_held[OF wf _ env(1) digests env(2), of ?t "journal_output_artifact_id ?t i" ?p ?task])
        (use p(1) held i in \<open>auto simp: result_held_def Let_def\<close>)
    then show "read_output env (jn_completed j) ?task ?t (zip [0..<length (tr_outputs ?r)] (tr_outputs ?r) ! i) = Inr ?p"
      using i p(2,3) by (simp add: read_output_def)
  qed (simp add: len)
  have count: "length (artifacts_of (jn_db j) ?t) = length (tr_outputs ?r) + 1"
    using held by (simp add: result_held_def Let_def)
  have "read_committed_result env (jn_completed j) ?task spec = Inr committed"
    using a decoded outputs verified(2,3) env(1) count by (simp add: read_committed_result_def as_exec_error_def)
  then show ?thesis using task by blast
qed

subsection \<open>A commit through the sink\<close>

lemma then_call_Inr: "then_call r f = (Inr y, j') \<longleftrightarrow> (\<exists>x j. r = (Inr x, j) \<and> f x j = (Inr y, j'))"
  by (auto simp: then_call_def split: prod.splits sum.splits)

lemma advance_from_ok:
  "journal_ok codec S j \<Longrightarrow> journal_ok codec S (snd (advance_from env t st j))"
proof (induction env t st j rule: advance_from.induct)
  case (1 env t st j)
  show ?case
  proof (cases "st = ResultReceived \<or> next_toward_result st = None")
    case True
    then show ?thesis using 1(2) by (subst advance_from.simps) auto
  next
    case False
    then obtain n where n: "st \<noteq> ResultReceived" "next_toward_result st = Some n" by auto
    obtain r j1 where call: "set_task_state env t n j = (r, j1)" by fastforce
    then have "journal_ok codec S j1" using set_task_state_ok[OF 1(2), of env t n] by simp
    then show ?thesis using n call 1(1)[OF n] by (subst advance_from.simps) (auto split: sum.splits)
  qed
qed

lemma advance_ok:
  "journal_ok codec S j \<Longrightarrow> journal_ok codec S (snd (advance_to_result_received env t j))"
  using advance_from_ok by (auto simp: advance_to_result_received_def split: sum.splits option.splits)

lemma commit_of_staged:
  assumes "set (cr_payloads committed) \<subseteq> S" "string_bytes r \<in> S"
    "\<And>i bytes read. je_read_back env i bytes = Some read \<Longrightarrow> bytes \<in> S \<Longrightarrow> read \<in> S"
  shows "staged_contents env (tm_artifacts (commit_of env spec committed r)) \<subseteq> S"
proof -
  have "bytes \<in> S" if "artifact \<in> set (tm_artifacts (commit_of env spec committed r))"
    "ai_content artifact = InMemory bytes" for artifact bytes
    using that assms(1,2) by (auto simp: commit_of_def Let_def dest!: set_zip_rightD)
  moreover have "\<exists>bytes. ai_content artifact = InMemory bytes"
    if "artifact \<in> set (tm_artifacts (commit_of env spec committed r))" for artifact
    using that by (auto simp: commit_of_def Let_def)
  ultimately show ?thesis using assms(3) unfolding staged_contents_def by fastforce
qed

lemma sink_commit_task_holds:
  assumes ok: "journal_ok codec S j" and apart: "hashes_apart codec S" and env: "je_codec env = codec"
    and good: "committable codec S spec committed result_record"
    and disk: "\<And>i bytes read. je_read_back env i bytes = Some read \<Longrightarrow> bytes \<in> S \<Longrightarrow> read \<in> S"
    and advance: "advance_to_result_received env (ts_task_id spec) j = (Inr (), j1)"
    and commit: "commit_task env (commit_of env spec committed result_record) j1 = (Inr (), j2)"
  shows "journal_ok codec S j2" "result_held codec j2 spec committed result_record"
    "is_committed (jn_db j2) (ts_task_id spec)" "jn_open j2"
proof -
  let ?commit = "commit_of env spec committed result_record" and ?t = "ts_task_id spec"
  have ok1: "journal_ok codec S j1" using advance_ok[OF ok, of env ?t] advance by simp
  have S: "staged_contents env (tm_artifacts ?commit) \<subseteq> S"
    by (rule commit_of_staged[OF _ _ disk]) (use good in \<open>auto simp: committable_def\<close>)
  have digest: "is_digest (tm_output_blake3 ?commit)"
    using good by (simp add: commit_of_def Let_def committable_def result_types_def)
  show "journal_ok codec S j2" using commit_task_ok[OF ok1 apart env S digest] commit by simp
  note holds = commit_task_holds[OF ok1 apart env S digest commit]
  have len: "length (cr_payloads committed) = length (tr_outputs (cr_result committed))"
    using good by (auto simp: committable_def verified_success_def find_result_defect_None dest: list_all2_lengthD)
  have held: "artifact_held codec j2 ?t (journal_output_artifact_id ?t i) (cr_payloads committed ! i)"
    if "i < length (tr_outputs (cr_result committed))" for i
  proof -
    let ?n = "length (tr_outputs (cr_result committed))"
    have "(i, tr_outputs (cr_result committed) ! i, cr_payloads committed ! i)
        \<in> set (zip [0..<?n] (zip (tr_outputs (cr_result committed)) (cr_payloads committed)))"
      using that len by (force simp: set_zip)
    then have "\<exists>artifact \<in> set (tm_artifacts ?commit). ai_artifact_id artifact = journal_output_artifact_id ?t i
        \<and> ai_content artifact = InMemory (cr_payloads committed ! i)"
      by (force simp: commit_of_def Let_def)
    then show ?thesis using holds(4) by (auto simp: commit_of_def Let_def)
  qed
  show "result_held codec j2 spec committed result_record"
    using holds held len by (auto simp: result_held_def Let_def) (auto simp: commit_of_def Let_def)
  show "is_committed (jn_db j2) ?t" "jn_open j2" using holds(1,5) by (simp_all add: commit_of_def Let_def)
qed

lemma journal_sink_commit_holds:
  assumes ok: "journal_ok codec S j" and apart: "hashes_apart codec S" and env: "je_codec env = codec"
    and good: "committable codec S spec committed result_record"
    and disk: "\<And>i bytes read. je_read_back env i bytes = Some read \<Longrightarrow> bytes \<in> S \<Longrightarrow> read \<in> S"
    and success: "journal_sink_commit env spec committed j = (Inr (), j')"
  shows "journal_ok codec S j' \<and> result_held codec j' spec committed result_record"
proof -
  have "require_result_of spec committed (jn_build_session_id j) = None" "jn_open j"
    using success by (auto simp: journal_sink_commit_def with_state_def split: if_splits option.splits)
  then obtain j1 j2 where calls: "advance_to_result_received env (ts_task_id spec) j = (Inr (), j1)"
    "commit_task env (commit_of env spec committed result_record) j1 = (Inr (), j2)"
    "record_task_attempt (attempt_row (cr_result committed)) j2 = (Inr (), j')"
    using success good env by (auto simp: journal_sink_commit_def then_call_Inr committable_def as_exec_error_def)
  have holds: "journal_ok codec S j2" "result_held codec j2 spec committed result_record"
    "is_committed (jn_db j2) (ts_task_id spec)"
    using sink_commit_task_holds(1-3)[OF ok apart env good _ calls(1,2)] disk by blast+
  have "commit_stays j2 j' (ts_task_id spec)"
    using plain_rows_stay(5)[of j2 "ts_task_id spec" "attempt_row (cr_result committed)"] calls(3) holds(3) by simp
  then show ?thesis
    using result_held_stays holds(2) plain_rows_ok(5)[OF holds(1), of "attempt_row (cr_result committed)"] calls(3) by auto
qed

text \<open>The last call of the sink, the attempt's row, throws when one of its numbers has its top bit set.\<close>

definition attempt_unbindable :: "json task_result \<Rightarrow> bool" where
  "attempt_unbindable result \<longleftrightarrow>
     (let execution = tr_execution result
      in 2 ^ 63 \<le> uint (tm_queue (tx_timing_ms execution)) \<or> 2 ^ 63 \<le> uint (tm_compute (tx_timing_ms execution))
         \<or> 2 ^ 63 \<le> uint (tc_user (tx_cpu_ms execution) + tc_system (tx_cpu_ms execution))
         \<or> 2 ^ 63 \<le> uint (tx_peak_rss_bytes execution))"

lemma bind_unsigned_cases:
  "bind_unsigned v = (if 2 ^ 63 \<le> uint v then Inl (JournalError invalid_argument) else Inr (uint v))"
  by (auto simp: bind_unsigned_def word_less_def)

lemma record_unbindable:
  assumes "attempt_unbindable result" "require_record_identifier (tr_task_id result) = None" "jn_open j"
  shows "record_task_attempt (attempt_row result) j = (Inl (JournalError invalid_argument), j)"
  using assms unfolding attempt_unbindable_def Let_def
  by (auto simp: record_task_attempt_def attempt_row_def Let_def bind_unsigned_option_def bind_unsigned_cases
      transact_def)

text \<open>What a sink's commit does is a run of the journal's own operations.\<close>

lemma advance_from_steps:
  "(journal_step codec S)\<^sup>*\<^sup>* j (snd (advance_from env t st j))"
proof (induction env t st j rule: advance_from.induct)
  case (1 env t st j)
  show ?case
  proof (cases "st = ResultReceived \<or> next_toward_result st = None")
    case True
    then show ?thesis by (subst advance_from.simps) auto
  next
    case False
    then obtain n where n: "st \<noteq> ResultReceived" "next_toward_result st = Some n" by auto
    obtain r j1 where call: "set_task_state env t n j = (r, j1)" by fastforce
    have "journal_step codec S j j1" using step_set_task_state[of codec S j env t n] call by simp
    then show ?thesis using n call 1[OF n] by (subst advance_from.simps) (auto split: sum.splits)
  qed
qed

lemma advance_steps: "(journal_step codec S)\<^sup>*\<^sup>* j (snd (advance_to_result_received env t j))"
  using advance_from_steps by (auto simp: advance_to_result_received_def split: sum.splits option.splits)

lemma reachable_steps:
  "(journal_step codec S)\<^sup>*\<^sup>* j j' \<Longrightarrow> journal_reachable codec S j \<Longrightarrow> journal_reachable codec S j'"
  by (induction rule: rtranclp_induct) (auto intro: reach_step)

lemma sink_commit_step:
  assumes "committable codec S spec committed r" "je_codec env = codec"
    and "\<And>i bytes read. je_read_back env i bytes = Some read \<Longrightarrow> bytes \<in> S \<Longrightarrow> read \<in> S"
  shows "journal_step codec S j (snd (commit_task env (commit_of env spec committed r) j))"
proof (rule step_commit[OF assms(2)])
  show "staged_contents env (tm_artifacts (commit_of env spec committed r)) \<subseteq> S"
    by (rule commit_of_staged[OF _ _ assms(3)]) (use assms(1) in \<open>auto simp: committable_def\<close>)
  show "is_digest (tm_output_blake3 (commit_of env spec committed r))"
    using assms(1) by (simp add: commit_of_def Let_def committable_def result_types_def)
  show "snd (commit_task env (commit_of env spec committed r) j) \<in> set (commit_crash_states env (commit_of env spec committed r) j)"
    by (simp add: commit_crash_states_def)
qed

end
