(* ===== verification/JournalVerify.thy ===== *)
theory JournalVerify
  imports JournalRuns
begin

text \<open>
  A resume of any journal, its tables and files edited at will: what stays committed has been verified.
  Also the second resume of a sound journal.
\<close>

subsection \<open>The verifier on any rows\<close>

text \<open>The file a row names holds the bytes of the row's digest.\<close>

definition row_verified :: "json_codec \<Rightarrow> (string, file_node) std_map \<Rightarrow> artifact_row \<Rightarrow> bool" where
  "row_verified codec files row \<longleftrightarrow>
     aw_relative_path row = journal_completed_relative_path (aw_blake3 row)
     \<and> (\<exists>content. map_of files (aw_blake3 row) = Some (RegularFile content)
          \<and> parse_blake3_hex (aw_blake3 row) = Some (jc_blake3 codec content))"

definition results_verified :: "json_codec \<Rightarrow> (string, file_node) std_map \<Rightarrow> verifier \<Rightarrow> bool" where
  "results_verified codec files results \<longleftrightarrow> map_wf results \<and>
     (\<forall>name. map_of results (journal_completed_relative_path name) = Some None \<longrightarrow>
        (\<exists>content. map_of files name = Some (RegularFile content)
          \<and> parse_blake3_hex name = Some (jc_blake3 codec content)))"

lemma demotion_for_None: "demotion_for check = None \<longleftrightarrow> check = BlobValid"
  by (cases check) auto

lemma check_blob_valid:
  "check_blob env files name digest bytes = BlobValid \<Longrightarrow>
   \<exists>content. map_of files name = Some (RegularFile content) \<and> jc_blake3 (je_codec env) content = digest"
  by (auto simp: check_blob_def split: option.splits file_node.splits if_splits)

lemma verifier_check_verified:
  assumes "verifier_check env files row results = Inr (reason, results')" "results_verified (je_codec env) files results"
  shows "results_verified (je_codec env) files results' \<and> (reason = None \<longrightarrow> row_verified (je_codec env) files row)"
proof (cases "reason = Some ArtifactRecordInvalid \<and> results' = results")
  case True
  then show ?thesis using assms(2) by simp
next
  case False
  then obtain blake3 where row: "parse_blake3_hex (aw_blake3 row) = Some blake3" "0 \<le> aw_byte_length row"
    "aw_relative_path row = journal_completed_relative_path (aw_blake3 row)"
    using assms(1) by (auto simp: verifier_check_def split: option.splits if_splits)
  show ?thesis
  proof (cases "map_of results (aw_relative_path row)")
    case (Some cached)
    then have "results' = results" "reason = cached" using assms(1) row by (auto simp: verifier_check_def)
    then show ?thesis using Some assms(2) row by (auto simp: results_verified_def row_verified_def)
  next
    case None
    let ?check = "check_blob env files (aw_blake3 row) blake3 (Some (word_of_int (aw_byte_length row)))"
    have r: "reason = demotion_for ?check" "results' = map_assign (aw_relative_path row) (demotion_for ?check) results"
      using assms(1) row None by (auto simp: verifier_check_def Let_def split: if_splits)
    have valid: "\<exists>content. map_of files (aw_blake3 row) = Some (RegularFile content)
        \<and> parse_blake3_hex (aw_blake3 row) = Some (jc_blake3 (je_codec env) content)" if "demotion_for ?check = None"
      using that check_blob_valid row(1) unfolding demotion_for_None by fastforce
    have "map_wf results" using assms(2) by (simp add: results_verified_def)
    then have "results_verified (je_codec env) files results'"
      using assms(2) valid unfolding r(2) row(3) results_verified_def by auto
    then show ?thesis using valid row(3) by (simp add: r(1) row_verified_def)
  qed
qed

lemma verify_artifacts_verified:
  "verify_artifacts env files rows results = Inr (failure, results') \<Longrightarrow> results_verified (je_codec env) files results \<Longrightarrow>
   results_verified (je_codec env) files results'
   \<and> (failure = None \<longrightarrow> (\<forall>row \<in> vals rows. row_verified (je_codec env) files row))"
proof (induction rows arbitrary: results)
  case (Cons entry rows)
  obtain artifact_id row where e: "entry = (artifact_id, row)" by fastforce
  obtain reason results1 where c: "verifier_check env files row results = Inr (reason, results1)"
    using Cons.prems(1) unfolding e by (auto simp: and_then_Inr_iff)
  note one = verifier_check_verified[OF c Cons.prems(2)]
  show ?case
  proof (cases reason)
    case None
    then have rest: "verify_artifacts env files rows results1 = Inr (failure, results')"
      using Cons.prems(1) c unfolding e by simp
    show ?thesis using Cons.IH[OF rest conjunct1[OF one]] one None unfolding e by (simp add: vals_def)
  next
    case (Some r)
    then show ?thesis using Cons.prems(1) c one unfolding e by auto
  qed
qed (simp add: vals_def)

subsection \<open>What stays committed\<close>

text \<open>A committed task whose output and rows are verified.\<close>

definition task_verified :: "json_codec \<Rightarrow> (string, file_node) std_map \<Rightarrow> journal_db \<Rightarrow> string \<Rightarrow> bool" where
  "task_verified codec files db t \<longleftrightarrow>
     output_of db t \<noteq> None \<and> (\<forall>row \<in> vals (artifacts_of db t). row_verified codec files row)"

lemma demote_others:
  assumes "u \<noteq> t"
  shows "artifacts_of (demote_task u db) t = artifacts_of db t"
    "map_of (db_task (demote_task u db)) t = map_of (db_task db) t"
proof -
  show "artifacts_of (demote_task u db) t = artifacts_of db t"
    unfolding artifacts_of_def demote_task_def update_task_def Let_def
    by (simp, rule filter_cong) (use assms in auto)
  show "map_of (db_task (demote_task u db)) t = map_of (db_task db) t"
    using assms by (simp add: demote_task_def update_task_def Let_def)
qed

lemma task_verified_same:
  "artifacts_of db' t = artifacts_of db t \<Longrightarrow> map_of (db_task db') t = map_of (db_task db) t \<Longrightarrow>
   task_verified codec files db' t = task_verified codec files db t"
  by (simp add: task_verified_def output_of_def)

lemma demoted_not_committed: "\<not> is_committed (demote_task t db) t"
  by (auto simp: is_committed_def demote_task_def update_task_def Let_def)

lemma verify_tasks_verified:
  "verify_tasks env files tasks results db = Inr (demoted, db') \<Longrightarrow> results_verified (je_codec env) files results \<Longrightarrow>
   distinct (List.map fst tasks) \<Longrightarrow> \<forall>(t, has_output) \<in> set tasks. has_output \<longleftrightarrow> output_of db t \<noteq> None \<Longrightarrow>
   (\<forall>t. is_committed db' t \<longrightarrow> is_committed db t)
   \<and> (\<forall>t. t \<notin> fst ` set tasks \<longrightarrow> map_of (db_task db') t = map_of (db_task db) t \<and> artifacts_of db' t = artifacts_of db t)
   \<and> (\<forall>t. t \<in> fst ` set tasks \<and> is_committed db' t \<longrightarrow> task_verified (je_codec env) files db' t)"
proof (induction tasks arbitrary: results db demoted)
  case (Cons task tasks)
  obtain t h where task: "task = (t, h)" by fastforce
  obtain failure results1 where f: "verify_task env files db t h results = Inr (failure, results1)"
    using Cons.prems(1) unfolding task by (auto simp: and_then_Inr_iff)
  have h: "h \<longleftrightarrow> output_of db t \<noteq> None" and fresh: "t \<notin> fst ` set tasks" using Cons.prems(3,4) unfolding task by auto
  have one: "results_verified (je_codec env) files results1"
    "failure = None \<longrightarrow> task_verified (je_codec env) files db t"
    using f verify_artifacts_verified[of env files "artifacts_of db t" results] Cons.prems(2) h
    by (auto simp: verify_task_def task_verified_def and_then_Inr_iff split: if_splits)
  show ?case
  proof (cases failure)
    case None
    then have rest: "verify_tasks env files tasks results1 db = Inr (demoted, db')"
      using Cons.prems(1) f unfolding task by simp
    have others: "distinct (List.map fst tasks)" "\<forall>(t, has_output) \<in> set tasks. has_output \<longleftrightarrow> output_of db t \<noteq> None"
      using Cons.prems(3,4) unfolding task by auto
    note ih = Cons.IH[OF rest one(1) others]
    have "task_verified (je_codec env) files db' t"
      using ih fresh one(2) None task_verified_same[of db' t db] by simp
    then show ?thesis using ih unfolding task by auto
  next
    case (Some d)
    then obtain demoted1 where rest: "verify_tasks env files tasks results1 (demote_task t db) = Inr (demoted1, db')"
      using Cons.prems(1) f unfolding task by (auto simp: and_then_Inr_iff)
    have others: "distinct (List.map fst tasks)"
      "\<forall>(u, has_output) \<in> set tasks. has_output \<longleftrightarrow> output_of (demote_task t db) u \<noteq> None"
    proof -
      have "b \<longleftrightarrow> output_of (demote_task t db) u \<noteq> None" if "(u, b) \<in> set tasks" for u b
      proof -
        have "t \<noteq> u" using that fresh by force
        then have "output_of (demote_task t db) u = output_of db u" by (simp add: output_of_def demote_others(2))
        moreover have "b \<longleftrightarrow> output_of db u \<noteq> None"
          using bspec[OF Cons.prems(4), of "(u, b)"] that by simp
        ultimately show ?thesis by simp
      qed
      then show "\<forall>(u, has_output) \<in> set tasks. has_output \<longleftrightarrow> output_of (demote_task t db) u \<noteq> None" by blast
    qed (use Cons.prems(3) in \<open>simp add: task\<close>)
    note ih = Cons.IH[OF rest one(1) others]
    have earlier: "is_committed (demote_task t db) u \<Longrightarrow> is_committed db u" for u
    proof -
      assume c: "is_committed (demote_task t db) u"
      then have "t \<noteq> u" using demoted_not_committed by blast
      then show "is_committed db u" using c demote_others(2)[of t u db] unfolding is_committed_def by simp
    qed
    have gone: "\<not> is_committed db' t" using ih demoted_not_committed by blast
    have "is_committed db' u \<Longrightarrow> is_committed db u" for u using ih earlier by blast
    moreover have "map_of (db_task db') u = map_of (db_task db) u \<and> artifacts_of db' u = artifacts_of db u"
      if "u \<notin> fst ` set (task # tasks)" for u
    proof -
      have "t \<noteq> u" "u \<notin> fst ` set tasks" using that unfolding task by auto
      then show ?thesis using ih demote_others[of t u db] by simp
    qed
    moreover have "task_verified (je_codec env) files db' u"
      if "u \<in> fst ` set (task # tasks)" "is_committed db' u" for u
    proof -
      have "u \<noteq> t" using that(2) gone by blast
      then show ?thesis using that ih unfolding task by simp
    qed
    ultimately show ?thesis by blast
  qed
qed simp

lemma verify_committed_verified:
  assumes "verify_committed_tasks env files db = Inr (demoted, db')" "map_wf (db_task db)"
  shows "is_committed db' t \<longrightarrow> is_committed db t \<and> task_verified (je_codec env) files db' t"
proof -
  let ?rows = "filter (\<lambda>(_, row). tw_status row = task_state_name Committed) (db_task db)"
  let ?tasks = "List.map (\<lambda>(t, row). (t, tw_output_blake3 row \<noteq> None)) ?rows"
  have lookup: "map_of (db_task db) t = Some row \<longleftrightarrow> (t, row) \<in> set (db_task db)" for t row
    by (rule map_of_mem_iff[OF assms(2)])
  have ids: "List.map fst ?tasks = List.map fst ?rows" by (simp add: case_prod_unfold)
  have dist: "distinct (List.map fst ?tasks)" unfolding ids using map_wf_distinct[OF map_wf_filter[OF assms(2)]] .
  have outputs: "\<forall>(t, has_output) \<in> set ?tasks. has_output \<longleftrightarrow> output_of db t \<noteq> None"
  proof -
    have "output_of db t = tw_output_blake3 row" if "(t, row) \<in> set ?rows" for t row
      using that lookup[of t row] by (simp add: output_of_def)
    then show ?thesis by auto
  qed
  have member: "t \<in> fst ` set ?tasks" if "is_committed db t"
    using that lookup by (force simp: is_committed_def)
  show ?thesis
    using verify_tasks_verified[OF assms(1)[unfolded verify_committed_tasks_def] _ dist outputs] member
    by (simp add: results_verified_def)
qed

lemma write_resumed_others:
  "is_committed (write_resumed_state task db) t \<Longrightarrow> map_of (db_task (write_resumed_state task db)) t = map_of (db_task db) t"
  "db_artifact (write_resumed_state task db) = db_artifact db"
  by (auto simp: write_resumed_state_def is_committed_def update_task_def split: if_splits)

lemma write_all_others:
  "(is_committed (fold write_resumed_state tasks db) t \<longrightarrow>
      is_committed db t \<and> map_of (db_task (fold write_resumed_state tasks db)) t = map_of (db_task db) t)
   \<and> db_artifact (fold write_resumed_state tasks db) = db_artifact db"
proof (induction tasks arbitrary: db)
  case (Cons task tasks)
  then show ?case using write_resumed_others[of task db] write_resumed_committed[of task db t] by simp
qed simp

lemma resume_rows_verified:
  assumes "resume_rows env sid files db = Inr (out, db')" "map_wf (db_task db)" "is_committed db' t"
  shows "is_committed db t \<and> task_verified (je_codec env) files db' t"
proof -
  obtain demoted db1 tasks db2 where steps: "verify_committed_tasks env files db = Inr (demoted, db1)"
    "reset_incomplete_tasks db1 = Inr (tasks, db2)"
    "db' = update_build_session_status sid BuildSessionActive (snd (abandon_open_attempts db2))"
    using assms(1) unfolding resume_rows_def and_then_Inr_iff Let_def case_prod_unfold
    by (metis prod.collapse sum.inject(2) prod.inject)
  obtain read where read: "db2 = fold write_resumed_state (List.map (resume_state read) read) db1"
    using steps(2) by (auto simp: reset_incomplete_tasks_def and_then_Inr_iff Let_def)
  have same: "db_task db' = db_task db2" "db_artifact db' = db_artifact db2"
    unfolding steps(3) by (simp_all add: abandon_open_attempts_def update_build_session_status_def Let_def)
  then have c: "is_committed db2 t" using assms(3) by (simp add: is_committed_def)
  note w = write_all_others[of "List.map (resume_state read) read" db1 t, folded read]
  have "task_verified (je_codec env) files db' t = task_verified (je_codec env) files db1 t"
    by (rule task_verified_same) (use w c same in \<open>simp_all add: artifacts_of_def\<close>)
  then show ?thesis using verify_committed_verified[OF steps(1) assms(2), of t] w c by blast
qed

lemma journal_resume_verified:
  assumes "journal_resume env sources j = (Inr report, j')" "map_wf (db_task (jn_db j))"
    "is_committed (jn_db j') t"
  shows "is_committed (jn_db j) t \<and> task_verified (je_codec env) (jn_completed j') (jn_db j') t"
proof -
  obtain out db where db: "resume_rows env (jn_build_session_id j) (jn_completed j) (jn_db j) = Inr (out, db)"
    "jn_db j' = db" "jn_completed j' = referenced_files env db (jn_completed j)"
    using assms(1) by (auto simp: journal_resume_def with_state_def discard_unreferenced_eq Let_def
        split: option.splits sum.splits prod.splits if_splits)
  note v = resume_rows_verified[OF db(1) assms(2)]
  have "row_verified (je_codec env) (jn_completed j') row"
    if row: "row \<in> vals (artifacts_of db t)" and ok: "row_verified (je_codec env) (jn_completed j) row" for row
  proof -
    have "row \<in> vals (db_artifact db)" using row artifacts_of_vals by blast
    then have "map_of (jn_completed j') (aw_blake3 row) = map_of (jn_completed j) (aw_blake3 row)"
      using ok unfolding db(3) by (intro referenced_files_keep) (auto simp: row_verified_def)
    then show ?thesis using ok by (auto simp: row_verified_def)
  qed
  then show ?thesis using v assms(3) db(2) by (auto simp: task_verified_def)
qed

subsection \<open>Resuming again\<close>

lemma resumed_state_again: "resumed_state (resumed_db sid db) = resumed_state db"
  by (simp add: fun_eq_iff resumed_state_def resumed_committed[abs_def] dependencies_of_def resumed_db_tables)

lemma resumed_tasks_again: "db_task (with_resumed_states (resumed_db sid db)) = db_task (resumed_db sid db)"
proof -
  have "db_task (with_resumed_states (resumed_db sid db))
      = List.map (\<lambda>(t, row). (t, row\<lparr>tw_status := task_state_name (resumed_state db t)\<rparr>)) (db_task (resumed_db sid db))"
    by (simp add: with_resumed_states_def resumed_state_again)
  then show ?thesis unfolding resumed_db_tables with_resumed_states_def by (simp add: comp_def case_prod_unfold)
qed

lemma resumed_rows:
  "db_task_attempt (resumed_db sid db) = db_task_attempt (snd (abandon_open_attempts db))"
  "db_worker_session (resumed_db sid db) = db_worker_session (snd (abandon_open_attempts db))"
  "db_build_session (resumed_db sid db) = db_build_session (update_build_session_status sid BuildSessionActive db)"
  "db_source_fingerprint (resumed_db sid db) = db_source_fingerprint db"
  "db_artifact_provenance (resumed_db sid db) = db_artifact_provenance db" "db_cache_hit (resumed_db sid db) = db_cache_hit db"
  "db_failure (resumed_db sid db) = db_failure db" "db_blob_location (resumed_db sid db) = db_blob_location db"
  by (simp_all add: resumed_db_def update_build_session_status_def abandon_open_attempts_def Let_def with_resumed_states_def)

lemma abandon_again:
  "db_task_attempt db = db_task_attempt (snd (abandon_open_attempts db')) \<Longrightarrow>
   fst (abandon_open_attempts db) = 0 \<and> db_task_attempt (snd (abandon_open_attempts db)) = db_task_attempt db"
  "db_worker_session db = db_worker_session (snd (abandon_open_attempts db')) \<Longrightarrow>
   db_worker_session (snd (abandon_open_attempts db)) = db_worker_session db"
  by (auto simp: abandon_open_attempts_def Let_def filter_empty_conv comp_def case_prod_unfold)

lemma resumed_db_again: "resumed_db sid (resumed_db sid db) = resumed_db sid db"
proof (rule journal_db.equality)
  show "db_task (resumed_db sid (resumed_db sid db)) = db_task (resumed_db sid db)"
    using resumed_tasks_again by (simp only: resumed_db_tables(1))
  show "db_build_session (resumed_db sid (resumed_db sid db)) = db_build_session (resumed_db sid db)"
    by (auto simp: resumed_rows update_build_session_status_def map_modify_def comp_def case_prod_unfold)
qed (simp_all add: resumed_rows(1,2) abandon_again, simp_all add: resumed_rows resumed_db_tables)

lemma resumed_task_again:
  "List.map (resumed_task_of (resumed_db sid db)) (db_task (resumed_db sid db)) = List.map (resumed_task_of db) (db_task db)"
  unfolding resumed_db_tables(1) with_resumed_states_def
  by (auto simp: resumed_task_of_def resumed_state_again dependencies_of_def resumed_db_tables)

lemma resumed_journal_again:
  "resumed_journal env (resumed_journal env j) = resumed_journal env j"
  by (simp add: resumed_journal_def resumed_db_again) (simp add: referenced_files_def)

lemma resume_again:
  assumes "journal_ok (je_codec env) S j" "hashes_apart (je_codec env) S" "jn_open j"
    "verify_sources (jn_db j) sources = None" "disk_readable env"
  shows "journal_resume env sources (resumed_journal env j) =
    (Inr \<lparr>rr_tasks = List.map (resumed_task_of (jn_db j)) (db_task (jn_db j)), rr_demoted = [],
          rr_discarded_pending_blobs = 0, rr_discarded_completed_blobs = 0, rr_abandoned_attempts = 0\<rparr>,
     resumed_journal env j)"
proof -
  let ?j = "resumed_journal env j"
  have ok: "journal_ok (je_codec env) S ?j"
    using journal_resume_ok[OF assms(1), of env sources] journal_resume_sound[OF assms] by simp
  have db: "jn_db ?j = resumed_db (jn_build_session_id j) (jn_db j)" and "jn_open ?j"
    "jn_pending ?j = filter (je_unremovable env) (jn_pending j)"
    "jn_completed ?j = referenced_files env (jn_db j) (jn_completed j)"
    using assms(3) by (simp_all add: resumed_journal_def)
  moreover have "verify_sources (jn_db ?j) sources = None"
    using assms(4) by (simp add: db verify_sources_def resumed_rows)
  ultimately show ?thesis
    using journal_resume_sound[OF ok assms(2) _ _ assms(5), of sources] abandon_again(1)[OF resumed_rows(1)]
    by (simp add: resumed_journal_again resumed_task_again) (simp add: referenced_files_def)
qed

end
