(* ===== verification/JournalSamples.thy ===== *)
theory JournalSamples
  imports JournalSinkFacts JournalVerify
begin

text \<open>
  A small journal for the witnesses: a task is recorded, brought to \<open>ResultReceived\<close>, its result is
  committed through the sink and its attempt recorded; once with numbers that fit a column, once with a
  peak memory of 2^63 bytes.
\<close>

subsection \<open>A journal and a result\<close>

definition sample_committed :: "u64 \<Rightarrow> json committed_result" where
  "sample_committed peak =
     \<lparr>cr_result = \<lparr>tr_task_id = ''a'', tr_attempt = 1, tr_status = task_succeeded,
        tr_outputs = [\<lparr>ar_blake3 = digest_of [7, 8], ar_bytes = 2, ar_media_type = ''video/mp4'', ar_role = ''frames''\<rparr>],
        tr_output_digest = digest_of (string_bytes ''{}''),
        tr_execution = \<lparr>tx_worker_session_id = ''w'', tx_runtime_id = digest_of [3],
          tx_timing_ms = \<lparr>tm_queue = 1, tm_input_fetch = 2, tm_decode = 3, tm_compute = 4, tm_encode = 5\<rparr>,
          tx_cpu_ms = \<lparr>tc_user = 6, tc_system = 7\<rparr>, tx_peak_rss_bytes = peak\<rparr>,
        tr_diagnostics = JObject [], tr_error = None\<rparr>,
      cr_payloads = [[7, 8]], cr_executor_id = ''e''\<rparr>"

definition committed_document :: "u64 \<Rightarrow> json" where
  "committed_document peak =
     (case task_result_to_json (sample_codec JNull) (cr_result (sample_committed peak)) of
        Inr v \<Rightarrow> json_object [(''executor_id'', JString ''e''), (''schema'', JString kCommittedResultRecordSchema),
                              (''task_result'', v)]
      | Inl _ \<Rightarrow> JNull)"

definition sample_env :: "u64 \<Rightarrow> journal_env" where
  "sample_env peak = \<lparr>je_codec = sample_codec (committed_document peak), je_now = ''2026-01-01T00:00:00.000Z'',
     je_source_file = (\<lambda>_. None), je_pending_name = to_string, je_read_back = (\<lambda>_ bytes. Some bytes),
     je_publish = (\<lambda>_. PublishDone), je_unreadable = (\<lambda>_. False), je_unremovable = (\<lambda>_. False),
     je_pending_unlisted = False, je_completed_unlisted = False\<rparr>"

definition sample_session :: build_session_record where
  "sample_session = \<lparr>bs_id = ''s'', bs_started_utc = ''t0'', bs_svp_version = ''1'', bs_builder_version = ''1'',
     bs_status = BuildSessionActive\<rparr>"

definition new_journal :: journal where
  "new_journal = (case create_journal False sample_session [] of Inr j \<Rightarrow> j | Inl _ \<Rightarrow> undefined)"

definition planned_journal :: journal where
  "planned_journal = snd (record_task (graph_task json_spec) new_journal)"

definition received_journal :: journal where
  "received_journal = snd (advance_to_result_received (sample_env 8) ''a'' planned_journal)"

definition committed_journal :: "u64 \<Rightarrow> journal" where
  "committed_journal peak =
     snd (commit_task (sample_env peak) (commit_of (sample_env peak) json_spec (sample_committed peak) ''{1}'') received_journal)"

definition sunk_journal :: journal where
  "sunk_journal = snd (record_task_attempt (attempt_row (cr_result (sample_committed 8))) (committed_journal 8))"

text \<open>The contents the sample commit stages.\<close>

definition sample_contents :: "byte list set" where
  "sample_contents = {[7, 8], string_bytes ''{1}''}"

lemma sample_apart: "hashes_apart (je_codec (sample_env peak)) sample_contents"
proof -
  have "digest_of [7, 8] \<noteq> digest_of (string_bytes ''{1}'')" by code_simp
  moreover have "is_digest (digest_of bs)" for bs by (simp add: is_digest_def digest_of_def kBlake3DigestBytes_def)
  ultimately show ?thesis
    by (auto simp: hashes_apart_def sample_contents_def sample_env_def sample_codec_def string_bytes_def)
qed

lemma sample_reads:
  "je_read_back (sample_env peak) i bytes = Some content \<Longrightarrow> bytes \<in> sample_contents \<Longrightarrow> content \<in> sample_contents"
  by (simp add: sample_env_def)

lemma planned_now: "jn_open planned_journal" "jn_build_session_id planned_journal = ''s''"
  by code_simp+

lemma advance_now:
  "advance_to_result_received (sample_env 8) ''a'' planned_journal = (Inr (), received_journal)"
  "advance_to_result_received (sample_env 0x8000000000000000) ''a'' planned_journal = (Inr (), received_journal)"
  by code_simp+

lemma encode_now:
  "encode_committed_result_record (je_codec (sample_env 8)) (cr_result (sample_committed 8)) ''e'' = Inr ''{1}''"
  "encode_committed_result_record (je_codec (sample_env 0x8000000000000000))
     (cr_result (sample_committed 0x8000000000000000)) ''e'' = Inr ''{1}''"
  by code_simp+

lemma fst_Inr_snd: "fst p = Inr () \<longleftrightarrow> p = (Inr (), snd p)"
  by (cases p) simp

lemma commit_done:
  "fst (commit_task (sample_env 8) (commit_of (sample_env 8) json_spec (sample_committed 8) ''{1}'') received_journal) = Inr ()"
  "fst (commit_task (sample_env 0x8000000000000000)
     (commit_of (sample_env 0x8000000000000000) json_spec (sample_committed 0x8000000000000000) ''{1}'')
     received_journal) = Inr ()"
  by code_simp+

lemmas commit_now = commit_done[unfolded fst_Inr_snd, folded committed_journal_def]

lemma attempt_now: "record_task_attempt (attempt_row (cr_result (sample_committed 8))) (committed_journal 8) = (Inr (), sunk_journal)"
proof -
  have "fst (record_task_attempt (attempt_row (cr_result (sample_committed 8))) (committed_journal 8)) = Inr ()" by code_simp
  then show ?thesis unfolding sunk_journal_def by (metis prod.collapse)
qed

lemma sample_verified:
  "verified_success (json_exec_lib (je_codec (sample_env 8))) json_spec (sample_committed 8)"
  "verified_success (json_exec_lib (je_codec (sample_env 0x8000000000000000))) json_spec (sample_committed 0x8000000000000000)"
  by code_simp+

lemma sample_reads_back:
  "reads_back (je_codec (sample_env 8)) (committed_document 8)"
  "reads_back (je_codec (sample_env 0x8000000000000000)) (committed_document 0x8000000000000000)"
  by code_simp+

lemma sample_committable:
  assumes "verified_success (json_exec_lib (je_codec (sample_env peak))) json_spec (sample_committed peak)"
    "encode_committed_result_record (je_codec (sample_env peak)) (cr_result (sample_committed peak)) ''e'' = Inr ''{1}''"
    "reads_back (je_codec (sample_env peak)) (committed_document peak)"
  shows "committable (je_codec (sample_env peak)) sample_contents json_spec (sample_committed peak) ''{1}''"
proof -
  have "result_types (cr_result (sample_committed peak))"
    by (simp add: result_types_def sample_committed_def is_digest_def digest_of_def kBlake3DigestBytes_def)
  moreover have "v = committed_document peak" if "encode_canonical_json (je_codec (sample_env peak)) v = Inr ''{1}''" for v
    using that by (auto simp: encode_canonical_json_def sample_env_def sample_codec_def split: option.splits if_splits)
  moreover have "set (cr_payloads (sample_committed peak)) \<subseteq> sample_contents" "cr_executor_id (sample_committed peak) = ''e''"
    by (simp_all add: sample_committed_def sample_contents_def)
  ultimately show ?thesis using assms by (auto simp: committable_def sample_contents_def)
qed

lemma sample_required: "require_result_of json_spec (sample_committed peak) ''s'' = None"
  by (simp add: require_result_of_def json_spec_def sample_committed_def guard_error_def)

lemma sink_now: "journal_sink_commit (sample_env 8) json_spec (sample_committed 8) planned_journal = (Inr (), sunk_journal)"
proof -
  have "ts_task_id json_spec = ''a''" "cr_executor_id (sample_committed 8) = ''e''"
    by (simp_all add: json_spec_def sample_committed_def)
  then show ?thesis
    using planned_now sample_required advance_now(1) encode_now(1) commit_now(1) attempt_now
    by (simp add: journal_sink_commit_def then_call_def as_exec_error_def)
qed

text \<open>Every journal of the sample is reachable.\<close>

lemma planned_reachable: "journal_reachable codec S planned_journal"
proof -
  have "case create_journal False sample_session [] of Inr _ \<Rightarrow> True | Inl _ \<Rightarrow> False" by code_simp
  then have "create_journal False sample_session [] = Inr new_journal"
    by (auto simp: new_journal_def split: sum.splits)
  then have new: "journal_reachable codec S new_journal" by (rule reach_create)
  have "\<forall>key. jt_cache_key (graph_task json_spec) = Some key \<longrightarrow> is_digest key"
    by (simp add: graph_task_def json_spec_def is_digest_def digest_of_def kBlake3DigestBytes_def)
  then show ?thesis unfolding planned_journal_def by (intro reach_step[OF new] step_record_task)
qed

lemma received_reachable: "journal_reachable codec S received_journal"
  unfolding received_journal_def by (rule reachable_steps[OF advance_steps planned_reachable])

lemma sunk_reachable: "journal_reachable (je_codec (sample_env 8)) sample_contents sunk_journal"
proof -
  let ?codec = "je_codec (sample_env 8)"
  have "journal_step ?codec sample_contents received_journal (committed_journal 8)" unfolding committed_journal_def
    by (rule sink_commit_step[OF sample_committable refl sample_reads])
      (use sample_verified(1) encode_now(1) sample_reads_back(1) in simp_all)
  then have "journal_reachable ?codec sample_contents (committed_journal 8)" by (rule reach_step[OF received_reachable])
  then show ?thesis unfolding sunk_journal_def by (rule reach_step) (rule step_attempt)
qed

end
