(* ===== verification/JournalProps.thy ===== *)
theory JournalProps
  imports JournalSamples
begin

text \<open>
  The properties of the recovery journal, each with a witness on the sample journal: what its rows hold,
  what a resume rebuilds and keeps, and that committed results survive whatever follows.
\<close>

text \<open>C7: A journal never loses an artifact: in every journal that operations, crashes during a commit
  and reopening can lead to, the task of each artifact row is committed and blobs/completed has the file
  the row names, with the row's digest and length. So every committed task reads back.\<close>

theorem journal_stays_sound:
  assumes "hashes_apart codec S" and "journal_reachable codec S j"
  shows "(\<forall>(artifact_id, row) \<in> set (db_artifact (jn_db j)).
        is_committed (jn_db j) (aw_task_id row)
        \<and> aw_relative_path row = journal_completed_relative_path (aw_blake3 row)
        \<and> (\<exists>content \<in> S. map_of (jn_completed j) (aw_blake3 row) = Some (RegularFile content)
             \<and> aw_blake3 row = blake3_hex (jc_blake3 codec content) \<and> aw_byte_length row = int (length content)))
    \<and> (\<forall>t. jn_open j \<and> is_committed (jn_db j) t \<longrightarrow> (\<exists>task. read_committed_task j t = Inr (Some task)))"
proof -
  have ok: "journal_ok codec S j" using journal_reachable_ok assms by blast
  have files: "files_ok codec S (jn_completed j)" and db: "db_sound codec (jn_completed j) (jn_db j)"
    using ok by (simp_all add: journal_ok_def)
  have "is_committed (jn_db j) (aw_task_id row)
        \<and> aw_relative_path row = journal_completed_relative_path (aw_blake3 row)
        \<and> (\<exists>content \<in> S. map_of (jn_completed j) (aw_blake3 row) = Some (RegularFile content)
             \<and> aw_blake3 row = blake3_hex (jc_blake3 codec content) \<and> aw_byte_length row = int (length content))"
    if "(artifact_id, row) \<in> set (db_artifact (jn_db j))" for artifact_id row
  proof -
    have "row \<in> vals (db_artifact (jn_db j))" using that by (force simp: vals_def)
    then have "row_sound codec (jn_completed j) row" "is_committed (jn_db j) (aw_task_id row)"
      using db by (simp_all add: db_sound_def)
    then show ?thesis using row_sound_content[OF files assms(1)] by metis
  qed
  moreover have "\<exists>task. read_committed_task j t = Inr (Some task)" if "jn_open j" and t: "is_committed (jn_db j) t" for t
  proof -
    obtain row where row: "map_of (db_task (jn_db j)) t = Some row" "tw_status row = task_state_name Committed"
      using t by (auto simp: is_committed_def)
    then have "task_row_ok row" using db map_of_vals by (fastforce simp: db_sound_def)
    then obtain d where "is_digest d" "output_of (jn_db j) t = Some (blake3_hex d)"
      using row by (auto simp: task_row_ok_def output_of_def)
    then show ?thesis using read_committed_task_sound[OF ok assms(1) \<open>jn_open j\<close> t] by blast
  qed
  ultimately show ?thesis by blast
qed

lemma journal_stays_sound_witness: "\<exists>task. read_committed_task sunk_journal ''a'' = Inr (Some task)"
proof -
  have "jn_open sunk_journal \<and> is_committed (jn_db sunk_journal) ''a''" by code_simp
  then show ?thesis using journal_stays_sound[OF sample_apart sunk_reachable] by blast
qed

text \<open>C11: The rows of a reachable journal are well-typed: every task's state parses, a committed task has an
  output digest that parses, every cache key parses, each artifact has its one provenance row and the
  other way round. So no task's state is unreadable, and a resume can always read the task table.\<close>

theorem journal_rows_are_typed:
  assumes "hashes_apart codec S" and "journal_reachable codec S j"
  shows "(\<forall>(t, row) \<in> set (db_task (jn_db j)).
        parse_task_state (tw_status row) \<noteq> None
        \<and> (tw_status row = task_state_name Committed \<longrightarrow> (\<exists>text d. tw_output_blake3 row = Some text \<and> parse_blake3_hex text = Some d))
        \<and> (\<forall>text. tw_cache_key row = Some text \<longrightarrow> parse_blake3_prefixed text \<noteq> None))
    \<and> fst ` set (db_artifact_provenance (jn_db j)) = fst ` set (db_artifact (jn_db j))
    \<and> (\<forall>t. \<exists>st. read_task_state (jn_db j) t = Inr st)
    \<and> (\<exists>tasks db. reset_incomplete_tasks (jn_db j) = Inr (tasks, db))"
proof -
  have db: "db_sound codec (jn_completed j) (jn_db j)"
    using journal_reachable_ok[OF assms(2,1)] by (simp add: journal_ok_def)
  have rows: "task_row_ok row" if "(t, row) \<in> set (db_task (jn_db j))" for t row
    using that db by (force simp: db_sound_def vals_def)
  have "\<exists>st. read_task_state (jn_db j) t = Inr st" for t
  proof (cases "map_of (db_task (jn_db j)) t")
    case (Some row)
    then have "task_row_ok row" using rows map_of_SomeD by fastforce
    then show ?thesis using Some by (auto simp: read_task_state_def task_row_ok_def)
  qed (simp add: read_task_state_def)
  moreover have "\<exists>tasks d. reset_incomplete_tasks (jn_db j) = Inr (tasks, d)"
    using reset_sound[of "jn_db j"] db by (simp add: db_sound_def tables_wf_def)
  moreover have "parse_task_state (tw_status row) \<noteq> None
      \<and> (tw_status row = task_state_name Committed \<longrightarrow> (\<exists>text d. tw_output_blake3 row = Some text \<and> parse_blake3_hex text = Some d))
      \<and> (\<forall>text. tw_cache_key row = Some text \<longrightarrow> parse_blake3_prefixed text \<noteq> None)"
    if "(t, row) \<in> set (db_task (jn_db j))" for t row
    using rows[OF that] by (auto simp: task_row_ok_def)
  moreover have "fst ` set (db_artifact_provenance (jn_db j)) = fst ` set (db_artifact (jn_db j))"
    using db by (simp add: db_sound_def keys_def)
  ultimately show ?thesis by blast
qed

lemma journal_rows_are_typed_witness:
  "fst ` set (db_artifact_provenance (jn_db sunk_journal)) = fst ` set (db_artifact (jn_db sunk_journal))"
  using journal_rows_are_typed[OF sample_apart sunk_reachable] by blast

text \<open>C8: A resume rebuilds the run: of a journal that operations and crashes can lead to, on a disk that can
  be read, it demotes nothing, reports every task once, committed when it was, else ready when all its
  dependencies are committed, else planned, and writes those states; it keeps the artifacts and their
  files, drops every pending file and every unreferenced file that can be removed, and leaves no attempt
  open and no worker session active.\<close>

theorem resume_rebuilds_the_run:
  assumes "hashes_apart (je_codec env) S" and "journal_reachable (je_codec env) S j" and "jn_open j"
    and "verify_sources (jn_db j) sources = None" and "disk_readable env"
  shows "\<exists>report j'. journal_resume env sources j = (Inr report, j') \<and> rr_demoted report = []
    \<and> List.map rt_task_id (rr_tasks report) = List.map fst (db_task (jn_db j))
    \<and> (\<forall>task \<in> set (rr_tasks report). rt_depends_on task = dependencies_of (jn_db j) (rt_task_id task)
         \<and> rt_state task = (if is_committed (jn_db j) (rt_task_id task) then Committed
              else if \<forall>d \<in> set (rt_depends_on task). is_committed (jn_db j) d then Ready else Planned)
         \<and> read_task_state (jn_db j') (rt_task_id task) = Inr (Some (rt_state task)))
    \<and> db_artifact (jn_db j') = db_artifact (jn_db j)
    \<and> (\<forall>row \<in> vals (db_artifact (jn_db j)). map_of (jn_completed j') (aw_blake3 row) = map_of (jn_completed j) (aw_blake3 row))
    \<and> (\<forall>name \<in> set (jn_pending j'). je_unremovable env name)
    \<and> (\<forall>(name, node) \<in> set (jn_completed j'). je_unremovable env name
         \<or> (\<exists>row \<in> vals (db_artifact (jn_db j)). aw_relative_path row = journal_completed_relative_path name))
    \<and> (\<forall>row \<in> vals (db_task_attempt (jn_db j')). rw_outcome row \<notin> {''leased'', ''running''})
    \<and> (\<forall>row \<in> vals (db_worker_session (jn_db j')). ww_status row \<noteq> ''active'')"
proof -
  let ?db = "jn_db j" and ?j' = "resumed_journal env j"
  have ok: "journal_ok (je_codec env) S j" using journal_reachable_ok assms(1,2) by blast
  note resumed = journal_resume_sound[OF ok assms(1,3-5)]
  have wf: "map_wf (db_task ?db)" using ok by (simp add: journal_ok_parts)
  have db': "jn_db ?j' = resumed_db (jn_build_session_id j) ?db"
    "jn_completed ?j' = referenced_files env ?db (jn_completed j)"
    "jn_pending ?j' = filter (je_unremovable env) (jn_pending j)" by (simp_all add: resumed_journal_def)
  have states: "rt_depends_on task = dependencies_of ?db (rt_task_id task)
      \<and> rt_state task = (if is_committed ?db (rt_task_id task) then Committed
           else if \<forall>d \<in> set (rt_depends_on task). is_committed ?db d then Ready else Planned)
      \<and> read_task_state (jn_db ?j') (rt_task_id task) = Inr (Some (rt_state task))"
    if listed: "task \<in> set (List.map (resumed_task_of ?db) (db_task ?db))" for task
  proof -
    obtain t row where "(t, row) \<in> set (db_task ?db)" and task: "task = resumed_task_of ?db (t, row)" using listed by auto
    then have "map_of (db_task ?db) t = Some row" using map_of_mem_iff[OF wf] by simp
    then have "read_task_state (jn_db ?j') t = Inr (Some (resumed_state ?db t))"
      by (simp add: db' read_task_state_def resumed_row)
    then show ?thesis by (simp add: task resumed_task_of_def resumed_state_def list_all_iff)
  qed
  have kept: "map_of (jn_completed ?j') (aw_blake3 row) = map_of (jn_completed j) (aw_blake3 row)"
    if "row \<in> vals (db_artifact ?db)" for row
  proof -
    have "row_sound (je_codec env) (jn_completed j) row" using that ok by (simp add: journal_ok_def db_sound_def)
    then show ?thesis using that unfolding db' by (intro referenced_files_keep) (simp_all add: row_sound_def)
  qed
  have closed: "\<forall>row \<in> vals (db_task_attempt (jn_db ?j')). rw_outcome row \<notin> {''leased'', ''running''}"
    "\<forall>row \<in> vals (db_worker_session (jn_db ?j')). ww_status row \<noteq> ''active''"
    by (auto simp: db' resumed_rows abandon_open_attempts_def Let_def vals_def split: if_splits)
  have "List.map rt_task_id (List.map (resumed_task_of ?db) (db_task ?db)) = List.map fst (db_task ?db)"
    by (simp add: resumed_task_of_def case_prod_unfold)
  then show ?thesis unfolding resumed using states kept closed
    by (auto simp: db' resumed_db_tables referenced_files_def)
qed

lemma resume_rebuilds_the_run_witness:
  "\<exists>report. fst (journal_resume (sample_env 8) [] received_journal) = Inr report \<and> rr_demoted report = []"
proof -
  have "jn_open received_journal" "verify_sources (jn_db received_journal) [] = None" by code_simp+
  moreover have "disk_readable (sample_env 8)" by (simp add: disk_readable_def sample_env_def)
  ultimately obtain report j' where "journal_resume (sample_env 8) [] received_journal = (Inr report, j')" "rr_demoted report = []"
    using resume_rebuilds_the_run[OF sample_apart received_reachable, of "[]"] by blast
  then show ?thesis by simp
qed



text \<open>C9: What a resume leaves committed has been verified, whatever was done to the database and the files
  behind the journal's back: after a successful resume every committed task was committed before, has an output
  digest, and each of its artifact rows names a regular file of blobs/completed whose bytes hash to the
  row's digest. (Its length is compared only for the first row of a path.)\<close>

theorem resume_keeps_verified_tasks:
  assumes "journal_resume env sources j = (Inr report, j')" and "map_wf (db_task (jn_db j))"
    and "is_committed (jn_db j') t"
  shows "is_committed (jn_db j) t
    \<and> (\<exists>row text. map_of (db_task (jn_db j')) t = Some row \<and> tw_output_blake3 row = Some text)
    \<and> (\<forall>(artifact_id, row) \<in> set (db_artifact (jn_db j')). aw_task_id row = t \<longrightarrow>
         aw_relative_path row = journal_completed_relative_path (aw_blake3 row)
         \<and> (\<exists>content. map_of (jn_completed j') (aw_blake3 row) = Some (RegularFile content)
              \<and> parse_blake3_hex (aw_blake3 row) = Some (jc_blake3 (je_codec env) content)))"
proof -
  note verified = journal_resume_verified[OF assms]
  have "row_verified (je_codec env) (jn_completed j') row"
    if "(artifact_id, row) \<in> set (db_artifact (jn_db j'))" "aw_task_id row = t" for artifact_id row
  proof -
    have "row \<in> vals (artifacts_of (jn_db j') t)" using that by (force simp: artifacts_of_def vals_def)
    then show ?thesis using verified by (simp add: task_verified_def)
  qed
  then show ?thesis using verified
    by (auto simp: task_verified_def row_verified_def output_of_def bind_eq_Some_conv)
qed

lemma resume_keeps_verified_tasks_witness:
  "\<exists>row text. map_of (db_task (jn_db (snd (journal_resume (sample_env 8) [] sunk_journal)))) ''a'' = Some row
     \<and> tw_output_blake3 row = Some text"
proof -
  let ?resumed = "journal_resume (sample_env 8) [] sunk_journal"
  have "case fst ?resumed of Inr _ \<Rightarrow> True | Inl _ \<Rightarrow> False" by code_simp
  then obtain report where "?resumed = (Inr report, snd ?resumed)" by (cases ?resumed) (auto split: sum.splits)
  moreover have "map_wf (db_task (jn_db sunk_journal))" by code_simp
  moreover have "is_committed (jn_db (snd ?resumed)) ''a''" by code_simp
  ultimately show ?thesis using resume_keeps_verified_tasks by blast
qed

text \<open>With the file of its output overwritten, the same task is demoted.\<close>

definition tampered_journal :: journal where
  "tampered_journal = sunk_journal\<lparr>jn_completed := map_assign (blake3_hex (digest_of [7, 8])) (RegularFile [9, 8])
     (jn_completed sunk_journal)\<rparr>"

lemma tampered_task_is_demoted:
  "case journal_resume (sample_env 8) [] tampered_journal of
     (Inr report, j) \<Rightarrow> List.map dt_reason (rr_demoted report) = [ArtifactHashMismatch] \<and> \<not> is_committed (jn_db j) ''a''
   | _ \<Rightarrow> False"
  by code_simp

text \<open>C6: Committed results survive: when the sink has committed a verified result, then whatever the
  journal goes through (other tasks, commits that crash, resumes, closing and opening), the committed task
  reads back with exactly that result, its payloads and its executor.\<close>

theorem committed_results_survive:
  assumes "hashes_apart codec S" and "journal_reachable codec S j" and "je_codec env = codec"
    and "committable codec S spec committed result_record"
    and "\<And>i bytes read. je_read_back env i bytes = Some read \<Longrightarrow> bytes \<in> S \<Longrightarrow> read \<in> S"
    and "journal_sink_commit env spec committed j = (Inr (), j1)"
    and "(journal_step codec S)\<^sup>*\<^sup>* j1 j2" and "jn_open j2"
    and "je_codec env2 = codec" and "disk_readable env2"
  shows "\<exists>task. read_committed_task j2 (ts_task_id spec) = Inr (Some task)
    \<and> read_committed_result env2 (jn_completed j2) task spec = Inr committed"
proof -
  have ok: "journal_ok codec S j" using journal_reachable_ok assms(1,2) by blast
  have j1: "journal_ok codec S j1 \<and> result_held codec j1 spec committed result_record"
    using journal_sink_commit_holds[OF ok assms(1,3,4) _ assms(6)] assms(5) by blast
  have "journal_ok codec S j2 \<and> result_held codec j2 spec committed result_record"
    using assms(7)
  proof (induction rule: rtranclp_induct)
    case (step y z)
    then show ?case
      using journal_step_ok[OF step(2) _ assms(1)] journal_step_stays[OF step(2) _ assms(1)] result_held_stays
      by (metis result_held_def)
  qed (rule j1)
  then show ?thesis using read_committed_result_held[OF _ assms(1,8,4) _ assms(9,10)] by blast
qed

lemma committed_results_survive_witness:
  "\<exists>task. read_committed_task (snd (journal_resume (sample_env 8) [] ((close_journal sunk_journal)\<lparr>jn_open := True\<rparr>))) ''a''
       = Inr (Some task)
    \<and> read_committed_result (sample_env 8)
         (jn_completed (snd (journal_resume (sample_env 8) [] ((close_journal sunk_journal)\<lparr>jn_open := True\<rparr>)))) task json_spec
       = Inr (sample_committed 8)"
proof -
  let ?codec = "je_codec (sample_env 8)" and ?j = "(close_journal sunk_journal)\<lparr>jn_open := True\<rparr>"
  let ?j2 = "snd (journal_resume (sample_env 8) [] ?j)"
  have steps: "(journal_step ?codec sample_contents)\<^sup>*\<^sup>* sunk_journal ?j2"
  proof (rule rtranclp.rtrancl_into_rtrancl[OF rtranclp.rtrancl_into_rtrancl[OF rtranclp.rtrancl_into_rtrancl]])
    show "journal_step ?codec sample_contents sunk_journal (close_journal sunk_journal)" by (rule step_close)
    show "journal_step ?codec sample_contents (close_journal sunk_journal) ?j" by (rule step_open)
    show "journal_step ?codec sample_contents ?j ?j2" by (rule step_resume) simp
  qed simp
  have good: "committable ?codec sample_contents json_spec (sample_committed 8) ''{1}''"
    by (rule sample_committable[OF sample_verified(1) encode_now(1) sample_reads_back(1)])
  have "jn_open ?j2" by code_simp
  moreover have "disk_readable (sample_env 8)" by (simp add: disk_readable_def sample_env_def)
  moreover have "ts_task_id json_spec = ''a''" by (simp add: json_spec_def)
  ultimately show ?thesis
    using committed_results_survive[OF sample_apart planned_reachable refl good sample_reads sink_now steps] by auto
qed

text \<open>C12: A verified result can fail its build after it was committed: the sink stores the attempt's
  numbers last, and one with its top bit set, which a verified result may have, does not fit a column.
  Then the task is committed with its result, and the sink throws all the same.\<close>

theorem sink_throws_after_commit:
  assumes "hashes_apart codec S" and "journal_reachable codec S j" and "je_codec env = codec"
    and "committable codec S spec committed result_record"
    and "\<And>i bytes read. je_read_back env i bytes = Some read \<Longrightarrow> bytes \<in> S \<Longrightarrow> read \<in> S"
    and "require_result_of spec committed (jn_build_session_id j) = None" and "jn_open j"
    and "advance_to_result_received env (ts_task_id spec) j = (Inr (), j1)"
    and "commit_task env (commit_of env spec committed result_record) j1 = (Inr (), j2)"
    and "attempt_unbindable (cr_result committed)"
  shows "journal_sink_commit env spec committed j = (Inl (JournalError invalid_argument), j2)
    \<and> is_committed (jn_db j2) (ts_task_id spec) \<and> result_held codec j2 spec committed result_record"
proof -
  have ok: "journal_ok codec S j" using journal_reachable_ok assms(1,2) by blast
  have j2: "result_held codec j2 spec committed result_record" "is_committed (jn_db j2) (ts_task_id spec)" "jn_open j2"
    using sink_commit_task_holds(2-4)[OF ok assms(1,3,4) _ assms(8,9)] assms(5) by blast+
  have "is_record_identifier (tr_task_id (cr_result committed))"
    using assms(4) by (auto simp: committable_def verified_success_def find_result_defect_None
        validate_task_result_def guard_error_def split: if_splits)
  then have "record_task_attempt (attempt_row (cr_result committed)) j2 = (Inl (JournalError invalid_argument), j2)"
    by (intro record_unbindable assms(10) j2(3)) (simp add: require_record_identifier_def)
  moreover have "encode_committed_result_record codec (cr_result committed) (cr_executor_id committed) = Inr result_record"
    using assms(4) by (simp add: committable_def)
  ultimately show ?thesis
    using j2 assms(3,6-9) by (simp add: journal_sink_commit_def then_call_def as_exec_error_def)
qed

lemma sink_throws_after_commit_witness:
  "fst (journal_sink_commit (sample_env 0x8000000000000000) json_spec (sample_committed 0x8000000000000000) planned_journal)
     = Inl (JournalError invalid_argument)
   \<and> is_committed (jn_db (committed_journal 0x8000000000000000)) ''a''"
proof -
  let ?env = "sample_env 0x8000000000000000" and ?c = "sample_committed 0x8000000000000000"
  have good: "committable (je_codec ?env) sample_contents json_spec ?c ''{1}''"
    by (rule sample_committable[OF sample_verified(2) encode_now(2) sample_reads_back(2)])
  have "attempt_unbindable (cr_result ?c)" by (simp add: attempt_unbindable_def sample_committed_def)
  moreover have "ts_task_id json_spec = ''a''" by (simp add: json_spec_def)
  ultimately show ?thesis
    using sink_throws_after_commit[OF sample_apart planned_reachable refl good sample_reads _ planned_now(1) _ commit_now(2)]
      advance_now(2) sample_required planned_now(2) by simp
qed

text \<open>A row whose length is wrong, after a row of the same file: the resume keeps it, reading it fails.\<close>

definition second_row_journal :: journal where
  "second_row_journal = sunk_journal\<lparr>jn_db := (jn_db sunk_journal)\<lparr>db_artifact := map_assign ''a.z''
     \<lparr>aw_task_id = ''a'', aw_relative_path = journal_completed_relative_path (blake3_hex (digest_of [7, 8])),
      aw_blake3 = blake3_hex (digest_of [7, 8]), aw_byte_length = 3\<rparr> (db_artifact (jn_db sunk_journal))\<rparr>\<rparr>"

lemma second_length_unchecked:
  "case journal_resume (sample_env 8) [] second_row_journal of
     (Inr report, j) \<Rightarrow> rr_demoted report = [] \<and> is_committed (jn_db j) ''a''
       \<and> (case read_committed_task j ''a'' of
            Inr (Some task) \<Rightarrow> and_then (find_artifact task ''a.z'') (read_verified (sample_env 8) (jn_completed j))
              = Inl (ExecError digest_mismatch)
          | _ \<Rightarrow> False)
   | _ \<Rightarrow> False"
  by code_simp

end
