(* ===== verification/Cache.thy ===== *)
theory Cache
  imports Journal
begin

text \<open>
  The content-addressed cache (packages/svp-exec/src: cas\_store.cpp, cas\_eviction.cpp, cas\_release.cpp,
  cas\_pin.cpp, cas\_layout.cpp, cache\_error.cpp) and the worker's access to it
  (cas\_task\_artifact\_access.cpp).

  The blob files are a map from the hex of their digest (shard directory and file name together) to
  what is there, with their modification times beside it; the pins directory is the lock files, each held
  or not, and the list files; the digests a live holder has in memory are the third map. The operations
  are atomic, as the eviction lock makes them. What the disk does during one is the record \<open>cache_env\<close>.
\<close>

subsection \<open>Errors (cache\_error.hpp, cache\_error.cpp)\<close>

datatype cache_error_code =
    CacheUnavailable | CachePermissionDenied | CacheNoSpace | CacheIoError | CacheNotFound | CacheCorrupt
  | CacheBusy | CacheInvalidArgument

fun cache_error_code_name :: "cache_error_code \<Rightarrow> string" where
  "cache_error_code_name CacheUnavailable = ''unavailable''"
| "cache_error_code_name CachePermissionDenied = ''permission_denied''"
| "cache_error_code_name CacheNoSpace = ''no_space''"
| "cache_error_code_name CacheIoError = ''io_error''"
| "cache_error_code_name CacheNotFound = ''not_found''"
| "cache_error_code_name CacheCorrupt = ''corrupt''"
| "cache_error_code_name CacheBusy = ''busy''"
| "cache_error_code_name CacheInvalidArgument = ''invalid_argument''"

text \<open>The errors of the file system the code tells apart.\<close>

datatype io_errno =
    ErrPermission | ErrNotPermitted | ErrReadOnly | ErrNoSpace | ErrQuota | ErrNoEntry | ErrOther

fun cache_error_code_for :: "io_errno \<Rightarrow> cache_error_code" where
  "cache_error_code_for ErrPermission = CachePermissionDenied"
| "cache_error_code_for ErrNotPermitted = CachePermissionDenied"
| "cache_error_code_for ErrReadOnly = CachePermissionDenied"
| "cache_error_code_for ErrNoSpace = CacheNoSpace"
| "cache_error_code_for ErrQuota = CacheNoSpace"
| "cache_error_code_for ErrNoEntry = CacheNotFound"
| "cache_error_code_for ErrOther = CacheIoError"

subsection \<open>The store and the disk\<close>

text \<open>Times are ticks of the file clock.\<close>

record cache_policy =
  cp_max_bytes :: u64
  cp_stale_pending_age :: int

record cas =
  cs_policy :: cache_policy
  cs_blobs :: "(string, file_node) std_map"
  cs_used :: "(string, int) std_map"
  cs_pending :: "(string, int option) std_map"
  cs_locks :: "(string, bool) std_map"
  cs_lists :: "(string, string list) std_map"
  cs_sets :: "(string, digest list) std_map"

text \<open>
  The disk during one operation: staging, publishing, reading and removing as for the journal, the
  clock, the error behind whatever fails, the time of a newly staged file, and which names cannot be
  stamped, looked at, or locked. A pending entry without a time is not a regular file or cannot be looked at.
\<close>

record cache_env =
  ce_disk :: journal_env
  ce_now :: int
  ce_errno :: io_errno
  ce_written :: int
  ce_unstamped :: "string \<Rightarrow> bool"
  ce_unstatable :: "string \<Rightarrow> bool"
  ce_blobs_unlisted :: bool
  ce_pins_unlisted :: bool
  ce_evicting :: bool
  ce_eviction_unlocked :: bool
  ce_unlocked :: "string \<Rightarrow> bool"
  ce_list_unwritten :: bool

abbreviation ce_blake3 :: "cache_env \<Rightarrow> byte list \<Rightarrow> digest" where
  "ce_blake3 env \<equiv> jc_blake3 (je_codec (ce_disk env))"

definition cache_error :: "cache_env \<Rightarrow> cache_error_code" where
  "cache_error env = cache_error_code_for (ce_errno env)"

subsection \<open>Storing and reading blobs (cas\_store.cpp)\<close>

text \<open>A time is stamped only on a file that is there; a failure is ignored.\<close>

definition touch :: "cache_env \<Rightarrow> string \<Rightarrow> cas \<Rightarrow> cas" where
  "touch env name s =
     (if ce_unstamped env name \<or> map_of (cs_blobs s) name = None then s
      else s\<lparr>cs_used := map_assign name (ce_now env) (cs_used s)\<rparr>)"

definition remove_blob :: "cache_env \<Rightarrow> string \<Rightarrow> cas \<Rightarrow> bool \<times> cas" where
  "remove_blob env name s =
     (if map_of (cs_blobs s) name = None \<or> je_unremovable (ce_disk env) name then (False, s)
      else (True, s\<lparr>cs_blobs := map_erase name (cs_blobs s), cs_used := map_erase name (cs_used s)\<rparr>))"

definition corrupt_blob :: "cache_env \<Rightarrow> string \<Rightarrow> cas \<Rightarrow> (cache_error_code + 'a) \<times> cas" where
  "corrupt_blob env name s = (Inl CacheCorrupt, snd (remove_blob env name s))"

definition cas_publish :: "cache_env \<Rightarrow> staged_blob \<Rightarrow> cas \<Rightarrow> (cache_error_code + digest) \<times> cas" where
  "cas_publish env staged s =
     (let name = blake3_hex (sb_digest staged);
          renamed = s\<lparr>cs_blobs := map_assign name (RegularFile (sb_content staged)) (cs_blobs s),
                      cs_used := map_assign name (ce_written env) (cs_used s)\<rparr>
      in if check_blob (ce_disk env) (cs_blobs s) name (sb_digest staged) (Some (sb_bytes staged)) = BlobValid
         then (Inr (sb_digest staged), touch env name s)
         else case je_publish (ce_disk env) 0 of
                PublishDone \<Rightarrow> (Inr (sb_digest staged), touch env name renamed)
              | PublishFailed \<Rightarrow> (Inl (cache_error env), s)
              | PublishUnsynced \<Rightarrow> (Inl (cache_error env), renamed))"

definition publish_staged ::
  "cache_env \<Rightarrow> stage_result \<Rightarrow> cas \<Rightarrow> (cache_error_code + digest) \<times> cas" where
  "publish_staged env staged s =
     (case staged of
        StageIoError \<Rightarrow> (Inl (cache_error env), s)
      | StageDigestMismatch \<Rightarrow> (Inl CacheCorrupt, s)
      | Staged blob \<Rightarrow> cas_publish env blob s)"

definition cas_put :: "cache_env \<Rightarrow> byte list \<Rightarrow> cas \<Rightarrow> (cache_error_code + digest) \<times> cas" where
  "cas_put env bytes s =
     (let d = ce_blake3 env bytes; name = blake3_hex d
      in if check_blob (ce_disk env) (cs_blobs s) name d (Some (of_nat (length bytes))) = BlobValid
         then (Inr d, touch env name s)
         else publish_staged env (stage_blob (ce_disk env) 0 bytes (Some d)) s)"

definition cas_put_file :: "cache_env \<Rightarrow> string \<Rightarrow> cas \<Rightarrow> (cache_error_code + digest) \<times> cas" where
  "cas_put_file env source s =
     publish_staged env (case je_source_file (ce_disk env) source of
         None \<Rightarrow> StageIoError | Some bytes \<Rightarrow> stage_blob (ce_disk env) 0 bytes None) s"

definition regular_content :: "cache_env \<Rightarrow> string \<Rightarrow> cas \<Rightarrow> byte list option" where
  "regular_content env name s =
     (if ce_unstatable env name then None else Option.bind (map_of (cs_blobs s) name) bytes_read)"

definition cas_has :: "cache_env \<Rightarrow> digest \<Rightarrow> cas \<Rightarrow> bool" where
  "cas_has env d s \<longleftrightarrow> regular_content env (blake3_hex d) s \<noteq> None"

definition cas_refresh :: "cache_env \<Rightarrow> digest \<Rightarrow> cas \<Rightarrow> cas" where
  "cas_refresh env d s = touch env (blake3_hex d) s"

definition cas_get :: "cache_env \<Rightarrow> digest \<Rightarrow> cas \<Rightarrow> (cache_error_code + byte list) \<times> cas" where
  "cas_get env d s =
     (let name = blake3_hex d
      in case regular_content env name s of
        None \<Rightarrow> (Inl CacheNotFound, s)
      | Some bytes \<Rightarrow>
          if je_unreadable (ce_disk env) name then (Inl (cache_error env), s)
          else if ce_blake3 env bytes \<noteq> d then corrupt_blob env name s
          else (Inr bytes, touch env name s))"

definition cas_verify :: "cache_env \<Rightarrow> digest \<Rightarrow> cas \<Rightarrow> (cache_error_code + unit) \<times> cas" where
  "cas_verify env d s =
     (let name = blake3_hex d; check = check_blob (ce_disk env) (cs_blobs s) name d None
      in if check = BlobValid then (Inr (), s)
         else if check = BlobMissing then (Inl CacheNotFound, s)
         else if check = BlobIoError then (Inl (cache_error env), s)
         else corrupt_blob env name s)"

text \<open>Opening a blob gives its bytes; the stream fails to open when the file is unstatable.\<close>

definition cas_open :: "cache_env \<Rightarrow> digest \<Rightarrow> cas \<Rightarrow> (cache_error_code + byte list) \<times> cas" where
  "cas_open env d s =
     (case cas_verify env d s of
        (Inl e, s') \<Rightarrow> (Inl e, s')
      | (Inr _, s') \<Rightarrow> (case regular_content env (blake3_hex d) s' of
            None \<Rightarrow> (Inl CacheIoError, s')
          | Some bytes \<Rightarrow> (Inr bytes, touch env (blake3_hex d) s')))"

subsection \<open>Listing (cas\_layout.cpp)\<close>

record cas_blob_entry =
  be_digest :: digest
  be_path :: string
  be_bytes :: u64
  be_last_used :: int

definition blob_entry :: "cache_env \<Rightarrow> cas \<Rightarrow> string \<Rightarrow> cas_blob_entry option" where
  "blob_entry env s name =
     (case (parse_blake3_hex name, regular_content env name s) of
        (Some d, Some content) \<Rightarrow> Some \<lparr>be_digest = d, be_path = name, be_bytes = of_nat (length content),
          be_last_used = (case map_of (cs_used s) name of None \<Rightarrow> 0 | Some time \<Rightarrow> time)\<rparr>
      | _ \<Rightarrow> None)"

definition list_cas_blobs :: "cache_env \<Rightarrow> cas \<Rightarrow> cas_blob_entry list" where
  "list_cas_blobs env s = List.map_filter (blob_entry env s) (List.map fst (cs_blobs s))"

definition total_bytes :: "cas_blob_entry list \<Rightarrow> u64" where
  "total_bytes blobs = sum_list (List.map be_bytes blobs)"

definition cas_usage :: "cache_env \<Rightarrow> cas \<Rightarrow> cache_error_code + nat \<times> u64" where
  "cas_usage env s =
     (if ce_blobs_unlisted env then Inl (cache_error env)
      else let blobs = list_cas_blobs env s in Inr (length blobs, total_bytes blobs))"

subsection \<open>Pins (cas\_pin.cpp)\<close>

definition read_pin_list :: "string \<Rightarrow> cas \<Rightarrow> digest list" where
  "read_pin_list holder s =
     (case map_of (cs_lists s) holder of
        None \<Rightarrow> [] | Some ls \<Rightarrow> List.map_filter parse_blake3_hex ls)"

definition remove_pin_files :: "string \<Rightarrow> cas \<Rightarrow> cas" where
  "remove_pin_files holder s = s\<lparr>cs_lists := map_erase holder (cs_lists s), cs_locks := map_erase holder (cs_locks s)\<rparr>"

text \<open>The lock files one after another: a held lock's list is read, a free one's files are removed.\<close>

fun read_locks :: "cache_env \<Rightarrow> (string \<times> bool) list \<Rightarrow> cas \<Rightarrow> (cache_error_code + digest list) \<times> cas" where
  "read_locks env [] s = (Inr [], s)"
| "read_locks env ((holder, held) # locks) s =
     (if ce_unlocked env holder then (Inl (cache_error env), s)
      else if held then
        (case read_locks env locks s of
           (Inl e, s') \<Rightarrow> (Inl e, s')
         | (Inr pinned, s') \<Rightarrow> (Inr (read_pin_list holder s @ pinned), s'))
      else read_locks env locks (remove_pin_files holder s))"

definition read_live_pins :: "cache_env \<Rightarrow> cas \<Rightarrow> (cache_error_code + digest list) \<times> cas" where
  "read_live_pins env s =
     (if ce_pins_unlisted env then (Inl (cache_error env), s)
      else case read_locks env (cs_locks s) s of
        (Inl e, s') \<Rightarrow> (Inl e, s')
      | (Inr pinned, s') \<Rightarrow>
          (Inr pinned, s'\<lparr>cs_lists := filter (\<lambda>(holder, _). map_of (cs_locks s') holder \<noteq> None) (cs_lists s')\<rparr>))"

definition cas_pin_set :: "cache_env \<Rightarrow> string \<Rightarrow> cas \<Rightarrow> (cache_error_code + unit) \<times> cas" where
  "cas_pin_set env holder s =
     (if \<not> is_record_identifier holder then (Inl CacheInvalidArgument, s)
      else if ce_unlocked env holder then (Inl (cache_error env), s)
      else if map_of (cs_locks s) holder = Some True then (Inl CacheBusy, s)
      else (Inr (), s\<lparr>cs_locks := map_assign holder True (cs_locks s), cs_sets := map_assign holder [] (cs_sets s)\<rparr>))"

text \<open>Adding a pin; nothing happens for a holder that is not live, which has no such object.\<close>

definition pin_add :: "cache_env \<Rightarrow> string \<Rightarrow> digest \<Rightarrow> cas \<Rightarrow> (cache_error_code + unit) \<times> cas" where
  "pin_add env holder d s =
     (case map_of (cs_sets s) holder of
        None \<Rightarrow> (Inl CacheInvalidArgument, s)
      | Some digests \<Rightarrow>
          if ce_eviction_unlocked env then (Inl (cache_error env), s)
          else
            let stored = (\<lambda>s'. (if map_of (cs_blobs s') (blake3_hex d) = None \<or> ce_unstatable env (blake3_hex d)
                                then Inl CacheNotFound else Inr (), s'))
            in if d \<in> set digests then stored s
               else if ce_list_unwritten env then (Inl (cache_error env), s)
               else stored (s\<lparr>cs_sets := map_assign holder (digests @ [d]) (cs_sets s),
                              cs_lists := map_assign holder (List.map blake3_hex (digests @ [d])) (cs_lists s)\<rparr>))"

text \<open>The destructor of a pin set, and a holder whose process ends without it: its lock is free then.\<close>

definition drop_pin_set :: "string \<Rightarrow> cas \<Rightarrow> cas" where
  "drop_pin_set holder s =
     (if map_of (cs_sets s) holder = None then s
      else (remove_pin_files holder s)\<lparr>cs_sets := map_erase holder (cs_sets s)\<rparr>)"

definition crash_holder :: "string \<Rightarrow> cas \<Rightarrow> cas" where
  "crash_holder holder s =
     (if map_of (cs_sets s) holder = None then s
      else s\<lparr>cs_locks := map_assign holder False (cs_locks s), cs_sets := map_erase holder (cs_sets s)\<rparr>)"

subsection \<open>Eviction (cas\_eviction.cpp) and release (cas\_release.cpp)\<close>

record eviction_report =
  ev_evicted_blobs :: nat
  ev_evicted_bytes :: u64
  ev_pinned_blobs_kept :: nat
  ev_stale_pending_removed :: nat
  ev_remaining_bytes :: u64

definition is_stale :: "cache_env \<Rightarrow> cas \<Rightarrow> string \<times> int option \<Rightarrow> bool" where
  "is_stale env s = (\<lambda>(name, written).
     case written of None \<Rightarrow> False
     | Some time \<Rightarrow> \<not> ce_now env - time < cp_stale_pending_age (cs_policy s) \<and> \<not> je_unremovable (ce_disk env) name)"

definition remove_stale_pending :: "cache_env \<Rightarrow> cas \<Rightarrow> nat \<times> cas" where
  "remove_stale_pending env s =
     (length (filter (is_stale env s) (cs_pending s)),
      s\<lparr>cs_pending := filter (\<lambda>entry. \<not> is_stale env s entry) (cs_pending s)\<rparr>)"

text \<open>The loop over the blobs, oldest first, with the bytes that are left.\<close>

fun evict_blobs ::
  "cache_env \<Rightarrow> digest list \<Rightarrow> cas_blob_entry list \<Rightarrow> u64 \<Rightarrow> eviction_report \<Rightarrow> cas \<Rightarrow> eviction_report \<times> cas" where
  "evict_blobs env pinned [] remaining report s = (report\<lparr>ev_remaining_bytes := remaining\<rparr>, s)"
| "evict_blobs env pinned (blob # blobs) remaining report s =
     (if remaining \<le> cp_max_bytes (cs_policy s) then (report\<lparr>ev_remaining_bytes := remaining\<rparr>, s)
      else if be_digest blob \<in> set pinned
      then evict_blobs env pinned blobs remaining
             (report\<lparr>ev_pinned_blobs_kept := ev_pinned_blobs_kept report + 1\<rparr>) s
      else case remove_blob env (be_path blob) s of
             (False, s') \<Rightarrow> evict_blobs env pinned blobs remaining report s'
           | (True, s') \<Rightarrow> evict_blobs env pinned blobs (remaining - be_bytes blob)
               (report\<lparr>ev_evicted_blobs := ev_evicted_blobs report + 1,
                       ev_evicted_bytes := ev_evicted_bytes report + be_bytes blob\<rparr>) s')"

definition oldest_first :: "cas_blob_entry list \<Rightarrow> cas_blob_entry list" where
  "oldest_first blobs = sort_key (\<lambda>blob. (be_last_used blob, be_digest blob)) blobs"

definition cas_evict :: "cache_env \<Rightarrow> cas \<Rightarrow> (cache_error_code + eviction_report) \<times> cas" where
  "cas_evict env s =
     (if ce_eviction_unlocked env then (Inl (cache_error env), s)
      else if ce_evicting env then (Inl CacheBusy, s)
      else case read_live_pins env s of
        (Inl e, s1) \<Rightarrow> (Inl e, s1)
      | (Inr pinned, s1) \<Rightarrow>
          let (stale, s2) = remove_stale_pending env s1
          in if ce_blobs_unlisted env then (Inl (cache_error env), s2)
             else let blobs = list_cas_blobs env s2;
                      (report, s3) = evict_blobs env pinned (oldest_first blobs) (total_bytes blobs)
                        \<lparr>ev_evicted_blobs = 0, ev_evicted_bytes = 0, ev_pinned_blobs_kept = 0,
                         ev_stale_pending_removed = stale, ev_remaining_bytes = 0\<rparr> s2
                  in (Inr report, s3))"

datatype blob_removal = RemovalRemoved | RemovalPinned | RemovalAbsent

definition remove_unpinned :: "cache_env \<Rightarrow> digest \<Rightarrow> cas \<Rightarrow> (cache_error_code + blob_removal) \<times> cas" where
  "remove_unpinned env d s =
     (if ce_eviction_unlocked env then (Inl (cache_error env), s)
      else case read_live_pins env s of
        (Inl e, s1) \<Rightarrow> (Inl e, s1)
      | (Inr pinned, s1) \<Rightarrow>
          if d \<in> set pinned then (Inr RemovalPinned, s1)
          else case remove_blob env (blake3_hex d) s1 of
                 (True, s2) \<Rightarrow> (Inr RemovalRemoved, s2)
               | (False, s2) \<Rightarrow>
                   if map_of (cs_blobs s1) (blake3_hex d) = None then (Inr RemovalAbsent, s2)
                   else (Inl (cache_error env), s2))"

end
