(* ===== verification/CacheAccess.thy ===== *)
theory CacheAccess
  imports Cache
begin

text \<open>
  A task's artifacts in the cache (packages/svp-exec/src/cas\_task\_artifact\_access.cpp): its inputs
  resolved to verified blob files, its outputs stored, kept in memory when the cache refuses them, and
  read back. The calls are atomic, as the mutex and the locks of the store make their parts.
\<close>

record file_identity =
  fi_device :: u64
  fi_inode :: u64
  fi_size :: u64
  fi_mtime_ns :: int

record task_access =
  ta_pins :: "string option"
  ta_warnings :: "cache_error_code list"
  ta_fallback :: "(digest, byte list) std_map"
  ta_fallback_bytes :: u64
  ta_verified :: "(digest, file_identity) std_map"

record resolved_input =
  ri_ref :: artifact_ref
  ri_path :: string

definition new_access :: "cache_env \<Rightarrow> string \<Rightarrow> cas \<Rightarrow> task_access \<times> cas" where
  "new_access env holder s =
     (let fresh = \<lparr>ta_pins = None, ta_warnings = [], ta_fallback = [], ta_fallback_bytes = 0, ta_verified = []\<rparr>
      in case cas_pin_set env holder s of
           (Inl e, s') \<Rightarrow> (fresh\<lparr>ta_warnings := [e]\<rparr>, s')
         | (Inr _, s') \<Rightarrow> (fresh\<lparr>ta_pins := Some holder\<rparr>, s'))"

definition access_pin :: "cache_env \<Rightarrow> digest \<Rightarrow> task_access \<Rightarrow> cas \<Rightarrow> task_access \<times> cas" where
  "access_pin env d a s =
     (case ta_pins a of
        None \<Rightarrow> (a, s)
      | Some holder \<Rightarrow> (case pin_add env holder d s of
            (Inr _, s') \<Rightarrow> (a, s')
          | (Inl e, s') \<Rightarrow> (if e = CacheNotFound then a else a\<lparr>ta_warnings := ta_warnings a @ [e]\<rparr>, s')))"

text \<open>The device and inode of a file come from the disk.\<close>

definition identity_of ::
  "(string \<Rightarrow> u64 \<times> u64) \<Rightarrow> cache_env \<Rightarrow> string \<Rightarrow> cas \<Rightarrow> file_identity option" where
  "identity_of inodes env name s =
     map_option (\<lambda>content. \<lparr>fi_device = fst (inodes name), fi_inode = snd (inodes name),
         fi_size = of_nat (length content),
         fi_mtime_ns = (case map_of (cs_used s) name of None \<Rightarrow> 0 | Some time \<Rightarrow> time)\<rparr>)
       (regular_content env name s)"

definition resolve_input ::
  "(string \<Rightarrow> u64 \<times> u64) \<Rightarrow> cache_env \<Rightarrow> artifact_ref \<Rightarrow> task_access \<Rightarrow> cas
     \<Rightarrow> (exec_error_code + resolved_input) \<times> task_access \<times> cas" where
  "resolve_input inodes env ref a s =
     (let d = ar_blake3 ref; name = blake3_hex d;
          (a1, s1) = access_pin env d a s;
          before = identity_of inodes env name s1;
          known_good = (before \<noteq> None \<and> map_of (ta_verified a1) d = before);
          (verified, s2) = (if known_good then (Inr (), s1) else cas_verify env d s1);
          a2 = (case before of
                  Some identity \<Rightarrow>
                    if \<not> known_good \<and> ta_pins a1 \<noteq> None then a1\<lparr>ta_verified := map_assign d identity (ta_verified a1)\<rparr> else a1
                | None \<Rightarrow> a1)
      in case verified of
           Inl _ \<Rightarrow> (Inl unresolved_input, a1, s2)
         | Inr _ \<Rightarrow> (case regular_content env name s2 of
               None \<Rightarrow> (Inl unresolved_input, a2, s2)
             | Some content \<Rightarrow>
                 if of_nat (length content) \<noteq> ar_bytes ref then (Inl unresolved_input, a2, s2)
                 else (Inr \<lparr>ri_ref = ref, ri_path = name\<rparr>, a2, s2)))"

fun resolve_each ::
  "(string \<Rightarrow> u64 \<times> u64) \<Rightarrow> cache_env \<Rightarrow> (string \<times> artifact_ref) list \<Rightarrow> task_access \<Rightarrow> cas
     \<Rightarrow> (exec_error_code + (string \<times> resolved_input) list) \<times> task_access \<times> cas" where
  "resolve_each inodes env [] a s = (Inr [], a, s)"
| "resolve_each inodes env ((name, ref) # inputs) a s =
     (case resolve_input inodes env ref a s of
        (Inl e, rest) \<Rightarrow> (Inl e, rest)
      | (Inr resolved, a1, s1) \<Rightarrow> (case resolve_each inodes env inputs a1 s1 of
            (Inl e, rest) \<Rightarrow> (Inl e, rest)
          | (Inr others, rest) \<Rightarrow> (Inr ((name, resolved) # others), rest)))"

definition resolve_inputs ::
  "(string \<Rightarrow> u64 \<times> u64) \<Rightarrow> cache_env \<Rightarrow> 'j task_spec \<Rightarrow> task_access \<Rightarrow> cas
     \<Rightarrow> (exec_error_code + (string \<times> resolved_input) list) \<times> task_access \<times> cas" where
  "resolve_inputs inodes env spec = resolve_each inodes env (ts_inputs spec)"

fun read_each ::
  "cache_env \<Rightarrow> artifact_ref list \<Rightarrow> task_access \<Rightarrow> cas \<Rightarrow> (exec_error_code + byte list list) \<times> cas" where
  "read_each env [] a s = (Inr [], s)"
| "read_each env (ref # refs) a s =
     (let (bytes, s1) = (case map_of (ta_fallback a) (ar_blake3 ref) of
            Some held \<Rightarrow> (Inr held, s)
          | None \<Rightarrow> (case cas_get env (ar_blake3 ref) s of
                (Inl _, s') \<Rightarrow> (Inl unresolved_input, s')
              | (Inr content, s') \<Rightarrow>
                  (if of_nat (length content) \<noteq> ar_bytes ref then Inl unresolved_input else Inr content, s')))
      in case bytes of
           Inl e \<Rightarrow> (Inl e, s1)
         | Inr payload \<Rightarrow> (case read_each env refs a s1 of
               (Inl e, s2) \<Rightarrow> (Inl e, s2)
             | (Inr payloads, s2) \<Rightarrow> (Inr (payload # payloads), s2)))"

definition access_read_outputs ::
  "cache_env \<Rightarrow> 'j task_result \<Rightarrow> task_access \<Rightarrow> cas \<Rightarrow> (exec_error_code + byte list list) \<times> cas" where
  "access_read_outputs env result = read_each env (tr_outputs result)"

definition access_put ::
  "cache_env \<Rightarrow> byte list \<Rightarrow> string \<Rightarrow> string \<Rightarrow> task_access \<Rightarrow> cas
     \<Rightarrow> (exec_error_code + artifact_ref) \<times> task_access \<times> cas" where
  "access_put env bytes media_type role a s =
     (case make_artifact_ref (json_exec_lib (je_codec (ce_disk env))) bytes media_type role of
        Inl e \<Rightarrow> (Inl e, a, s)
      | Inr ref \<Rightarrow>
          let (a1, s1) = access_pin env (ar_blake3 ref) a s
          in case cas_put env bytes s1 of
               (Inr _, s2) \<Rightarrow> (Inr ref, a1, s2)
             | (Inl e, s2) \<Rightarrow>
                 (Inr ref,
                  (if map_of (ta_fallback a1) (ar_blake3 ref) = None
                   then a1\<lparr>ta_warnings := ta_warnings a1 @ [e],
                           ta_fallback := map_emplace (ar_blake3 ref) bytes (ta_fallback a1),
                           ta_fallback_bytes := ta_fallback_bytes a1 + of_nat (length bytes)\<rparr>
                   else a1\<lparr>ta_warnings := ta_warnings a1 @ [e]\<rparr>), s2))"

end
