(* ===== verification/CacheFacts.thy ===== *)
theory CacheFacts
  imports CacheAccess
begin

text \<open>
  What every operation of the cache keeps: the invariant of the pins directory, and the blobs that a live
  holder pins. Then eviction as an operation on the list of the blobs.
\<close>

subsection \<open>The invariant\<close>

text \<open>A live holder's lock is held, and its list file has the digests it has in memory.\<close>

definition pins_ok :: "cas \<Rightarrow> bool" where
  "pins_ok s \<longleftrightarrow> map_wf (cs_locks s) \<and> map_wf (cs_lists s) \<and> map_wf (cs_sets s)
     \<and> (\<forall>h ds. map_of (cs_sets s) h = Some ds \<longrightarrow> map_of (cs_locks s) h = Some True
          \<and> (ds \<noteq> [] \<longrightarrow> map_of (cs_lists s) h = Some (List.map blake3_hex ds)) \<and> list_all is_digest ds)"

definition cas_ok :: "cas \<Rightarrow> bool" where
  "cas_ok s \<longleftrightarrow> map_wf (cs_blobs s) \<and> map_wf (cs_used s) \<and> pins_ok s"

definition pins :: "cas \<Rightarrow> string \<Rightarrow> digest \<Rightarrow> bool" where
  "pins s h d \<longleftrightarrow> (\<exists>ds. map_of (cs_sets s) h = Some ds \<and> d \<in> set ds)"

definition holds :: "json_codec \<Rightarrow> cas \<Rightarrow> digest \<Rightarrow> bool" where
  "holds codec s d \<longleftrightarrow> (\<exists>content. map_of (cs_blobs s) (blake3_hex d) = Some (RegularFile content) \<and> jc_blake3 codec content = d)"

definition same_pins :: "cas \<Rightarrow> cas \<Rightarrow> bool" where
  "same_pins s s' \<longleftrightarrow> cs_locks s' = cs_locks s \<and> cs_lists s' = cs_lists s \<and> cs_sets s' = cs_sets s"

lemma same_pins_ok: "same_pins s s' \<Longrightarrow> pins_ok s' = pins_ok s"
  by (simp add: same_pins_def pins_ok_def)

lemma pins_same: "cs_sets s' = cs_sets s \<Longrightarrow> pins s' = pins s"
  by (simp add: pins_def fun_eq_iff)

lemma holds_same: "cs_blobs s' = cs_blobs s \<Longrightarrow> holds codec s' = holds codec s"
  by (simp add: holds_def fun_eq_iff)

subsection \<open>Operations on blobs\<close>

text \<open>What an operation on blobs may do: nothing to pins, and no blob it does not mean to remove is lost.\<close>

definition keeps_blobs :: "json_codec \<Rightarrow> digest set \<Rightarrow> cas \<Rightarrow> cas \<Rightarrow> bool" where
  "keeps_blobs codec removable s s' \<longleftrightarrow> same_pins s s' \<and> cs_policy s' = cs_policy s
     \<and> (map_wf (cs_blobs s) \<and> map_wf (cs_used s) \<longrightarrow> map_wf (cs_blobs s') \<and> map_wf (cs_used s')
          \<and> (\<forall>d. d \<notin> removable \<and> holds codec s d \<longrightarrow> holds codec s' d))"

lemma keeps_blobs_refl [simp]: "keeps_blobs codec R s s"
  by (simp add: keeps_blobs_def same_pins_def)

lemma keeps_blobs_trans: "keeps_blobs codec R s s' \<Longrightarrow> keeps_blobs codec R s' s'' \<Longrightarrow> keeps_blobs codec R s s''"
  by (auto simp: keeps_blobs_def same_pins_def)

lemma keeps_blobs_ok: "keeps_blobs codec R s s' \<Longrightarrow> cas_ok s \<Longrightarrow> cas_ok s'"
  using same_pins_ok by (auto simp: keeps_blobs_def cas_ok_def)

lemma touch_keeps: "keeps_blobs codec R s (touch env name s)"
  by (simp add: touch_def keeps_blobs_def same_pins_def holds_def)

lemma assign_keeps:
  assumes "jc_blake3 codec content = d"
  shows "keeps_blobs codec R s (s\<lparr>cs_blobs := map_assign (blake3_hex d) (RegularFile content) (cs_blobs s),
    cs_used := map_assign (blake3_hex d) time (cs_used s)\<rparr>)"
  using assms by (auto simp: keeps_blobs_def same_pins_def holds_def blake3_hex_eq_iff)

lemma remove_blob_keeps:
  "(\<And>d. name = blake3_hex d \<Longrightarrow> d \<in> R) \<Longrightarrow> keeps_blobs codec R s (snd (remove_blob env name s))"
  by (fastforce simp: remove_blob_def keeps_blobs_def same_pins_def holds_def)

text \<open>A blob that is removed as corrupt did not hold the bytes of its digest.\<close>

lemma corrupt_keeps:
  assumes "\<not> holds codec s d" shows "keeps_blobs codec R s (snd (corrupt_blob env (blake3_hex d) s))"
  using assms by (auto simp: corrupt_blob_def remove_blob_def keeps_blobs_def same_pins_def holds_def blake3_hex_eq_iff)

lemma stage_blob_Staged:
  "stage_blob env i written expected = Staged blob \<Longrightarrow>
   sb_digest blob = jc_blake3 (je_codec env) (sb_content blob) \<and> sb_digest blob = jc_blake3 (je_codec env) written
   \<and> sb_bytes blob = of_nat (length written)"
  by (auto simp: stage_blob_def Let_def split: option.splits if_splits)

lemma check_blob_holds:
  "check_blob (ce_disk env) (cs_blobs s) (blake3_hex d) d bytes = BlobValid \<Longrightarrow> holds (je_codec (ce_disk env)) s d"
  by (auto simp: check_blob_def holds_def split: option.splits file_node.splits if_splits)

lemma cas_publish_keeps:
  assumes "sb_digest blob = ce_blake3 env (sb_content blob)"
  shows "keeps_blobs (je_codec (ce_disk env)) R s (snd (cas_publish env blob s))"
    "fst (cas_publish env blob s) = Inr d \<Longrightarrow> map_wf (cs_blobs s) \<Longrightarrow>
       d = sb_digest blob \<and> holds (je_codec (ce_disk env)) (snd (cas_publish env blob s)) d"
proof -
  let ?codec = "je_codec (ce_disk env)" and ?d = "sb_digest blob"
  let ?renamed = "s\<lparr>cs_blobs := map_assign (blake3_hex ?d) (RegularFile (sb_content blob)) (cs_blobs s),
    cs_used := map_assign (blake3_hex ?d) (ce_written env) (cs_used s)\<rparr>"
  have renamed: "keeps_blobs ?codec R s ?renamed" using assms by (intro assign_keeps) simp
  show "keeps_blobs ?codec R s (snd (cas_publish env blob s))"
    using renamed keeps_blobs_trans[OF renamed touch_keeps] touch_keeps
    by (simp add: cas_publish_def Let_def split: publish_outcome.splits)
  assume "fst (cas_publish env blob s) = Inr d" and wf: "map_wf (cs_blobs s)"
  then consider "d = ?d" "snd (cas_publish env blob s) = touch env (blake3_hex ?d) s"
      "check_blob (ce_disk env) (cs_blobs s) (blake3_hex ?d) ?d (Some (sb_bytes blob)) = BlobValid"
    | "d = ?d" "snd (cas_publish env blob s) = touch env (blake3_hex ?d) ?renamed"
    by (auto simp: cas_publish_def Let_def split: publish_outcome.splits if_splits)
  then show "d = ?d \<and> holds ?codec (snd (cas_publish env blob s)) d"
  proof cases
    case 1
    then show ?thesis using check_blob_holds[OF 1(3)] by (simp add: holds_def touch_def)
  next
    case 2
    then show ?thesis using wf assms by (simp add: holds_def touch_def)
  qed
qed

lemma publish_staged_keeps:
  assumes "\<And>blob. staged = Staged blob \<Longrightarrow> sb_digest blob = ce_blake3 env (sb_content blob)"
  shows "keeps_blobs (je_codec (ce_disk env)) R s (snd (publish_staged env staged s))"
  using assms cas_publish_keeps(1) by (cases staged) (auto simp: publish_staged_def)

lemma cas_put_keeps: "keeps_blobs (je_codec (ce_disk env)) R s (snd (cas_put env bytes s))"
  using publish_staged_keeps[of "stage_blob (ce_disk env) 0 bytes (Some (ce_blake3 env bytes))"] stage_blob_Staged touch_keeps
  by (auto simp: cas_put_def Let_def)

lemma cas_put_holds:
  assumes "cas_put env bytes s = (Inr d, s')" "map_wf (cs_blobs s)"
  shows "d = ce_blake3 env bytes \<and> holds (je_codec (ce_disk env)) s' d"
proof (cases "check_blob (ce_disk env) (cs_blobs s) (blake3_hex (ce_blake3 env bytes)) (ce_blake3 env bytes)
    (Some (of_nat (length bytes))) = BlobValid")
  case True
  then show ?thesis using assms check_blob_holds[OF True] by (auto simp: cas_put_def Let_def touch_def holds_def)
next
  case False
  then obtain blob where b: "stage_blob (ce_disk env) 0 bytes (Some (ce_blake3 env bytes)) = Staged blob"
    "cas_publish env blob s = (Inr d, s')"
    using assms(1) by (auto simp: cas_put_def Let_def publish_staged_def split: stage_result.splits)
  have staged: "sb_digest blob = ce_blake3 env (sb_content blob)" "sb_digest blob = ce_blake3 env bytes"
    using stage_blob_Staged[OF b(1)] by blast+
  have "fst (cas_publish env blob s) = Inr d" "snd (cas_publish env blob s) = s'" unfolding b(2) by simp_all
  then show ?thesis using cas_publish_keeps(2)[OF staged(1) _ assms(2)] staged(2) by metis
qed

lemma cas_put_file_keeps: "keeps_blobs (je_codec (ce_disk env)) R s (snd (cas_put_file env source s))"
  unfolding cas_put_file_def
  by (rule publish_staged_keeps) (use stage_blob_Staged in \<open>auto split: option.splits\<close>)

lemma regular_holds:
  "regular_content env (blake3_hex d) s = Some content \<Longrightarrow> holds codec s d \<Longrightarrow> jc_blake3 codec content = d"
  by (auto simp: regular_content_def holds_def split: if_splits)

lemma cas_get_keeps: "keeps_blobs (je_codec (ce_disk env)) R s (snd (cas_get env d s))"
proof (cases "holds (je_codec (ce_disk env)) s d")
  case True
  then show ?thesis using touch_keeps regular_holds[of env d s _ "je_codec (ce_disk env)"]
    by (auto simp: cas_get_def Let_def split: option.splits)
next
  case False
  then show ?thesis using touch_keeps corrupt_keeps[OF False]
    by (auto simp: cas_get_def Let_def split: option.splits)
qed

lemma check_invalid:
  "holds (je_codec (ce_disk env)) s d \<Longrightarrow>
   check_blob (ce_disk env) (cs_blobs s) (blake3_hex d) d None \<in> {BlobValid, BlobIoError}"
  by (auto simp: check_blob_def holds_def)

lemma cas_verify_keeps: "keeps_blobs (je_codec (ce_disk env)) R s (snd (cas_verify env d s))"
proof (cases "holds (je_codec (ce_disk env)) s d")
  case True
  then show ?thesis using check_invalid[OF True] by (auto simp: cas_verify_def Let_def)
next
  case False
  then show ?thesis using corrupt_keeps[OF False] by (auto simp: cas_verify_def Let_def)
qed

lemma cas_verify_Inr: "cas_verify env d s = (Inr (), s') \<Longrightarrow> s' = s \<and> holds (je_codec (ce_disk env)) s d"
  using check_blob_holds by (auto simp: cas_verify_def Let_def corrupt_blob_def split: if_splits)

lemma cas_open_keeps: "keeps_blobs (je_codec (ce_disk env)) R s (snd (cas_open env d s))"
  using cas_verify_keeps[of env R s d] keeps_blobs_trans[OF _ touch_keeps]
  by (auto simp: cas_open_def split: prod.splits sum.splits option.splits)

subsection \<open>Operations on pins\<close>

text \<open>The pins of live holders are what an eviction reads.\<close>

lemma read_pin_list_pinned: "pins_ok s \<Longrightarrow> map_of (cs_sets s) h = Some ds \<Longrightarrow> set ds \<subseteq> set (read_pin_list h s)"
proof
  fix d assume s: "pins_ok s" "map_of (cs_sets s) h = Some ds" "d \<in> set ds"
  then have "map_of (cs_lists s) h = Some (List.map blake3_hex ds)" "is_digest d"
    by (fastforce simp: pins_ok_def list_all_iff)+
  then show "d \<in> set (read_pin_list h s)" using s(3)
    by (force simp: read_pin_list_def List.map_filter_def)
qed

lemma remove_dead_ok:
  assumes "pins_ok s" "map_of (cs_locks s) h \<noteq> Some True"
  shows "pins_ok (remove_pin_files h s)"
proof -
  have "map_of (cs_sets s) h = None" using assms by (cases "map_of (cs_sets s) h") (auto simp: pins_ok_def)
  then show ?thesis using assms(1) by (auto simp: pins_ok_def remove_pin_files_def)
qed

lemma read_locks_ok:
  "read_locks env locks s = (r, s') \<Longrightarrow> pins_ok s \<Longrightarrow>
   \<forall>(h, held) \<in> set locks. \<not> held \<longrightarrow> map_of (cs_locks s) h \<noteq> Some True \<Longrightarrow>
   pins_ok s' \<and> cs_blobs s' = cs_blobs s \<and> cs_used s' = cs_used s \<and> cs_sets s' = cs_sets s
   \<and> cs_policy s' = cs_policy s \<and> cs_pending s' = cs_pending s
   \<and> (\<forall>pinned. r = Inr pinned \<longrightarrow>
        (\<forall>h ds. (h, True) \<in> set locks \<and> map_of (cs_sets s) h = Some ds \<longrightarrow> set ds \<subseteq> set pinned))"
proof (induction locks arbitrary: s r)
  case (Cons lock locks)
  obtain h held where lock: "lock = (h, held)" by fastforce
  show ?case
  proof (cases "ce_unlocked env h")
    case True
    then show ?thesis using Cons.prems(1,2) by (auto simp: lock)
  next
    case unlocked: False
    show ?thesis
    proof (cases held)
      case True
      obtain r1 where r1: "read_locks env locks s = (r1, s')"
        "r = (case r1 of Inl e \<Rightarrow> Inl e | Inr pinned \<Rightarrow> Inr (read_pin_list h s @ pinned))"
        using Cons.prems(1) unlocked True by (auto simp: lock split: prod.splits sum.splits)
      have "\<forall>(h', held) \<in> set locks. \<not> held \<longrightarrow> map_of (cs_locks s) h' \<noteq> Some True"
        using Cons.prems(3) by (simp add: lock)
      note ih = Cons.IH[OF r1(1) Cons.prems(2) this]
      have "set ds \<subseteq> set pinned"
        if ok: "r = Inr pinned" and held: "(h', True) \<in> set (lock # locks)" "map_of (cs_sets s) h' = Some ds" for pinned h' ds
      proof -
        obtain pinned1 where p: "r1 = Inr pinned1" "pinned = read_pin_list h s @ pinned1"
          using r1(2) ok by (cases r1) auto
        show ?thesis
        proof (cases "h' = h")
          case True
          then show ?thesis using read_pin_list_pinned[OF Cons.prems(2)] held(2) p(2) by fastforce
        next
          case False
          then have "(h', True) \<in> set locks" using held(1) lock by simp
          then show ?thesis using ih p held(2) by fastforce
        qed
      qed
      then show ?thesis using ih by blast
    next
      case False
      have rest: "read_locks env locks (remove_pin_files h s) = (r, s')"
        using Cons.prems(1) unlocked False by (simp add: lock)
      have dead: "map_of (cs_locks s) h \<noteq> Some True" using Cons.prems(3) False by (simp add: lock)
      have "\<forall>(h', held) \<in> set locks. \<not> held \<longrightarrow> map_of (cs_locks (remove_pin_files h s)) h' \<noteq> Some True"
        using Cons.prems(3) by (auto simp: lock remove_pin_files_def split: if_splits)
      note ih = Cons.IH[OF rest remove_dead_ok[OF Cons.prems(2) dead] this]
      show ?thesis using ih False by (auto simp: lock remove_pin_files_def)
    qed
  qed
qed simp

lemma read_live_pins_ok:
  assumes "read_live_pins env s = (r, s')" "pins_ok s"
  shows "pins_ok s'" "cs_blobs s' = cs_blobs s" "cs_used s' = cs_used s" "cs_sets s' = cs_sets s"
    "cs_policy s' = cs_policy s" "cs_pending s' = cs_pending s"
    "r = Inr pinned \<Longrightarrow> pins s h d \<Longrightarrow> d \<in> set pinned"
proof -
  have wf: "map_wf (cs_locks s)" using assms(2) by (simp add: pins_ok_def)
  have free: "\<forall>(h, held) \<in> set (cs_locks s). \<not> held \<longrightarrow> map_of (cs_locks s) h \<noteq> Some True"
  proof -
    have "map_of (cs_locks s) h = Some held" if "(h, held) \<in> set (cs_locks s)" for h held
      using that map_of_mem_iff[OF wf, of h held] by blast
    then show ?thesis by fastforce
  qed
  have held: "(h, True) \<in> set (cs_locks s)" if "map_of (cs_sets s) h = Some ds" for h ds
    using that assms(2) map_of_mem_iff[OF wf] by (auto simp: pins_ok_def)
  obtain r1 s1 where s1: "read_locks env (cs_locks s) s = (r1, s1)" by fastforce
  note ok = read_locks_ok[OF s1 assms(2) free]
  then have inv: "pins_ok s1" and same: "cs_blobs s1 = cs_blobs s" "cs_used s1 = cs_used s" "cs_sets s1 = cs_sets s"
    "cs_policy s1 = cs_policy s" "cs_pending s1 = cs_pending s" by blast+
  let ?lists = "filter (\<lambda>(h, _). map_of (cs_locks s1) h \<noteq> None) (cs_lists s1)"
  have filtered: "pins_ok (s1\<lparr>cs_lists := ?lists\<rparr>)"
  proof -
    have keep: "P k \<Longrightarrow> map_of (filter (\<lambda>(k', _). P k') m) k = map_of m k" for P k and m :: "(string, string list) std_map"
      by (induction m) auto
    have "map_of ?lists h = map_of (cs_lists s1) h" if "map_of (cs_locks s1) h = Some True" for h
      using that by (intro keep) simp
    then show ?thesis using inv unfolding pins_ok_def by (simp add: map_wf_filter)
  qed
  have shape: "(\<exists>e. r = Inl e) \<and> s' \<in> {s, s1} \<or> r = r1 \<and> s' = s1\<lparr>cs_lists := ?lists\<rparr>"
    using assms(1) s1 by (auto simp: read_live_pins_def split: if_splits sum.splits)
  show "pins_ok s'" "cs_blobs s' = cs_blobs s" "cs_used s' = cs_used s" "cs_sets s' = cs_sets s"
    "cs_policy s' = cs_policy s" "cs_pending s' = cs_pending s"
    using shape inv same filtered assms(2) by auto
  show "d \<in> set pinned" if read: "r = Inr pinned" and holder: "pins s h d"
  proof -
    obtain ds where ds: "map_of (cs_sets s) h = Some ds" "d \<in> set ds" using holder by (auto simp: pins_def)
    have "r1 = Inr pinned" using shape read by auto
    then show ?thesis using ok held[OF ds(1)] ds by blast
  qed
qed

end
