(* ===== verification/CacheEvict.thy ===== *)
theory CacheEvict
  imports CacheFacts
begin

text \<open>
  Eviction as an operation on the list of the stored blobs, and what it keeps: the loop removes the
  removable blobs of the shortest prefix, oldest first, that brings the bytes down to the limit.
\<close>

subsection \<open>The loop\<close>

definition can_evict :: "cache_env \<Rightarrow> digest list \<Rightarrow> cas_blob_entry \<Rightarrow> bool" where
  "can_evict env pinned blob \<longleftrightarrow> be_digest blob \<notin> set pinned \<and> \<not> je_unremovable (ce_disk env) (be_path blob)"

definition stored_bytes :: "cas_blob_entry list \<Rightarrow> nat" where
  "stored_bytes blobs = sum_list (List.map (\<lambda>blob. unat (be_bytes blob)) blobs)"

definition without :: "string set \<Rightarrow> cas \<Rightarrow> cas" where
  "without names s = s\<lparr>cs_blobs := filter (\<lambda>(name, _). name \<notin> names) (cs_blobs s),
                       cs_used := filter (\<lambda>(name, _). name \<notin> names) (cs_used s)\<rparr>"

lemma stored_bytes_simps [simp]:
  "stored_bytes [] = 0" "stored_bytes (b # bs) = unat (be_bytes b) + stored_bytes bs"
  "stored_bytes (xs @ ys) = stored_bytes xs + stored_bytes ys"
  by (simp_all add: stored_bytes_def)

lemma without_none [simp]: "without {} s = s"
  by (simp add: without_def case_prod_unfold)

lemma remove_present:
  "map_of (cs_blobs s) name \<noteq> None \<Longrightarrow>
   remove_blob env name s = (if je_unremovable (ce_disk env) name then (False, s) else (True, without {name} s))"
  by (auto simp: remove_blob_def without_def map_erase_def case_prod_unfold)

lemma without_without: "without B (without A s) = without (A \<union> B) s"
  by (simp add: without_def case_prod_unfold conj_commute)

lemma map_of_filter_key: "P k \<Longrightarrow> map_of (filter (\<lambda>(k', _). P k') m) k = map_of m k"
  by (induction m) auto

lemma map_of_without:
  "name \<notin> names \<Longrightarrow> map_of (cs_blobs (without names s)) name = map_of (cs_blobs s) name"
  "name \<notin> names \<Longrightarrow> map_of (cs_used (without names s)) name = map_of (cs_used s) name"
  using map_of_filter_key[of "\<lambda>n. n \<notin> names" name] by (simp_all add: without_def)

lemma evict_blobs_prefix:
  assumes "stored_bytes blobs \<le> unat remaining" "distinct (List.map be_path blobs)"
    "\<forall>blob \<in> set blobs. map_of (cs_blobs s) (be_path blob) \<noteq> None"
  shows "\<exists>n gone report'. evict_blobs env pinned blobs remaining report s = (report', without (be_path ` set gone) s)
    \<and> gone = filter (can_evict env pinned) (take n blobs) \<and> n \<le> length blobs
    \<and> ev_evicted_blobs report' = ev_evicted_blobs report + length gone
    \<and> unat (ev_remaining_bytes report') = unat remaining - stored_bytes gone
    \<and> ev_evicted_bytes report' = ev_evicted_bytes report + total_bytes gone
    \<and> ev_stale_pending_removed report' = ev_stale_pending_removed report
    \<and> (unat (ev_remaining_bytes report') \<le> unat (cp_max_bytes (cs_policy s)) \<or> n = length blobs)
    \<and> (\<forall>m<n. unat (cp_max_bytes (cs_policy s)) < unat remaining - stored_bytes (filter (can_evict env pinned) (take m blobs)))"
  using assms
proof (induction blobs arbitrary: remaining report s)
  case Nil
  then show ?case by (auto simp: total_bytes_def)
next
  case (Cons b blobs)
  let ?max = "unat (cp_max_bytes (cs_policy s))"
  show ?case
  proof (cases "remaining \<le> cp_max_bytes (cs_policy s)")
    case True
    then show ?thesis
      by (intro exI[of _ 0] exI[of _ "[]"] exI[of _ "report\<lparr>ev_remaining_bytes := remaining\<rparr>"])
        (simp add: total_bytes_def word_le_nat_alt)
  next
    case False
    then have over: "?max < unat remaining" by (simp add: word_le_nat_alt)
    have present: "map_of (cs_blobs s) (be_path b) \<noteq> None" using Cons.prems(3) by simp
    show ?thesis
    proof (cases "can_evict env pinned b")
      case True
      let ?rest = "remaining - be_bytes b" and ?s = "without {be_path b} s"
      let ?report = "report\<lparr>ev_evicted_blobs := ev_evicted_blobs report + 1,
        ev_evicted_bytes := ev_evicted_bytes report + be_bytes b\<rparr>"
      have step: "evict_blobs env pinned (b # blobs) remaining report s = evict_blobs env pinned blobs ?rest ?report ?s"
        using True False remove_present[OF present] by (simp add: can_evict_def)
      have rest: "unat ?rest = unat remaining - unat (be_bytes b)"
        using Cons.prems(1) by (simp add: unat_sub word_le_nat_alt)
      have p: "stored_bytes blobs \<le> unat ?rest" "distinct (List.map be_path blobs)"
        "\<forall>blob \<in> set blobs. map_of (cs_blobs ?s) (be_path blob) \<noteq> None"
      proof -
        have "map_of (cs_blobs ?s) (be_path blob) \<noteq> None" if blob: "blob \<in> set blobs" for blob
        proof -
          have "be_path b \<notin> be_path ` set blobs" using Cons.prems(2) by simp
          then have "be_path blob \<noteq> be_path b" using imageI[OF blob, of be_path] by metis
          then have "map_of (cs_blobs ?s) (be_path blob) = map_of (cs_blobs s) (be_path blob)"
            by (intro map_of_without(1)) simp
          then show ?thesis using Cons.prems(3) blob by simp
        qed
        then show "\<forall>blob \<in> set blobs. map_of (cs_blobs ?s) (be_path blob) \<noteq> None" by blast
      qed (use Cons.prems rest in auto)
      obtain n gone report' where ih: "evict_blobs env pinned blobs ?rest ?report ?s = (report', without (be_path ` set gone) ?s)"
        "gone = filter (can_evict env pinned) (take n blobs)" "n \<le> length blobs"
        "ev_evicted_blobs report' = ev_evicted_blobs ?report + length gone"
        "unat (ev_remaining_bytes report') = unat ?rest - stored_bytes gone"
        "ev_evicted_bytes report' = ev_evicted_bytes ?report + total_bytes gone"
        "ev_stale_pending_removed report' = ev_stale_pending_removed ?report"
        "unat (ev_remaining_bytes report') \<le> unat (cp_max_bytes (cs_policy ?s)) \<or> n = length blobs"
        "\<forall>m<n. unat (cp_max_bytes (cs_policy ?s)) < unat ?rest - stored_bytes (filter (can_evict env pinned) (take m blobs))"
        using Cons.IH[OF p] by blast
      have max: "cs_policy ?s = cs_policy s" by (simp add: without_def)
      have "?max < unat remaining - stored_bytes (filter (can_evict env pinned) (take m (b # blobs)))" if "m < Suc n" for m
        using that over ih(9) True rest unfolding max by (cases m) (auto simp: diff_diff_left)
      then show ?thesis
        using ih True rest step unfolding max
        by (intro exI[of _ "Suc n"] exI[of _ "b # gone"] exI[of _ report'])
          (simp add: without_without total_bytes_def)
    next
      case kept: False
      obtain report1 where step: "evict_blobs env pinned (b # blobs) remaining report s = evict_blobs env pinned blobs remaining report1 s"
        "ev_evicted_blobs report1 = ev_evicted_blobs report" "ev_evicted_bytes report1 = ev_evicted_bytes report"
        "ev_stale_pending_removed report1 = ev_stale_pending_removed report"
        using False kept remove_present[OF present] by (cases "be_digest b \<in> set pinned") (auto simp: can_evict_def)
      have p: "stored_bytes blobs \<le> unat remaining" "distinct (List.map be_path blobs)"
        "\<forall>blob \<in> set blobs. map_of (cs_blobs s) (be_path blob) \<noteq> None"
        using Cons.prems by auto
      obtain n gone report' where ih: "evict_blobs env pinned blobs remaining report1 s = (report', without (be_path ` set gone) s)"
        "gone = filter (can_evict env pinned) (take n blobs)" "n \<le> length blobs"
        "ev_evicted_blobs report' = ev_evicted_blobs report1 + length gone"
        "unat (ev_remaining_bytes report') = unat remaining - stored_bytes gone"
        "ev_evicted_bytes report' = ev_evicted_bytes report1 + total_bytes gone"
        "ev_stale_pending_removed report' = ev_stale_pending_removed report1"
        "unat (ev_remaining_bytes report') \<le> ?max \<or> n = length blobs"
        "\<forall>m<n. ?max < unat remaining - stored_bytes (filter (can_evict env pinned) (take m blobs))"
        using Cons.IH[OF p] by blast
      have "?max < unat remaining - stored_bytes (filter (can_evict env pinned) (take m (b # blobs)))" if "m < Suc n" for m
        using that over ih(9) kept by (cases m) auto
      then show ?thesis
        using ih kept step by (intro exI[of _ "Suc n"] exI[of _ gone] exI[of _ report']) simp
    qed
  qed
qed

subsection \<open>The listing\<close>

lemma blob_entry_path: "blob_entry env s name = Some b \<Longrightarrow> be_path b = name"
  by (auto simp: blob_entry_def split: option.splits)

lemma map_filter_paths:
  "List.map be_path (List.map_filter (blob_entry env s) names) = filter (\<lambda>name. blob_entry env s name \<noteq> None) names"
  by (induction names) (auto simp: List.map_filter_simps blob_entry_path split: option.splits)

lemma list_cas_blobs_distinct:
  "map_wf (cs_blobs s) \<Longrightarrow> distinct (List.map be_path (list_cas_blobs env s))"
  unfolding list_cas_blobs_def map_filter_paths by (simp add: map_wf_distinct)

lemma list_cas_blobs_present:
  assumes "blob \<in> set (list_cas_blobs env s)"
  shows "map_of (cs_blobs s) (be_path blob) \<noteq> None" "parse_blake3_hex (be_path blob) = Some (be_digest blob)"
proof -
  obtain name where "blob_entry env s name = Some blob"
    using assms by (auto simp: list_cas_blobs_def List.map_filter_def)
  then show "map_of (cs_blobs s) (be_path blob) \<noteq> None" "parse_blake3_hex (be_path blob) = Some (be_digest blob)"
    by (auto simp: blob_entry_def regular_content_def bind_eq_Some_conv split: option.splits if_splits)
qed

lemma list_cas_blobs_without:
  "list_cas_blobs env (without names s) = filter (\<lambda>blob. be_path blob \<notin> names) (list_cas_blobs env s)"
proof -
  have "blob_entry env (without names s) name = blob_entry env s name" if "name \<notin> names" for name
    unfolding blob_entry_def regular_content_def map_of_without[OF that] by (rule refl)
  then have "List.map_filter (blob_entry env (without names s)) (filter (\<lambda>name. name \<notin> names) ns)
      = filter (\<lambda>blob. be_path blob \<notin> names) (List.map_filter (blob_entry env s) ns)" for ns
    by (induction ns) (auto simp: List.map_filter_simps blob_entry_path split: option.splits)
  moreover have "List.map fst (cs_blobs (without names s)) = filter (\<lambda>name. name \<notin> names) (List.map fst (cs_blobs s))"
    by (simp add: without_def filter_map comp_def case_prod_unfold)
  ultimately show ?thesis by (simp add: list_cas_blobs_def)
qed

lemma list_cas_blobs_same:
  "cs_blobs s' = cs_blobs s \<Longrightarrow> cs_used s' = cs_used s \<Longrightarrow> list_cas_blobs env s' = list_cas_blobs env s"
proof -
  assume same: "cs_blobs s' = cs_blobs s" "cs_used s' = cs_used s"
  have "blob_entry env s' name = blob_entry env s name" for name
    unfolding blob_entry_def regular_content_def same by (rule refl)
  then have "blob_entry env s' = blob_entry env s" by (rule ext)
  then show ?thesis by (simp add: list_cas_blobs_def same)
qed

lemma oldest_first_set [simp]: "set (oldest_first blobs) = set blobs" "mset (oldest_first blobs) = mset blobs"
  by (simp_all add: oldest_first_def)

lemma stored_bytes_mset: "mset xs = mset ys \<Longrightarrow> stored_bytes xs = stored_bytes ys"
  unfolding stored_bytes_def by (metis mset_map sum_mset_sum_list)

lemma stored_bytes_filter: "stored_bytes (filter P xs) + stored_bytes (filter (\<lambda>b. \<not> P b) xs) = stored_bytes xs"
  by (induction xs) auto

lemma stored_bytes_part: "stored_bytes (filter P (take n xs)) \<le> stored_bytes xs"
proof -
  have "stored_bytes (filter P (take n xs)) \<le> stored_bytes (take n xs)"
    using stored_bytes_filter[of P "take n xs"] by linarith
  moreover have "stored_bytes (take n xs) + stored_bytes (drop n xs) = stored_bytes xs"
    by (metis append_take_drop_id stored_bytes_simps(3))
  ultimately show ?thesis by linarith
qed

lemma total_bytes_unat: "stored_bytes blobs < 2 ^ 64 \<Longrightarrow> unat (total_bytes blobs) = stored_bytes blobs"
proof (induction blobs)
  case (Cons b blobs)
  then have "unat (total_bytes blobs) = stored_bytes blobs" "unat (be_bytes b) + unat (total_bytes blobs) < 2 ^ LENGTH(64)"
    by simp_all
  then show ?case using unat_add_lem[of "be_bytes b" "total_bytes blobs"] by (simp add: total_bytes_def)
qed (simp add: total_bytes_def stored_bytes_def)

subsection \<open>An eviction\<close>

lemma cas_evict_prefix:
  assumes "cas_evict env s = (Inr report, s')" "cas_ok s" "stored_bytes (list_cas_blobs env s) < 2 ^ 64"
  shows "\<exists>n pinned gone. fst (read_live_pins env s) = Inr pinned
    \<and> gone = filter (can_evict env pinned) (take n (oldest_first (list_cas_blobs env s)))
    \<and> cs_blobs s' = cs_blobs (without (be_path ` set gone) s) \<and> cs_used s' = cs_used (without (be_path ` set gone) s)
    \<and> cs_sets s' = cs_sets s \<and> pins_ok s' \<and> cs_policy s' = cs_policy s
    \<and> n \<le> length (list_cas_blobs env s)
    \<and> ev_evicted_blobs report = length gone \<and> ev_evicted_bytes report = total_bytes gone
    \<and> unat (ev_remaining_bytes report) = stored_bytes (list_cas_blobs env s) - stored_bytes gone
    \<and> (unat (ev_remaining_bytes report) \<le> unat (cp_max_bytes (cs_policy s)) \<or> n = length (list_cas_blobs env s))
    \<and> (\<forall>m<n. unat (cp_max_bytes (cs_policy s)) < stored_bytes (list_cas_blobs env s)
         - stored_bytes (filter (can_evict env pinned) (take m (oldest_first (list_cas_blobs env s)))))"
proof -
  obtain pinned s1 where s1: "read_live_pins env s = (Inr pinned, s1)"
    using assms(1) by (auto simp: cas_evict_def split: if_splits prod.splits sum.splits)
  have ok: "pins_ok s" "map_wf (cs_blobs s)" using assms(2) by (simp_all add: cas_ok_def)
  note read = read_live_pins_ok[OF s1 ok(1)]
  let ?s2 = "snd (remove_stale_pending env s1)" and ?blobs = "list_cas_blobs env s"
  let ?order = "oldest_first ?blobs"
  let ?start = "\<lparr>ev_evicted_blobs = 0, ev_evicted_bytes = 0, ev_pinned_blobs_kept = 0,
    ev_stale_pending_removed = fst (remove_stale_pending env s1), ev_remaining_bytes = 0\<rparr>"
  have s2: "cs_blobs ?s2 = cs_blobs s" "cs_used ?s2 = cs_used s" "cs_sets ?s2 = cs_sets s" "pins_ok ?s2"
    "cs_policy ?s2 = cs_policy s"
    using read by (simp_all add: remove_stale_pending_def pins_ok_def)
  have same: "list_cas_blobs env ?s2 = ?blobs" by (rule list_cas_blobs_same[OF s2(1,2)])
  have evict: "evict_blobs env pinned ?order (total_bytes ?blobs) ?start ?s2 = (report, s')"
    using assms(1) s1 same by (auto simp: cas_evict_def case_prod_unfold Let_def split: if_splits)
  have bytes: "unat (total_bytes ?blobs) = stored_bytes ?order"
    using total_bytes_unat[OF assms(3)] stored_bytes_mset[of ?order ?blobs] by simp
  have "mset (List.map be_path ?order) = mset (List.map be_path ?blobs)" by simp
  then have dist: "distinct (List.map be_path ?order)"
    using list_cas_blobs_distinct[OF ok(2)] mset_eq_imp_distinct_iff by blast
  have present: "\<forall>blob \<in> set ?order. map_of (cs_blobs ?s2) (be_path blob) \<noteq> None"
    using list_cas_blobs_present(1) s2(1) by auto
  obtain n gone where out: "s' = without (be_path ` set gone) ?s2" "gone = filter (can_evict env pinned) (take n ?order)"
    "n \<le> length ?order" "ev_evicted_blobs report = length gone" "ev_evicted_bytes report = total_bytes gone"
    "unat (ev_remaining_bytes report) = unat (total_bytes ?blobs) - stored_bytes gone"
    "unat (ev_remaining_bytes report) \<le> unat (cp_max_bytes (cs_policy ?s2)) \<or> n = length ?order"
    "\<forall>m<n. unat (cp_max_bytes (cs_policy ?s2)) < unat (total_bytes ?blobs)
       - stored_bytes (filter (can_evict env pinned) (take m ?order))"
    using evict_blobs_prefix[of ?order "total_bytes ?blobs" ?s2 env pinned ?start, unfolded evict] bytes dist present
    by auto
  have len: "length ?order = length ?blobs" by (simp add: oldest_first_def)
  have "pins_ok s'" using s2(4) unfolding out(1) by (simp add: without_def pins_ok_def)
  then show ?thesis
    using out(2-8) s1 s2 bytes len stored_bytes_mset[of ?order ?blobs]
    by (intro exI[of _ n] exI[of _ pinned] exI[of _ gone]) (simp add: out(1) without_def)
qed

end
