(* ===== verification/CacheRuns.thy ===== *)
theory CacheRuns
  imports CacheEvict
begin

text \<open>
  The cache over time: its operations by any number of holders in any order, holders that end or crash,
  and writers that crash. What a live holder pins stays; so a task reads its outputs back.
\<close>

subsection \<open>Leases on a store\<close>

text \<open>
  What a client of a store with leases relies on: while its holder lives, a lease stays and what is
  stored under it stays stored, whatever the others do.
\<close>

locale leased_store =
  fixes step :: "'s \<Rightarrow> 's \<Rightarrow> bool" and sound :: "'s \<Rightarrow> bool" and leased :: "'s \<Rightarrow> 'h \<Rightarrow> 'd \<Rightarrow> bool"
    and live :: "'s \<Rightarrow> 'h \<Rightarrow> bool" and stored :: "'s \<Rightarrow> 'd \<Rightarrow> bool"
  assumes step_sound: "step s s' \<Longrightarrow> sound s \<Longrightarrow> sound s'"
    and step_leased: "step s s' \<Longrightarrow> sound s \<Longrightarrow> leased s h d \<Longrightarrow> live s' h \<Longrightarrow> leased s' h d"
    and step_stored: "step s s' \<Longrightarrow> sound s \<Longrightarrow> leased s h d \<Longrightarrow> stored s d \<Longrightarrow> stored s' d"
begin

lemma run_keeps:
  assumes "(\<lambda>a b. step a b \<and> live b h)\<^sup>*\<^sup>* s s'" "sound s" "leased s h d" "stored s d"
  shows "sound s' \<and> leased s' h d \<and> stored s' d"
  using assms
proof (induction rule: rtranclp_induct)
  case (step a b)
  then show ?case using step_sound step_leased step_stored by blast
qed blast

text \<open>A lease taken before the item is stored protects it from then on.\<close>

lemma run_lease:
  assumes "(\<lambda>a b. step a b \<and> live b h)\<^sup>*\<^sup>* s s'" "sound s" "leased s h d"
  shows "sound s' \<and> leased s' h d"
  using assms
proof (induction rule: rtranclp_induct)
  case (step a b)
  then show ?case using step_sound step_leased by blast
qed blast

end

subsection \<open>Steps of a cache\<close>

inductive cas_step :: "json_codec \<Rightarrow> cas \<Rightarrow> cas \<Rightarrow> bool" for codec where
  cstep_put: "je_codec (ce_disk env) = codec \<Longrightarrow> cas_step codec s (snd (cas_put env bytes s))"
| cstep_put_file: "je_codec (ce_disk env) = codec \<Longrightarrow> cas_step codec s (snd (cas_put_file env source s))"
| cstep_refresh: "cas_step codec s (cas_refresh env d s)"
| cstep_get: "je_codec (ce_disk env) = codec \<Longrightarrow> cas_step codec s (snd (cas_get env d s))"
| cstep_verify: "je_codec (ce_disk env) = codec \<Longrightarrow> cas_step codec s (snd (cas_verify env d s))"
| cstep_open: "je_codec (ce_disk env) = codec \<Longrightarrow> cas_step codec s (snd (cas_open env d s))"
| cstep_evict: "cas_step codec s (snd (cas_evict env s))"
| cstep_remove: "cas_step codec s (snd (remove_unpinned env d s))"
| cstep_pin_set: "cas_step codec s (snd (cas_pin_set env h s))"
| cstep_pin: "is_digest d \<Longrightarrow> cas_step codec s (snd (pin_add env h d s))"
| cstep_drop: "cas_step codec s (drop_pin_set h s)"
| cstep_crash: "cas_step codec s (crash_holder h s)"
| cstep_pending: "cas_step codec s (s\<lparr>cs_pending := map_assign name (Some time) (cs_pending s)\<rparr>)"

inductive_cases cas_stepE: "cas_step codec s s'"

lemma evict_blobs_keeps:
  "\<forall>blob \<in> set blobs. parse_blake3_hex (be_path blob) = Some (be_digest blob) \<Longrightarrow>
   keeps_blobs codec {d. d \<notin> set pinned} s (snd (evict_blobs env pinned blobs remaining report s))"
proof (induction blobs arbitrary: remaining report s)
  case (Cons b blobs)
  have tail: "\<forall>blob \<in> set blobs. parse_blake3_hex (be_path blob) = Some (be_digest blob)" using Cons.prems by simp
  have hex: "blake3_hex (be_digest b) = be_path b" using Cons.prems parse_blake3_hex_Some(2) by simp
  show ?case
  proof (cases "remaining \<le> cp_max_bytes (cs_policy s) \<or> be_digest b \<in> set pinned")
    case True
    then show ?thesis using Cons.IH[OF tail] by auto
  next
    case False
    have "keeps_blobs codec {d. d \<notin> set pinned} s (snd (remove_blob env (be_path b) s))"
      by (rule remove_blob_keeps) (use False hex blake3_hex_eq_iff in auto)
    then show ?thesis using False Cons.IH[OF tail] keeps_blobs_trans
      by (auto split: prod.splits bool.splits)
  qed
qed simp

text \<open>What an eviction and a release keep, errors included.\<close>

definition keeps_pinned :: "json_codec \<Rightarrow> cas \<Rightarrow> cas \<Rightarrow> bool" where
  "keeps_pinned codec s s' \<longleftrightarrow> cas_ok s' \<and> cs_sets s' = cs_sets s
     \<and> (\<forall>h d. pins s h d \<and> holds codec s d \<longrightarrow> holds codec s' d)"

lemma read_pins_keeps:
  assumes "cas_ok s" shows "keeps_pinned codec s (snd (read_live_pins env s))"
proof -
  obtain r s1 where s1: "read_live_pins env s = (r, s1)" by fastforce
  have "pins_ok s" using assms by (simp add: cas_ok_def)
  note read = read_live_pins_ok(1-6)[OF s1 this]
  moreover have "holds codec s1 = holds codec s" by (rule holds_same[OF read(2)])
  ultimately show ?thesis using assms by (simp add: s1 keeps_pinned_def cas_ok_def)
qed

lemma pinned_then_keeps:
  assumes s: "cas_ok s" and read: "read_live_pins env s = (Inr pinned, s1)"
    and same: "cs_blobs s2 = cs_blobs s1" "cs_used s2 = cs_used s1" "same_pins s1 s2"
    and keeps: "keeps_blobs codec {d. d \<notin> set pinned} s2 s3"
  shows "keeps_pinned codec s s3"
proof -
  have pins: "pins_ok s" using s by (simp add: cas_ok_def)
  note live = read_live_pins_ok[OF read pins]
  have ok: "cas_ok s2" using s live same same_pins_ok by (auto simp: cas_ok_def)
  have "holds codec s3 d" if "pins s h d" "holds codec s d" for h d
  proof -
    have "d \<in> set pinned" using live(7) that(1) by blast
    moreover have "holds codec s2 d" using that(2) live(2) same(1) by (simp add: holds_def)
    ultimately show ?thesis using keeps ok by (simp add: keeps_blobs_def cas_ok_def)
  qed
  moreover have "cs_sets s3 = cs_sets s" using keeps same(3) live(4) by (simp add: keeps_blobs_def same_pins_def)
  ultimately show ?thesis using keeps_blobs_ok[OF keeps ok] by (auto simp: keeps_pinned_def)
qed

lemma cas_evict_keeps:
  assumes "cas_ok s" shows "keeps_pinned codec s (snd (cas_evict env s))"
proof (cases "ce_eviction_unlocked env \<or> ce_evicting env")
  case True
  then show ?thesis using assms by (auto simp: cas_evict_def keeps_pinned_def)
next
  case False
  obtain r s1 where s1: "read_live_pins env s = (r, s1)" by fastforce
  show ?thesis
  proof (cases r)
    case (Inl e)
    then show ?thesis using False s1 read_pins_keeps[OF assms, of codec env] by (simp add: cas_evict_def)
  next
    case (Inr pinned)
    let ?s2 = "snd (remove_stale_pending env s1)"
    have same: "cs_blobs ?s2 = cs_blobs s1" "cs_used ?s2 = cs_used s1" "same_pins s1 ?s2"
      by (simp_all add: remove_stale_pending_def same_pins_def)
    have "keeps_blobs codec {d. d \<notin> set pinned} ?s2 (snd (cas_evict env s))"
    proof (cases "ce_blobs_unlisted env")
      case True
      then show ?thesis using False s1 Inr by (simp add: cas_evict_def case_prod_unfold Let_def)
    next
      case listed: False
      have "keeps_blobs codec {d. d \<notin> set pinned} ?s2
          (snd (evict_blobs env pinned (oldest_first (list_cas_blobs env ?s2)) remaining report ?s2))" for remaining report
        by (rule evict_blobs_keeps) (simp add: list_cas_blobs_present)
      then show ?thesis using False s1 Inr listed by (simp add: cas_evict_def case_prod_unfold Let_def)
    qed
    then show ?thesis using pinned_then_keeps[OF assms _ same] s1 Inr by blast
  qed
qed

lemma remove_unpinned_keeps:
  assumes "cas_ok s" shows "keeps_pinned codec s (snd (remove_unpinned env d s))"
proof (cases "ce_eviction_unlocked env")
  case True
  then show ?thesis using assms by (simp add: remove_unpinned_def keeps_pinned_def)
next
  case False
  obtain r s1 where s1: "read_live_pins env s = (r, s1)" by fastforce
  show ?thesis
  proof (cases r)
    case (Inl e)
    then show ?thesis using False s1 read_pins_keeps[OF assms, of codec env] by (simp add: remove_unpinned_def)
  next
    case (Inr pinned)
    have "keeps_blobs codec {d. d \<notin> set pinned} s1 (snd (remove_blob env (blake3_hex d) s1))" if "d \<notin> set pinned"
      by (rule remove_blob_keeps) (use that blake3_hex_eq_iff in auto)
    then have "keeps_blobs codec {d. d \<notin> set pinned} s1 (snd (remove_unpinned env d s))"
      using False s1 Inr by (auto simp: remove_unpinned_def split: prod.splits bool.splits)
    then show ?thesis using pinned_then_keeps[OF assms, of env pinned s1 s1] s1 Inr by (simp add: same_pins_def)
  qed
qed

lemma blob_step_keeps:
  assumes "keeps_blobs codec {} s s'" "cas_ok s" shows "keeps_pinned codec s s'"
  using assms keeps_blobs_ok[OF assms] by (auto simp: keeps_pinned_def keeps_blobs_def same_pins_def cas_ok_def)

subsection \<open>Steps of the pins\<close>

definition pin_step :: "cas \<Rightarrow> cas \<Rightarrow> bool" where
  "pin_step s s' \<longleftrightarrow> cas_ok s' \<and> cs_blobs s' = cs_blobs s
     \<and> (\<forall>h d. pins s h d \<and> map_of (cs_sets s') h \<noteq> None \<longrightarrow> pins s' h d)"

lemma pin_set_step:
  assumes "cas_ok s" shows "pin_step s (snd (cas_pin_set env h s))"
proof -
  have none: "map_of (cs_sets s) h = None" if "map_of (cs_locks s) h \<noteq> Some True"
    using assms that by (cases "map_of (cs_sets s) h") (auto simp: cas_ok_def pins_ok_def)
  have "cas_ok (s\<lparr>cs_locks := map_assign h True (cs_locks s), cs_sets := map_assign h [] (cs_sets s)\<rparr>)"
    using assms by (auto simp: cas_ok_def pins_ok_def)
  then show ?thesis using assms none
    by (auto simp: cas_pin_set_def pin_step_def pins_def cas_ok_def pins_ok_def)
qed

lemma pin_add_step:
  assumes "cas_ok s" "is_digest d" shows "pin_step s (snd (pin_add env h d s))"
proof (cases "map_of (cs_sets s) h")
  case None
  then show ?thesis using assms by (simp add: pin_add_def pin_step_def)
next
  case (Some ds)
  let ?s = "s\<lparr>cs_sets := map_assign h (ds @ [d]) (cs_sets s), cs_lists := map_assign h (List.map blake3_hex (ds @ [d])) (cs_lists s)\<rparr>"
  have "cas_ok ?s" using assms Some by (auto simp: cas_ok_def pins_ok_def)
  then have "pin_step s ?s" using assms Some by (auto simp: pin_step_def pins_def cas_ok_def pins_ok_def)
  moreover have "pin_step s s" using assms by (simp add: pin_step_def)
  ultimately show ?thesis using Some by (simp add: pin_add_def Let_def)
qed

lemma drop_step:
  assumes "cas_ok s" shows "pin_step s (drop_pin_set h s)" "pin_step s (crash_holder h s)"
  using assms by (auto simp: drop_pin_set_def crash_holder_def remove_pin_files_def pin_step_def pins_def cas_ok_def pins_ok_def)

lemma cas_step_keeps:
  assumes "cas_step codec s s'" "cas_ok s"
  shows "keeps_pinned codec s s' \<or> pin_step s s'"
  using assms(1)
proof cases
  case (cstep_refresh env d)
  then show ?thesis using blob_step_keeps[OF _ assms(2)] touch_keeps by (simp add: cas_refresh_def)
next
  case (cstep_pending name time)
  then show ?thesis using assms(2) by (simp add: keeps_pinned_def cas_ok_def pins_ok_def holds_def)
next
  case (cstep_put env bytes)
  then show ?thesis using blob_step_keeps[OF cas_put_keeps[of env] assms(2)] by simp
next
  case (cstep_put_file env source)
  then show ?thesis using blob_step_keeps[OF cas_put_file_keeps[of env] assms(2)] by simp
next
  case (cstep_get env d)
  then show ?thesis using blob_step_keeps[OF cas_get_keeps[of env] assms(2)] by simp
next
  case (cstep_verify env d)
  then show ?thesis using blob_step_keeps[OF cas_verify_keeps[of env] assms(2)] by simp
next
  case (cstep_open env d)
  then show ?thesis using blob_step_keeps[OF cas_open_keeps[of env] assms(2)] by simp
qed (simp_all add: assms(2) cas_evict_keeps remove_unpinned_keeps pin_set_step pin_add_step drop_step)

interpretation cache: leased_store "cas_step codec" cas_ok pins "\<lambda>s h. map_of (cs_sets s) h \<noteq> None" "holds codec" for codec
proof
  fix s s' h d
  assume step: "cas_step codec s s'" and ok: "cas_ok s"
  note keeps = cas_step_keeps[OF this]
  then consider "keeps_pinned codec s s'" | "pin_step s s'" by blast
  then have "cas_ok s' \<and> (pins s h d \<and> map_of (cs_sets s') h \<noteq> None \<longrightarrow> pins s' h d)
      \<and> (pins s h d \<and> holds codec s d \<longrightarrow> holds codec s' d)"
  proof cases
    case 1
    then have "pins s' = pins s" by (intro pins_same) (simp add: keeps_pinned_def)
    then show ?thesis using 1 by (simp add: keeps_pinned_def) blast
  next
    case 2
    then have "holds codec s' = holds codec s" by (intro holds_same) (simp add: pin_step_def)
    then show ?thesis using 2 by (simp add: pin_step_def)
  qed
  then show "cas_ok s'" "pins s h d \<Longrightarrow> map_of (cs_sets s') h \<noteq> None \<Longrightarrow> pins s' h d"
    "pins s h d \<Longrightarrow> holds codec s d \<Longrightarrow> holds codec s' d" by blast+
qed

subsection \<open>From an empty store\<close>

definition empty_cas :: "cache_policy \<Rightarrow> cas" where
  "empty_cas policy = \<lparr>cs_policy = policy, cs_blobs = [], cs_used = [], cs_pending = [], cs_locks = [], cs_lists = [],
     cs_sets = []\<rparr>"

lemma reachable_ok: "(cas_step codec)\<^sup>*\<^sup>* (empty_cas policy) s \<Longrightarrow> cas_ok s"
proof (induction rule: rtranclp_induct)
  case base
  then show ?case by (simp add: empty_cas_def cas_ok_def pins_ok_def)
next
  case (step a b)
  then show ?case using cache.step_sound by blast
qed

subsection \<open>A task's outputs\<close>

text \<open>The bytes kept in memory hash to their keys.\<close>

definition access_ok :: "json_codec \<Rightarrow> task_access \<Rightarrow> bool" where
  "access_ok codec a \<longleftrightarrow> map_wf (ta_fallback a) \<and> (\<forall>d content. map_of (ta_fallback a) d = Some content \<longrightarrow> jc_blake3 codec content = d)"

lemma access_pin_same: "ta_fallback (fst (access_pin env d a s)) = ta_fallback a"
  by (auto simp: access_pin_def split: option.splits prod.splits sum.splits)

lemma access_pin_ok: "cas_ok s \<Longrightarrow> is_digest d \<Longrightarrow> cas_ok (snd (access_pin env d a s))"
  using pin_add_step by (auto simp: access_pin_def pin_step_def split: option.splits prod.splits sum.splits) (metis snd_conv)+

text \<open>An output that was put is in the store or in memory.\<close>

lemma access_put_stored:
  assumes "access_put env bytes media_type role a s = (Inr ref, a1, s1)" "cas_ok s"
    "is_digest (ce_blake3 env bytes)" "access_ok (je_codec (ce_disk env)) a"
  shows "ar_blake3 ref = ce_blake3 env bytes \<and> ar_bytes ref = of_nat (length bytes) \<and> cas_ok s1
    \<and> access_ok (je_codec (ce_disk env)) a1
    \<and> (holds (je_codec (ce_disk env)) s1 (ar_blake3 ref) \<or> map_of (ta_fallback a1) (ar_blake3 ref) \<noteq> None)"
proof -
  let ?codec = "je_codec (ce_disk env)" and ?d = "ce_blake3 env bytes"
  obtain a2 s2 where pin: "access_pin env ?d a s = (a2, s2)" by fastforce
  have ref: "ar_blake3 ref = ?d" "ar_bytes ref = of_nat (length bytes)"
    using assms(1) by (auto simp: access_put_def make_artifact_ref_def json_exec_lib_def Let_def case_prod_unfold
        split: option.splits sum.splits prod.splits if_splits)
  have s2: "cas_ok s2" using access_pin_ok[OF assms(2,3), of env a] pin by simp
  have a2: "access_ok ?codec a2" using assms(4) access_pin_same[of env ?d a s] pin by (simp add: access_ok_def)
  obtain r where put: "cas_put env bytes s2 = (r, s1)"
    "a1 = (case r of Inr _ \<Rightarrow> a2 | Inl e \<Rightarrow>
       (if map_of (ta_fallback a2) ?d = None
        then a2\<lparr>ta_warnings := ta_warnings a2 @ [e], ta_fallback := map_emplace ?d bytes (ta_fallback a2),
                ta_fallback_bytes := ta_fallback_bytes a2 + of_nat (length bytes)\<rparr>
        else a2\<lparr>ta_warnings := ta_warnings a2 @ [e]\<rparr>))"
    using assms(1) pin
    by (auto simp: access_put_def make_artifact_ref_def json_exec_lib_def Let_def
        split: option.splits sum.splits prod.splits if_splits)
  have ok: "cas_ok s1" using keeps_blobs_ok[OF cas_put_keeps s2] put(1) by (metis snd_conv)
  show ?thesis
  proof (cases r)
    case (Inl e)
    then show ?thesis using ref ok a2 put(2) by (auto simp: access_ok_def)
  next
    case (Inr d)
    then have "cas_put env bytes s2 = (Inr d, s1)" using put(1) by simp
    then have "d = ?d \<and> holds ?codec s1 d" using cas_put_holds s2 unfolding cas_ok_def by blast
    then have "holds ?codec s1 ?d" by metis
    then show ?thesis using ref ok a2 put(2) Inr by simp
  qed
qed

lemma read_one_output:
  assumes "holds (je_codec (ce_disk env)) s d \<or> map_of (ta_fallback a) d \<noteq> None" "access_ok (je_codec (ce_disk env)) a"
    "\<And>content. map_of (cs_blobs s) (blake3_hex d) = Some (RegularFile content) \<or> map_of (ta_fallback a) d = Some content
       \<Longrightarrow> ce_blake3 env content = d \<Longrightarrow> content = bytes"
    "\<not> ce_unstatable env (blake3_hex d)" "\<not> je_unreadable (ce_disk env) (blake3_hex d)"
    "ar_blake3 ref = d" "ar_bytes ref = of_nat (length bytes)"
  shows "fst (read_each env [ref] a s) = Inr [bytes]"
proof (cases "map_of (ta_fallback a) d")
  case (Some held)
  then have "held = bytes" using assms(2,3) by (simp add: access_ok_def)
  then show ?thesis using Some assms(6) by simp
next
  case None
  then obtain content where "map_of (cs_blobs s) (blake3_hex d) = Some (RegularFile content)" "ce_blake3 env content = d"
    using assms(1) by (auto simp: holds_def)
  then have "fst (cas_get env d s) = Inr bytes"
    using assms(3-5) by (auto simp: cas_get_def regular_content_def)
  then show ?thesis using None assms(6,7) by (cases "cas_get env d s") auto
qed

end
