(* ===== verification/CacheProps.thy ===== *)
theory CacheProps
  imports CacheRuns JsonProps
begin

text \<open>
  The properties of the cache, each with a witness on a small store: two blobs, one of them pinned by a
  live holder, under a limit that only one of them fits.
\<close>

subsection \<open>A store\<close>

definition sample_disk :: journal_env where
  "sample_disk = \<lparr>je_codec = sample_codec JNull, je_now = [], je_source_file = (\<lambda>_. None), je_pending_name = to_string,
     je_read_back = (\<lambda>_ bytes. Some bytes), je_publish = (\<lambda>_. PublishDone), je_unreadable = (\<lambda>_. False),
     je_unremovable = (\<lambda>_. False), je_pending_unlisted = False, je_completed_unlisted = False\<rparr>"

definition sample_cache_env :: "int \<Rightarrow> cache_env" where
  "sample_cache_env now = \<lparr>ce_disk = sample_disk, ce_now = now, ce_errno = ErrNoSpace, ce_written = now,
     ce_unstamped = (\<lambda>_. False), ce_unstatable = (\<lambda>_. False), ce_blobs_unlisted = False, ce_pins_unlisted = False,
     ce_evicting = False, ce_eviction_unlocked = False, ce_unlocked = (\<lambda>_. False), ce_list_unwritten = False\<rparr>"

definition small_store :: cas where
  "small_store = empty_cas \<lparr>cp_max_bytes = 3, cp_stale_pending_age = 10\<rparr>"

text \<open>The holder \<open>h\<close> pins and stores [1, 2], another writer stores [3, 4].\<close>

definition pinned_store :: cas where
  "pinned_store = snd (cas_put (sample_cache_env 1) [1, 2]
     (snd (pin_add (sample_cache_env 1) ''h'' (digest_of [1, 2]) (snd (cas_pin_set (sample_cache_env 1) ''h'' small_store)))))"

definition two_blobs :: cas where
  "two_blobs = snd (cas_put (sample_cache_env 2) [3, 4] pinned_store)"

definition evicted_store :: cas where
  "evicted_store = snd (cas_evict (sample_cache_env 3) two_blobs)"

lemma sample_digest: "is_digest (digest_of bs)"
  by (simp add: is_digest_def digest_of_def kBlake3DigestBytes_def)

lemma sample_cache_codec: "je_codec (ce_disk (sample_cache_env now)) = sample_codec JNull"
  by (simp add: sample_cache_env_def sample_disk_def)

lemma pinned_store_reachable:
  "(cas_step (sample_codec JNull))\<^sup>*\<^sup>* (empty_cas \<lparr>cp_max_bytes = 3, cp_stale_pending_age = 10\<rparr>) pinned_store"
proof -
  let ?step = "cas_step (sample_codec JNull)" and ?env = "sample_cache_env 1"
  let ?s1 = "snd (cas_pin_set ?env ''h'' small_store)"
  let ?s2 = "snd (pin_add ?env ''h'' (digest_of [1, 2]) ?s1)"
  have "?step\<^sup>*\<^sup>* small_store ?s1" by (rule r_into_rtranclp) (rule cstep_pin_set)
  moreover have "?step ?s1 ?s2" by (rule cstep_pin[OF sample_digest])
  moreover have "?step ?s2 pinned_store" unfolding pinned_store_def by (rule cstep_put[OF sample_cache_codec])
  ultimately show ?thesis unfolding small_store_def by (meson rtranclp.rtrancl_into_rtrancl)
qed

lemma two_blobs_reachable:
  "(cas_step (sample_codec JNull))\<^sup>*\<^sup>* (empty_cas \<lparr>cp_max_bytes = 3, cp_stale_pending_age = 10\<rparr>) two_blobs"
  unfolding two_blobs_def
  by (rule rtranclp.rtrancl_into_rtrancl[OF pinned_store_reachable]) (rule cstep_put[OF sample_cache_codec])

subsection \<open>Properties\<close>



text \<open>C34: Eviction is least-recently-used and does no more than it must: it removes, of the blobs ordered by
  last use and digest, those of a prefix that are neither pinned nor impossible to remove; the prefix is the
  shortest that brings the stored bytes down to the limit, or all of them; nothing else is removed, and the
  report counts exactly what was.\<close>

theorem eviction_is_lru:
  assumes "(cas_step codec)\<^sup>*\<^sup>* (empty_cas policy) s" and "cas_evict env s = (Inr report, s')"
    and "stored_bytes (list_cas_blobs env s) < 2 ^ 64"
  shows "\<exists>n pinned gone. fst (read_live_pins env s) = Inr pinned
    \<and> gone = filter (can_evict env pinned) (take n (sort_key (\<lambda>b. (be_last_used b, be_digest b)) (list_cas_blobs env s)))
    \<and> (\<forall>name. map_of (cs_blobs s') name = (if name \<in> be_path ` set gone then None else map_of (cs_blobs s) name))
    \<and> (unat (ev_remaining_bytes report) \<le> unat (cp_max_bytes (cs_policy s)) \<or> n = length (list_cas_blobs env s))
    \<and> (\<forall>m<n. unat (cp_max_bytes (cs_policy s)) < stored_bytes (list_cas_blobs env s)
         - stored_bytes (filter (can_evict env pinned)
             (take m (sort_key (\<lambda>b. (be_last_used b, be_digest b)) (list_cas_blobs env s)))))
    \<and> ev_evicted_blobs report = length gone \<and> unat (ev_evicted_bytes report) = stored_bytes gone
    \<and> unat (ev_remaining_bytes report) + stored_bytes gone = stored_bytes (list_cas_blobs env s)"
proof -
  obtain n pinned gone where e: "fst (read_live_pins env s) = Inr pinned"
    "gone = filter (can_evict env pinned) (take n (oldest_first (list_cas_blobs env s)))"
    "cs_blobs s' = cs_blobs (without (be_path ` set gone) s)"
    "ev_evicted_blobs report = length gone" "ev_evicted_bytes report = total_bytes gone"
    "unat (ev_remaining_bytes report) = stored_bytes (list_cas_blobs env s) - stored_bytes gone"
    "unat (ev_remaining_bytes report) \<le> unat (cp_max_bytes (cs_policy s)) \<or> n = length (list_cas_blobs env s)"
    "\<forall>m<n. unat (cp_max_bytes (cs_policy s)) < stored_bytes (list_cas_blobs env s)
         - stored_bytes (filter (can_evict env pinned) (take m (oldest_first (list_cas_blobs env s))))"
    using cas_evict_prefix[OF assms(2) reachable_ok[OF assms(1)] assms(3)] by blast
  have part: "stored_bytes gone \<le> stored_bytes (list_cas_blobs env s)"
    using stored_bytes_part[of "can_evict env pinned" n "oldest_first (list_cas_blobs env s)"]
      stored_bytes_mset[OF oldest_first_set(2), of "list_cas_blobs env s"] e(2) by simp
  have "map_of (cs_blobs s') name = (if name \<in> be_path ` set gone then None else map_of (cs_blobs s) name)" for name
    using map_of_without(1)[of name "be_path ` set gone" s] e(3)
    by (auto simp: without_def map_of_eq_None_iff)
  moreover have "unat (ev_evicted_bytes report) = stored_bytes gone"
    using part assms(3) e(5) total_bytes_unat[of gone] by simp
  ultimately show ?thesis using e part unfolding oldest_first_def
    by (intro exI[of _ n] exI[of _ pinned] exI[of _ gone]) simp
qed


lemma two_blobs_bytes: "stored_bytes (list_cas_blobs (sample_cache_env 3) two_blobs) = 4"
proof -
  have "List.map be_bytes (list_cas_blobs (sample_cache_env 3) two_blobs) = [2, 2]" by code_simp
  then show ?thesis by (auto simp: stored_bytes_def)
qed

definition sample_report :: eviction_report where
  "sample_report = \<lparr>ev_evicted_blobs = 1, ev_evicted_bytes = 2, ev_pinned_blobs_kept = 1,
     ev_stale_pending_removed = 0, ev_remaining_bytes = 2\<rparr>"

lemma sample_eviction: "cas_evict (sample_cache_env 3) two_blobs = (Inr sample_report, evicted_store)"
proof -
  have "fst (cas_evict (sample_cache_env 3) two_blobs) = Inr sample_report" by code_simp
  then show ?thesis unfolding evicted_store_def by (metis prod.collapse)
qed

lemma eviction_is_lru_witness:
  "\<exists>n pinned. 1 = length (filter (can_evict (sample_cache_env 3) pinned) (take n
            (sort_key (\<lambda>b. (be_last_used b, be_digest b)) (list_cas_blobs (sample_cache_env 3) two_blobs))))"
proof -
  have few: "stored_bytes (list_cas_blobs (sample_cache_env 3) two_blobs) < 2 ^ 64" by (simp add: two_blobs_bytes)
  obtain n pinned gone where "gone = filter (can_evict (sample_cache_env 3) pinned) (take n
      (sort_key (\<lambda>b. (be_last_used b, be_digest b)) (list_cas_blobs (sample_cache_env 3) two_blobs)))"
    "ev_evicted_blobs sample_report = length gone"
    using eviction_is_lru[OF two_blobs_reachable sample_eviction few] by blast
  then show ?thesis by (auto simp: sample_report_def)
qed


text \<open>The blobs a removal leaves, in bytes.\<close>

lemma stored_bytes_without:
  assumes "distinct (List.map be_path blobs)" "gone = filter P (take n (oldest_first blobs))"
  shows "stored_bytes (filter (\<lambda>b. be_path b \<notin> be_path ` set gone) blobs) = stored_bytes blobs - stored_bytes gone"
    "set gone \<subseteq> set blobs"
proof -
  have blobs: "distinct blobs" using assms(1) by (simp add: distinct_map)
  have "mset (oldest_first blobs) = mset blobs" by simp
  then have dist: "distinct (oldest_first blobs)" using blobs mset_eq_imp_distinct_iff by blast
  show sub: "set gone \<subseteq> set blobs"
    using assms(2) set_take_subset[of n "oldest_first blobs"] by auto
  have inj: "inj_on be_path (set blobs)" using assms(1) by (simp add: distinct_map)
  have "filter (\<lambda>b. be_path b \<in> be_path ` set gone) blobs = filter (\<lambda>b. b \<in> set gone) blobs"
    using inj sub by (intro filter_cong refl) (auto dest: inj_onD)
  moreover have "mset (filter (\<lambda>b. b \<in> set gone) blobs) = mset gone"
  proof (rule set_eq_iff_mset_eq_distinct[THEN iffD1])
    show "distinct gone" using assms(2) dist by simp
  qed (use blobs sub in auto)
  ultimately have "stored_bytes (filter (\<lambda>b. be_path b \<in> be_path ` set gone) blobs) = stored_bytes gone"
    by (metis stored_bytes_mset)
  then show "stored_bytes (filter (\<lambda>b. be_path b \<notin> be_path ` set gone) blobs) = stored_bytes blobs - stored_bytes gone"
    using stored_bytes_filter[of "\<lambda>b. be_path b \<in> be_path ` set gone" blobs] by linarith
qed

text \<open>Eviction frees what it may: the bytes stored afterwards are the remaining bytes of the report, and they
  are at or below the limit, or every blob that is left is pinned or could not be removed.\<close>

theorem eviction_reaches_limit:
  assumes "(cas_step codec)\<^sup>*\<^sup>* (empty_cas policy) s" and "cas_evict env s = (Inr report, s')"
    and "stored_bytes (list_cas_blobs env s) < 2 ^ 64"
  shows "stored_bytes (list_cas_blobs env s') = unat (ev_remaining_bytes report)
    \<and> (unat (ev_remaining_bytes report) \<le> unat (cp_max_bytes (cs_policy s))
       \<or> (\<exists>pinned. fst (read_live_pins env s) = Inr pinned
            \<and> list_all (\<lambda>b. be_digest b \<in> set pinned \<or> je_unremovable (ce_disk env) (be_path b)) (list_cas_blobs env s')))"
proof -
  have ok: "cas_ok s" by (rule reachable_ok[OF assms(1)])
  then have wf: "map_wf (cs_blobs s)" by (simp add: cas_ok_def)
  let ?blobs = "list_cas_blobs env s"
  obtain n pinned gone where e: "fst (read_live_pins env s) = Inr pinned"
    "gone = filter (can_evict env pinned) (take n (oldest_first ?blobs))"
    "cs_blobs s' = cs_blobs (without (be_path ` set gone) s)" "cs_used s' = cs_used (without (be_path ` set gone) s)"
    "unat (ev_remaining_bytes report) = stored_bytes ?blobs - stored_bytes gone"
    "unat (ev_remaining_bytes report) \<le> unat (cp_max_bytes (cs_policy s)) \<or> n = length ?blobs"
    using cas_evict_prefix[OF assms(2) ok assms(3)] by blast
  have left: "list_cas_blobs env s' = filter (\<lambda>b. be_path b \<notin> be_path ` set gone) ?blobs"
    unfolding list_cas_blobs_same[OF e(3,4)] by (rule list_cas_blobs_without)
  have "list_all (\<lambda>b. be_digest b \<in> set pinned \<or> je_unremovable (ce_disk env) (be_path b)) (list_cas_blobs env s')"
    if "n = length ?blobs"
  proof -
    have "length (oldest_first ?blobs) = n" using that by (simp add: oldest_first_def)
    then have "set gone = {b \<in> set ?blobs. can_evict env pinned b}" using e(2) by auto
    then show ?thesis using left by (auto simp: list_all_iff can_evict_def)
  qed
  then show ?thesis
    using e(1,5,6) left stored_bytes_without(1)[OF list_cas_blobs_distinct[OF wf] e(2)] by auto
qed

lemma eviction_reaches_limit_witness:
  "stored_bytes (list_cas_blobs (sample_cache_env 3) evicted_store) = 2"
proof -
  have few: "stored_bytes (list_cas_blobs (sample_cache_env 3) two_blobs) < 2 ^ 64" by (simp add: two_blobs_bytes)
  show ?thesis using eviction_reaches_limit[OF two_blobs_reachable sample_eviction few] by (simp add: sample_report_def)
qed






definition put_ref :: artifact_ref where
  "put_ref = \<lparr>ar_blake3 = digest_of [1, 2], ar_bytes = 2, ar_media_type = ''video/mp4'', ar_role = ''source''\<rparr>"





text \<open>
  An output whose pin could not be written to the list file is stored but not pinned, and not kept in memory:
  an eviction may remove it, and the task's outputs cannot be read.
\<close>

definition unpinned_put :: "task_access \<times> cas" where
  "unpinned_put = (let (a, s) = new_access (sample_cache_env 1) ''h'' small_store
     in snd (access_put ((sample_cache_env 1)\<lparr>ce_list_unwritten := True\<rparr>) [1, 2] ''video/mp4'' ''source'' a s))"

lemma unpinned_output_lost:
  "ta_warnings (fst unpinned_put) = [CacheNoSpace]
    \<and> fst (access_read_outputs (sample_cache_env 2) (json_result\<lparr>tr_outputs := [put_ref]\<rparr>) (fst unpinned_put) (snd unpinned_put))
        = Inr [[1, 2]]
    \<and> fst (access_read_outputs (sample_cache_env 4) (json_result\<lparr>tr_outputs := [put_ref]\<rparr>) (fst unpinned_put)
             (snd (cas_evict (sample_cache_env 3) (snd (cas_put (sample_cache_env 2) [3, 4] (snd unpinned_put))))))
        = Inl unresolved_input"
  by (intro conjI) code_simp+

end
