(* ===== verification/TransferFrames.thy ===== *)
theory TransferFrames
  imports Frames CacheAccess
begin

text \<open>
  The messages that move runtimes, model bundles and blobs between a coordinator and a worker
  (packages/svp-exec/worker/src: transfer\_messages.cpp, message\_fields.cpp): builders and strict readers.
\<close>

subsection \<open>Blob references\<close>

datatype blob_ref = BlobRef (br_blake3: digest) (br_bytes: u64)

text \<open>The default comparison: digest first, then length.\<close>

instantiation blob_ref :: linorder
begin

definition less_eq_blob_ref :: "blob_ref \<Rightarrow> blob_ref \<Rightarrow> bool" where
  "less_eq_blob_ref a b \<longleftrightarrow> (br_blake3 a, br_bytes a) \<le> (br_blake3 b, br_bytes b)"

definition less_blob_ref :: "blob_ref \<Rightarrow> blob_ref \<Rightarrow> bool" where
  "less_blob_ref a b \<longleftrightarrow> (br_blake3 a, br_bytes a) < (br_blake3 b, br_bytes b)"

instance
proof
  fix a b c :: blob_ref
  show "a < b \<longleftrightarrow> a \<le> b \<and> \<not> b \<le> a" "a \<le> a"
    by (auto simp: less_eq_blob_ref_def less_blob_ref_def)
  show "a \<le> b \<Longrightarrow> b \<le> c \<Longrightarrow> a \<le> c" by (auto simp: less_eq_blob_ref_def)
  show "a \<le> b \<Longrightarrow> b \<le> a \<Longrightarrow> a = b"
    unfolding less_eq_blob_ref_def by (metis antisym blob_ref.exhaust_sel prod.inject)
  show "a \<le> b \<or> b \<le> a" by (auto simp: less_eq_blob_ref_def)
qed

end

definition blob_ref_for :: "json_codec \<Rightarrow> byte list \<Rightarrow> blob_ref" where
  "blob_ref_for codec bytes = BlobRef (jc_blake3 codec bytes) (of_nat (length bytes))"

subsection \<open>Fields (message\_fields.cpp)\<close>

definition require_frame :: "frame \<Rightarrow> message_type \<Rightarrow> nat \<Rightarrow> exec_error_code option" where
  "require_frame f expected payloads = first_error
     [guard_error (fr_type f \<noteq> expected) frame_malformed,
      guard_error (length (fr_payloads f) \<noteq> payloads) frame_malformed,
      require_object (fr_body f)]"

definition digests_to_json :: "digest list \<Rightarrow> bool \<Rightarrow> json" where
  "digests_to_json digests prefixed =
     JArray (List.map (\<lambda>d. JString (if prefixed then blake3_prefixed d else blake3_hex d)) digests)"

definition digest_item :: "bool \<Rightarrow> json \<Rightarrow> exec_error_code + digest" where
  "digest_item prefixed item =
     (case item of
        JString text \<Rightarrow> (case (if prefixed then parse_blake3_prefixed text else parse_blake3_hex text) of
            None \<Rightarrow> Inl invalid_digest | Some d \<Rightarrow> Inr d)
      | _ \<Rightarrow> Inl wrong_type)"

definition required_digest_array :: "json \<Rightarrow> string \<Rightarrow> bool \<Rightarrow> exec_error_code + digest list" where
  "required_digest_array object name prefixed =
     and_then (required_array object name) (each_or_error (digest_item prefixed))"

subsection \<open>Messages (transfer\_messages.cpp)\<close>

definition blob_ref_to_json :: "blob_ref \<Rightarrow> json" where
  "blob_ref_to_json blob =
     json_object [(''blake3'', JString (blake3_hex (br_blake3 blob))), (''bytes'', JUnsigned (br_bytes blob))]"

definition blob_ref_from_json :: "json \<Rightarrow> exec_error_code + blob_ref" where
  "blob_ref_from_json v =
     and_then (checked (require_object v) ()) (\<lambda>_.
     and_then (checked (reject_unknown_fields [''blake3'', ''bytes''] v) ()) (\<lambda>_.
     and_then (required_blake3_hex v ''blake3'') (\<lambda>d.
     and_then (required_unsigned v ''bytes'') (\<lambda>n. Inr (BlobRef d n)))))"

definition blob_refs_to_json :: "blob_ref list \<Rightarrow> json" where
  "blob_refs_to_json blobs = JArray (List.map blob_ref_to_json blobs)"

definition blob_refs_from_json :: "json \<Rightarrow> string \<Rightarrow> exec_error_code + blob_ref list" where
  "blob_refs_from_json body name = and_then (required_array body name) (each_or_error blob_ref_from_json)"

text \<open>A frame without payloads, and the beginning of its reader.\<close>

definition plain_frame :: "message_type \<Rightarrow> (string \<times> json) list \<Rightarrow> frame" where
  "plain_frame t members = \<lparr>fr_type = t, fr_body = json_object members, fr_payloads = []\<rparr>"

definition plain_body :: "frame \<Rightarrow> message_type \<Rightarrow> exec_error_code + json" where
  "plain_body f t = checked (require_frame f t 0) (fr_body f)"

definition only_fields :: "string list \<Rightarrow> json \<Rightarrow> exec_error_code + json" where
  "only_fields allowed body = checked (reject_unknown_fields allowed body) body"

definition make_runtime_query_frame :: "digest \<Rightarrow> frame" where
  "make_runtime_query_frame runtime_id =
     plain_frame msg_runtime_have [(''runtime_id'', JString (blake3_prefixed runtime_id))]"

definition runtime_query_from_frame :: "frame \<Rightarrow> exec_error_code + digest" where
  "runtime_query_from_frame f =
     and_then (and_then (plain_body f msg_runtime_have) (only_fields [''runtime_id'']))
       (\<lambda>body. required_blake3_prefixed body ''runtime_id'')"

record runtime_answer =
  ra_runtime_id :: digest
  ra_present :: bool

definition make_runtime_answer_frame :: "runtime_answer \<Rightarrow> frame" where
  "make_runtime_answer_frame answer =
     plain_frame msg_runtime_have [(''present'', JBool (ra_present answer)),
       (''runtime_id'', JString (blake3_prefixed (ra_runtime_id answer)))]"

definition runtime_answer_from_frame :: "frame \<Rightarrow> exec_error_code + runtime_answer" where
  "runtime_answer_from_frame f =
     and_then (and_then (plain_body f msg_runtime_have) (only_fields [''present'', ''runtime_id''])) (\<lambda>body.
     and_then (required_blake3_prefixed body ''runtime_id'') (\<lambda>i.
     and_then (required_bool body ''present'') (\<lambda>present.
       Inr \<lparr>ra_runtime_id = i, ra_present = present\<rparr>)))"

record runtime_put =
  rp_runtime_id :: digest
  rp_manifest :: blob_ref
  rp_components :: "blob_ref option"

definition make_runtime_put_frame :: "runtime_put \<Rightarrow> frame" where
  "make_runtime_put_frame put =
     (let f = plain_frame msg_runtime_put [(''manifest'', blob_ref_to_json (rp_manifest put)),
                (''runtime_id'', JString (blake3_prefixed (rp_runtime_id put)))]
      in case rp_components put of
           None \<Rightarrow> f
         | Some blob \<Rightarrow> f\<lparr>fr_body := json_assign ''components'' (blob_ref_to_json blob) (fr_body f)\<rparr>)"

definition runtime_put_from_frame :: "frame \<Rightarrow> exec_error_code + runtime_put" where
  "runtime_put_from_frame f =
     and_then (and_then (plain_body f msg_runtime_put) (only_fields [''components'', ''manifest'', ''runtime_id''])) (\<lambda>body.
     and_then (required_blake3_prefixed body ''runtime_id'') (\<lambda>i.
     and_then (and_then (required_field body ''manifest'') blob_ref_from_json) (\<lambda>manifest.
     and_then (case map_of (json_fields body) ''components'' of
                 None \<Rightarrow> Inr None
               | Some v \<Rightarrow> and_then (blob_ref_from_json v) (\<lambda>blob. Inr (Some blob))) (\<lambda>components.
       Inr \<lparr>rp_runtime_id = i, rp_manifest = manifest, rp_components = components\<rparr>))))"

datatype blob_have_query = BlobQuery "blob_ref list" | ModelBundleQuery "digest list"

definition make_blob_query_frame :: "blob_ref list \<Rightarrow> frame" where
  "make_blob_query_frame blobs =
     plain_frame msg_blob_have [(''blobs'', blob_refs_to_json blobs), (''kind'', JString ''blobs'')]"

definition make_model_bundle_query_frame :: "digest list \<Rightarrow> frame" where
  "make_model_bundle_query_frame bundles =
     plain_frame msg_blob_have [(''kind'', JString ''model_bundles''), (''model_bundles'', digests_to_json bundles False)]"

definition blob_have_query_from_frame :: "frame \<Rightarrow> exec_error_code + blob_have_query" where
  "blob_have_query_from_frame f =
     and_then (plain_body f msg_blob_have) (\<lambda>body.
     and_then (required_string body ''kind'') (\<lambda>kind.
       if kind = ''blobs'' then
         and_then (only_fields [''blobs'', ''kind''] body) (\<lambda>body.
         and_then (blob_refs_from_json body ''blobs'') (\<lambda>blobs. Inr (BlobQuery blobs)))
       else if kind = ''model_bundles'' then
         and_then (only_fields [''kind'', ''model_bundles''] body) (\<lambda>body.
         and_then (required_digest_array body ''model_bundles'' False) (\<lambda>bundles. Inr (ModelBundleQuery bundles)))
       else Inl invalid_value))"

definition make_blob_answer_frame :: "blob_ref list \<Rightarrow> frame" where
  "make_blob_answer_frame missing =
     plain_frame msg_blob_have [(''kind'', JString ''blobs''), (''missing'', blob_refs_to_json missing)]"

definition make_model_bundle_answer_frame :: "digest list \<Rightarrow> frame" where
  "make_model_bundle_answer_frame missing =
     plain_frame msg_blob_have [(''kind'', JString ''model_bundles''), (''missing'', digests_to_json missing False)]"

definition answer_body :: "string \<Rightarrow> frame \<Rightarrow> exec_error_code + json" where
  "answer_body kind f =
     and_then (and_then (plain_body f msg_blob_have) (only_fields [''kind'', ''missing''])) (\<lambda>body.
     and_then (required_string body ''kind'') (\<lambda>k. if k \<noteq> kind then Inl invalid_value else Inr body))"

definition blob_answer_from_frame :: "frame \<Rightarrow> exec_error_code + blob_ref list" where
  "blob_answer_from_frame f = and_then (answer_body ''blobs'' f) (\<lambda>body. blob_refs_from_json body ''missing'')"

definition model_bundle_answer_from_frame :: "frame \<Rightarrow> exec_error_code + digest list" where
  "model_bundle_answer_from_frame f =
     and_then (answer_body ''model_bundles'' f) (\<lambda>body. required_digest_array body ''missing'' False)"

record blob_chunk =
  bc_blob :: blob_ref
  bc_offset :: u64

datatype blob_put = PutChunk blob_chunk | PutModelBundle json blob_ref

text \<open>A chunk is not empty and lies inside its blob.\<close>

definition chunk_fits :: "blob_chunk \<Rightarrow> nat \<Rightarrow> bool" where
  "chunk_fits chunk size' \<longleftrightarrow> size' \<noteq> 0 \<and> \<not> bc_offset chunk > br_bytes (bc_blob chunk)
     \<and> \<not> size' > unat (br_bytes (bc_blob chunk) - bc_offset chunk)"

definition make_blob_chunk_frame :: "blob_chunk \<Rightarrow> byte list \<Rightarrow> exec_error_code + frame" where
  "make_blob_chunk_frame header chunk =
     (if \<not> chunk_fits header (length chunk) then Inl invalid_value
      else Inr \<lparr>fr_type = msg_blob_put,
                fr_body = json_object [(''blake3'', JString (blake3_hex (br_blake3 (bc_blob header)))),
                  (''bytes'', JUnsigned (br_bytes (bc_blob header))), (''kind'', JString ''chunk''),
                  (''offset'', JUnsigned (bc_offset header))],
                fr_payloads = [chunk]\<rparr>)"

definition make_model_bundle_put_frame :: "json \<Rightarrow> blob_ref \<Rightarrow> frame" where
  "make_model_bundle_put_frame lock manifest =
     plain_frame msg_blob_put [(''kind'', JString ''model_bundle''), (''lock'', lock),
       (''manifest'', blob_ref_to_json manifest)]"

definition blob_put_from_frame :: "frame \<Rightarrow> exec_error_code + blob_put" where
  "blob_put_from_frame f =
     (if fr_type f \<noteq> msg_blob_put then Inl frame_malformed
      else and_then (checked (require_object (fr_body f)) (fr_body f)) (\<lambda>body.
      and_then (required_string body ''kind'') (\<lambda>kind.
        if kind = ''chunk'' then
          and_then (checked (require_frame f msg_blob_put 1) ()) (\<lambda>_.
          and_then (only_fields [''blake3'', ''bytes'', ''kind'', ''offset''] body) (\<lambda>body.
          and_then (required_blake3_hex body ''blake3'') (\<lambda>d.
          and_then (required_unsigned body ''bytes'') (\<lambda>n.
          and_then (required_unsigned body ''offset'') (\<lambda>offset.
            let chunk = \<lparr>bc_blob = BlobRef d n, bc_offset = offset\<rparr>
            in if chunk_fits chunk (length (hd (fr_payloads f))) then Inr (PutChunk chunk) else Inl invalid_value)))))
        else if kind = ''model_bundle'' then
          and_then (checked (require_frame f msg_blob_put 0) ()) (\<lambda>_.
          and_then (only_fields [''kind'', ''lock'', ''manifest''] body) (\<lambda>body.
          and_then (required_object body ''lock'') (\<lambda>lock.
          and_then (and_then (required_field body ''manifest'') blob_ref_from_json) (\<lambda>manifest.
            Inr (PutModelBundle lock manifest)))))
        else Inl invalid_value)))"

definition make_blob_get_frame :: "blob_ref \<Rightarrow> frame" where
  "make_blob_get_frame blob = plain_frame msg_blob_get [(''blob'', blob_ref_to_json blob)]"

definition blob_get_from_frame :: "frame \<Rightarrow> exec_error_code + blob_ref" where
  "blob_get_from_frame f =
     and_then (and_then (plain_body f msg_blob_get) (only_fields [''blob''])) (\<lambda>body.
     and_then (required_field body ''blob'') blob_ref_from_json)"

definition make_blob_release_frame :: "blob_ref list \<Rightarrow> frame" where
  "make_blob_release_frame blobs = plain_frame msg_blob_release [(''blobs'', blob_refs_to_json blobs)]"

definition blob_release_from_frame :: "frame \<Rightarrow> exec_error_code + blob_ref list" where
  "blob_release_from_frame f =
     and_then (and_then (plain_body f msg_blob_release) (only_fields [''blobs'']))
       (\<lambda>body. blob_refs_from_json body ''blobs'')"

end
