(* ===== verification/BlobTransfer.thy ===== *)
theory BlobTransfer
  imports TransferFrames ReadySet
begin

text \<open>
  Moving blobs between a coordinator and a worker (packages/svp-exec/worker/src): the receiver that collects
  chunks (blob\_receiver.cpp), the blobs coordinators claim and release (released\_blobs.cpp), and what the
  worker's session does with the transfer frames (agent\_session.cpp). Mutexes are not modelled: each frame
  is handled as one step.
\<close>

subsection \<open>Errors (worker\_error.cpp)\<close>

datatype worker_error_code =
    wk_protocol | wk_refused | wk_verification | wk_io | wk_configuration | wk_command

fun worker_error_code_name :: "worker_error_code \<Rightarrow> string" where
  "worker_error_code_name wk_protocol = ''protocol''"
| "worker_error_code_name wk_refused = ''refused''"
| "worker_error_code_name wk_verification = ''verification''"
| "worker_error_code_name wk_io = ''io''"
| "worker_error_code_name wk_configuration = ''configuration''"
| "worker_error_code_name wk_command = ''command''"

text \<open>An exception of another type is what the hashing library throws.\<close>

datatype session_fault = CodecFault exec_error_code | WorkerFault worker_error_code | OtherFault

subsection \<open>Receiving chunks (blob\_receiver.cpp)\<close>

record blob_receiver =
  re_files :: "(string, byte list) std_map"
  re_partial :: "(blob_ref, u64) std_map"
  re_completed :: u64

text \<open>
  What the disk does while a frame is handled: the cache's part, and the bytes that reach a partial file
  when writing it fails. A name that is unreadable cannot be hashed or copied.
\<close>

record transfer_env =
  te_cache :: cache_env
  te_short_write :: "byte list option"

definition new_receiver :: blob_receiver where
  "new_receiver = \<lparr>re_files = [], re_partial = [], re_completed = 0\<rparr>"

definition partial_name :: "blob_ref \<Rightarrow> string" where
  "partial_name blob = blake3_hex (br_blake3 blob) @ ''.partial''"

definition reads_file :: "cache_env \<Rightarrow> (string, byte list) std_map \<Rightarrow> cache_env" where
  "reads_file env files = env\<lparr>ce_disk := (ce_disk env)\<lparr>je_source_file :=
     (\<lambda>name. if je_unreadable (ce_disk env) name then None else map_of files name)\<rparr>\<rparr>"

text \<open>A whole partial file is hashed, stored and removed.\<close>

definition complete_blob ::
  "transfer_env \<Rightarrow> blob_ref \<Rightarrow> byte list \<Rightarrow> blob_receiver \<Rightarrow> cas \<Rightarrow> (session_fault + unit) \<times> blob_receiver \<times> cas" where
  "complete_blob env blob content r s =
     (let name = partial_name blob;
          removed = r\<lparr>re_files := map_erase name (re_files r), re_partial := map_erase blob (re_partial r)\<rparr>
      in if je_unreadable (ce_disk (te_cache env)) name then (Inl (WorkerFault wk_io), removed, s)
         else if blake3_hex (ce_blake3 (te_cache env) content) \<noteq> blake3_hex (br_blake3 blob)
         then (Inl (WorkerFault wk_verification), removed, s)
         else case cas_put_file (reads_file (te_cache env) (re_files r)) name s of
                (Inl _, s') \<Rightarrow> (Inl (WorkerFault wk_io), removed, s')
              | (Inr d, s') \<Rightarrow>
                  if d \<noteq> br_blake3 blob then (Inl (WorkerFault wk_io), removed, s')
                  else (Inr (), removed\<lparr>re_completed := re_completed r + 1\<rparr>, s'))"

definition put_chunk ::
  "transfer_env \<Rightarrow> blob_chunk \<Rightarrow> byte list \<Rightarrow> blob_receiver \<Rightarrow> cas \<Rightarrow> (session_fault + unit) \<times> blob_receiver \<times> cas" where
  "put_chunk env chunk bytes r s =
     (let blob = bc_blob chunk; name = partial_name blob;
          received = (case map_of (re_partial r) blob of None \<Rightarrow> 0 | Some n \<Rightarrow> n);
          before = (if received = 0 then [] else case map_of (re_files r) name of None \<Rightarrow> [] | Some held \<Rightarrow> held)
      in if bc_offset chunk \<noteq> received then (Inl (WorkerFault wk_protocol), r, s)
         else case te_short_write env of
           Some some \<Rightarrow> (Inl (WorkerFault wk_io), r\<lparr>re_files := map_assign name (before @ some) (re_files r)\<rparr>, s)
         | None \<Rightarrow>
             let now = received + of_nat (length bytes);
                 r1 = r\<lparr>re_files := map_assign name (before @ bytes) (re_files r)\<rparr>
             in if now < br_bytes blob then (Inr (), r1\<lparr>re_partial := map_assign blob now (re_partial r)\<rparr>, s)
                else complete_blob env blob (before @ bytes) r1 s)"

subsection \<open>Released blobs (released\_blobs.cpp)\<close>

record released_blobs =
  rb_claims :: "(digest, string list) std_map"
  rb_released :: "(digest, u64) std_map"
  rb_last_release :: u64

definition no_released :: released_blobs where
  "no_released = \<lparr>rb_claims = [], rb_released = [], rb_last_release = 0\<rparr>"

definition blob_claim :: "string \<Rightarrow> digest \<Rightarrow> released_blobs \<Rightarrow> released_blobs" where
  "blob_claim coordinator d rb =
     (let claims = (case map_of (rb_claims rb) d of None \<Rightarrow> [] | Some cs \<Rightarrow> cs)
      in rb\<lparr>rb_claims := map_assign d (ordered_insert (<) coordinator claims) (rb_claims rb),
            rb_released := map_erase d (rb_released rb)\<rparr>)"

definition release_one :: "string \<Rightarrow> digest \<Rightarrow> released_blobs \<Rightarrow> released_blobs" where
  "release_one coordinator d rb =
     (let claims = (case map_of (rb_claims rb) d of
            None \<Rightarrow> rb_claims rb
          | Some cs \<Rightarrow>
              let left = ordered_erase (<) coordinator cs
              in if left = [] then map_erase d (rb_claims rb) else map_assign d left (rb_claims rb));
          stamp = rb_last_release rb + 1
      in rb\<lparr>rb_claims := claims, rb_released := map_assign d stamp (rb_released rb), rb_last_release := stamp\<rparr>)"

definition blob_release :: "string \<Rightarrow> digest list \<Rightarrow> released_blobs \<Rightarrow> released_blobs" where
  "blob_release coordinator digests rb = fold (release_one coordinator) digests rb"

definition sweep_candidates :: "released_blobs \<Rightarrow> (digest \<times> u64) list" where
  "sweep_candidates rb = filter (\<lambda>(d, _). map_of (rb_claims rb) d = None) (rb_released rb)"

text \<open>A blob that a sweep found gone is forgotten if it was neither claimed nor released since.\<close>

definition forget_swept :: "digest \<Rightarrow> u64 \<Rightarrow> released_blobs \<Rightarrow> released_blobs" where
  "forget_swept d stamp rb =
     (if map_of (rb_released rb) d = Some stamp \<and> map_of (rb_claims rb) d = None
      then rb\<lparr>rb_released := map_erase d (rb_released rb)\<rparr> else rb)"

record release_sweep =
  sw_removed :: nat
  sw_pinned :: nat

fun sweep_each ::
  "(digest \<Rightarrow> 's \<Rightarrow> (cache_error_code + blob_removal) \<times> 's) \<Rightarrow> (digest \<times> u64) list \<Rightarrow> release_sweep
     \<Rightarrow> released_blobs \<Rightarrow> 's \<Rightarrow> release_sweep \<times> released_blobs \<times> 's" where
  "sweep_each remove [] sweep rb s = (sweep, rb, s)"
| "sweep_each remove ((d, stamp) # candidates) sweep rb s =
     (case remove d s of
        (Inl _, s') \<Rightarrow> sweep_each remove candidates sweep rb s'
      | (Inr RemovalPinned, s') \<Rightarrow> sweep_each remove candidates (sweep\<lparr>sw_pinned := sw_pinned sweep + 1\<rparr>) rb s'
      | (Inr RemovalRemoved, s') \<Rightarrow>
          sweep_each remove candidates (sweep\<lparr>sw_removed := sw_removed sweep + 1\<rparr>) (forget_swept d stamp rb) s'
      | (Inr RemovalAbsent, s') \<Rightarrow> sweep_each remove candidates sweep (forget_swept d stamp rb) s')"

definition released_sweep ::
  "(digest \<Rightarrow> 's \<Rightarrow> (cache_error_code + blob_removal) \<times> 's) \<Rightarrow> released_blobs \<Rightarrow> 's
     \<Rightarrow> release_sweep \<times> released_blobs \<times> 's" where
  "released_sweep remove rb s = sweep_each remove (sweep_candidates rb) \<lparr>sw_removed = 0, sw_pinned = 0\<rparr> rb s"

subsection \<open>Sending a blob in chunks\<close>

text \<open>
  The loop over a blob's content, for both directions: the frames written, and the exception it ends
  with, if any. A chunk that is shorter than asked for is a file that is shorter than its reference.
\<close>

function chunk_frames :: "u64 \<Rightarrow> blob_ref \<Rightarrow> byte list \<Rightarrow> u64 \<Rightarrow> session_fault option \<times> frame list" where
  "chunk_frames limit blob content offset =
     (if \<not> offset < br_bytes blob then (None, [])
      else let size' = min limit (br_bytes blob - offset);
               chunk = take (unat size') (drop (unat offset) content)
           in if length chunk \<noteq> unat size' then (Some (WorkerFault wk_io), [])
              else case make_blob_chunk_frame \<lparr>bc_blob = blob, bc_offset = offset\<rparr> chunk of
                     Inl e \<Rightarrow> (Some (CodecFault e), [])
                   | Inr f \<Rightarrow> let (fault, fs) = chunk_frames limit blob content (offset + size') in (fault, f # fs))"
  by pat_completeness auto
termination
proof (relation "measure (\<lambda>(limit, blob, content, offset). unat (br_bytes blob - offset))")
  fix limit :: u64 and blob content and offset size' :: u64 and chunk f
  assume a: "\<not> \<not> offset < br_bytes blob" "size' = min limit (br_bytes blob - offset)"
    "chunk = take (unat size') (drop (unat offset) content)" "\<not> length chunk \<noteq> unat size'"
    "make_blob_chunk_frame \<lparr>bc_blob = blob, bc_offset = offset\<rparr> chunk = Inr f"
  have len: "length chunk = unat size'" using a(4) by blast
  have "0 < length chunk" using a(5) by (auto simp: make_blob_chunk_frame_def chunk_fits_def split: if_splits)
  then have pos: "0 < unat size'" unfolding len .
  have le: "size' \<le> br_bytes blob - offset" using a(2) by simp
  then have "unat (br_bytes blob - offset - size') = unat (br_bytes blob - offset) - unat size'"
    by (simp add: unat_sub)
  moreover have "unat size' \<le> unat (br_bytes blob - offset)" using le by (simp add: word_le_nat_alt)
  ultimately show "((limit, blob, content, offset + size'), (limit, blob, content, offset))
      \<in> measure (\<lambda>(limit, blob, content, offset). unat (br_bytes blob - offset))"
    using pos by (simp add: diff_diff_eq)
qed simp

declare chunk_frames.simps [simp del]

subsection \<open>The worker's session (agent\_session.cpp)\<close>

text \<open>The agent's pin set is its own holder, beside that of the session process.\<close>

definition kAgentPinHolderSuffix :: string where
  "kAgentPinHolderSuffix = ''.agent''"

record agent_transfer =
  at_session :: string
  at_named_coordinator :: bool
  at_coordinator :: string
  at_pins :: bool
  at_pins_failed :: bool
  at_receiver :: "blob_receiver option"
  at_released :: released_blobs
  at_cas :: cas

definition agent_holder :: "agent_transfer \<Rightarrow> string" where
  "agent_holder a = at_session a @ kAgentPinHolderSuffix"

definition agent_hold :: "cache_env \<Rightarrow> digest \<Rightarrow> agent_transfer \<Rightarrow> agent_transfer" where
  "agent_hold env d a =
     (let a1 = (if \<not> at_pins a \<and> \<not> at_pins_failed a then
                  (case cas_pin_set env (agent_holder a) (at_cas a) of
                     (Inl _, s) \<Rightarrow> a\<lparr>at_pins_failed := True, at_cas := s\<rparr>
                   | (Inr _, s) \<Rightarrow> a\<lparr>at_pins := True, at_cas := s\<rparr>)
                else a)
      in if at_pins a1 then a1\<lparr>at_cas := snd (pin_add env (agent_holder a1) d (at_cas a1))\<rparr> else a1)"

definition agent_pin :: "cache_env \<Rightarrow> digest \<Rightarrow> agent_transfer \<Rightarrow> agent_transfer" where
  "agent_pin env d a =
     (let a1 = agent_hold env d a
      in if at_named_coordinator a1 then a1\<lparr>at_released := blob_claim (at_coordinator a1) d (at_released a1)\<rparr> else a1)"

fun declare_blobs :: "cache_env \<Rightarrow> blob_ref list \<Rightarrow> agent_transfer \<Rightarrow> blob_ref list \<times> agent_transfer" where
  "declare_blobs env [] a = ([], a)"
| "declare_blobs env (blob # blobs) a =
     (let a1 = agent_pin env (br_blake3 blob) a
      in if \<not> cas_has env (br_blake3 blob) (at_cas a1)
         then (let (missing, a2) = declare_blobs env blobs a1 in (blob # missing, a2))
         else declare_blobs env blobs (a1\<lparr>at_cas := cas_refresh env (br_blake3 blob) (at_cas a1)\<rparr>))"

text \<open>A step of the session: the exception thrown, if any, and the frames written before.\<close>

definition agent_send_blob ::
  "cache_env \<Rightarrow> u64 \<Rightarrow> blob_ref \<Rightarrow> agent_transfer \<Rightarrow> (session_fault option \<times> frame list) \<times> agent_transfer" where
  "agent_send_blob env chunk_limit blob a =
     (let a1 = agent_hold env (br_blake3 blob) a
      in if \<not> cas_has env (br_blake3 blob) (at_cas a1) then ((None, [make_blob_answer_frame [blob]]), a1)
         else case cas_open env (br_blake3 blob) (at_cas a1) of
                (Inl _, s) \<Rightarrow> ((None, [make_blob_answer_frame [blob]]), a1\<lparr>at_cas := s\<rparr>)
              | (Inr content, s) \<Rightarrow>
                  let (fault, frames) = chunk_frames chunk_limit blob content 0
                  in ((fault, make_blob_answer_frame [] # frames), a1\<lparr>at_cas := s\<rparr>))"

definition agent_put_chunk ::
  "transfer_env \<Rightarrow> blob_chunk \<Rightarrow> byte list \<Rightarrow> agent_transfer \<Rightarrow> (session_fault option \<times> frame list) \<times> agent_transfer" where
  "agent_put_chunk env chunk bytes a =
     (let r = (case at_receiver a of None \<Rightarrow> new_receiver | Some r \<Rightarrow> r);
          (outcome, r', s) = put_chunk env chunk bytes r (at_cas a)
      in ((case outcome of Inl e \<Rightarrow> Some e | Inr _ \<Rightarrow> None, []), a\<lparr>at_receiver := Some r', at_cas := s\<rparr>))"

definition agent_release_blobs :: "cache_env \<Rightarrow> blob_ref list \<Rightarrow> agent_transfer \<Rightarrow> agent_transfer" where
  "agent_release_blobs env blobs a =
     (let released = blob_release (at_coordinator a) (List.map br_blake3 blobs) (at_released a);
          (_, rb, s) = released_sweep (remove_unpinned env) released (at_cas a)
      in a\<lparr>at_released := rb, at_cas := s\<rparr>)"

text \<open>
  The frames that move blobs; \<open>rest\<close> handles the others (runtimes, model bundles, leases), which this theory
  does not model.
\<close>

definition agent_handle ::
  "(frame \<Rightarrow> agent_transfer \<Rightarrow> (session_fault option \<times> frame list) \<times> agent_transfer)
     \<Rightarrow> transfer_env \<Rightarrow> u64 \<Rightarrow> frame \<Rightarrow> agent_transfer \<Rightarrow> (session_fault option \<times> frame list) \<times> agent_transfer" where
  "agent_handle rest env chunk_limit f a =
     (case fr_type f of
        msg_blob_have \<Rightarrow>
          (case blob_have_query_from_frame f of
             Inl e \<Rightarrow> ((Some (CodecFault e), []), a)
           | Inr (BlobQuery blobs) \<Rightarrow>
               (let (missing, a1) = declare_blobs (te_cache env) blobs a in ((None, [make_blob_answer_frame missing]), a1))
           | Inr (ModelBundleQuery _) \<Rightarrow> rest f a)
      | msg_blob_put \<Rightarrow>
          (case blob_put_from_frame f of
             Inl e \<Rightarrow> ((Some (CodecFault e), []), a)
           | Inr (PutChunk chunk) \<Rightarrow> agent_put_chunk env chunk (hd (fr_payloads f)) a
           | Inr (PutModelBundle _ _) \<Rightarrow> rest f a)
      | msg_blob_get \<Rightarrow>
          (case blob_get_from_frame f of
             Inl e \<Rightarrow> ((Some (CodecFault e), []), a)
           | Inr blob \<Rightarrow> agent_send_blob (te_cache env) chunk_limit blob a)
      | msg_blob_release \<Rightarrow>
          (case blob_release_from_frame f of
             Inl e \<Rightarrow> ((Some (CodecFault e), []), a)
           | Inr blobs \<Rightarrow> ((None, []), agent_release_blobs (te_cache env) blobs a))
      | _ \<Rightarrow> rest f a)"

definition error_frame :: "string \<Rightarrow> frame" where
  "error_frame code = plain_frame msg_error [(''code'', JString code), (''message'', JString [])]"

definition fault_frame :: "session_fault \<Rightarrow> frame" where
  "fault_frame fault = error_frame (case fault of WorkerFault e \<Rightarrow> worker_error_code_name e | _ \<Rightarrow> ''protocol_error'')"

text \<open>
  The session as the coordinator's peer: what it answers to the \<open>n\<close>th frame, with the disk of that
  frame. After a shutdown or an exception it has ended.
\<close>

record agent_peer =
  ap_agent :: agent_transfer
  ap_ended :: bool
  ap_frames :: nat

definition agent_answer ::
  "(frame \<Rightarrow> agent_transfer \<Rightarrow> (session_fault option \<times> frame list) \<times> agent_transfer)
     \<Rightarrow> (nat \<Rightarrow> transfer_env) \<Rightarrow> u64 \<Rightarrow> frame \<Rightarrow> agent_peer \<Rightarrow> (exec_error_code + frame) list \<times> agent_peer" where
  "agent_answer rest envs chunk_limit f p =
     (if ap_ended p then ([], p)
      else if fr_type f = msg_shutdown then ([], p\<lparr>ap_ended := True, ap_frames := ap_frames p + 1\<rparr>)
      else let ((fault, frames), a) = agent_handle rest (envs (ap_frames p)) chunk_limit f (ap_agent p)
           in case fault of
                None \<Rightarrow> (List.map Inr frames, p\<lparr>ap_agent := a, ap_frames := ap_frames p + 1\<rparr>)
              | Some e \<Rightarrow> (List.map Inr (frames @ [fault_frame e]),
                           p\<lparr>ap_agent := a, ap_ended := True, ap_frames := ap_frames p + 1\<rparr>))"

end
