(* ===== verification/BlobClient.thy ===== *)
theory BlobClient
  imports BlobTransfer
begin

text \<open>
  The coordinator's side of a session (packages/svp-exec/worker/src/coordinator\_session.cpp): sending the blobs a
  worker lacks, fetching one, pushing a runtime and model bundles. The worker is a peer: what it answers to a
  frame is there at the next read, and a read that finds nothing finds the session closed.
\<close>

subsection \<open>A session\<close>

type_synonym 'p peer = "frame \<Rightarrow> 'p \<Rightarrow> (exec_error_code + frame) list \<times> 'p"

record transfer_stats =
  xs_blobs_sent :: u64
  xs_bytes_sent :: u64
  xs_already_present :: u64
  xs_runtime_pushed :: bool
  xs_bundles_pushed :: "string list"

record 'p transfer_session =
  tf_peer :: 'p
  tf_inbox :: "(exec_error_code + frame) list"
  tf_stats :: transfer_stats

type_synonym ('p, 'a) session_call = "'p transfer_session \<Rightarrow> (session_fault + 'a) \<times> 'p transfer_session"

definition then_do :: "('p, 'a) session_call \<Rightarrow> ('a \<Rightarrow> ('p, 'b) session_call) \<Rightarrow> ('p, 'b) session_call" where
  "then_do m f s = (case m s of (Inl e, s') \<Rightarrow> (Inl e, s') | (Inr x, s') \<Rightarrow> f x s')"

definition give :: "session_fault + 'a \<Rightarrow> ('p, 'a) session_call" where
  "give r s = (r, s)"

definition as_session_fault :: "exec_error_code + 'a \<Rightarrow> session_fault + 'a" where
  "as_session_fault r = (case r of Inl e \<Rightarrow> Inl (CodecFault e) | Inr x \<Rightarrow> Inr x)"

definition session_write :: "'p peer \<Rightarrow> frame \<Rightarrow> ('p, unit) session_call" where
  "session_write peer f s =
     (let (answers, p) = peer f (tf_peer s)
      in (Inr (), s\<lparr>tf_peer := p, tf_inbox := tf_inbox s @ answers\<rparr>))"

fun expect_from ::
  "message_type \<Rightarrow> (exec_error_code + frame) list \<Rightarrow> (session_fault + frame) \<times> (exec_error_code + frame) list" where
  "expect_from t [] = (Inl (WorkerFault wk_protocol), [])"
| "expect_from t (Inl e # inbox) = (Inl (CodecFault e), inbox)"
| "expect_from t (Inr f # inbox) =
     (if fr_type f = msg_error then (Inl (WorkerFault wk_protocol), inbox)
      else if fr_type f \<noteq> t then (Inl (WorkerFault wk_protocol), inbox)
      else (Inr f, inbox))"

definition session_expect :: "message_type \<Rightarrow> ('p, frame) session_call" where
  "session_expect t s = (let (r, inbox) = expect_from t (tf_inbox s) in (r, s\<lparr>tf_inbox := inbox\<rparr>))"

text \<open>A query and its answer.\<close>

definition session_ask ::
  "'p peer \<Rightarrow> frame \<Rightarrow> message_type \<Rightarrow> (frame \<Rightarrow> exec_error_code + 'a) \<Rightarrow> ('p, 'a) session_call" where
  "session_ask peer f t answer_of =
     then_do (session_write peer f) (\<lambda>_.
     then_do (session_expect t) (\<lambda>answer. give (as_session_fault (answer_of answer))))"

definition update_stats :: "(transfer_stats \<Rightarrow> transfer_stats) \<Rightarrow> ('p, unit) session_call" where
  "update_stats u s = (Inr (), s\<lparr>tf_stats := u (tf_stats s)\<rparr>)"

subsection \<open>Sending blobs\<close>

record blob_source =
  bs_ref :: blob_ref
  bs_file :: string

text \<open>The reference of a file (blob\_source.cpp): its length and digest.\<close>

definition describe_blob_file :: "json_codec \<Rightarrow> (string \<Rightarrow> byte list option) \<Rightarrow> string \<Rightarrow> session_fault + blob_source" where
  "describe_blob_file codec files path =
     (case files path of
        None \<Rightarrow> Inl (WorkerFault wk_io)
      | Some content \<Rightarrow> (case parse_blake3_hex (blake3_hex (jc_blake3 codec content)) of
            None \<Rightarrow> Inl (WorkerFault wk_io)
          | Some d \<Rightarrow> Inr \<lparr>bs_ref = BlobRef d (of_nat (length content)), bs_file = path\<rparr>))"

fun unique_sources :: "blob_ref list \<Rightarrow> blob_source list \<Rightarrow> blob_source list" where
  "unique_sources seen [] = []"
| "unique_sources seen (blob # blobs) =
     (if bs_ref blob \<in> set seen then unique_sources seen blobs
      else blob # unique_sources (bs_ref blob # seen) blobs)"

fun write_chunks :: "'p peer \<Rightarrow> frame list \<Rightarrow> ('p, unit) session_call" where
  "write_chunks peer [] = give (Inr ())"
| "write_chunks peer (f # fs) =
     then_do (session_write peer f) (\<lambda>_.
     then_do (update_stats (\<lambda>stats. stats\<lparr>xs_bytes_sent := xs_bytes_sent stats + of_nat (length (hd (fr_payloads f)))\<rparr>)) (\<lambda>_.
       write_chunks peer fs))"

definition send_source ::
  "'p peer \<Rightarrow> (string \<Rightarrow> byte list option) \<Rightarrow> u64 \<Rightarrow> blob_source \<Rightarrow> ('p, unit) session_call" where
  "send_source peer files chunk_limit blob =
     (case files (bs_file blob) of
        None \<Rightarrow> give (Inl (WorkerFault wk_io))
      | Some content \<Rightarrow>
          let (fault, fs) = chunk_frames chunk_limit (bs_ref blob) content 0
          in then_do (write_chunks peer fs) (\<lambda>_.
             case fault of
               Some e \<Rightarrow> give (Inl e)
             | None \<Rightarrow> update_stats (\<lambda>stats. stats\<lparr>xs_blobs_sent := xs_blobs_sent stats + 1\<rparr>)))"

fun send_wanted ::
  "'p peer \<Rightarrow> (string \<Rightarrow> byte list option) \<Rightarrow> u64 \<Rightarrow> blob_ref list \<Rightarrow> blob_source list \<Rightarrow> ('p, unit) session_call" where
  "send_wanted peer files chunk_limit wanted [] = give (Inr ())"
| "send_wanted peer files chunk_limit wanted (blob # blobs) =
     (if bs_ref blob \<notin> set wanted then send_wanted peer files chunk_limit wanted blobs
      else then_do (send_source peer files chunk_limit blob) (\<lambda>_. send_wanted peer files chunk_limit wanted blobs))"

definition ask_blobs :: "'p peer \<Rightarrow> blob_ref list \<Rightarrow> ('p, blob_ref list) session_call" where
  "ask_blobs peer blobs = session_ask peer (make_blob_query_frame blobs) msg_blob_have blob_answer_from_frame"

definition send_blobs ::
  "'p peer \<Rightarrow> (string \<Rightarrow> byte list option) \<Rightarrow> frame_limits \<Rightarrow> blob_source list \<Rightarrow> ('p, unit) session_call" where
  "send_blobs peer files limits blobs =
     (let unique = unique_sources [] blobs; query = List.map bs_ref unique
      in then_do (ask_blobs peer query) (\<lambda>missing.
         then_do (update_stats (\<lambda>stats. stats\<lparr>xs_already_present := xs_already_present stats
                    + of_nat (length unique) - of_nat (length (remdups missing))\<rparr>)) (\<lambda>_.
         then_do (send_wanted peer files (max_payload_bytes limits) missing unique) (\<lambda>_.
           if missing = [] then give (Inr ())
           else then_do (ask_blobs peer query) (\<lambda>still_missing.
             give (if still_missing \<noteq> [] then Inl (WorkerFault wk_verification) else Inr ()))))))"

subsection \<open>Fetching a blob\<close>

text \<open>
  The coordinator's disk while it fetches: whether the partial file can be opened, which write to it fails,
  what is read back of it (\<open>None\<close>: hashing it throws), and whether the rename fails.
\<close>

record fetch_env =
  fe_unopened :: bool
  fe_unwritten :: "nat \<Rightarrow> bool"
  fe_read_back :: "byte list \<Rightarrow> byte list option"
  fe_unrenamed :: bool
  fe_blake3 :: "byte list \<Rightarrow> digest"

fun receive_chunks ::
  "fetch_env \<Rightarrow> blob_ref \<Rightarrow> u64 \<Rightarrow> nat \<Rightarrow> byte list \<Rightarrow> (exec_error_code + frame) list
     \<Rightarrow> (session_fault + byte list) \<times> (exec_error_code + frame) list" where
  "receive_chunks env blob received writes content [] =
     (if \<not> received < br_bytes blob then (Inr content, []) else (Inl (WorkerFault wk_protocol), []))"
| "receive_chunks env blob received writes content (x # inbox) =
     (if \<not> received < br_bytes blob then (Inr content, x # inbox)
      else case expect_from msg_blob_put (x # inbox) of
        (Inl e, inbox') \<Rightarrow> (Inl e, inbox')
      | (Inr f, _) \<Rightarrow>
          (case blob_put_from_frame f of
             Inl e \<Rightarrow> (Inl (CodecFault e), inbox)
           | Inr (PutModelBundle _ _) \<Rightarrow> (Inl (WorkerFault wk_protocol), inbox)
           | Inr (PutChunk chunk) \<Rightarrow>
               if bc_blob chunk \<noteq> blob \<or> bc_offset chunk \<noteq> received then (Inl (WorkerFault wk_protocol), inbox)
               else if fe_unwritten env writes then (Inl (WorkerFault wk_io), inbox)
               else receive_chunks env blob (received + of_nat (length (hd (fr_payloads f)))) (Suc writes)
                      (content @ hd (fr_payloads f)) inbox))"

text \<open>The coordinator's files are a map; the partial file is gone however a fetch ends.\<close>

definition fetch_partial :: "string \<Rightarrow> string" where
  "fetch_partial destination = destination @ ''.partial''"

definition fetch_blob ::
  "'p peer \<Rightarrow> fetch_env \<Rightarrow> blob_ref \<Rightarrow> string \<Rightarrow> (string, byte list) std_map
     \<Rightarrow> ('p, (session_fault + unit) \<times> (string, byte list) std_map) session_call" where
  "fetch_blob peer env blob destination files s =
     (case session_ask peer (make_blob_get_frame blob) msg_blob_have blob_answer_from_frame s of
        (Inl e, s') \<Rightarrow> (Inr (Inl e, files), s')
      | (Inr (_ # _), s') \<Rightarrow> (Inr (Inl (WorkerFault wk_configuration), files), s')
      | (Inr [], s') \<Rightarrow>
          (let without_partial = map_erase (fetch_partial destination) files
           in if fe_unopened env then (Inr (Inl (WorkerFault wk_io), without_partial), s')
              else let (received, inbox) = receive_chunks env blob 0 0 [] (tf_inbox s'); s2 = s'\<lparr>tf_inbox := inbox\<rparr>
              in case received of
                   Inl e \<Rightarrow> (Inr (Inl e, without_partial), s2)
                 | Inr content \<Rightarrow>
                     (case fe_read_back env content of
                        None \<Rightarrow> (Inr (Inl OtherFault, without_partial), s2)
                      | Some on_disk \<Rightarrow>
                          if length on_disk \<noteq> unat (br_bytes blob) \<or> blake3_hex (fe_blake3 env on_disk) \<noteq> blake3_hex (br_blake3 blob)
                          then (Inr (Inl (WorkerFault wk_verification), without_partial), s2)
                          else if fe_unrenamed env then (Inr (Inl (WorkerFault wk_io), without_partial), s2)
                          else (Inr (Inr (), map_assign destination on_disk without_partial), s2))))"

subsection \<open>Runtimes, model bundles, release\<close>

definition runtime_present :: "'p peer \<Rightarrow> digest \<Rightarrow> ('p, bool) session_call" where
  "runtime_present peer runtime_id =
     then_do (session_ask peer (make_runtime_query_frame runtime_id) msg_runtime_have runtime_answer_from_frame) (\<lambda>answer.
       give (if ra_runtime_id answer \<noteq> runtime_id then Inl (WorkerFault wk_protocol) else Inr (ra_present answer)))"

record coordinator_runtime =
  cr_runtime_id :: digest
  cr_files :: "blob_source list"
  cr_manifest_bytes :: "byte list"
  cr_components_bytes :: "byte list option"

definition send_bytes :: "json_codec \<Rightarrow> 'p peer \<Rightarrow> byte list \<Rightarrow> ('p, blob_ref) session_call" where
  "send_bytes codec peer data =
     (let ref = blob_ref_for codec data
      in then_do (ask_blobs peer [ref]) (\<lambda>missing.
         if missing = [] then give (Inr ref)
         else then_do (give (as_session_fault (make_blob_chunk_frame \<lparr>bc_blob = ref, bc_offset = 0\<rparr> data))) (\<lambda>f.
              then_do (session_write peer f) (\<lambda>_.
              then_do (update_stats (\<lambda>stats. stats\<lparr>xs_blobs_sent := xs_blobs_sent stats + 1,
                         xs_bytes_sent := xs_bytes_sent stats + of_nat (length data)\<rparr>)) (\<lambda>_.
                give (Inr ref))))))"

definition ensure_runtime ::
  "json_codec \<Rightarrow> 'p peer \<Rightarrow> (string \<Rightarrow> byte list option) \<Rightarrow> frame_limits \<Rightarrow> coordinator_runtime \<Rightarrow> ('p, unit) session_call" where
  "ensure_runtime codec peer files limits runtime =
     then_do (runtime_present peer (cr_runtime_id runtime)) (\<lambda>present.
       if present then give (Inr ())
       else then_do (send_blobs peer files limits (cr_files runtime)) (\<lambda>_.
            then_do (send_bytes codec peer (cr_manifest_bytes runtime)) (\<lambda>manifest.
            then_do (case cr_components_bytes runtime of
                       None \<Rightarrow> give (Inr None)
                     | Some data \<Rightarrow> then_do (send_bytes codec peer data) (\<lambda>ref. give (Inr (Some ref)))) (\<lambda>components.
            then_do (session_write peer (make_runtime_put_frame
                       \<lparr>rp_runtime_id = cr_runtime_id runtime, rp_manifest = manifest, rp_components = components\<rparr>)) (\<lambda>_.
            then_do (runtime_present peer (cr_runtime_id runtime)) (\<lambda>installed.
              if \<not> installed then give (Inl (WorkerFault wk_verification))
              else update_stats (\<lambda>stats. stats\<lparr>xs_runtime_pushed := True\<rparr>)))))))"

definition missing_model_bundles :: "'p peer \<Rightarrow> digest list \<Rightarrow> ('p, digest list) session_call" where
  "missing_model_bundles peer bundles =
     session_ask peer (make_model_bundle_query_frame bundles) msg_blob_have model_bundle_answer_from_frame"

record model_bundle_source =
  ms_bundle_id :: string
  ms_bundle_blake3 :: digest
  ms_lock :: json
  ms_manifest :: blob_source
  ms_files :: "blob_source list"

fun push_bundles ::
  "'p peer \<Rightarrow> (string \<Rightarrow> byte list option) \<Rightarrow> frame_limits \<Rightarrow> digest list \<Rightarrow> model_bundle_source list \<Rightarrow> ('p, unit) session_call" where
  "push_bundles peer files limits missing [] = give (Inr ())"
| "push_bundles peer files limits missing (bundle # bundles) =
     (if ms_bundle_blake3 bundle \<notin> set missing then push_bundles peer files limits missing bundles
      else then_do (send_blobs peer files limits (ms_files bundle @ [ms_manifest bundle])) (\<lambda>_.
           then_do (session_write peer (make_model_bundle_put_frame (ms_lock bundle) (bs_ref (ms_manifest bundle)))) (\<lambda>_.
           then_do (missing_model_bundles peer [ms_bundle_blake3 bundle]) (\<lambda>left.
             if left \<noteq> [] then give (Inl (WorkerFault wk_verification))
             else then_do (update_stats (\<lambda>stats. stats\<lparr>xs_bundles_pushed := xs_bundles_pushed stats @ [ms_bundle_id bundle]\<rparr>))
               (\<lambda>_. push_bundles peer files limits missing bundles)))))"

definition ensure_model_bundles ::
  "'p peer \<Rightarrow> (string \<Rightarrow> byte list option) \<Rightarrow> frame_limits \<Rightarrow> model_bundle_source list \<Rightarrow> ('p, unit) session_call" where
  "ensure_model_bundles peer files limits bundles =
     then_do (missing_model_bundles peer (List.map ms_bundle_blake3 bundles)) (\<lambda>missing.
       push_bundles peer files limits missing bundles)"

definition release_blobs :: "'p peer \<Rightarrow> blob_ref list \<Rightarrow> ('p, unit) session_call" where
  "release_blobs peer blobs = session_write peer (make_blob_release_frame blobs)"

end
