(* ===== verification/BlobFacts.thy ===== *)
theory BlobFacts
  imports BlobClient CacheRuns FrameFacts
begin

text \<open>
  What the transfer of blobs rests on: every frame reads back, a chunk that is in turn extends the partial
  file, and the whole of a blob's chunks leaves it in the worker's store.
\<close>

subsection \<open>Frames\<close>

lemma transfer_objects [json_objects]:
  "json_object [(''runtime_id'', a)] = JObject [(''runtime_id'', a)]"
  "json_object [(''present'', a), (''runtime_id'', b)] = JObject [(''present'', a), (''runtime_id'', b)]"
  "json_object [(''manifest'', a), (''runtime_id'', b)] = JObject [(''manifest'', a), (''runtime_id'', b)]"
  "json_object [(''blobs'', a), (''kind'', b)] = JObject [(''blobs'', a), (''kind'', b)]"
  "json_object [(''kind'', a), (''model_bundles'', b)] = JObject [(''kind'', a), (''model_bundles'', b)]"
  "json_object [(''kind'', a), (''missing'', b)] = JObject [(''kind'', a), (''missing'', b)]"
  "json_object [(''blake3'', a), (''bytes'', b), (''kind'', c), (''offset'', d)]
    = JObject [(''blake3'', a), (''bytes'', b), (''kind'', c), (''offset'', d)]"
  "json_object [(''kind'', a), (''lock'', b), (''manifest'', c)] = JObject [(''kind'', a), (''lock'', b), (''manifest'', c)]"
  "json_object [(''blob'', a)] = JObject [(''blob'', a)]"
  "json_object [(''blobs'', a)] = JObject [(''blobs'', a)]"
  by (rule json_object_sorted, simp add: map_wf_def)+

abbreviation ref_ok :: "blob_ref \<Rightarrow> bool" where
  "ref_ok blob \<equiv> is_digest (br_blake3 blob)"

lemma blob_ref_reads: "ref_ok blob \<Longrightarrow> blob_ref_from_json (blob_ref_to_json blob) = Inr blob"
  by (cases blob) (simp add: blob_ref_from_json_def blob_ref_to_json_def field_readers reject_unknown_fields_def json_objects)

lemma blob_refs_read:
  "list_all ref_ok blobs \<Longrightarrow> each_or_error blob_ref_from_json (List.map blob_ref_to_json blobs) = Inr blobs"
  by (rule each_or_error_inverse) (simp add: blob_ref_reads list_all_iff)

lemma digests_read:
  "list_all is_digest ds \<Longrightarrow>
   each_or_error (digest_item False) (List.map (\<lambda>d. JString (blake3_hex d)) ds) = Inr ds"
  by (rule each_or_error_inverse) (simp add: digest_item_def list_all_iff)

lemmas frame_forms =
  plain_frame_def plain_body_def only_fields_def require_frame_def answer_body_def field_readers
  reject_unknown_fields_def json_objects guard_error_def blob_refs_to_json_def blob_refs_from_json_def
  digests_to_json_def required_digest_array_def

lemma blob_query_reads:
  "list_all ref_ok blobs \<Longrightarrow> blob_have_query_from_frame (make_blob_query_frame blobs) = Inr (BlobQuery blobs)"
  by (simp add: blob_have_query_from_frame_def make_blob_query_frame_def frame_forms blob_refs_read)

lemma blob_answer_reads:
  "list_all ref_ok blobs \<Longrightarrow> blob_answer_from_frame (make_blob_answer_frame blobs) = Inr blobs"
  by (simp add: blob_answer_from_frame_def make_blob_answer_frame_def frame_forms blob_refs_read)

lemma bundle_frames_read:
  "list_all is_digest ds \<Longrightarrow> blob_have_query_from_frame (make_model_bundle_query_frame ds) = Inr (ModelBundleQuery ds)"
  "list_all is_digest ds \<Longrightarrow> model_bundle_answer_from_frame (make_model_bundle_answer_frame ds) = Inr ds"
  by (simp_all add: blob_have_query_from_frame_def make_model_bundle_query_frame_def
      model_bundle_answer_from_frame_def make_model_bundle_answer_frame_def frame_forms digests_read)

lemma chunk_frame_reads:
  assumes "make_blob_chunk_frame chunk bytes = Inr f" "ref_ok (bc_blob chunk)"
  shows "blob_put_from_frame f = Inr (PutChunk chunk)" "fr_type f = msg_blob_put" "fr_payloads f = [bytes]"
    "bytes \<noteq> []" "unat (bc_offset chunk) + length bytes \<le> unat (br_bytes (bc_blob chunk))"
proof -
  obtain d n where blob: "bc_blob chunk = BlobRef d n" by (cases "bc_blob chunk")
  then have chunk: "\<lparr>bc_blob = BlobRef d n, bc_offset = bc_offset chunk\<rparr> = chunk" by simp
  have fits: "chunk_fits chunk (length bytes)"
    and f: "f = \<lparr>fr_type = msg_blob_put,
                fr_body = json_object [(''blake3'', JString (blake3_hex d)),
                  (''bytes'', JUnsigned n), (''kind'', JString ''chunk''),
                  (''offset'', JUnsigned (bc_offset chunk))],
                fr_payloads = [bytes]\<rparr>"
    using assms(1) by (auto simp: make_blob_chunk_frame_def blob split: if_splits)
  show "blob_put_from_frame f = Inr (PutChunk chunk)"
    using fits assms(2) by (simp add: blob_put_from_frame_def f frame_forms blob Let_def chunk)
  show "fr_type f = msg_blob_put" "fr_payloads f = [bytes]" by (simp_all add: f)
  show "bytes \<noteq> []" using fits by (auto simp: chunk_fits_def)
  have "bc_offset chunk \<le> n" using fits by (simp add: chunk_fits_def blob not_less)
  then have "unat (n - bc_offset chunk) = unat n - unat (bc_offset chunk)" by (simp add: unat_sub)
  moreover have "unat (bc_offset chunk) \<le> unat n" using \<open>bc_offset chunk \<le> n\<close> by (simp add: word_le_nat_alt)
  moreover have "length bytes \<le> unat (n - bc_offset chunk)" using fits by (simp add: chunk_fits_def blob not_less)
  ultimately show "unat (bc_offset chunk) + length bytes \<le> unat (br_bytes (bc_blob chunk))"
    by (simp add: blob)
qed

lemma other_frames_read:
  "is_digest d \<Longrightarrow> runtime_query_from_frame (make_runtime_query_frame d) = Inr d"
  "is_digest (ra_runtime_id answer) \<Longrightarrow> runtime_answer_from_frame (make_runtime_answer_frame answer) = Inr answer"
  "ref_ok blob \<Longrightarrow> blob_get_from_frame (make_blob_get_frame blob) = Inr blob"
  "list_all ref_ok blobs \<Longrightarrow> blob_release_from_frame (make_blob_release_frame blobs) = Inr blobs"
  "is_object lock \<Longrightarrow> ref_ok blob \<Longrightarrow>
     blob_put_from_frame (make_model_bundle_put_frame lock blob) = Inr (PutModelBundle lock blob)"
  by (simp_all add: runtime_query_from_frame_def make_runtime_query_frame_def runtime_answer_from_frame_def
      make_runtime_answer_frame_def blob_get_from_frame_def make_blob_get_frame_def blob_release_from_frame_def
      make_blob_release_frame_def blob_put_from_frame_def make_model_bundle_put_frame_def frame_forms
      blob_ref_reads blob_refs_read)

lemma runtime_put_reads:
  assumes "is_digest (rp_runtime_id put)" "ref_ok (rp_manifest put)" "\<And>blob. rp_components put = Some blob \<Longrightarrow> ref_ok blob"
  shows "runtime_put_from_frame (make_runtime_put_frame put) = Inr put"
  using assms
  by (cases put; cases "rp_components put")
    (simp_all add: runtime_put_from_frame_def make_runtime_put_frame_def frame_forms json_assign_def
      map_modify_def blob_ref_reads)

subsection \<open>A blob's chunks\<close>

text \<open>The chunks of a content that has the blob's length are written without an exception.\<close>

lemma min_word_unat: "unat (min a b) = min (unat a) (unat (b :: u64))"
  by (simp add: min_def word_le_nat_alt)

lemma chunk_frames_step:
  assumes "length content = unat (br_bytes blob)" "0 < limit" "offset < br_bytes blob"
  defines "step \<equiv> min limit (br_bytes blob - offset)"
  obtains f rest where "make_blob_chunk_frame \<lparr>bc_blob = blob, bc_offset = offset\<rparr>
      (take (unat step) (drop (unat offset) content)) = Inr f"
    "chunk_frames limit blob content offset = (fst (chunk_frames limit blob content (offset + step)),
       f # snd (chunk_frames limit blob content (offset + step)))"
    "unat (offset + step) = unat offset + unat step" "0 < unat step" "unat offset + unat step \<le> length content"
    "length (take (unat step) (drop (unat offset) content)) = unat step"
proof -
  let ?chunk = "take (unat step) (drop (unat offset) content)"
  have off: "unat offset < unat (br_bytes blob)" using assms(3) by (simp add: word_less_nat_alt)
  have diff: "unat (br_bytes blob - offset) = unat (br_bytes blob) - unat offset"
    using assms(3) by (simp add: unat_sub)
  have step: "unat step = min (unat limit) (unat (br_bytes blob) - unat offset)"
    by (simp add: step_def min_word_unat diff)
  have pos: "0 < unat step" using assms(2) off step by (simp add: word_less_nat_alt)
  have le: "unat offset + unat step \<le> length content" using step off assms(1) by simp
  then have len: "length ?chunk = unat step" by simp
  have "unat offset + unat step < 2 ^ LENGTH(64)"
    using le assms(1) u64_unat_less[of "br_bytes blob"] by simp
  then have add: "unat (offset + step) = unat offset + unat step" using unat_add_lem[of offset step] by blast
  have "chunk_fits \<lparr>bc_blob = blob, bc_offset = offset\<rparr> (length ?chunk)"
    using pos len step diff assms(3) by (simp add: chunk_fits_def not_less)
  then obtain f where f: "make_blob_chunk_frame \<lparr>bc_blob = blob, bc_offset = offset\<rparr> ?chunk = Inr f"
    by (simp add: make_blob_chunk_frame_def)
  have "chunk_frames limit blob content offset = (fst (chunk_frames limit blob content (offset + step)),
       f # snd (chunk_frames limit blob content (offset + step)))"
    using f len assms(3) by (subst chunk_frames.simps) (simp add: Let_def case_prod_unfold flip: step_def)
  then show thesis using that f add pos le len by blast
qed

lemma chunk_frames_end: "\<not> offset < br_bytes blob \<Longrightarrow> chunk_frames limit blob content offset = (None, [])"
  by (subst chunk_frames.simps) simp

text \<open>What the receiver has of a blob.\<close>

definition received :: "blob_receiver \<Rightarrow> blob_ref \<Rightarrow> u64" where
  "received r blob = (case map_of (re_partial r) blob of None \<Rightarrow> 0 | Some n \<Rightarrow> n)"

definition held_bytes :: "blob_receiver \<Rightarrow> blob_ref \<Rightarrow> byte list" where
  "held_bytes r blob = (if received r blob = 0 then []
     else case map_of (re_files r) (partial_name blob) of None \<Rightarrow> [] | Some held \<Rightarrow> held)"

definition receiver_ok :: "blob_receiver \<Rightarrow> bool" where
  "receiver_ok r \<longleftrightarrow> map_wf (re_files r) \<and> map_wf (re_partial r)"

text \<open>A disk on which nothing fails.\<close>

definition stores_blobs :: "json_codec \<Rightarrow> transfer_env \<Rightarrow> bool" where
  "stores_blobs codec env \<longleftrightarrow> te_short_write env = None \<and> je_codec (ce_disk (te_cache env)) = codec
     \<and> je_unreadable (ce_disk (te_cache env)) = (\<lambda>_. False) \<and> ce_unstatable (te_cache env) = (\<lambda>_. False)
     \<and> je_read_back (ce_disk (te_cache env)) = (\<lambda>_. Some) \<and> je_publish (ce_disk (te_cache env)) = (\<lambda>_. PublishDone)"

text \<open>Something is there under the digest's name, whether or not it hashes to it.\<close>

definition present :: "cas \<Rightarrow> digest \<Rightarrow> bool" where
  "present s d \<longleftrightarrow> Option.bind (map_of (cs_blobs s) (blake3_hex d)) bytes_read \<noteq> None"

lemma cas_has_present: "stores_blobs codec env \<Longrightarrow> cas_has (te_cache env) d s = present s d"
  by (simp add: cas_has_def regular_content_def present_def stores_blobs_def)

lemma holds_present: "holds codec s d \<Longrightarrow> present s d"
  by (auto simp: holds_def present_def)

lemma cas_publish_present:
  assumes "present s d" "map_wf (cs_blobs s)"
  shows "present (snd (cas_publish env staged s)) d"
proof -
  have "cs_blobs (snd (cas_publish env staged s)) \<in>
    {cs_blobs s, map_assign (blake3_hex (sb_digest staged)) (RegularFile (sb_content staged)) (cs_blobs s)}"
    by (simp add: cas_publish_def Let_def touch_def split: publish_outcome.splits)
  then show ?thesis using assms by (auto simp: present_def)
qed

lemma complete_blob_stores:
  assumes "stores_blobs codec env" "map_of (re_files r) (partial_name blob) = Some content"
    "jc_blake3 codec content = br_blake3 blob" "map_wf (cs_blobs s)"
  obtains s' where "complete_blob env blob content r s =
      (Inr (), r\<lparr>re_files := map_erase (partial_name blob) (re_files r), re_partial := map_erase blob (re_partial r),
                 re_completed := re_completed r + 1\<rparr>, s')"
    "holds codec s' (br_blake3 blob)" "keeps_blobs codec {} s s'" "\<And>d. present s d \<Longrightarrow> present s' d"
proof -
  let ?env = "reads_file (te_cache env) (re_files r)" and ?name = "partial_name blob"
  have codec: "je_codec (ce_disk ?env) = codec" using assms(1) by (simp add: reads_file_def stores_blobs_def)
  have "je_source_file (ce_disk ?env) ?name = Some content"
    using assms(1,2) by (simp add: reads_file_def stores_blobs_def)
  moreover obtain staged where staged: "stage_blob (ce_disk ?env) 0 content None = Staged staged"
    using assms(1) by (simp add: stage_blob_def reads_file_def stores_blobs_def Let_def)
  ultimately have put: "cas_put_file ?env ?name s = cas_publish ?env staged s"
    by (simp add: cas_put_file_def publish_staged_def)
  have d: "sb_digest staged = ce_blake3 ?env (sb_content staged)" "sb_digest staged = br_blake3 blob"
    using stage_blob_Staged[OF staged] codec assms(3) by metis+
  have ok: "fst (cas_publish ?env staged s) = Inr (br_blake3 blob)"
    using assms(1) d(2) by (simp add: cas_publish_def Let_def reads_file_def stores_blobs_def)
  have keeps: "keeps_blobs codec {} s (snd (cas_publish ?env staged s))" using cas_publish_keeps(1)[OF d(1)] codec by simp
  have stored: "holds codec (snd (cas_publish ?env staged s)) (br_blake3 blob)"
    using cas_publish_keeps(2)[OF d(1) ok assms(4)] unfolding codec by blast
  have done_: "complete_blob env blob content r s =
      (Inr (), r\<lparr>re_files := map_erase ?name (re_files r), re_partial := map_erase blob (re_partial r),
                 re_completed := re_completed r + 1\<rparr>, snd (cas_publish ?env staged s))"
    using assms(1,3) put ok by (cases "cas_publish ?env staged s") (simp add: complete_blob_def stores_blobs_def Let_def)
  show thesis by (rule that[OF done_ stored keeps]) (rule cas_publish_present[OF _ assms(4)])
qed

text \<open>A chunk in turn: the receiver has the blob's bytes so far, and after the last one the store has the blob.\<close>

lemma put_chunk_in_turn:
  assumes good: "stores_blobs codec env" and r: "receiver_ok r" and s: "map_wf (cs_blobs s)"
    and content: "length content = unat (br_bytes blob)" "jc_blake3 codec content = br_blake3 blob"
    and have_: "received r blob = offset" "held_bytes r blob = take (unat offset) content"
    and n: "0 < n" "unat offset + n \<le> length content"
  obtains r' s' where "put_chunk env \<lparr>bc_blob = blob, bc_offset = offset\<rparr> (take n (drop (unat offset) content)) r s = (Inr (), r', s')"
    "receiver_ok r'" "keeps_blobs codec {} s s'" "\<And>d. present s d \<Longrightarrow> present s' d"
    "\<And>b. b \<noteq> blob \<Longrightarrow> received r' b = received r b"
    "unat offset + n < length content \<Longrightarrow>
       received r' blob = offset + of_nat n \<and> held_bytes r' blob = take (unat offset + n) content"
    "unat offset + n = length content \<Longrightarrow> received r' blob = 0 \<and> holds codec s' (br_blake3 blob)"
proof -
  let ?bytes = "take n (drop (unat offset) content)" and ?name = "partial_name blob" and ?now = "offset + of_nat n"
  let ?r1 = "r\<lparr>re_files := map_assign ?name (held_bytes r blob @ ?bytes) (re_files r)\<rparr>"
  have len: "length ?bytes = n" using n by simp
  have so_far: "held_bytes r blob @ ?bytes = take (unat offset + n) content"
    unfolding have_ by (simp add: take_add)
  have small: "unat offset + n < 2 ^ 64" using n(2) content(1) u64_unat_less[of "br_bytes blob"] by simp
  then have "unat (of_nat n :: u64) = n" by (intro unat_of_nat_u64) simp
  then have now: "unat ?now = unat offset + n" using small unat_add_lem[of offset "of_nat n"] by simp
  have put: "put_chunk env \<lparr>bc_blob = blob, bc_offset = offset\<rparr> ?bytes r s =
      (if ?now < br_bytes blob then (Inr (), ?r1\<lparr>re_partial := map_assign blob ?now (re_partial r)\<rparr>, s)
       else complete_blob env blob (held_bytes r blob @ ?bytes) ?r1 s)"
    using good have_(1) len unfolding put_chunk_def Let_def received_def[symmetric] held_bytes_def[symmetric]
    by (simp add: stores_blobs_def held_bytes_def)
  have wf: "map_wf (re_files r)" "map_wf (re_partial r)" using r by (simp_all add: receiver_ok_def)
  show thesis
  proof (cases "unat offset + n < length content")
    case True
    then have less: "?now < br_bytes blob" using now content(1) by (simp add: word_less_nat_alt)
    have "?now \<noteq> 0"
    proof
      assume "?now = 0"
      then have "unat ?now = 0" by simp
      then show False using now n(1) by simp
    qed
    then show thesis using that[OF put[unfolded if_P[OF less]]] wf True so_far
      by (simp add: receiver_ok_def received_def held_bytes_def)
  next
    case False
    then have whole: "unat offset + n = length content" using n(2) by simp
    then have more: "\<not> ?now < br_bytes blob" using now content(1) by (simp add: word_less_nat_alt)
    have all: "held_bytes r blob @ ?bytes = content" using so_far whole by simp
    have stored: "map_of (re_files ?r1) ?name = Some content" using wf all by simp
    obtain s' where s': "complete_blob env blob content ?r1 s =
        (Inr (), ?r1\<lparr>re_files := map_erase ?name (re_files ?r1), re_partial := map_erase blob (re_partial ?r1),
                 re_completed := re_completed ?r1 + 1\<rparr>, s')"
      "holds codec s' (br_blake3 blob)" "keeps_blobs codec {} s s'" "\<And>d. present s d \<Longrightarrow> present s' d"
      using complete_blob_stores[OF good stored content(2) s] by blast
    then show thesis using that[OF put[unfolded if_not_P[OF more] all, unfolded s'(1)[unfolded all]]] wf whole
      by (simp add: receiver_ok_def received_def)
  qed
qed

end
