(* ===== verification/BlobRuns.thy ===== *)
theory BlobRuns
  imports BlobFacts
begin

text \<open>
  A coordinator and a worker over a whole transfer: the chunks of a blob arrive, what was sent is there at the
  second query, and a blob that is fetched is the worker's.
\<close>

subsection \<open>The peer\<close>

definition agent_receiver :: "agent_peer \<Rightarrow> blob_receiver" where
  "agent_receiver p = (case at_receiver (ap_agent p) of None \<Rightarrow> new_receiver | Some r \<Rightarrow> r)"

abbreviation peer_cas :: "agent_peer \<Rightarrow> cas" where
  "peer_cas p \<equiv> at_cas (ap_agent p)"

text \<open>A peer that goes on: what it holds it still holds, and so far as it knows of other blobs nothing changed.\<close>

definition peer_ok :: "agent_peer \<Rightarrow> bool" where
  "peer_ok p \<longleftrightarrow> \<not> ap_ended p \<and> receiver_ok (agent_receiver p) \<and> cas_ok (peer_cas p)"

definition moved :: "json_codec \<Rightarrow> blob_ref set \<Rightarrow> agent_peer \<Rightarrow> agent_peer \<Rightarrow> bool" where
  "moved codec blobs p p' \<longleftrightarrow> peer_ok p' \<and> (\<forall>d. holds codec (peer_cas p) d \<longrightarrow> holds codec (peer_cas p') d)
     \<and> (\<forall>d. present (peer_cas p) d \<longrightarrow> present (peer_cas p') d)
     \<and> (\<forall>b. b \<notin> blobs \<longrightarrow> received (agent_receiver p') b = received (agent_receiver p) b)"

lemma moved_refl: "peer_ok p \<Longrightarrow> moved codec B p p"
  by (simp add: moved_def)

lemma moved_trans: "moved codec B p p' \<Longrightarrow> moved codec C p' p'' \<Longrightarrow> moved codec (B \<union> C) p p''"
  by (simp add: moved_def)

lemma moved_ok: "moved codec B p p' \<Longrightarrow> peer_ok p'"
  by (simp add: moved_def)

subsection \<open>Chunks\<close>

lemma write_chunk:
  assumes good: "stores_blobs codec (envs (ap_frames (tf_peer s)))" and p: "peer_ok (tf_peer s)" and ref: "ref_ok blob"
    and content: "length content = unat (br_bytes blob)" "jc_blake3 codec content = br_blake3 blob"
    and so_far: "received (agent_receiver (tf_peer s)) blob = offset"
      "held_bytes (agent_receiver (tf_peer s)) blob = take (unat offset) content"
    and n: "0 < n" "unat offset + n \<le> length content"
    and f: "make_blob_chunk_frame \<lparr>bc_blob = blob, bc_offset = offset\<rparr> (take n (drop (unat offset) content)) = Inr f"
  obtains p' where "session_write (agent_answer rest envs climit) f s = (Inr (), s\<lparr>tf_peer := p'\<rparr>)"
    "moved codec {blob} (tf_peer s) p'"
    "unat offset + n < length content \<Longrightarrow> received (agent_receiver p') blob = offset + of_nat n
       \<and> held_bytes (agent_receiver p') blob = take (unat offset + n) content"
    "unat offset + n = length content \<Longrightarrow> received (agent_receiver p') blob = 0 \<and> holds codec (peer_cas p') (br_blake3 blob)"
proof -
  let ?p = "tf_peer s" and ?chunk = "\<lparr>bc_blob = blob, bc_offset = offset\<rparr>"
  have ok: "\<not> ap_ended ?p" "receiver_ok (agent_receiver ?p)" "cas_ok (peer_cas ?p)" using p by (simp_all add: peer_ok_def)
  then have wf: "map_wf (cs_blobs (peer_cas ?p))" by (simp add: cas_ok_def)
  have frame: "blob_put_from_frame f = Inr (PutChunk ?chunk)" "fr_type f = msg_blob_put"
    "fr_payloads f = [take n (drop (unat offset) content)]"
    using chunk_frame_reads[OF f] ref by simp_all
  obtain r' c' where put: "put_chunk (envs (ap_frames ?p)) ?chunk (take n (drop (unat offset) content)) (agent_receiver ?p) (peer_cas ?p)
      = (Inr (), r', c')" and r': "receiver_ok r'" and keeps: "keeps_blobs codec {} (peer_cas ?p) c'"
    and there: "\<And>d. present (peer_cas ?p) d \<Longrightarrow> present c' d"
    and others: "\<And>b. b \<noteq> blob \<Longrightarrow> received r' b = received (agent_receiver ?p) b"
    and more: "unat offset + n < length content \<Longrightarrow> received r' blob = offset + of_nat n \<and> held_bytes r' blob = take (unat offset + n) content"
    and whole: "unat offset + n = length content \<Longrightarrow> received r' blob = 0 \<and> holds codec c' (br_blake3 blob)"
    using put_chunk_in_turn[OF good ok(2) wf content so_far n] by blast
  let ?p' = "?p\<lparr>ap_agent := (ap_agent ?p)\<lparr>at_receiver := Some r', at_cas := c'\<rparr>, ap_frames := ap_frames ?p + 1\<rparr>"
  have sent: "session_write (agent_answer rest envs climit) f s = (Inr (), s\<lparr>tf_peer := ?p'\<rparr>)"
    using ok(1) frame put
    by (simp add: session_write_def agent_answer_def agent_handle_def agent_put_chunk_def agent_receiver_def[symmetric])
  have r: "agent_receiver ?p' = r'" by (simp add: agent_receiver_def)
  have "cas_ok c'" by (rule keeps_blobs_ok[OF keeps ok(3)])
  moreover have "holds codec (peer_cas ?p) d \<Longrightarrow> holds codec c' d" for d
    using keeps ok(3) by (simp add: keeps_blobs_def cas_ok_def)
  ultimately have "moved codec {blob} ?p ?p'" using ok(1) r' others there unfolding moved_def peer_ok_def r by simp
  then show thesis using that[OF sent] more whole unfolding r by simp
qed

text \<open>All the chunks of a blob, from where the receiver is.\<close>

lemma chunks_arrive:
  assumes good: "\<And>i. stores_blobs codec (envs i)" and ref: "ref_ok blob"
    and content: "length content = unat (br_bytes blob)" "jc_blake3 codec content = br_blake3 blob" and limit: "0 < limit"
  shows "peer_ok (tf_peer s) \<Longrightarrow> received (agent_receiver (tf_peer s)) blob = offset \<Longrightarrow>
    held_bytes (agent_receiver (tf_peer s)) blob = take (unat offset) content \<Longrightarrow> offset < br_bytes blob \<Longrightarrow>
    fst (chunk_frames limit blob content offset) = None
    \<and> (\<exists>p' stats. write_chunks (agent_answer rest envs climit) (snd (chunk_frames limit blob content offset)) s
           = (Inr (), s\<lparr>tf_peer := p', tf_stats := stats\<rparr>)
         \<and> moved codec {blob} (tf_peer s) p' \<and> received (agent_receiver p') blob = 0
         \<and> holds codec (peer_cas p') (br_blake3 blob))"
proof (induction "length content - unat offset" arbitrary: offset s rule: less_induct)
  case less
  let ?step = "min limit (br_bytes blob - offset)" and ?peer = "agent_answer rest envs climit"
  let ?tail = "chunk_frames limit blob content (offset + ?step)"
  obtain f where f: "make_blob_chunk_frame \<lparr>bc_blob = blob, bc_offset = offset\<rparr>
      (take (unat ?step) (drop (unat offset) content)) = Inr f"
    and frames: "chunk_frames limit blob content offset = (fst ?tail, f # snd ?tail)"
    and add: "unat (offset + ?step) = unat offset + unat ?step" and step: "0 < unat ?step" "unat offset + unat ?step \<le> length content"
    using chunk_frames_step[OF content(1) limit less.prems(4)] by metis
  obtain p' where p': "session_write ?peer f s = (Inr (), s\<lparr>tf_peer := p'\<rparr>)" "moved codec {blob} (tf_peer s) p'"
    and more: "unat offset + unat ?step < length content \<Longrightarrow> received (agent_receiver p') blob = offset + of_nat (unat ?step)
       \<and> held_bytes (agent_receiver p') blob = take (unat offset + unat ?step) content"
    and whole: "unat offset + unat ?step = length content \<Longrightarrow> received (agent_receiver p') blob = 0 \<and> holds codec (peer_cas p') (br_blake3 blob)"
    using write_chunk[where envs = envs, OF good less.prems(1) ref content less.prems(2,3) step f] by metis
  let ?s = "s\<lparr>tf_peer := p', tf_stats := (tf_stats s)\<lparr>xs_bytes_sent := xs_bytes_sent (tf_stats s)
     + of_nat (length (hd (fr_payloads f)))\<rparr>\<rparr>"
  have sent: "write_chunks ?peer (snd (chunk_frames limit blob content offset)) s = write_chunks ?peer (snd ?tail) ?s"
    unfolding frames by (simp add: then_do_def p'(1) update_stats_def)
  show ?case
  proof (cases "unat offset + unat ?step < length content")
    case True
    have "length content - unat (offset + ?step) < length content - unat offset" using add step True by simp
    moreover have "offset + ?step < br_bytes blob" using True content(1) add by (simp add: word_less_nat_alt)
    moreover have "received (agent_receiver p') blob = offset + ?step"
      "held_bytes (agent_receiver p') blob = take (unat (offset + ?step)) content"
      using more[OF True] add by simp_all
    ultimately have "fst ?tail = None \<and> (\<exists>p'' stats. write_chunks ?peer (snd ?tail) ?s = (Inr (), ?s\<lparr>tf_peer := p'', tf_stats := stats\<rparr>)
         \<and> moved codec {blob} p' p'' \<and> received (agent_receiver p'') blob = 0 \<and> holds codec (peer_cas p'') (br_blake3 blob))"
      using less.hyps[of "offset + ?step" ?s] moved_ok[OF p'(2)] by simp
    then show ?thesis using moved_trans[OF p'(2)] unfolding sent by (fastforce simp: frames)
  next
    case False
    then have all: "unat offset + unat ?step = length content" using step by simp
    then have "\<not> offset + ?step < br_bytes blob" using content(1) add by (simp add: word_less_nat_alt)
    then have tail: "?tail = (None, [])" by (rule chunk_frames_end)
    have "write_chunks ?peer (snd (chunk_frames limit blob content offset)) s = (Inr (), ?s)"
      unfolding sent tail by (simp add: give_def)
    then show ?thesis using frames tail p'(2) whole[OF all] by auto
  qed
qed


subsection \<open>Sending\<close>

text \<open>A source whose file is what its reference says, and is not empty.\<close>

definition source_ok :: "json_codec \<Rightarrow> (string \<Rightarrow> byte list option) \<Rightarrow> blob_source \<Rightarrow> bool" where
  "source_ok codec files blob \<longleftrightarrow> ref_ok (bs_ref blob) \<and> 0 < br_bytes (bs_ref blob)
     \<and> (\<exists>content. files (bs_file blob) = Some content \<and> length content = unat (br_bytes (bs_ref blob))
          \<and> jc_blake3 codec content = br_blake3 (bs_ref blob))"

lemma send_source_delivers:
  assumes good: "\<And>i. stores_blobs codec (envs i)" and src: "source_ok codec files blob" and limit: "0 < limit"
    and p: "peer_ok (tf_peer s)" "received (agent_receiver (tf_peer s)) (bs_ref blob) = 0"
  obtains p' stats where "send_source (agent_answer rest envs climit) files limit blob s
      = (Inr (), s\<lparr>tf_peer := p', tf_stats := stats\<rparr>)"
    "moved codec {bs_ref blob} (tf_peer s) p'" "received (agent_receiver p') (bs_ref blob) = 0"
    "holds codec (peer_cas p') (br_blake3 (bs_ref blob))"
proof -
  obtain content where content: "files (bs_file blob) = Some content" "length content = unat (br_bytes (bs_ref blob))"
    "jc_blake3 codec content = br_blake3 (bs_ref blob)" and ref: "ref_ok (bs_ref blob)" "0 < br_bytes (bs_ref blob)"
    using src by (auto simp: source_ok_def)
  have "held_bytes (agent_receiver (tf_peer s)) (bs_ref blob) = take (unat (0 :: u64)) content"
    using p(2) by (simp add: held_bytes_def)
  note arrive = chunks_arrive[where envs = envs and rest = rest and climit = climit, OF good ref(1) content(2,3) limit p(1,2) this ref(2)]
  then obtain p' stats where sent: "write_chunks (agent_answer rest envs climit) (snd (chunk_frames limit (bs_ref blob) content 0)) s
      = (Inr (), s\<lparr>tf_peer := p', tf_stats := stats\<rparr>)" and p': "moved codec {bs_ref blob} (tf_peer s) p'"
    "received (agent_receiver p') (bs_ref blob) = 0" "holds codec (peer_cas p') (br_blake3 (bs_ref blob))"
    by blast
  have "send_source (agent_answer rest envs climit) files limit blob s
      = (Inr (), s\<lparr>tf_peer := p', tf_stats := stats\<lparr>xs_blobs_sent := xs_blobs_sent stats + 1\<rparr>\<rparr>)"
    using arrive sent content(1)
    by (simp add: send_source_def case_prod_unfold then_do_def update_stats_def)
  then show thesis using that p' by blast
qed

lemma send_wanted_delivers:
  assumes good: "\<And>i. stores_blobs codec (envs i)" and limit: "0 < limit"
  shows "list_all (source_ok codec files) blobs \<Longrightarrow> peer_ok (tf_peer s) \<Longrightarrow>
    \<forall>blob \<in> set blobs. received (agent_receiver (tf_peer s)) (bs_ref blob) = 0 \<Longrightarrow>
    \<exists>p' stats. send_wanted (agent_answer rest envs climit) files limit wanted blobs s = (Inr (), s\<lparr>tf_peer := p', tf_stats := stats\<rparr>)
      \<and> moved codec (bs_ref ` set blobs) (tf_peer s) p'
      \<and> (\<forall>blob \<in> set blobs. bs_ref blob \<in> set wanted \<longrightarrow> holds codec (peer_cas p') (br_blake3 (bs_ref blob)))"
proof (induction blobs arbitrary: s)
  case Nil
  then show ?case using moved_refl[OF Nil(2)]
    by (intro exI[of _ "tf_peer s"] exI[of _ "tf_stats s"]) (simp add: give_def)
next
  case (Cons blob blobs)
  let ?peer = "agent_answer rest envs climit"
  show ?case
  proof (cases "bs_ref blob \<in> set wanted")
    case False
    then obtain p' stats where "send_wanted ?peer files limit wanted blobs s = (Inr (), s\<lparr>tf_peer := p', tf_stats := stats\<rparr>)"
      "moved codec (bs_ref ` set blobs) (tf_peer s) p'"
      "\<forall>blob \<in> set blobs. bs_ref blob \<in> set wanted \<longrightarrow> holds codec (peer_cas p') (br_blake3 (bs_ref blob))"
      using Cons.IH[of s] Cons.prems by auto
    then show ?thesis using False by (auto simp: moved_def)
  next
    case True
    have src: "source_ok codec files blob" and zero: "received (agent_receiver (tf_peer s)) (bs_ref blob) = 0"
      using Cons.prems by simp_all
    obtain p1 stats1 where first: "send_source ?peer files limit blob s = (Inr (), s\<lparr>tf_peer := p1, tf_stats := stats1\<rparr>)"
      and p1: "moved codec {bs_ref blob} (tf_peer s) p1" "received (agent_receiver p1) (bs_ref blob) = 0"
        "holds codec (peer_cas p1) (br_blake3 (bs_ref blob))"
      using send_source_delivers[where envs = envs and rest = rest and climit = climit, OF good src limit Cons.prems(2) zero] by blast
    let ?s = "s\<lparr>tf_peer := p1, tf_stats := stats1\<rparr>"
    have "received (agent_receiver p1) (bs_ref b) = 0" if "b \<in> set blobs" for b
      using that p1(1,2) Cons.prems(3) by (cases "bs_ref b = bs_ref blob") (simp_all add: moved_def)
    then obtain p' stats where rest: "send_wanted ?peer files limit wanted blobs ?s = (Inr (), ?s\<lparr>tf_peer := p', tf_stats := stats\<rparr>)"
      and p': "moved codec (bs_ref ` set blobs) p1 p'"
        "\<forall>blob \<in> set blobs. bs_ref blob \<in> set wanted \<longrightarrow> holds codec (peer_cas p') (br_blake3 (bs_ref blob))"
      using Cons.IH[of ?s] Cons.prems(1) moved_ok[OF p1(1)] by auto
    have "send_wanted ?peer files limit wanted (blob # blobs) s = (Inr (), s\<lparr>tf_peer := p', tf_stats := stats\<rparr>)"
      using True first rest by (simp add: then_do_def)
    moreover have "moved codec (bs_ref ` set (blob # blobs)) (tf_peer s) p'" using moved_trans[OF p1(1) p'(1)] by simp
    moreover have "holds codec (peer_cas p') (br_blake3 (bs_ref blob))" using p1(3) p'(1) by (simp add: moved_def)
    ultimately show ?thesis using p'(2) by auto
  qed
qed

subsection \<open>Declaring\<close>

lemma agent_pin_keeps:
  assumes "is_digest d" "cas_ok (at_cas a)"
  shows "cs_blobs (at_cas (agent_pin env d a)) = cs_blobs (at_cas a)" "cas_ok (at_cas (agent_pin env d a))"
    "at_receiver (agent_pin env d a) = at_receiver a"
proof -
  define a1 where "a1 = (if \<not> at_pins a \<and> \<not> at_pins_failed a then
                  (case cas_pin_set env (agent_holder a) (at_cas a) of
                     (Inl _, s) \<Rightarrow> a\<lparr>at_pins_failed := True, at_cas := s\<rparr>
                   | (Inr _, s) \<Rightarrow> a\<lparr>at_pins := True, at_cas := s\<rparr>)
                else a)"
  have a1: "cs_blobs (at_cas a1) = cs_blobs (at_cas a)" "cas_ok (at_cas a1)" "at_receiver a1 = at_receiver a"
    using assms(2) pin_set_step[OF assms(2), of env "agent_holder a"]
    by (cases "cas_pin_set env (agent_holder a) (at_cas a)"; auto simp: a1_def pin_step_def split: sum.splits)+
  have hold: "agent_hold env d a = (if at_pins a1 then a1\<lparr>at_cas := snd (pin_add env (agent_holder a1) d (at_cas a1))\<rparr> else a1)"
    unfolding agent_hold_def Let_def a1_def[symmetric] by (rule refl)
  have "cs_blobs (at_cas (agent_hold env d a)) = cs_blobs (at_cas a)" "cas_ok (at_cas (agent_hold env d a))"
    "at_receiver (agent_hold env d a) = at_receiver a"
    unfolding hold using a1 pin_add_step[OF a1(2) assms(1), of env "agent_holder a1"] by (auto simp: pin_step_def)
  then show "cs_blobs (at_cas (agent_pin env d a)) = cs_blobs (at_cas a)" "cas_ok (at_cas (agent_pin env d a))"
    "at_receiver (agent_pin env d a) = at_receiver a"
    by (simp_all add: agent_pin_def Let_def)
qed

lemma cas_has_blobs: "cs_blobs s' = cs_blobs s \<Longrightarrow> cas_has env d s' = cas_has env d s"
  by (simp add: cas_has_def regular_content_def)

lemma declare_blobs_missing:
  "list_all ref_ok blobs \<Longrightarrow> cas_ok (at_cas a) \<Longrightarrow>
   fst (declare_blobs env blobs a) = filter (\<lambda>b. \<not> cas_has env (br_blake3 b) (at_cas a)) blobs
   \<and> cs_blobs (at_cas (snd (declare_blobs env blobs a))) = cs_blobs (at_cas a)
   \<and> cas_ok (at_cas (snd (declare_blobs env blobs a)))
   \<and> at_receiver (snd (declare_blobs env blobs a)) = at_receiver a"
proof (induction blobs arbitrary: a)
  case (Cons blob blobs)
  let ?a1 = "agent_pin env (br_blake3 blob) a"
  have ref: "ref_ok blob" "list_all ref_ok blobs" using Cons.prems(1) by simp_all
  note pin = agent_pin_keeps[OF ref(1) Cons.prems(2), of env]
  let ?a2 = "?a1\<lparr>at_cas := cas_refresh env (br_blake3 blob) (at_cas ?a1)\<rparr>"
  have same: "cas_has env d (at_cas ?a1) = cas_has env d (at_cas a)" for d by (rule cas_has_blobs[OF pin(1)])
  have refresh: "cs_blobs (at_cas ?a2) = cs_blobs (at_cas a)" "cas_ok (at_cas ?a2)" "at_receiver ?a2 = at_receiver a"
    using pin keeps_blobs_ok[OF touch_keeps pin(2)] by (simp_all add: cas_refresh_def touch_def)
  have same2: "cas_has env d (at_cas ?a2) = cas_has env d (at_cas a)" for d by (rule cas_has_blobs[OF refresh(1)])
  show ?case
  proof (cases "cas_has env (br_blake3 blob) (at_cas a)")
    case True
    have "declare_blobs env (blob # blobs) a = declare_blobs env blobs ?a2" using True same by (simp add: Let_def)
    then show ?thesis using Cons.IH[OF ref(2) refresh(2)] refresh True same2 by simp
  next
    case False
    have "declare_blobs env (blob # blobs) a = (blob # fst (declare_blobs env blobs ?a1), snd (declare_blobs env blobs ?a1))"
      using False same by (simp add: Let_def case_prod_unfold)
    then show ?thesis using Cons.IH[OF ref(2) pin(2)] pin False same by simp
  qed
qed simp

text \<open>A query is answered with what is missing, in its order.\<close>

lemma ask_blobs_missing:
  assumes "list_all ref_ok blobs" "peer_ok (tf_peer s)" "tf_inbox s = []"
  obtains p' where "ask_blobs (agent_answer rest envs climit) blobs s
      = (Inr (filter (\<lambda>b. \<not> cas_has (te_cache (envs (ap_frames (tf_peer s)))) (br_blake3 b) (peer_cas (tf_peer s))) blobs),
         s\<lparr>tf_peer := p'\<rparr>)"
    "moved codec {} (tf_peer s) p'" "cs_blobs (peer_cas p') = cs_blobs (peer_cas (tf_peer s))"
proof -
  let ?p = "tf_peer s" and ?env = "te_cache (envs (ap_frames (tf_peer s)))"
  let ?missing = "filter (\<lambda>b. \<not> cas_has ?env (br_blake3 b) (peer_cas ?p)) blobs"
  let ?a = "snd (declare_blobs ?env blobs (ap_agent ?p))"
  let ?p' = "?p\<lparr>ap_agent := ?a, ap_frames := ap_frames ?p + 1\<rparr>"
  have ok: "\<not> ap_ended ?p" "receiver_ok (agent_receiver ?p)" "cas_ok (peer_cas ?p)" using assms(2) by (simp_all add: peer_ok_def)
  note declared = declare_blobs_missing[OF assms(1) ok(3), of ?env]
  then have missing: "fst (declare_blobs ?env blobs (ap_agent ?p)) = ?missing" by blast
  have refs: "list_all ref_ok ?missing" using assms(1) by (simp add: list_all_iff)
  have types: "fr_type (make_blob_query_frame blobs) = msg_blob_have" "fr_type (make_blob_answer_frame ?missing) = msg_blob_have"
    by (simp_all add: make_blob_query_frame_def make_blob_answer_frame_def plain_frame_def)
  have "agent_answer rest envs climit (make_blob_query_frame blobs) ?p = ([Inr (make_blob_answer_frame ?missing)], ?p')"
    using ok(1) types(1) missing
    by (simp add: agent_answer_def agent_handle_def blob_query_reads[OF assms(1)] case_prod_unfold)
  then have "ask_blobs (agent_answer rest envs climit) blobs s = (Inr ?missing, s\<lparr>tf_peer := ?p'\<rparr>)"
    using assms(3) types blob_answer_reads[OF refs]
    by (simp add: ask_blobs_def session_ask_def then_do_def session_write_def session_expect_def give_def as_session_fault_def)
  moreover have "moved codec {} ?p ?p'"
  proof -
    have "agent_receiver ?p' = agent_receiver ?p" using declared by (simp add: agent_receiver_def)
    moreover have "holds codec (peer_cas ?p') = holds codec (peer_cas ?p)" using declared by (intro holds_same) simp
    moreover have "present (peer_cas ?p') = present (peer_cas ?p)" using declared by (simp add: present_def fun_eq_iff)
    ultimately show ?thesis using ok declared by (simp add: moved_def peer_ok_def)
  qed
  ultimately show thesis using that declared by simp
qed


lemma ask_blobs_present:
  assumes good: "\<And>i. stores_blobs codec (envs i)" and "list_all ref_ok blobs" "peer_ok (tf_peer s)" "tf_inbox s = []"
  obtains p' where "ask_blobs (agent_answer rest envs climit) blobs s
      = (Inr (filter (\<lambda>b. \<not> present (peer_cas (tf_peer s)) (br_blake3 b)) blobs), s\<lparr>tf_peer := p'\<rparr>)"
    "moved codec {} (tf_peer s) p'" "cs_blobs (peer_cas p') = cs_blobs (peer_cas (tf_peer s))"
proof -
  have same: "cas_has (te_cache (envs i)) d c = present c d" for i d c by (rule cas_has_present[OF good])
  show thesis
    using ask_blobs_missing[where envs = envs and rest = rest and climit = climit and codec = codec, OF assms(2-4)] that
    unfolding same by blast
qed

subsection \<open>A transfer\<close>

lemma unique_sources_set:
  "set (unique_sources seen blobs) \<subseteq> set blobs"
  "bs_ref ` set (unique_sources seen blobs) = bs_ref ` set blobs - set seen"
  by (induction seen blobs rule: unique_sources.induct) auto

lemma transfer_delivers:
  assumes good: "\<And>i. stores_blobs codec (envs i)" and src: "list_all (source_ok codec files) blobs"
    and limit: "0 < max_payload_bytes limits" and s: "peer_ok (tf_peer s)" "tf_inbox s = []"
    and zero: "\<And>b. received (agent_receiver (tf_peer s)) b = 0"
  obtains p' stats where "send_blobs (agent_answer rest envs climit) files limits blobs s
      = (Inr (), s\<lparr>tf_peer := p', tf_stats := stats\<rparr>)"
    "\<And>d. holds codec (peer_cas (tf_peer s)) d \<Longrightarrow> holds codec (peer_cas p') d"
    "\<And>blob. blob \<in> set blobs \<Longrightarrow> present (peer_cas p') (br_blake3 (bs_ref blob))"
    "\<And>blob. blob \<in> set blobs \<Longrightarrow> \<not> present (peer_cas (tf_peer s)) (br_blake3 (bs_ref blob)) \<Longrightarrow>
       holds codec (peer_cas p') (br_blake3 (bs_ref blob))"
proof -
  let ?peer = "agent_answer rest envs climit" and ?unique = "unique_sources [] blobs" and ?p = "tf_peer s"
  let ?query = "List.map bs_ref ?unique"
  let ?missing = "filter (\<lambda>b. \<not> present (peer_cas ?p) (br_blake3 b)) ?query"
  have src': "list_all (source_ok codec files) ?unique" using src unique_sources_set(1)[of "[]" blobs] by (auto simp: list_all_iff)
  then have refs: "list_all ref_ok ?query" by (simp add: list_all_iff source_ok_def)
  obtain p1 where ask1: "ask_blobs ?peer ?query s = (Inr ?missing, s\<lparr>tf_peer := p1\<rparr>)"
    and p1: "moved codec {} ?p p1" "cs_blobs (peer_cas p1) = cs_blobs (peer_cas ?p)"
    using ask_blobs_present[where envs = envs and rest = rest and climit = climit, OF good refs s] by blast
  define s1 where "s1 = s\<lparr>tf_peer := p1, tf_stats := (tf_stats s)\<lparr>xs_already_present := xs_already_present (tf_stats s)
     + of_nat (length ?unique) - of_nat (length (remdups ?missing))\<rparr>\<rparr>"
  have s1: "tf_peer s1 = p1" "tf_inbox s1 = []" using s(2) by (simp_all add: s1_def)
  have ok1: "peer_ok (tf_peer s1)" "\<forall>blob \<in> set ?unique. received (agent_receiver (tf_peer s1)) (bs_ref blob) = 0"
    using p1(1) zero unfolding s1(1) by (simp_all add: moved_def)
  obtain p2 stats where sent: "send_wanted ?peer files (max_payload_bytes limits) ?missing ?unique s1
      = (Inr (), s1\<lparr>tf_peer := p2, tf_stats := stats\<rparr>)"
    and p2: "moved codec (bs_ref ` set ?unique) p1 p2"
      "\<forall>blob \<in> set ?unique. bs_ref blob \<in> set ?missing \<longrightarrow> holds codec (peer_cas p2) (br_blake3 (bs_ref blob))"
    using send_wanted_delivers[where envs = envs and rest = rest and climit = climit, OF good limit src' ok1, of ?missing]
    unfolding s1(1) by blast
  have start: "send_blobs ?peer files limits blobs s = (if ?missing = [] then (Inr (), s1\<lparr>tf_peer := p2, tf_stats := stats\<rparr>)
      else then_do (ask_blobs ?peer ?query) (\<lambda>still_missing.
             give (if still_missing \<noteq> [] then Inl (WorkerFault wk_verification) else Inr ())) (s1\<lparr>tf_peer := p2, tf_stats := stats\<rparr>))"
    using ask1 sent by (simp add: send_blobs_def Let_def then_do_def update_stats_def s1_def give_def)
  have has: "present (peer_cas p2) (br_blake3 b)" if "b \<in> set ?query" for b
  proof (cases "present (peer_cas ?p) (br_blake3 b)")
    case True
    then show ?thesis using p1(1) p2(1) by (simp add: moved_def)
  next
    case False
    then have "b \<in> set ?missing" using that by simp
    then show ?thesis using p2(2) that holds_present by fastforce
  qed
  have got: "holds codec (peer_cas p2) (br_blake3 b)" if "b \<in> set ?query" "\<not> present (peer_cas ?p) (br_blake3 b)" for b
    using p2(2) that by fastforce
  have query: "bs_ref blob \<in> set ?query" if "blob \<in> set blobs" for blob
    using that unique_sources_set(2)[of "[]" blobs] by auto
  have kept: "holds codec (peer_cas p2) d" if "holds codec (peer_cas ?p) d" for d
    using that p1(1) p2(1) by (simp add: moved_def)
  show thesis
  proof (cases "?missing = []")
    case True
    then have "send_blobs ?peer files limits blobs s = (Inr (), s\<lparr>tf_peer := p2, tf_stats := stats\<rparr>)"
      unfolding start by (simp add: s1_def)
    then show thesis by (rule that) (use kept has got query in blast)+
  next
    case False
    let ?s2 = "s1\<lparr>tf_peer := p2, tf_stats := stats\<rparr>"
    have s2: "peer_ok (tf_peer ?s2)" "tf_inbox ?s2 = []" using moved_ok[OF p2(1)] s1(2) by simp_all
    obtain p3 where ask2: "ask_blobs ?peer ?query ?s2
        = (Inr (filter (\<lambda>b. \<not> present (peer_cas p2) (br_blake3 b)) ?query), ?s2\<lparr>tf_peer := p3\<rparr>)"
      and p3: "moved codec {} p2 p3"
      using ask_blobs_present[where envs = envs and rest = rest and climit = climit, OF good refs s2] by auto
    have none: "filter (\<lambda>b. \<not> present (peer_cas p2) (br_blake3 b)) ?query = []"
      using has by (simp add: filter_empty_conv)
    have "send_blobs ?peer files limits blobs s = (Inr (), s\<lparr>tf_peer := p3, tf_stats := stats\<rparr>)"
      unfolding start if_not_P[OF False] then_do_def ask2 none by (simp add: give_def s1_def)
    then show thesis
    proof (rule that)
      show "holds codec (peer_cas p3) d" if "holds codec (peer_cas ?p) d" for d
        using kept[OF that] p3 by (simp add: moved_def)
      show "present (peer_cas p3) (br_blake3 (bs_ref blob))" if "blob \<in> set blobs" for blob
        using has[OF query[OF that]] p3 by (simp add: moved_def)
      show "holds codec (peer_cas p3) (br_blake3 (bs_ref blob))"
        if "blob \<in> set blobs" "\<not> present (peer_cas ?p) (br_blake3 (bs_ref blob))" for blob
        using got[OF query[OF that(1)] that(2)] p3 by (simp add: moved_def)
    qed
  qed
qed

text \<open>An empty blob has no chunks: nothing is sent, and the second query finds it missing.\<close>

lemma empty_blob_missing:
  assumes good: "\<And>i. stores_blobs codec (envs i)" and s: "peer_ok (tf_peer s)" "tf_inbox s = []" and d: "is_digest d"
    and lacks: "\<not> present (peer_cas (tf_peer s)) d" and file': "files path = Some content"
  shows "fst (send_blobs (agent_answer rest envs climit) files limits [\<lparr>bs_ref = BlobRef d 0, bs_file = path\<rparr>] s)
    = Inl (WorkerFault wk_verification)"
proof -
  let ?peer = "agent_answer rest envs climit" and ?ref = "BlobRef d 0" and ?p = "tf_peer s"
  have refs: "list_all ref_ok [?ref]" using d by simp
  obtain p1 where ask1: "ask_blobs ?peer [?ref] s = (Inr [?ref], s\<lparr>tf_peer := p1\<rparr>)"
    and p1: "moved codec {} ?p p1" "cs_blobs (peer_cas p1) = cs_blobs (peer_cas ?p)"
    using ask_blobs_present[where envs = envs and rest = rest and climit = climit, OF good refs s] lacks by auto
  have "chunk_frames (max_payload_bytes limits) ?ref content 0 = (None, [])" by (rule chunk_frames_end) simp
  then have start: "send_blobs ?peer files limits [\<lparr>bs_ref = ?ref, bs_file = path\<rparr>] s =
      then_do (ask_blobs ?peer [?ref]) (\<lambda>still_missing.
        give (if still_missing \<noteq> [] then Inl (WorkerFault wk_verification) else Inr ()))
      (s\<lparr>tf_peer := p1, tf_stats := (tf_stats s)\<lparr>xs_already_present := xs_already_present (tf_stats s),
           xs_blobs_sent := xs_blobs_sent (tf_stats s) + 1\<rparr>\<rparr>)"
    using ask1 file' by (simp add: send_blobs_def send_source_def Let_def then_do_def update_stats_def give_def)
  have s1: "peer_ok p1" using moved_ok[OF p1(1)] .
  have lacks1: "\<not> present (peer_cas p1) d" using lacks p1(2) by (simp add: present_def)
  let ?s1 = "s\<lparr>tf_peer := p1, tf_stats := (tf_stats s)\<lparr>xs_already_present := xs_already_present (tf_stats s),
           xs_blobs_sent := xs_blobs_sent (tf_stats s) + 1\<rparr>\<rparr>"
  have ok1: "peer_ok (tf_peer ?s1)" "tf_inbox ?s1 = []" using s1 s(2) by simp_all
  obtain p2 where "ask_blobs ?peer [?ref] ?s1 = (Inr [?ref], ?s1\<lparr>tf_peer := p2\<rparr>)"
    using ask_blobs_present[where envs = envs and rest = rest and climit = climit, OF good refs ok1] lacks1 by auto
  then show ?thesis unfolding start by (simp add: then_do_def give_def)
qed

end
