(* ===== verification/BlobFetch.thy ===== *)
theory BlobFetch
  imports BlobRuns
begin

text \<open>
  Fetching a blob: what any peer can make a coordinator believe, and that a worker's blob arrives. Then what a
  session may do to the pins of others, whatever frames it gets.
\<close>

subsection \<open>From any peer\<close>

lemma fetch_blob_outcome:
  assumes "fetch_blob peer env blob destination files s = (r, s')" "map_wf files"
  obtains files' outcome where "r = Inr (outcome, files')"
    "\<And>name. name \<noteq> destination \<Longrightarrow> name \<noteq> fetch_partial destination \<Longrightarrow> map_of files' name = map_of files name"
    "\<And>e. outcome = Inl e \<Longrightarrow> map_of files' destination = map_of files destination"
    "outcome = Inr () \<Longrightarrow> \<exists>content. map_of files' destination = Some content
       \<and> length content = unat (br_bytes blob) \<and> fe_blake3 env content = br_blake3 blob"
proof -
  have apart: "destination \<noteq> fetch_partial destination" by (simp add: fetch_partial_def)
  have wf: "map_wf (map_erase (fetch_partial destination) files)" using assms(2) by simp
  obtain outcome files' where r: "r = Inr (outcome, files')"
    and f: "files' = files \<or> files' = map_erase (fetch_partial destination) files
       \<or> (\<exists>content. outcome = Inr () \<and> files' = map_assign destination content (map_erase (fetch_partial destination) files)
            \<and> length content = unat (br_bytes blob) \<and> fe_blake3 env content = br_blake3 blob)"
    and ok: "outcome = Inr () \<Longrightarrow> \<exists>content. files' = map_assign destination content (map_erase (fetch_partial destination) files)
            \<and> length content = unat (br_bytes blob) \<and> fe_blake3 env content = br_blake3 blob"
    using assms(1)
    by (auto simp: fetch_blob_def blake3_hex_eq_iff Let_def split: prod.splits sum.splits list.splits option.splits if_splits)
  show thesis
  proof (rule that[OF r])
    show "map_of files' name = map_of files name" if "name \<noteq> destination" "name \<noteq> fetch_partial destination" for name
      using f that wf by auto
    show "map_of files' destination = map_of files destination" if "outcome = Inl e" for e
      using f that apart by auto
    show "\<exists>content. map_of files' destination = Some content
       \<and> length content = unat (br_bytes blob) \<and> fe_blake3 env content = br_blake3 blob" if "outcome = Inr ()"
      using ok[OF that] wf by auto
  qed
qed

subsection \<open>From a worker\<close>

lemma receive_chunks_all:
  assumes ref: "ref_ok blob" and content: "length content = unat (br_bytes blob)" and limit: "0 < limit"
    and env: "fe_unwritten env = (\<lambda>_. False)"
  shows "unat offset \<le> length content \<Longrightarrow> fst (chunk_frames limit blob content offset) = None
    \<and> receive_chunks env blob offset writes (take (unat offset) content) (List.map Inr (snd (chunk_frames limit blob content offset)))
      = (Inr content, [])"
proof (induction "length content - unat offset" arbitrary: offset writes rule: less_induct)
  case less
  show ?case
  proof (cases "offset < br_bytes blob")
    case False
    then have "unat offset = length content" using less.prems content by (simp add: word_less_nat_alt)
    then show ?thesis using chunk_frames_end[OF False] False by simp
  next
    case True
    let ?step = "min limit (br_bytes blob - offset)"
    let ?tail = "chunk_frames limit blob content (offset + ?step)"
    let ?chunk = "take (unat ?step) (drop (unat offset) content)"
    obtain f where f: "make_blob_chunk_frame \<lparr>bc_blob = blob, bc_offset = offset\<rparr> ?chunk = Inr f"
      and frames: "chunk_frames limit blob content offset = (fst ?tail, f # snd ?tail)"
      and add: "unat (offset + ?step) = unat offset + unat ?step" and step: "0 < unat ?step" "unat offset + unat ?step \<le> length content"
      and len: "length ?chunk = unat ?step"
      using chunk_frames_step[OF content limit True] by metis
    have frame: "blob_put_from_frame f = Inr (PutChunk \<lparr>bc_blob = blob, bc_offset = offset\<rparr>)" "fr_type f = msg_blob_put"
      "fr_payloads f = [?chunk]"
      using chunk_frame_reads[OF f] ref by simp_all
    have so_far: "take (unat offset) content @ ?chunk = take (unat (offset + ?step)) content"
      unfolding add by (simp add: take_add)
    have word: "(of_nat (length ?chunk) :: u64) = ?step" unfolding len by simp
    have more: "receive_chunks env blob offset writes (take (unat offset) content) (List.map Inr (snd (chunk_frames limit blob content offset)))
        = receive_chunks env blob (offset + of_nat (length ?chunk)) (Suc writes) (take (unat offset) content @ ?chunk) (List.map Inr (snd ?tail))"
      unfolding frames using True frame env by simp
    have "length content - unat (offset + ?step) < length content - unat offset" "unat (offset + ?step) \<le> length content"
      using add step by simp_all
    note tail = less.hyps[of "offset + ?step" "Suc writes", OF this]
    have "receive_chunks env blob offset writes (take (unat offset) content) (List.map Inr (snd (chunk_frames limit blob content offset)))
        = (Inr content, [])"
      unfolding more unfolding word so_far using tail by blast
    moreover have "fst (chunk_frames limit blob content offset) = None" unfolding frames using tail by simp
    ultimately show ?thesis by blast
  qed
qed

text \<open>A disk that keeps what the coordinator writes.\<close>

definition fetches :: "json_codec \<Rightarrow> fetch_env \<Rightarrow> bool" where
  "fetches codec env \<longleftrightarrow> \<not> fe_unopened env \<and> fe_unwritten env = (\<lambda>_. False) \<and> fe_read_back env = Some
     \<and> \<not> fe_unrenamed env \<and> fe_blake3 env = jc_blake3 codec"

lemma fetch_delivers:
  assumes good: "\<And>i. stores_blobs codec (envs i)" and s: "peer_ok (tf_peer s)" "tf_inbox s = []" and ref: "ref_ok blob"
    and stored: "map_of (cs_blobs (peer_cas (tf_peer s))) (blake3_hex (br_blake3 blob)) = Some (RegularFile content)"
    and content: "length content = unat (br_bytes blob)" "jc_blake3 codec content = br_blake3 blob"
    and limit: "0 < climit" and env: "fetches codec env"
  shows "fst (fetch_blob (agent_answer rest envs climit) env blob destination files s)
    = Inr (Inr (), map_assign destination content (map_erase (fetch_partial destination) files))"
proof -
  let ?peer = "agent_answer rest envs climit" and ?p = "tf_peer s" and ?env = "te_cache (envs (ap_frames (tf_peer s)))"
  let ?a1 = "agent_hold ?env (br_blake3 blob) (ap_agent ?p)"
  have disk: "je_codec (ce_disk ?env) = codec" "je_unreadable (ce_disk ?env) = (\<lambda>_. False)" "ce_unstatable ?env = (\<lambda>_. False)"
    using good[of "ap_frames ?p"] by (simp_all add: stores_blobs_def)
  have ok: "\<not> ap_ended ?p" "cas_ok (peer_cas ?p)" using s(1) by (simp_all add: peer_ok_def)
  have "cs_blobs (at_cas ?a1) = cs_blobs (peer_cas ?p)"
    using agent_pin_keeps(1)[OF ref ok(2), of ?env] by (auto simp: agent_pin_def Let_def split: if_splits)
  then have held: "map_of (cs_blobs (at_cas ?a1)) (blake3_hex (br_blake3 blob)) = Some (RegularFile content)" using stored by simp
  have has: "cas_has ?env (br_blake3 blob) (at_cas ?a1)" using held disk by (simp add: cas_has_def regular_content_def)
  have verify: "cas_verify ?env (br_blake3 blob) (at_cas ?a1) = (Inr (), at_cas ?a1)"
    using held disk content(2) by (simp add: cas_verify_def check_blob_def)
  have regular: "regular_content ?env (blake3_hex (br_blake3 blob)) (at_cas ?a1) = Some content"
    using held disk by (simp add: regular_content_def)
  obtain c where opened: "cas_open ?env (br_blake3 blob) (at_cas ?a1) = (Inr content, c)"
    using verify regular by (simp add: cas_open_def)
  have unwritten: "fe_unwritten env = (\<lambda>_. False)" using env by (simp add: fetches_def)
  have zero: "unat (0 :: u64) \<le> length content" by simp
  have received: "fst (chunk_frames climit blob content 0) = None"
    "receive_chunks env blob 0 0 [] (List.map Inr (snd (chunk_frames climit blob content 0))) = (Inr content, [])"
    using receive_chunks_all[OF ref content(1) limit unwritten zero, of 0] by simp_all
  let ?frames = "snd (chunk_frames climit blob content 0)"
  let ?p' = "?p\<lparr>ap_agent := ?a1\<lparr>at_cas := c\<rparr>, ap_frames := ap_frames ?p + 1\<rparr>"
  have types: "fr_type (make_blob_get_frame blob) = msg_blob_get" "fr_type (make_blob_answer_frame []) = msg_blob_have"
    by (simp_all add: make_blob_get_frame_def make_blob_answer_frame_def plain_frame_def)
  have "?peer (make_blob_get_frame blob) ?p = (List.map Inr (make_blob_answer_frame [] # ?frames), ?p')"
    using ok(1) types(1) has opened received(1) other_frames_read(3)[OF ref]
    by (simp add: agent_answer_def agent_handle_def agent_send_blob_def case_prod_unfold Let_def)
  then have ask: "session_ask ?peer (make_blob_get_frame blob) msg_blob_have blob_answer_from_frame s
      = (Inr [], s\<lparr>tf_peer := ?p', tf_inbox := List.map Inr ?frames\<rparr>)"
    using s(2) types(2) blob_answer_reads[of "[]"]
    by (simp add: session_ask_def then_do_def session_write_def session_expect_def give_def as_session_fault_def)
  show ?thesis
    using env received(2) content unfolding fetch_blob_def ask
    by (simp add: fetches_def Let_def)
qed

end
