(* ===== verification/BlobSession.thy ===== *)
theory BlobSession
  imports BlobFetch
begin

text \<open>
  What a session may do to the cache, whatever frames it gets: the pins of every live holder stay, and what they
  protect stays stored.
\<close>

definition safe :: "json_codec \<Rightarrow> cas \<Rightarrow> cas \<Rightarrow> bool" where
  "safe codec s s' \<longleftrightarrow> cas_ok s' \<and> (\<forall>h d. pins s h d \<longrightarrow> pins s' h d \<and> (holds codec s d \<longrightarrow> holds codec s' d))"

lemma safe_refl: "cas_ok s \<Longrightarrow> safe codec s s"
  by (simp add: safe_def)

lemma safe_trans: "safe codec s s' \<Longrightarrow> safe codec s' s'' \<Longrightarrow> safe codec s s''"
  unfolding safe_def by blast

lemma safe_ok: "safe codec s s' \<Longrightarrow> cas_ok s'"
  by (simp add: safe_def)

lemma keeps_pinned_safe: "keeps_pinned codec s s' \<Longrightarrow> safe codec s s'"
  using pins_same[of s' s] by (auto simp: keeps_pinned_def safe_def)

lemma keeps_blobs_safe: "keeps_blobs codec {} s s' \<Longrightarrow> cas_ok s \<Longrightarrow> safe codec s s'"
  by (rule keeps_pinned_safe[OF blob_step_keeps])

lemma pin_step_safe:
  assumes "pin_step s s'" "\<And>h. map_of (cs_sets s) h \<noteq> None \<Longrightarrow> map_of (cs_sets s') h \<noteq> None"
  shows "safe codec s s'"
proof -
  have "holds codec s' = holds codec s" using assms(1) by (intro holds_same) (simp add: pin_step_def)
  then show ?thesis using assms by (auto simp: safe_def pin_step_def pins_def)
qed

lemma pin_set_safe: "cas_ok s \<Longrightarrow> safe codec s (snd (cas_pin_set env h s))"
  by (rule pin_step_safe[OF pin_set_step]) (auto simp: cas_pin_set_def cas_ok_def pins_ok_def)

lemma pin_add_safe: "cas_ok s \<Longrightarrow> is_digest d \<Longrightarrow> safe codec s (snd (pin_add env h d s))"
  by (rule pin_step_safe[OF pin_add_step]) (auto simp: pin_add_def Let_def cas_ok_def pins_ok_def split: option.splits)

subsection \<open>Frames\<close>

lemma agent_pin_safe:
  assumes "is_digest d" "cas_ok (at_cas a)"
  shows "safe codec (at_cas a) (at_cas (agent_hold env d a))" "safe codec (at_cas a) (at_cas (agent_pin env d a))"
proof -
  obtain r s where set: "cas_pin_set env (agent_holder a) (at_cas a) = (r, s)" by fastforce
  have s: "safe codec (at_cas a) s" using pin_set_safe[OF assms(2), of codec env "agent_holder a"] set by simp
  have add: "safe codec s (snd (pin_add env h d s))" for h by (rule pin_add_safe[OF safe_ok[OF s] assms(1)])
  have now: "safe codec (at_cas a) (snd (pin_add env h d (at_cas a)))" for h by (rule pin_add_safe[OF assms(2,1)])
  show hold: "safe codec (at_cas a) (at_cas (agent_hold env d a))"
    using set s safe_trans[OF s add] now safe_refl[OF assms(2)]
    by (cases r) (auto simp: agent_hold_def Let_def)
  then show "safe codec (at_cas a) (at_cas (agent_pin env d a))" by (simp add: agent_pin_def Let_def)
qed

lemma declare_blobs_safe:
  "list_all ref_ok blobs \<Longrightarrow> cas_ok (at_cas a) \<Longrightarrow> safe codec (at_cas a) (at_cas (snd (declare_blobs env blobs a)))"
proof (induction blobs arbitrary: a)
  case (Cons blob blobs)
  let ?a1 = "agent_pin env (br_blake3 blob) a"
  let ?a2 = "?a1\<lparr>at_cas := cas_refresh env (br_blake3 blob) (at_cas ?a1)\<rparr>"
  have ref: "ref_ok blob" "list_all ref_ok blobs" using Cons.prems(1) by simp_all
  have a1: "safe codec (at_cas a) (at_cas ?a1)" by (rule agent_pin_safe(2)[OF ref(1) Cons.prems(2)])
  have "safe codec (at_cas ?a1) (at_cas ?a2)" using keeps_blobs_safe[OF touch_keeps safe_ok[OF a1]] by (simp add: cas_refresh_def)
  then have a2: "safe codec (at_cas a) (at_cas ?a2)" by (rule safe_trans[OF a1])
  have "safe codec (at_cas a) (at_cas (snd (declare_blobs env blobs ?a1)))"
    using safe_trans[OF a1 Cons.IH[OF ref(2) safe_ok[OF a1]]] .
  moreover have "safe codec (at_cas a) (at_cas (snd (declare_blobs env blobs ?a2)))"
    using safe_trans[OF a2 Cons.IH[OF ref(2) safe_ok[OF a2]]] .
  ultimately show ?case by (simp add: Let_def case_prod_unfold)
qed (simp add: safe_refl)

lemma sweep_safe:
  "cas_ok s \<Longrightarrow> safe codec s (snd (snd (sweep_each (remove_unpinned env) candidates sweep rb s)))"
proof (induction candidates arbitrary: sweep rb s)
  case (Cons c candidates)
  obtain d stamp where c: "c = (d, stamp)" by fastforce
  have removed: "safe codec s (snd (remove_unpinned env d s))" by (rule keeps_pinned_safe[OF remove_unpinned_keeps[OF Cons.prems]])
  then have "safe codec s (snd (snd (sweep_each (remove_unpinned env) candidates sweep' rb' (snd (remove_unpinned env d s)))))"
    for sweep' rb' using safe_trans[OF removed Cons.IH[OF safe_ok[OF removed]]] by blast
  then show ?case by (cases "remove_unpinned env d s") (auto simp: c split: sum.splits blob_removal.splits)
qed (simp add: safe_refl)

lemma put_chunk_safe:
  assumes "cas_ok s" "je_codec (ce_disk (te_cache env)) = codec"
  shows "safe codec s (snd (snd (put_chunk env chunk bytes r s)))"
proof -
  have "je_codec (ce_disk (reads_file (te_cache env) files)) = codec" for files using assms(2) by (simp add: reads_file_def)
  then have put: "safe codec s (snd (cas_put_file (reads_file (te_cache env) files) name s))" for files name
    using keeps_blobs_safe[OF cas_put_file_keeps[of "reads_file (te_cache env) files"] assms(1)] by simp
  have "safe codec s (snd (snd (complete_blob env blob content r1 s)))" for blob content r1
    using put[of "re_files r1" "partial_name blob"] safe_refl[OF assms(1)]
    by (cases "cas_put_file (reads_file (te_cache env) (re_files r1)) (partial_name blob) s")
      (auto simp: complete_blob_def Let_def split: sum.splits)
  then show ?thesis using safe_refl[OF assms(1)] by (auto simp: put_chunk_def Let_def split: option.splits)
qed

lemma agent_send_safe:
  assumes "cas_ok (at_cas a)" "ref_ok blob" "je_codec (ce_disk env) = codec"
  shows "safe codec (at_cas a) (at_cas (snd (agent_send_blob env limit blob a)))"
proof -
  let ?a1 = "agent_hold env (br_blake3 blob) a"
  have a1: "safe codec (at_cas a) (at_cas ?a1)" by (rule agent_pin_safe(1)[OF assms(2,1)])
  have "safe codec (at_cas ?a1) (snd (cas_open env (br_blake3 blob) (at_cas ?a1)))"
    using keeps_blobs_safe[OF cas_open_keeps[of env] safe_ok[OF a1]] assms(3) by simp
  then have "safe codec (at_cas a) (snd (cas_open env (br_blake3 blob) (at_cas ?a1)))" by (rule safe_trans[OF a1])
  then show ?thesis using a1
    by (cases "cas_open env (br_blake3 blob) (at_cas ?a1)") (auto simp: agent_send_blob_def Let_def case_prod_unfold split: sum.splits)
qed

text \<open>Every reference that is read has a digest.\<close>

lemma blob_ref_from_json_ok: "blob_ref_from_json v = Inr blob \<Longrightarrow> ref_ok blob"
  by (auto simp: blob_ref_from_json_def required_blake3_hex_def and_then_Inr_iff parse_blake3_hex_Some split: option.splits)

lemma blob_refs_from_json_ok: "blob_refs_from_json body name = Inr blobs \<Longrightarrow> list_all ref_ok blobs"
  using blob_ref_from_json_ok each_or_error_mem[of blob_ref_from_json]
  by (fastforce simp: blob_refs_from_json_def and_then_Inr_iff list_all_iff)

lemma queried_refs_ok: "blob_have_query_from_frame f = Inr (BlobQuery blobs) \<Longrightarrow> list_all ref_ok blobs"
  using blob_refs_from_json_ok by (auto simp: blob_have_query_from_frame_def and_then_Inr_iff split: if_splits)

lemma fetched_ref_ok: "blob_get_from_frame f = Inr blob \<Longrightarrow> ref_ok blob"
  using blob_ref_from_json_ok by (auto simp: blob_get_from_frame_def and_then_Inr_iff)

text \<open>One frame, and any sequence of them.\<close>

definition rest_safe :: "json_codec \<Rightarrow> (frame \<Rightarrow> agent_transfer \<Rightarrow> (session_fault option \<times> frame list) \<times> agent_transfer) \<Rightarrow> bool" where
  "rest_safe codec rest \<longleftrightarrow> (\<forall>f a. cas_ok (at_cas a) \<longrightarrow> safe codec (at_cas a) (at_cas (snd (rest f a))))"

lemma agent_handle_safe:
  assumes "cas_ok (at_cas a)" "je_codec (ce_disk (te_cache env)) = codec" "rest_safe codec rest"
  shows "safe codec (at_cas a) (at_cas (snd (agent_handle rest env climit f a)))"
proof -
  have same: "safe codec (at_cas a) (at_cas a)" by (rule safe_refl[OF assms(1)])
  have other: "safe codec (at_cas a) (at_cas (snd (rest f a)))" using assms(1,3) by (simp add: rest_safe_def)
  have chunk: "safe codec (at_cas a) (at_cas (snd (agent_put_chunk env chunk bytes a)))" for chunk bytes
    using put_chunk_safe[OF assms(1,2), of chunk bytes] by (simp add: agent_put_chunk_def case_prod_unfold Let_def)
  have release: "safe codec (at_cas a) (at_cas (agent_release_blobs env' blobs a))" for env' blobs
    using sweep_safe[OF assms(1), of codec env'] by (simp add: agent_release_blobs_def released_sweep_def case_prod_unfold Let_def)
  have declare_: "safe codec (at_cas a) (at_cas (snd (declare_blobs env' blobs a)))"
    if "blob_have_query_from_frame f = Inr (BlobQuery blobs)" for env' blobs
    by (rule declare_blobs_safe[OF queried_refs_ok[OF that] assms(1)])
  have send: "safe codec (at_cas a) (at_cas (snd (agent_send_blob (te_cache env) climit blob a)))"
    if "blob_get_from_frame f = Inr blob" for blob
    by (rule agent_send_safe[OF assms(1) fetched_ref_ok[OF that] assms(2)])
  show ?thesis
    using same other chunk release declare_ send
    by (simp add: agent_handle_def case_prod_unfold Let_def split: message_type.splits sum.splits blob_have_query.splits blob_put.splits)
qed

lemma session_safe:
  assumes "\<And>i. je_codec (ce_disk (te_cache (envs i))) = codec" "rest_safe codec rest"
  shows "cas_ok (peer_cas p) \<Longrightarrow>
    safe codec (peer_cas p) (peer_cas (fold (\<lambda>f p. snd (agent_answer rest envs climit f p)) frames p))"
proof (induction frames arbitrary: p)
  case (Cons f frames)
  have "safe codec (peer_cas p) (peer_cas (snd (agent_answer rest envs climit f p)))"
    using agent_handle_safe[OF Cons.prems assms, of "ap_frames p"] safe_refl[OF Cons.prems]
    by (auto simp: agent_answer_def case_prod_unfold Let_def split: option.splits)
  then show ?case using safe_trans Cons.IH[OF safe_ok] by fastforce
qed (simp add: safe_refl)

end
