(* ===== verification/BlobProps.thy ===== *)
theory BlobProps
  imports BlobSession CacheProps
begin

text \<open>
  The properties of a transfer of blobs, each with a witness: a coordinator with one file of three bytes, a
  worker with an empty store, frames of at most two bytes.
\<close>

subsection \<open>A coordinator and a worker\<close>

definition sample_transfer_env :: "nat \<Rightarrow> transfer_env" where
  "sample_transfer_env i = \<lparr>te_cache = sample_cache_env (int i), te_short_write = None\<rparr>"

definition no_rest :: "frame \<Rightarrow> agent_transfer \<Rightarrow> (session_fault option \<times> frame list) \<times> agent_transfer" where
  "no_rest f a = ((Some (WorkerFault wk_protocol), []), a)"

definition sample_peer :: "cas \<Rightarrow> agent_peer" where
  "sample_peer s = \<lparr>ap_agent = \<lparr>at_session = ''w'', at_named_coordinator = True, at_coordinator = ''c'', at_pins = False,
     at_pins_failed = False, at_receiver = None, at_released = no_released, at_cas = s\<rparr>, ap_ended = False, ap_frames = 0\<rparr>"

definition sample_transfer :: "cas \<Rightarrow> agent_peer transfer_session" where
  "sample_transfer s = \<lparr>tf_peer = sample_peer s, tf_inbox = [], tf_stats = \<lparr>xs_blobs_sent = 0, xs_bytes_sent = 0,
     xs_already_present = 0, xs_runtime_pushed = False, xs_bundles_pushed = []\<rparr>\<rparr>"

definition sample_sources :: "blob_source list" where
  "sample_sources = [\<lparr>bs_ref = BlobRef (digest_of [1, 2, 3]) 3, bs_file = ''f''\<rparr>]"

definition sample_files :: "string \<Rightarrow> byte list option" where
  "sample_files path = (if path = ''f'' then Some [1, 2, 3] else if path = ''e'' then Some [] else None)"

definition two_byte_frames :: frame_limits where
  "two_byte_frames = default_frame_limits\<lparr>max_payload_bytes := 2\<rparr>"

definition sample_store :: cas where
  "sample_store = empty_cas \<lparr>cp_max_bytes = 100, cp_stale_pending_age = 10\<rparr>"

lemma sample_stores: "stores_blobs (sample_codec JNull) (sample_transfer_env i)"
  by (simp add: stores_blobs_def sample_transfer_env_def sample_cache_env_def sample_disk_def)

lemma sample_peer_ok: "cas_ok s \<Longrightarrow> peer_ok (tf_peer (sample_transfer s))"
  by (simp add: peer_ok_def sample_transfer_def sample_peer_def agent_receiver_def receiver_ok_def new_receiver_def)

lemma sample_received: "received (agent_receiver (tf_peer (sample_transfer s))) b = 0"
  by (simp add: sample_transfer_def sample_peer_def agent_receiver_def new_receiver_def received_def)

lemma sample_store_ok: "cas_ok sample_store"
  unfolding sample_store_def by (rule reachable_ok) (rule rtranclp.rtrancl_refl)

lemma sample_sources_ok: "list_all (source_ok (sample_codec JNull) sample_files) sample_sources"
  by (simp add: sample_sources_def source_ok_def sample_files_def sample_codec_def sample_digest)

subsection \<open>Properties\<close>



text \<open>C35: Blobs that are sent arrive: against a worker in any state of its store, sources whose files are not
  empty and are what their references say end the call without an exception; the worker then has every
  blob, has the right bytes of each it lacked, and lost none it held. Assumed: the worker's disk fails at
  nothing, and it has no part of a blob from before.\<close>

theorem sent_blobs_arrive:
  assumes "\<And>i. stores_blobs codec (envs i)" and "list_all (source_ok codec files) blobs"
    and "0 < max_payload_bytes limits" and "peer_ok (tf_peer s)" and "tf_inbox s = []"
    and "\<And>b. received (agent_receiver (tf_peer s)) b = 0"
  shows "\<exists>p' stats. send_blobs (agent_answer rest envs climit) files limits blobs s = (Inr (), s\<lparr>tf_peer := p', tf_stats := stats\<rparr>)
    \<and> (\<forall>d. holds codec (peer_cas (tf_peer s)) d \<longrightarrow> holds codec (peer_cas p') d)
    \<and> list_all (\<lambda>blob. present (peer_cas p') (br_blake3 (bs_ref blob))) blobs
    \<and> list_all (\<lambda>blob. present (peer_cas (tf_peer s)) (br_blake3 (bs_ref blob))
         \<or> holds codec (peer_cas p') (br_blake3 (bs_ref blob))) blobs"
proof (rule transfer_delivers[where envs = envs and rest = rest and climit = climit, OF assms])
  fix p' stats
  assume sent: "send_blobs (agent_answer rest envs climit) files limits blobs s = (Inr (), s\<lparr>tf_peer := p', tf_stats := stats\<rparr>)"
    and kept: "\<And>d. holds codec (peer_cas (tf_peer s)) d \<Longrightarrow> holds codec (peer_cas p') d"
    and there: "\<And>blob. blob \<in> set blobs \<Longrightarrow> present (peer_cas p') (br_blake3 (bs_ref blob))"
    and got: "\<And>blob. blob \<in> set blobs \<Longrightarrow> \<not> present (peer_cas (tf_peer s)) (br_blake3 (bs_ref blob)) \<Longrightarrow>
         holds codec (peer_cas p') (br_blake3 (bs_ref blob))"
  have either: "present (peer_cas (tf_peer s)) (br_blake3 (bs_ref blob)) \<or> holds codec (peer_cas p') (br_blake3 (bs_ref blob))"
    if "blob \<in> set blobs" for blob using got[OF that] by blast
  show ?thesis
    by (rule exI[of _ p'], rule exI[of _ stats], unfold list_all_iff) (intro conjI allI ballI impI sent kept there either)
qed

lemma sent_blobs_arrive_witness:
  "\<exists>p' stats. send_blobs (agent_answer no_rest sample_transfer_env 2) sample_files two_byte_frames sample_sources
       (sample_transfer sample_store) = (Inr (), (sample_transfer sample_store)\<lparr>tf_peer := p', tf_stats := stats\<rparr>)
     \<and> holds (sample_codec JNull) (peer_cas p') (digest_of [1, 2, 3])"
proof -
  have "\<not> present (peer_cas (tf_peer (sample_transfer sample_store))) (digest_of [1, 2, 3])" by code_simp
  moreover have limit: "0 < max_payload_bytes two_byte_frames" by (simp add: two_byte_frames_def default_frame_limits_def)
  moreover have "tf_inbox (sample_transfer sample_store) = []" by (simp add: sample_transfer_def)
  ultimately show ?thesis
    using sent_blobs_arrive[where rest = no_rest and climit = 2 and envs = sample_transfer_env, OF sample_stores sample_sources_ok limit
        sample_peer_ok[OF sample_store_ok] _ sample_received]
    by (auto simp: sample_sources_def)
qed

text \<open>C40: An empty file cannot be transferred: a blob of no bytes has no chunk, so a worker that lacks it never
  receives it, and the call that sends it fails as if the worker had lost it, though nothing went wrong.\<close>

theorem empty_blob_never_arrives:
  assumes "\<And>i. stores_blobs codec (envs i)" and "peer_ok (tf_peer s)" and "tf_inbox s = []" and "is_digest d"
    and "\<not> present (peer_cas (tf_peer s)) d" and "files path = Some content"
  shows "fst (send_blobs (agent_answer rest envs climit) files limits [\<lparr>bs_ref = BlobRef d 0, bs_file = path\<rparr>] s)
    = Inl (WorkerFault wk_verification)"
  by (rule empty_blob_missing[where envs = envs and s = s and d = d and files = files and path = path, OF assms])

lemma empty_blob_never_arrives_witness:
  "fst (send_blobs (agent_answer no_rest sample_transfer_env 2) sample_files two_byte_frames
      [\<lparr>bs_ref = BlobRef (digest_of []) 0, bs_file = ''e''\<rparr>] (sample_transfer sample_store)) = Inl (WorkerFault wk_verification)"
proof -
  have lacks: "\<not> present (peer_cas (tf_peer (sample_transfer sample_store))) (digest_of [])" by code_simp
  have inbox: "tf_inbox (sample_transfer sample_store) = []" by (simp add: sample_transfer_def)
  have empty: "sample_files ''e'' = Some []" by (simp add: sample_files_def)
  show ?thesis
    by (rule empty_blob_never_arrives[where envs = sample_transfer_env and d = "digest_of []" and files = sample_files and path = "''e''"
        and s = "sample_transfer sample_store", OF sample_stores sample_peer_ok[OF sample_store_ok] inbox sample_digest lacks empty])
qed

text \<open>C37: A fetched blob is verified, whatever the peer sends and whatever the disk does: when the call returns, the
  destination has a content of the blob's length and digest; when it throws, the destination is as it was.
  No other file changes but the partial one.\<close>

theorem fetched_blob_is_verified:
  assumes "fetch_blob peer env blob destination files s = (Inr (outcome, files'), s')" and "map_wf files"
  shows "(case outcome of
       Inr _ \<Rightarrow> \<exists>content. map_of files' destination = Some content
         \<and> length content = unat (br_bytes blob) \<and> fe_blake3 env content = br_blake3 blob
     | Inl _ \<Rightarrow> map_of files' destination = map_of files destination)
    \<and> (\<forall>name. name \<in> {destination, fetch_partial destination} \<or> map_of files' name = map_of files name)"
proof (rule fetch_blob_outcome[OF assms])
  fix files1 outcome1
  assume same: "Inr (outcome, files') = (Inr (outcome1, files1) :: session_fault + _)"
    and others: "\<And>name. name \<noteq> destination \<Longrightarrow> name \<noteq> fetch_partial destination \<Longrightarrow> map_of files1 name = map_of files name"
    and kept: "\<And>e. outcome1 = Inl e \<Longrightarrow> map_of files1 destination = map_of files destination"
    and got: "outcome1 = Inr () \<Longrightarrow> \<exists>content. map_of files1 destination = Some content
       \<and> length content = unat (br_bytes blob) \<and> fe_blake3 env content = br_blake3 blob"
  have eq: "outcome1 = outcome" "files1 = files'" using same by simp_all
  have "\<forall>name. name \<in> {destination, fetch_partial destination} \<or> map_of files' name = map_of files name"
    using others unfolding eq by blast
  then show ?thesis using kept got unfolding eq by (cases outcome) simp_all
qed

text \<open>A peer that answers every fetch with other bytes.\<close>

definition lying_peer :: "frame \<Rightarrow> nat \<Rightarrow> (exec_error_code + frame) list \<times> nat" where
  "lying_peer f n = ([Inr (make_blob_answer_frame []),
     (case make_blob_chunk_frame \<lparr>bc_blob = BlobRef (digest_of [1, 2]) 2, bc_offset = 0\<rparr> [7, 7] of Inl e \<Rightarrow> Inl e | Inr f \<Rightarrow> Inr f)], n)"

definition sample_fetch_env :: fetch_env where
  "sample_fetch_env = \<lparr>fe_unopened = False, fe_unwritten = (\<lambda>_. False), fe_read_back = Some, fe_unrenamed = False,
     fe_blake3 = digest_of\<rparr>"

definition lied_fetch :: "(session_fault + (session_fault + unit) \<times> (string, byte list) std_map) \<times> nat transfer_session" where
  "lied_fetch = fetch_blob lying_peer sample_fetch_env (BlobRef (digest_of [1, 2]) 2) ''out'' [(''out'', [9])]
     \<lparr>tf_peer = 0, tf_inbox = [], tf_stats = tf_stats (sample_transfer sample_store)\<rparr>"

lemma fetched_blob_is_verified_witness: "map_of [(''out'', [9 :: byte])] ''out'' = Some [9]
    \<and> (case fst lied_fetch of Inr (outcome, files) \<Rightarrow> map_of files ''out'' = Some [9] | Inl _ \<Rightarrow> False)"
proof -
  have "case fst lied_fetch of Inr (outcome, _) \<Rightarrow> outcome = Inl (WorkerFault wk_verification) | Inl _ \<Rightarrow> False" by code_simp
  then obtain files where "fst lied_fetch = Inr (Inl (WorkerFault wk_verification), files)"
    by (cases "fst lied_fetch") auto
  then have lied: "lied_fetch = (Inr (Inl (WorkerFault wk_verification), files), snd lied_fetch)" by (simp add: prod_eq_iff)
  have wf: "map_wf [(''out'', [9 :: byte])]" by (simp add: map_wf_def)
  have "map_of files ''out'' = map_of [(''out'', [9 :: byte])] ''out''"
    using fetched_blob_is_verified[OF lied[unfolded lied_fetch_def] wf] by simp
  then show ?thesis by (subst lied) simp
qed

text \<open>C38: A blob a worker holds is fetched: the coordinator's destination then has its bytes. Assumed: both disks
  fail at nothing, and the reference names the stored content.\<close>

theorem held_blob_is_fetched:
  assumes "\<And>i. stores_blobs codec (envs i)" and "peer_ok (tf_peer s)" and "tf_inbox s = []" and "ref_ok blob"
    and "map_of (cs_blobs (peer_cas (tf_peer s))) (blake3_hex (br_blake3 blob)) = Some (RegularFile content)"
    and "length content = unat (br_bytes blob)" and "jc_blake3 codec content = br_blake3 blob"
    and "0 < climit" and "fetches codec env"
  shows "fst (fetch_blob (agent_answer rest envs climit) env blob destination files s)
    = Inr (Inr (), map_assign destination content (map_erase (fetch_partial destination) files))"
  by (rule fetch_delivers[where envs = envs, OF assms])

lemma held_blob_is_fetched_witness:
  "fst (fetch_blob (agent_answer no_rest sample_transfer_env 1) sample_fetch_env (BlobRef (digest_of [1, 2]) 2) ''out'' []
      (sample_transfer two_blobs)) = Inr (Inr (), [(''out'', [1, 2])])"
proof -
  have peer: "peer_ok (tf_peer (sample_transfer two_blobs))" by (rule sample_peer_ok[OF reachable_ok[OF two_blobs_reachable]])
  have inbox: "tf_inbox (sample_transfer two_blobs) = []" by (simp add: sample_transfer_def)
  have "map_of (cs_blobs two_blobs) (blake3_hex (digest_of [1, 2])) = Some (RegularFile [1, 2])" by code_simp
  then have stored: "map_of (cs_blobs (peer_cas (tf_peer (sample_transfer two_blobs)))) (blake3_hex (br_blake3 (BlobRef (digest_of [1, 2]) 2)))
      = Some (RegularFile [1, 2])" by (simp add: sample_transfer_def sample_peer_def)
  have env: "fetches (sample_codec JNull) sample_fetch_env"
    by (simp add: fetches_def sample_fetch_env_def sample_codec_def)
  have "fst (fetch_blob (agent_answer no_rest sample_transfer_env 1) sample_fetch_env (BlobRef (digest_of [1, 2]) 2) ''out'' []
      (sample_transfer two_blobs)) = Inr (Inr (), map_assign ''out'' [1, 2] (map_erase (fetch_partial ''out'') []))"
    by (rule held_blob_is_fetched[where envs = sample_transfer_env, OF sample_stores peer inbox _ stored _ _ _ env])
      (simp_all add: sample_digest sample_codec_def)
  then show ?thesis by (simp add: map_assign_def map_modify_def map_erase_def)
qed



end
