(* ===== verification/Spec2Isabelle.thy ===== *)
theory Spec2Isabelle
  imports SchedulerExamples CoreProps FrameProps SessionProps AdmissionProps BlockProps TranscriptProps JournalProps CacheProps BlobProps
begin

text \<open>
  A model of the semantic-video package (SVP) tools, developed beside the C++ code under src/. A build cuts a
  video into tasks, runs them on executors (in process, in child processes, on other machines), commits each
  result once, and writes a package. The model is of the part that makes a build correct: the build engine
  svp-exec, the worker's admission of leases and its exchange of blobs with a coordinator, the block streams of a package (svp-blocks) and the transcript
  of a recording decoded in overlapping chunks (svp-audio).

  \<^bold>\<open>Parts and how they interact.\<close>
  \<^item> The \<^emph>\<open>records\<close> (theories \<open>Digests\<close>, \<open>Records\<close>; blake3\_digest.cpp, record\_identifiers.cpp, artifact\_ref.cpp,
    task\_spec.cpp, task\_result.cpp) are what all parts exchange; their JSON forms are in \<open>Json\<close>, \<open>TaskJson\<close>,
    \<open>TaskJsonFacts\<close> (json\_fields.cpp, canonical\_json.cpp and the same record files).
  \<^item> The \<^emph>\<open>task graph\<close> (\<open>TaskGraph\<close>, \<open>TaskGraphFacts\<close>; task\_graph.cpp) orders the tasks; \<open>ReadySet\<close>
    (ready\_set.cpp, ready\_queue.hpp) says which may run and which is offered first. The locale \<open>task_dag\<close> is the
    interface the ready set and the scheduler use of the graph.
  \<^item> The \<^emph>\<open>scheduler\<close> (\<open>Policies\<close>, \<open>Results\<close>, \<open>SchedulerState\<close>, \<open>Scheduler\<close>; lease\_policy, retry\_policy,
    scheduler\_policy, result\_verification.cpp, scheduler\_run.cpp, scheduler\_dispatch.cpp, scheduler.cpp) grants
    tasks to executors, checks what comes back and commits it to a sink. One definition stands for one member
    function of \<open>SchedulerRun\<close>; a round of the loop takes the batch of inbox events and the readings of the clock
    as inputs. \<open>SchedulerInv\<close>, \<open>SchedulerSteps\<close>, \<open>SchedulerLog\<close>, \<open>SchedulerRuns\<close> carry the invariant of a run
    and of its trace; the properties are in \<open>SchedulerProps\<close>, their runs in \<open>SchedulerExamples\<close>.
  \<^item> The \<^emph>\<open>worker protocol\<close>: \<open>Frames\<close>, \<open>FrameFacts\<close>, \<open>FrameProps\<close> (frame\_encoder.cpp, frame\_decoder.cpp,
    frame\_header.cpp, frame\_stream.cpp) for frames on a byte stream, and \<open>LeaseFrames\<close>, \<open>SessionProps\<close>
    (lease\_frames.cpp, task\_frames.cpp, worker\_session\_leases.cpp) for what a session of leases means by them.
    The session's answers are the events the scheduler reads.
  \<^item> The \<^emph>\<open>worker\<close> (\<open>Admission\<close>, \<open>AdmissionFacts\<close>, \<open>AdmissionProps\<close>; memory\_turns.cpp, admission.cpp,
    slot\_sharing.cpp, and the decision on an assigned lease in agent\_session.cpp) decides which leases run at once.
  \<^item> The \<^emph>\<open>recovery journal\<close> (\<open>Journal\<close>, \<open>JournalResume\<close>, \<open>JournalSink\<close>; recovery\_journal.cpp, journal\_tasks.cpp,
    journal\_artifact\_store.cpp, verified\_blob.cpp, journal\_resume.cpp, journal\_scheduler\_resume.cpp,
    journal\_result\_commit\_sink.cpp, journal\_committed\_results.cpp) is the sink of a real build: rows in a
    database, artifacts in files, and what a later run makes of them. \<open>JournalFacts\<close>, \<open>JournalInv\<close>,
    \<open>JournalVerify\<close>, \<open>JournalRuns\<close>, \<open>JournalSinkFacts\<close> carry the proofs, \<open>JournalSamples\<close> and \<open>JournalProps\<close> the
    witnesses and properties.
  \<^item> The \<^emph>\<open>cache\<close> (\<open>Cache\<close>, \<open>CacheAccess\<close>; cas\_store.cpp, cas\_layout.cpp, cas\_pin.cpp, cas\_eviction.cpp,
    cas\_release.cpp, cas\_task\_artifact\_access.cpp) is where a worker's tasks read inputs and put outputs.
    \<open>CacheFacts\<close>, \<open>CacheEvict\<close>, \<open>CacheRuns\<close> carry the proofs; the locale \<open>leased_store\<close> is what a client relies
    on. The properties are in \<open>CacheProps\<close>.
  \<^item> The \<^emph>\<open>transfer of blobs\<close> fills a worker's cache: its messages (\<open>TransferFrames\<close>; transfer\_messages.cpp,
    message\_fields.cpp), the worker's side (\<open>BlobTransfer\<close>; blob\_receiver.cpp, released\_blobs.cpp and the blob
    frames of agent\_session.cpp) and the coordinator's (\<open>BlobClient\<close>; coordinator\_session.cpp, blob\_source.cpp).
    A peer is a function from a frame to the frames it answers with and its next state; \<open>agent_answer\<close> is the
    worker as a peer. Answers wait in the coordinator's inbox; a read of an empty inbox finds the session closed.
    \<open>BlobFacts\<close>, \<open>BlobRuns\<close> (sending), \<open>BlobFetch\<close> (fetching) and \<open>BlobSession\<close> (what any sequence of frames does to
    the cache) carry the proofs, the properties are in \<open>BlobProps\<close>.
  \<^item> The \<^emph>\<open>block streams\<close> (\<open>BlockFormat\<close>, \<open>BlockStream\<close>, \<open>BlockFacts\<close>, \<open>BlockRuns\<close>, \<open>BlockProps\<close>; block\_writer.cpp,
    block\_stream.cpp, block\_payload.cpp) are the binary parts of a package.
  \<^item> The \<^emph>\<open>transcript\<close> (\<open>Transcript\<close>, \<open>TranscriptFacts\<close>, \<open>TranscriptProps\<close>; asr\_chunk\_planner.cpp,
    asr\_chunk\_context.cpp, asr\_chunk\_reconciliation.cpp) is a task's own work: the words of overlapping chunks
    joined at an anchor.
  \<^item> \<open>Prelude\<close> and \<open>OrderedMaps\<close> are shared: machine integers, first-error checks, and \<open>std::map\<close> as the list of
    its entries in key order. \<open>Samples\<close> has the inputs of the witnesses. \<open>CoreProps\<close> has the properties of
    the records, the graph and the policies.

  \<^bold>\<open>How state and operations correspond.\<close> A class is a record of its data members, a member function a definition
  that takes and returns the record. An exception is \<open>Inl\<close> of its code, its message is not modelled. Integers
  are 64- and 32-bit words where the code computes with them unsigned; durations are \<open>int\<close> with the
  saturations of the code written out. A database table is a map of rows by primary key; a transaction that
  throws leaves the tables as they were. A directory is a map from names to contents.

  \<^bold>\<open>What is a parameter.\<close> The JSON printer and parser of nlohmann::json and the BLAKE3
  function (record \<open>json_codec\<close>, \<open>exec_lib\<close>), Zstandard (\<open>zstd_call\<close>),
  the executors' answers and the clock (\<open>sched_env\<close>), the memory of a host, and what the disk
  does (\<open>journal_env\<close>, \<open>cache_env\<close>, \<open>transfer_env\<close>,
  \<open>fetch_env\<close>: what is read back, which writes, renames, removals or listings fail; in a session
  one for each frame), and what a worker does with the frames of a session that do not move blobs
  (\<open>rest\<close>). Hypotheses on them state what their documentation says: that parsing undoes printing,
  that the decompressor makes progress, that two contents a property names have different digests. Each is met
  by a concrete instance in a witness.

  \<^bold>\<open>What the groups of lemmas show.\<close> Of the scheduler: a task is committed at most once
  and after its dependencies, a success is complete, a waiting run is consistent, an exception is a refusal of
  the input or of an executor. Of the graph: it accepts exactly the acyclic inputs, and its critical paths are
  longest chains. Of frames and sessions: what is sent is read, however the stream is cut, and every lease is
  concluded at most once. Of admission: slots, ledger and turns agree in every interleaving, and what is
  admitted fits. Of the journal: every step, crash and resume keeps it sound, a committed result is read back
  as it was, and a resume keeps only what it verified, of a journal edited at will. Of the cache: what is
  pinned survives, eviction is least-recently-used and does no more than it must. Of transfers: messages read
  back, what is sent to a sound worker arrives, what is fetched is verified whatever the peer sends, and no
  sequence of frames takes away what a live holder pins. Of blocks: written blocks are read back, an accepted
  stream is tiled by valid blocks, parsing ends. Of the transcript: words come from the chunks, in order,
  joined at a longest common run.

  \<^bold>\<open>Bounds and fuel.\<close> No property depends on a bound on sizes. \<open>read_all\<close>
  reads frames with fuel one more than the bytes, and each frame takes at least four.
  \<open>chunk_frames\<close> ends because a chunk that is sent is not empty. The scheduler's loop takes the
  list of its rounds, so a run is any finite prefix. The clock of a run is a function of the number of
  readings. Parsing of blocks is fuelled by \<open>parse_block_stream\<close>'s argument;
  \<open>parsing_ends\<close> proves that some fuel suffices for every input. Transcript times are unbounded
  integers, and recordings are far shorter than 64-bit microseconds.

  \<^bold>\<open>Not modelled.\<close> Code whose effect is on devices, processes or networks: the SQLite wrapper, durable writes and
  file locks, child processes and executors over pipes, remote transports, discovery and pairing, service
  installation and updates. Code around third-party computation: model inference in svp-vision and svp-audio,
  FFmpeg in svp-media, model bundles in svp-models, installed runtimes. The package writers, the query layer, the validators and
  the command-line tools, which are mostly fields copied between JSON documents, CBOR and files. Locks within a
  process are not modelled: each operation under one is one step. Error messages are not modelled.
\<close>

end
